(* ===== verification/Prelude.thy ===== *)
theory Prelude
  imports Main "HOL-Library.Char_ord" "HOL-Library.List_Lexorder" "HOL-Library.Sublist"
begin

text \<open>
  Shared vocabulary of the development: results, Rust strings and the operations of
  the standard library on them, integer parsing and printing at the widths of the
  source.

  A Rust \<open>String\<close> is modelled as the list of its UTF-8 bytes (\<open>string\<close>, a list of
  8-bit \<open>char\<close>), so \<open>len\<close>, \<open>Ord\<close> and every operation on ASCII delimiters are
  exact.  A Rust \<open>char\<close> is modelled as its UTF-8 encoding (\<open>rchar\<close>); \<open>chars\<close> cuts a
  string into them, so \<open>trim\<close>, \<open>split_whitespace\<close> and \<open>chars().count()\<close> are exact on
  every valid UTF-8 string, Unicode white space included.  The Unicode case tables are
  parameters of the definitions that use them.
\<close>

named_theorems wf_intros "operations keep the well-formedness invariants"
named_theorems str_simps "equations of the string operations"

section \<open>Results\<close>

text \<open>\<open>Result<T, E>\<close> is a sum: \<open>Inl\<close> carries the error, \<open>Inr\<close> the value.\<close>

abbreviation Ok :: "'a \<Rightarrow> 'e + 'a" where
  "Ok \<equiv> Inr"

abbreviation Err :: "'e \<Rightarrow> 'e + 'a" where
  "Err \<equiv> Inl"

fun is_ok :: "'e + 'a \<Rightarrow> bool" where
  "is_ok (Inr _) = True"
| "is_ok (Inl _) = False"

lemma is_ok_iff: "is_ok r \<longleftrightarrow> (\<exists>v. r = Inr v)"
  by (cases r) auto

text \<open>The \<open>?\<close> operator, and a fallible loop that collects its results.\<close>

fun and_then :: "'e + 'a \<Rightarrow> ('a \<Rightarrow> 'e + 'b) \<Rightarrow> 'e + 'b" where
  "and_then (Inl e) f = Inl e"
| "and_then (Inr x) f = f x"

lemma and_then_Ok: "and_then r f = Inr y \<longleftrightarrow> (\<exists>x. r = Inr x \<and> f x = Inr y)"
  by (cases r) auto

lemma and_then_cong [fundef_cong]:
  "r = s \<Longrightarrow> (\<And>x. s = Inr x \<Longrightarrow> f x = g x) \<Longrightarrow> and_then r f = and_then s g"
  by (cases s) auto

fun try_map :: "('a \<Rightarrow> 'e + 'b) \<Rightarrow> 'a list \<Rightarrow> 'e + 'b list" where
  "try_map f [] = Inr []"
| "try_map f (x # xs) = and_then (f x) (\<lambda>y. and_then (try_map f xs) (\<lambda>ys. Inr (y # ys)))"

lemma try_map_Ok: "try_map f xs = Inr ys \<longleftrightarrow> list_all2 (\<lambda>x y. f x = Inr y) xs ys"
  by (induction xs arbitrary: ys) (auto simp: and_then_Ok list_all2_Cons1)

lemma try_map_is_ok: "is_ok (try_map f xs) \<longleftrightarrow> list_all (\<lambda>x. is_ok (f x)) xs"
proof (induction xs)
  case (Cons x xs)
  then show ?case by (cases "f x"; cases "try_map f xs") auto
qed simp

fun filter_map :: "('a \<Rightarrow> 'b option) \<Rightarrow> 'a list \<Rightarrow> 'b list" where
  "filter_map f [] = []"
| "filter_map f (x # xs) =
     (case f x of None \<Rightarrow> filter_map f xs | Some y \<Rightarrow> y # filter_map f xs)"

lemma set_filter_map: "set (filter_map f xs) = {y. \<exists>x \<in> set xs. f x = Some y}"
  by (induction xs) (auto split: option.splits)

lemma filter_map_append [simp]: "filter_map f (xs @ ys) = filter_map f xs @ filter_map f ys"
  by (induction xs) (auto split: option.splits)

lemma filter_map_all: "(\<And>x. x \<in> set xs \<Longrightarrow> f x = Some (g x)) \<Longrightarrow> filter_map f xs = map g xs"
  by (induction xs) auto

lemma length_filter_map: "length (filter_map f xs) = length (filter (\<lambda>x. f x \<noteq> None) xs)"
  by (induction xs) (auto split: option.splits)

lemma filter_map_cong [fundef_cong]:
  "xs = ys \<Longrightarrow> (\<And>x. x \<in> set ys \<Longrightarrow> f x = g x) \<Longrightarrow> filter_map f xs = filter_map g ys"
  by (induction xs arbitrary: ys) (auto split: option.splits)

fun nth_opt :: "'a list \<Rightarrow> nat \<Rightarrow> 'a option" where
  "nth_opt [] n = None"
| "nth_opt (x # xs) 0 = Some x"
| "nth_opt (x # xs) (Suc n) = nth_opt xs n"

lemma nth_opt_nth: "nth_opt xs n = (if n < length xs then Some (xs ! n) else None)"
  by (induction xs n rule: nth_opt.induct) auto

section \<open>Characters of a string\<close>

type_synonym rchar = string

text \<open>The numeric value of a byte.\<close>

definition byte :: "char \<Rightarrow> nat" where
  "byte c = of_char c"

text \<open>A UTF-8 continuation byte, \<open>10xxxxxx\<close>.\<close>

definition is_cont :: "char \<Rightarrow> bool" where
  "is_cont c \<longleftrightarrow> 128 \<le> byte c \<and> byte c < 192"

function chars :: "string \<Rightarrow> rchar list" where
  "chars [] = []"
| "chars (c # s) = (c # takeWhile is_cont s) # chars (dropWhile is_cont s)"
  by pat_completeness auto
termination
  by (relation "measure length") (auto simp: length_dropWhile_le less_Suc_eq_le)

lemma concat_chars [simp]: "concat (chars s) = s"
  by (induction s rule: chars.induct) auto

definition is_ascii :: "char \<Rightarrow> bool" where
  "is_ascii c \<longleftrightarrow> byte c < 128"

lemma is_ascii_not_cont: "is_ascii c \<Longrightarrow> \<not> is_cont c"
  by (simp add: is_ascii_def is_cont_def)

lemma chars_ascii: "list_all is_ascii s \<Longrightarrow> chars s = map (\<lambda>c. [c]) s"
proof (induction s rule: chars.induct)
  case (2 c s)
  then have "takeWhile is_cont s = [] \<and> dropWhile is_cont s = s"
    by (cases s) (auto dest: is_ascii_not_cont)
  with 2 show ?case by auto
qed simp

text \<open>\<open>char::is_whitespace\<close>: the Unicode property \<open>White_Space\<close>, on the encodings.\<close>

definition is_ws :: "rchar \<Rightarrow> bool" where
  "is_ws r = (case map byte r of
      [a] \<Rightarrow> (9 \<le> a \<and> a \<le> 13) \<or> a = 32
    | [a, b] \<Rightarrow> a = 194 \<and> (b = 133 \<or> b = 160)
    | [a, b, c] \<Rightarrow>
        (a = 225 \<and> b = 154 \<and> c = 128)
        \<or> (a = 226 \<and> b = 128 \<and> (128 \<le> c \<and> c \<le> 138 \<or> c = 168 \<or> c = 169 \<or> c = 175))
        \<or> (a = 226 \<and> b = 129 \<and> c = 159)
        \<or> (a = 227 \<and> b = 128 \<and> c = 128)
    | _ \<Rightarrow> False)"

definition trim_start :: "string \<Rightarrow> string" where
  "trim_start s = concat (dropWhile is_ws (chars s))"

definition trim :: "string \<Rightarrow> string" where
  "trim s = concat (rev (dropWhile is_ws (rev (dropWhile is_ws (chars s)))))"

text \<open>The maximal runs of elements that do not satisfy \<open>p\<close>, empty runs left out.\<close>

fun words_by :: "('a \<Rightarrow> bool) \<Rightarrow> 'a list \<Rightarrow> 'a list \<Rightarrow> 'a list list" where
  "words_by p [] acc = (if acc = [] then [] else [rev acc])"
| "words_by p (x # xs) acc =
     (if p x then (if acc = [] then words_by p xs [] else rev acc # words_by p xs [])
      else words_by p xs (x # acc))"

definition split_whitespace :: "string \<Rightarrow> string list" where
  "split_whitespace s = map concat (words_by is_ws (chars s) [])"

text \<open>\<open>[T]::join\<close> on string slices.\<close>

fun join :: "string \<Rightarrow> string list \<Rightarrow> string" where
  "join sep [] = []"
| "join sep [x] = x"
| "join sep (x # y # ys) = x @ sep @ join sep (y # ys)"

section \<open>Well-cut strings\<close>

text \<open>
  Every Rust string is valid UTF-8.  What the lemmas need of that is that no continuation
  byte stands at the start: then cutting and concatenating are inverse.
\<close>

definition is_rchar :: "rchar \<Rightarrow> bool" where
  "is_rchar r \<longleftrightarrow> r \<noteq> [] \<and> \<not> is_cont (hd r) \<and> list_all is_cont (tl r)"

definition utf8 :: "string \<Rightarrow> bool" where
  "utf8 s \<longleftrightarrow> list_all is_rchar (chars s)"

lemma chars_Nil_iff [simp]: "chars s = [] \<longleftrightarrow> s = []"
  by (cases s) auto

lemma utf8_iff: "utf8 s \<longleftrightarrow> s = [] \<or> \<not> is_cont (hd s)"
proof (induction s rule: chars.induct)
  case (2 c s)
  have "dropWhile is_cont s = [] \<or> \<not> is_cont (hd (dropWhile is_cont s))"
    using hd_dropWhile by blast
  with 2 show ?case
    by (auto simp: utf8_def is_rchar_def list_all_iff dest: set_takeWhileD)
qed (simp add: utf8_def)

lemma chars_concat: "list_all is_rchar rs \<Longrightarrow> chars (concat rs) = rs"
proof (induction rs)
  case (Cons r rs)
  then obtain c t where r: "r = c # t" "list_all is_cont t" by (cases r) (auto simp: is_rchar_def)
  have "concat rs = [] \<or> \<not> is_cont (hd (concat rs))"
    using Cons.prems by (cases rs) (auto simp: is_rchar_def)
  then have "takeWhile is_cont (concat rs) = [] \<and> dropWhile is_cont (concat rs) = concat rs"
    by (cases "concat rs") (simp_all del: concat_eq_Nil_conv Nil_eq_concat_conv)
  with r Cons show ?case
    by (simp add: takeWhile_append2 dropWhile_append2 list_all_iff)
qed simp

lemma utf8_concat: "list_all is_rchar rs \<Longrightarrow> utf8 (concat rs)"
  by (simp add: utf8_def chars_concat)

lemma chars_append: "utf8 a \<Longrightarrow> utf8 b \<Longrightarrow> chars (a @ b) = chars a @ chars b"
  using chars_concat [of "chars a @ chars b"] by (simp add: utf8_def)

lemma list_all_dropWhile: "list_all P xs \<Longrightarrow> list_all P (dropWhile Q xs)"
  by (auto simp: list_all_iff dest: set_dropWhileD)

lemma trim_chars: "utf8 s \<Longrightarrow> chars (trim s) = rev (dropWhile is_ws (rev (dropWhile is_ws (chars s))))"
  unfolding trim_def
  by (rule chars_concat) (simp add: utf8_def list_all_dropWhile)

lemma utf8_trim: "utf8 s \<Longrightarrow> utf8 (trim s)"
  by (simp add: utf8_def trim_chars list_all_dropWhile)

text \<open>The words of a string, and one space between them.\<close>

fun spaced :: "'a \<Rightarrow> 'a list list \<Rightarrow> 'a list" where
  "spaced sep [] = []"
| "spaced sep [w] = w"
| "spaced sep (w # v # ws) = w @ sep # spaced sep (v # ws)"

lemma join_concat: "join sep (map concat ws) = concat (spaced sep ws)"
  by (induction sep ws rule: spaced.induct) auto

lemma words_by_word:
  "list_all (\<lambda>x. \<not> p x) w \<Longrightarrow> words_by p (w @ xs) acc = words_by p xs (rev w @ acc)"
  by (induction w arbitrary: acc) auto

lemma words_by_spaced:
  assumes "p sep" "list_all (\<lambda>w. w \<noteq> [] \<and> list_all (\<lambda>x. \<not> p x) w) ws"
  shows "words_by p (spaced sep ws) [] = ws"
  using assms
proof (induction sep ws rule: spaced.induct)
  case (2 sep w)
  then show ?case using words_by_word [of p w "[]" "[]"] by simp
next
  case (3 sep w v ws)
  then show ?case using words_by_word [of p w "sep # spaced sep (v # ws)" "[]"] by simp
qed simp

lemma words_by_words:
  "list_all (\<lambda>x. \<not> p x) acc \<Longrightarrow>
     list_all (\<lambda>w. w \<noteq> [] \<and> list_all (\<lambda>x. \<not> p x) w) (words_by p xs acc)"
  by (induction p xs acc rule: words_by.induct) (auto simp: list_all_rev)

lemma words_by_all: "list_all Q xs \<Longrightarrow> list_all Q acc \<Longrightarrow> list_all (list_all Q) (words_by p xs acc)"
  by (induction p xs acc rule: words_by.induct) (auto simp: list_all_rev)

lemma spaced_all: "Q sep \<Longrightarrow> list_all (list_all Q) ws \<Longrightarrow> list_all Q (spaced sep ws)"
  by (induction sep ws rule: spaced.induct) auto

lemma space_is_ws: "is_ws '' ''"
  by (simp add: is_ws_def byte_def)

lemma space_is_rchar: "is_rchar '' ''"
  by (simp add: is_rchar_def is_cont_def byte_def)

lemma split_whitespace_join:
  assumes "utf8 s"
  shows "split_whitespace (join '' '' (split_whitespace s)) = split_whitespace s"
proof -
  let ?ws = "words_by is_ws (chars s) []"
  have "list_all (list_all is_rchar) ?ws"
    using assms by (simp add: utf8_def words_by_all)
  then have "chars (concat (spaced '' '' ?ws)) = spaced '' '' ?ws"
    by (intro chars_concat spaced_all space_is_rchar)
  moreover have "words_by is_ws (spaced '' '' ?ws) [] = ?ws"
    by (intro words_by_spaced words_by_words space_is_ws) simp
  ultimately show ?thesis
    by (simp add: split_whitespace_def join_concat)
qed

section \<open>Splitting, prefixes and substrings\<close>

text \<open>\<open>str::split\<close> on a set of ASCII delimiters: always at least one piece.\<close>

fun split_by :: "(char \<Rightarrow> bool) \<Rightarrow> string \<Rightarrow> string list" where
  "split_by p [] = [[]]"
| "split_by p (c # s) =
     (if p c then [] # split_by p s
      else (case split_by p s of [] \<Rightarrow> [[c]] | w # ws \<Rightarrow> (c # w) # ws))"

abbreviation split_on :: "char \<Rightarrow> string \<Rightarrow> string list" where
  "split_on d \<equiv> split_by (\<lambda>c. c = d)"

lemma split_by_not_Nil [simp]: "split_by p s \<noteq> []"
  by (induction s) (auto split: list.splits)

lemma split_by_no_delim: "list_all (\<lambda>c. \<not> p c) s \<Longrightarrow> split_by p s = [s]"
  by (induction s) auto

lemma split_by_append_delim:
  "list_all (\<lambda>c. \<not> p c) s \<Longrightarrow> p d \<Longrightarrow> split_by p (s @ d # t) = s # split_by p t"
  by (induction s) auto

fun strip_prefix :: "string \<Rightarrow> string \<Rightarrow> string option" where
  "strip_prefix [] s = Some s"
| "strip_prefix (p # ps) [] = None"
| "strip_prefix (p # ps) (c # s) = (if p = c then strip_prefix ps s else None)"

lemma strip_prefix_Some: "strip_prefix p s = Some t \<longleftrightarrow> s = p @ t"
  by (induction p s rule: strip_prefix.induct) auto

definition strip_suffix :: "string \<Rightarrow> string \<Rightarrow> string option" where
  "strip_suffix p s = map_option rev (strip_prefix (rev p) (rev s))"

lemma strip_suffix_Some: "strip_suffix p s = Some t \<longleftrightarrow> s = t @ p"
  by (auto simp: strip_suffix_def strip_prefix_Some) (metis rev_append rev_rev_ident)

definition ends_with :: "string \<Rightarrow> string \<Rightarrow> bool" where
  "ends_with s p \<longleftrightarrow> strip_suffix p s \<noteq> None"

text \<open>\<open>str::contains\<close> with a string pattern.\<close>

fun contains :: "string \<Rightarrow> string \<Rightarrow> bool" where
  "contains [] p = (p = [])"
| "contains (c # s) p = (prefix p (c # s) \<or> contains s p)"

lemma contains_iff: "contains s p \<longleftrightarrow> (\<exists>a b. s = a @ p @ b)"
proof (induction s)
  case Nil
  then show ?case by auto
next
  case (Cons c s)
  show ?case
  proof
    assume "contains (c # s) p"
    with Cons show "\<exists>a b. c # s = a @ p @ b"
      by (auto simp: prefix_def) (metis append_Cons append_Nil)+
  next
    assume "\<exists>a b. c # s = a @ p @ b"
    then obtain a b where ab: "c # s = a @ p @ b" by blast
    show "contains (c # s) p"
    proof (cases a)
      case Nil
      with ab have "prefix p (c # s)" by (simp add: prefix_def)
      then show ?thesis by simp
    next
      case (Cons x a')
      with ab have "s = a' @ p @ b" by simp
      with Cons.IH show ?thesis by auto
    qed
  qed
qed

section \<open>ASCII classes and case\<close>

definition is_digit :: "char \<Rightarrow> bool" where
  "is_digit c \<longleftrightarrow> 48 \<le> byte c \<and> byte c \<le> 57"

definition ascii_lower_char :: "char \<Rightarrow> char" where
  "ascii_lower_char c = (if 65 \<le> byte c \<and> byte c \<le> 90 then char_of (byte c + 32) else c)"

text \<open>
  \<open>ascii_lower s = t\<close> decides \<open>s.to_lowercase() = t\<close> for every ASCII \<open>t\<close> without the
  letter k: outside A-Z the only character whose lower case is ASCII is the Kelvin
  sign, whose lower case is k.
\<close>

definition ascii_lower :: "string \<Rightarrow> string" where
  "ascii_lower = map ascii_lower_char"

section \<open>Integers as text\<close>

definition digit_value :: "char \<Rightarrow> nat" where
  "digit_value c = byte c - 48"

definition digits_value :: "string \<Rightarrow> nat" where
  "digits_value s = fold (\<lambda>c n. 10 * n + digit_value c) s 0"

text \<open>\<open>str::parse::<u64>\<close>: an optional plus sign, then digits, in range.\<close>

definition parse_u64 :: "string \<Rightarrow> nat option" where
  "parse_u64 s =
     (let d = (case strip_prefix ''+'' s of None \<Rightarrow> s | Some r \<Rightarrow> r)
      in if d = [] \<or> \<not> list_all is_digit d then None
         else if digits_value d < 2 ^ 64 then Some (digits_value d) else None)"

lemma parse_u64_bound: "parse_u64 s = Some n \<Longrightarrow> n < 2 ^ 64"
  by (auto simp: parse_u64_def Let_def split: if_splits)

text \<open>\<open>u64::to_string\<close>.\<close>

fun show_nat :: "nat \<Rightarrow> string" where
  "show_nat n = (if n < 10 then [char_of (48 + n)] else show_nat (n div 10) @ [char_of (48 + n mod 10)])"

declare show_nat.simps [simp del]

lemma byte_char_of: "n < 256 \<Longrightarrow> byte (char_of n) = n"
  by (simp add: byte_def)

lemma is_digit_char_of: "(n::nat) < 10 \<Longrightarrow> is_digit (char_of (48 + n))"
  by (simp add: is_digit_def byte_char_of)

lemma digit_value_char_of: "(n::nat) < 10 \<Longrightarrow> digit_value (char_of (48 + n)) = n"
  by (simp add: digit_value_def byte_char_of)

lemma digits_value_snoc: "digits_value (s @ [c]) = 10 * digits_value s + digit_value c"
  by (simp add: digits_value_def)

lemma show_nat_digits: "list_all is_digit (show_nat n)"
proof (induction n rule: show_nat.induct)
  case (1 n)
  then show ?case
    by (subst show_nat.simps) (auto simp: is_digit_char_of)
qed

lemma show_nat_value: "digits_value (show_nat n) = n"
proof (induction n rule: show_nat.induct)
  case (1 n)
  show ?case
  proof (cases "n < 10")
    case True
    then show ?thesis
      by (subst show_nat.simps) (simp add: digits_value_def digit_value_char_of)
  next
    case False
    with 1 show ?thesis
      by (subst show_nat.simps) (simp add: digits_value_snoc digit_value_char_of)
  qed
qed

lemma show_nat_not_Nil [simp]: "show_nat n \<noteq> []"
  by (subst show_nat.simps) simp

lemma plus_not_digit: "\<not> is_digit (CHR ''+'')"
  by (simp add: is_digit_def byte_def)

lemma parse_u64_show_nat: "n < 2 ^ 64 \<Longrightarrow> parse_u64 (show_nat n) = Some n"
proof -
  assume n: "n < 2 ^ 64"
  have d: "list_all is_digit (show_nat n)" by (rule show_nat_digits)
  have "strip_prefix ''+'' (show_nat n) = None"
    using d plus_not_digit by (cases "show_nat n") auto
  with n d show ?thesis
    by (simp add: parse_u64_def show_nat_value)
qed

section \<open>Sorting and removing duplicates\<close>

text \<open>\<open>Vec::dedup\<close> drops consecutive repetitions.\<close>

fun dedup :: "'a list \<Rightarrow> 'a list" where
  "dedup [] = []"
| "dedup [x] = [x]"
| "dedup (x # y # ys) = (if x = y then dedup (y # ys) else x # dedup (y # ys))"

text \<open>\<open>values.sort(); values.dedup()\<close>.\<close>

definition sorted_unique :: "'a::linorder list \<Rightarrow> 'a list" where
  "sorted_unique xs = dedup (sort xs)"

lemma set_dedup [simp]: "set (dedup xs) = set xs"
  by (induction xs rule: dedup.induct) auto

lemma dedup_Nil_iff [simp]: "dedup xs = [] \<longleftrightarrow> xs = []"
  by (induction xs rule: dedup.induct) auto

lemma sorted_dedup: "sorted xs \<Longrightarrow> sorted_wrt (<) (dedup xs)"
  by (induction xs rule: dedup.induct) (auto simp: less_le)

lemma set_sorted_unique [simp]: "set (sorted_unique xs) = set xs"
  by (simp add: sorted_unique_def)

lemma sorted_unique_strict: "sorted_wrt (<) (sorted_unique xs)"
  by (simp add: sorted_unique_def sorted_dedup)

lemma sorted_wrt_less_unique:
  fixes xs ys :: "'a::linorder list"
  assumes "sorted_wrt (<) xs" "sorted_wrt (<) ys" "set xs = set ys"
  shows "xs = ys"
  using assms by (simp add: strict_sorted_equal)

text \<open>The result depends on the set of values only: two implementations agree.\<close>

lemma sorted_unique_eqI: "set xs = set ys \<Longrightarrow> sorted_unique xs = sorted_unique ys"
  by (rule sorted_wrt_less_unique) (auto simp: sorted_unique_strict)

lemma sorted_unique_idem [simp]: "sorted_unique (sorted_unique xs) = sorted_unique xs"
  by (rule sorted_unique_eqI) simp

end
