(* ===== verification/Ordered_Map.thy ===== *)
theory Ordered_Map
  imports Prelude
begin

text \<open>
  The maps of the source.  \<open>BTreeMap\<close> (and \<open>serde_json::Map\<close>, which is a \<open>BTreeMap\<close> in
  this build: the \<open>preserve_order\<close> feature is off) iterates in key order, so it is an
  association list with strictly increasing keys.  \<open>HashMap\<close> is modelled by the same
  type: its iteration order is unspecified, and key order is one of the orders it may
  have; the results the properties speak of are read through \<open>map_of\<close>.
\<close>

type_synonym ('k, 'v) omap = "('k \<times> 'v) list"

fun oinsert :: "'k::linorder \<Rightarrow> 'v \<Rightarrow> ('k, 'v) omap \<Rightarrow> ('k, 'v) omap" where
  "oinsert k v [] = [(k, v)]"
| "oinsert k v ((k', v') # m) =
     (if k < k' then (k, v) # (k', v') # m
      else if k = k' then (k, v) # m
      else (k', v') # oinsert k v m)"

definition oremove :: "'k \<Rightarrow> ('k, 'v) omap \<Rightarrow> ('k, 'v) omap" where
  "oremove k m = filter (\<lambda>(k', _). k' \<noteq> k) m"

definition owf :: "('k::linorder, 'v) omap \<Rightarrow> bool" where
  "owf m \<longleftrightarrow> sorted_wrt (<) (map fst m)"

text \<open>\<open>keys()\<close> and \<open>values()\<close>, in iteration order.\<close>

definition okeys :: "('k, 'v) omap \<Rightarrow> 'k list" where
  "okeys m = map fst m"

definition ovalues :: "('k, 'v) omap \<Rightarrow> 'v list" where
  "ovalues m = map snd m"

text \<open>\<open>get_mut\<close> followed by an update of the value, nothing when the key is absent.\<close>

definition omodify :: "'k::linorder \<Rightarrow> ('v \<Rightarrow> 'v) \<Rightarrow> ('k, 'v) omap \<Rightarrow> ('k, 'v) omap" where
  "omodify k f m = (case map_of m k of None \<Rightarrow> m | Some v \<Rightarrow> oinsert k (f v) m)"

text \<open>\<open>entry(k).or_insert(d)\<close> followed by an update of the value.\<close>

definition oentry :: "'k::linorder \<Rightarrow> 'v \<Rightarrow> ('v \<Rightarrow> 'v) \<Rightarrow> ('k, 'v) omap \<Rightarrow> ('k, 'v) omap" where
  "oentry k d f m = oinsert k (f (case map_of m k of None \<Rightarrow> d | Some v \<Rightarrow> v)) m"

text \<open>\<open>into_iter().collect()\<close> from pairs: a later pair replaces an earlier one.\<close>

definition ocollect :: "('k::linorder \<times> 'v) list \<Rightarrow> ('k, 'v) omap" where
  "ocollect ps = fold (\<lambda>(k, v). oinsert k v) ps []"

text \<open>\<open>values().map(f).sum()\<close>.\<close>

definition osum :: "('v \<Rightarrow> nat) \<Rightarrow> ('k, 'v) omap \<Rightarrow> nat" where
  "osum f m = sum_list (map (\<lambda>(_, v). f v) m)"

section \<open>Laws\<close>

lemma map_of_oinsert [simp]: "map_of (oinsert k v m) = (map_of m)(k \<mapsto> v)"
  by (induction k v m rule: oinsert.induct) (auto simp: fun_eq_iff)

lemma map_of_oremove [simp]: "map_of (oremove k m) = (map_of m)(k := None)"
  by (induction m) (auto simp: oremove_def fun_eq_iff)

lemma map_of_omodify: "map_of (omodify k f m) = (map_of m)(k := map_option f (map_of m k))"
  by (auto simp: omodify_def fun_eq_iff split: option.splits)

lemma map_of_oentry:
  "map_of (oentry k d f m) = (map_of m)(k \<mapsto> f (case map_of m k of None \<Rightarrow> d | Some v \<Rightarrow> v))"
  by (simp add: oentry_def)

lemma set_okeys_oinsert [simp]: "fst ` set (oinsert k v m) = insert k (fst ` set m)"
  by (induction k v m rule: oinsert.induct) auto

lemma owf_Nil [wf_intros, simp]: "owf []"
  by (simp add: owf_def)

lemma owf_Cons: "owf ((k, v) # m) \<longleftrightarrow> owf m \<and> (\<forall>k' \<in> fst ` set m. k < k')"
  by (auto simp: owf_def)

lemma owf_oinsert [wf_intros]: "owf m \<Longrightarrow> owf (oinsert k v m)"
  by (induction k v m rule: oinsert.induct) (auto simp: owf_Cons)

lemma owf_filter [wf_intros]: "owf m \<Longrightarrow> owf (filter P m)"
  by (induction m) (auto simp: owf_Cons)

lemma owf_oremove [wf_intros]: "owf m \<Longrightarrow> owf (oremove k m)"
  by (simp add: oremove_def owf_filter)

lemma owf_omodify [wf_intros]: "owf m \<Longrightarrow> owf (omodify k f m)"
  by (auto simp: omodify_def owf_oinsert split: option.splits)

lemma owf_oentry [wf_intros]: "owf m \<Longrightarrow> owf (oentry k d f m)"
  by (simp add: oentry_def owf_oinsert)

lemma owf_fold_oinsert: "owf m \<Longrightarrow> owf (fold (\<lambda>(k, v). oinsert k v) ps m)"
  by (induction ps arbitrary: m) (auto simp: owf_oinsert)

lemma owf_ocollect [wf_intros]: "owf (ocollect ps)"
  by (simp add: ocollect_def owf_fold_oinsert)

lemma owf_map_snd [wf_intros]: "owf m \<Longrightarrow> owf (map (\<lambda>(k, v). (k, f k v)) m)"
  by (simp add: owf_def case_prod_unfold comp_def)

lemma owf_distinct: "owf m \<Longrightarrow> distinct (map fst m)"
  by (simp add: owf_def strict_sorted_iff)

lemma owf_map_of_iff: "owf m \<Longrightarrow> map_of m k = Some v \<longleftrightarrow> (k, v) \<in> set m"
  by (simp add: owf_distinct)

lemma map_of_mem: "map_of m k = Some v \<Longrightarrow> (k, v) \<in> set m"
  by (rule map_of_SomeD)

lemma set_oinsert_subset: "set (oinsert k v m) \<subseteq> insert (k, v) (set m)"
  by (induction k v m rule: oinsert.induct) auto

lemma set_oremove_subset: "set (oremove k m) \<subseteq> set m"
  by (auto simp: oremove_def)

lemma ran_oinsert_subset: "snd ` set (oinsert k v m) \<subseteq> insert v (snd ` set m)"
  using set_oinsert_subset [of k v m] by force

lemma oinsert_not_Nil [simp]: "oinsert k v m \<noteq> []"
  by (induction k v m rule: oinsert.induct) auto

text \<open>Two well-formed maps with the same lookups are the same list.\<close>

lemma omap_ext:
  assumes "owf m" "owf n" "map_of m = map_of n"
  shows "m = n"
proof -
  have "fst ` set m = fst ` set n"
    using assms(3) by (metis dom_map_of_conv_image_fst)
  then have keys: "map fst m = map fst n"
    using assms(1,2) by (intro sorted_wrt_less_unique) (auto simp: owf_def)
  have "set m = set n"
    using assms by (auto simp: set_eq_iff simp flip: owf_map_of_iff)
  then have "inj_on fst (set m \<union> set n)"
    using owf_distinct [OF assms(1)] by (simp add: distinct_map)
  with keys show ?thesis by (rule map_inj_on)
qed

lemma oinsert_same: "owf m \<Longrightarrow> map_of m k = Some v \<Longrightarrow> oinsert k v m = m"
  by (rule omap_ext) (auto simp: owf_oinsert map_upd_triv)

lemma oinsert_oinsert [simp]: "oinsert k v (oinsert k w m) = oinsert k v m"
  by (induction k w m rule: oinsert.induct) auto

lemma oremove_absent: "map_of m k = None \<Longrightarrow> oremove k m = m"
  by (induction m) (auto simp: oremove_def split: if_splits)

section \<open>Sums over the values\<close>

lemma osum_Nil [simp]: "osum f [] = 0"
  by (simp add: osum_def)

lemma osum_Cons [simp]: "osum f ((k, v) # m) = f v + osum f m"
  by (simp add: osum_def)

text \<open>An insertion adds the new value and takes the replaced one away.\<close>

lemma osum_oinsert:
  "owf m \<Longrightarrow> osum f (oinsert k v m) + (case map_of m k of None \<Rightarrow> 0 | Some w \<Rightarrow> f w) = osum f m + f v"
proof (induction k v m rule: oinsert.induct)
  case (2 k v k' v' m)
  then have "k < k' \<Longrightarrow> map_of m k = None"
    by (force simp: owf_Cons map_of_eq_None_iff)
  with 2 show ?case by (auto simp: owf_Cons split: option.splits)
qed simp

lemma osum_oremove:
  "owf m \<Longrightarrow> osum f (oremove k m) + (case map_of m k of None \<Rightarrow> 0 | Some w \<Rightarrow> f w) = osum f m"
proof (induction m)
  case (Cons p m)
  obtain k' v' where p: "p = (k', v')" by force
  have "k = k' \<Longrightarrow> map_of m k = None"
    using Cons.prems by (force simp: p owf_Cons map_of_eq_None_iff)
  with Cons show ?case
    by (auto simp: p owf_Cons oremove_def oremove_absent [unfolded oremove_def] split: option.splits)
qed (simp add: oremove_def)

text \<open>Counting the values with a property is a sum of ones.\<close>

definition ocount :: "('v \<Rightarrow> bool) \<Rightarrow> ('k, 'v) omap \<Rightarrow> nat" where
  "ocount P m = length (filter P (ovalues m))"

lemma ocount_osum: "ocount P m = osum (\<lambda>v. if P v then 1 else 0) m"
  by (induction m) (auto simp: ocount_def ovalues_def)

section \<open>The map interface\<close>

text \<open>
  What the clients of a map rely on: lookups after each update, and an invariant that
  every operation keeps.  The derived updates (\<open>get_mut\<close>, \<open>entry\<close>) are characterised
  once, from these laws only.
\<close>

locale kv_map =
  fixes get :: "'m \<Rightarrow> 'k \<Rightarrow> 'v option"
    and ins :: "'k \<Rightarrow> 'v \<Rightarrow> 'm \<Rightarrow> 'm"
    and del :: "'k \<Rightarrow> 'm \<Rightarrow> 'm"
    and inv :: "'m \<Rightarrow> bool"
  assumes get_ins: "get (ins k v m) = (get m)(k \<mapsto> v)"
    and get_del: "get (del k m) = (get m)(k := None)"
    and inv_ins: "inv m \<Longrightarrow> inv (ins k v m)"
    and inv_del: "inv m \<Longrightarrow> inv (del k m)"
    and ext: "inv m \<Longrightarrow> inv n \<Longrightarrow> get m = get n \<Longrightarrow> m = n"
begin

lemma ins_commute: "inv m \<Longrightarrow> j \<noteq> k \<Longrightarrow> ins j v (ins k w m) = ins k w (ins j v m)"
  by (rule ext) (auto simp: inv_ins get_ins)

lemma ins_shadow: "inv m \<Longrightarrow> ins k v (ins k w m) = ins k v m"
  by (rule ext) (auto simp: inv_ins get_ins)

lemma del_ins: "inv m \<Longrightarrow> get m k = None \<Longrightarrow> del k (ins k v m) = m"
  by (rule ext) (auto simp: inv_ins inv_del get_ins get_del fun_upd_idem)

lemma del_ins_same: "inv m \<Longrightarrow> ins k v (del k m) = ins k v m"
  by (rule ext) (auto simp: inv_ins inv_del get_ins get_del)

lemma del_del: "inv m \<Longrightarrow> del k (del k m) = del k m"
  by (rule ext) (auto simp: inv_del get_del)

lemma fold_ins_other:
  "k \<notin> fst ` set ps \<Longrightarrow> get (fold (\<lambda>(k, v). ins k v) ps m) k = get m k"
  by (induction ps arbitrary: m) (auto simp: get_ins)

end

interpretation om: kv_map map_of oinsert oremove owf
  by unfold_locales (auto simp: owf_oinsert owf_oremove omap_ext)

lemma map_of_ocollect_None: "k \<notin> fst ` set ps \<Longrightarrow> map_of (ocollect ps) k = None"
  using om.fold_ins_other [of k ps "[]"] by (simp add: ocollect_def)

lemma map_of_ocollect_last: "map_of (ocollect (ps @ [(k, v)])) k = Some v"
  by (simp add: ocollect_def)

end
