(* ===== verification/Json.thy ===== *)
theory Json
  imports Ordered_Map
begin

text \<open>
  The JSON values the pipeline passes around (\<open>serde_json::Value\<close>), their accessors and
  their well-formedness: an object is a \<open>BTreeMap\<close>, so its keys are strictly increasing at
  every level.
\<close>

text \<open>
  \<open>serde_json::Number\<close>: a \<open>u64\<close>, a negative \<open>i64\<close>, or a float, which no code of the
  repository inspects beyond its text and is kept as that text.
\<close>

datatype jnum = PosInt nat | NegInt nat | Float string

datatype json =
    JNull
  | JBool bool
  | JNum jnum
  | JStr string
  | JArr "json list"
  | JObj "(string \<times> json) list"

type_synonym jobject = "(string, json) omap"

fun num_to_string :: "jnum \<Rightarrow> string" where
  "num_to_string (PosInt n) = show_nat n"
| "num_to_string (NegInt n) = CHR ''-'' # show_nat n"
| "num_to_string (Float t) = t"

fun num_as_u64 :: "jnum \<Rightarrow> nat option" where
  "num_as_u64 (PosInt n) = Some n"
| "num_as_u64 _ = None"

text \<open>\<open>is_u64() || is_i64()\<close>: an integer of either sign.\<close>

fun num_is_integer :: "jnum \<Rightarrow> bool" where
  "num_is_integer (Float _) = False"
| "num_is_integer _ = True"

fun as_str :: "json \<Rightarrow> string option" where
  "as_str (JStr s) = Some s"
| "as_str _ = None"

fun as_array :: "json \<Rightarrow> json list option" where
  "as_array (JArr xs) = Some xs"
| "as_array _ = None"

fun as_object :: "json \<Rightarrow> jobject option" where
  "as_object (JObj m) = Some m"
| "as_object _ = None"

fun as_number :: "json \<Rightarrow> jnum option" where
  "as_number (JNum n) = Some n"
| "as_number _ = None"

abbreviation is_object :: "json \<Rightarrow> bool" where
  "is_object v \<equiv> as_object v \<noteq> None"

lemma as_object_Some: "as_object v = Some m \<longleftrightarrow> v = JObj m"
  by (cases v) auto

lemma as_array_Some: "as_array v = Some xs \<longleftrightarrow> v = JArr xs"
  by (cases v) auto

lemma as_str_Some: "as_str v = Some s \<longleftrightarrow> v = JStr s"
  by (cases v) auto

text \<open>
  The keys of every object are strictly increasing.  A number's payload is a \<open>u64\<close>.
\<close>

fun json_wf :: "json \<Rightarrow> bool" where
  "json_wf (JArr xs) = list_all json_wf xs"
| "json_wf (JObj m) = (owf m \<and> list_all (\<lambda>(_, v). json_wf v) m)"
| "json_wf (JNum (PosInt n)) = (n < 2 ^ 64)"
| "json_wf _ = True"

text \<open>Well-formed objects, and the closure of the class under the map operations.\<close>

definition obj_wf :: "jobject \<Rightarrow> bool" where
  "obj_wf m \<longleftrightarrow> owf m \<and> list_all (\<lambda>(_, v). json_wf v) m"

lemma json_wf_JObj [simp]: "json_wf (JObj m) = obj_wf m"
  by (simp add: obj_wf_def)

declare json_wf.simps(2) [simp del]

lemma obj_wf_Nil [simp, wf_intros]: "obj_wf []"
  by (simp add: obj_wf_def)

lemma obj_wf_owf: "obj_wf m \<Longrightarrow> owf m"
  by (simp add: obj_wf_def)

lemma obj_wf_get: "obj_wf m \<Longrightarrow> map_of m k = Some v \<Longrightarrow> json_wf v"
  by (auto simp: obj_wf_def list_all_iff dest: map_of_SomeD)

lemma obj_wf_oinsert [wf_intros]: "obj_wf m \<Longrightarrow> json_wf v \<Longrightarrow> obj_wf (oinsert k v m)"
  using set_oinsert_subset [of k v m]
  by (fastforce simp: obj_wf_def list_all_iff owf_oinsert)

lemma obj_wf_oremove [wf_intros]: "obj_wf m \<Longrightarrow> obj_wf (oremove k m)"
  using set_oremove_subset [of k m]
  by (auto simp: obj_wf_def list_all_iff owf_oremove)

text \<open>Two well-formed objects with the same lookups are equal.\<close>

lemma obj_ext: "obj_wf m \<Longrightarrow> obj_wf n \<Longrightarrow> map_of m = map_of n \<Longrightarrow> m = n"
  by (auto simp: obj_wf_def intro: omap_ext)

text \<open>The object literals of the source: insertion of the fields one by one.\<close>

definition jobj :: "(string \<times> json) list \<Rightarrow> json" where
  "jobj ps = JObj (ocollect ps)"

lemma obj_wf_fold:
  "obj_wf m \<Longrightarrow> list_all (\<lambda>(_, v). json_wf v) ps \<Longrightarrow> obj_wf (fold (\<lambda>(k, v). oinsert k v) ps m)"
  by (induction ps arbitrary: m) (auto simp: obj_wf_oinsert)

lemma json_wf_jobj [wf_intros]: "list_all (\<lambda>(_, v). json_wf v) ps \<Longrightarrow> json_wf (jobj ps)"
  by (simp add: jobj_def ocollect_def obj_wf_fold)

text \<open>Serialisation of the field types the blocks use.\<close>

definition jopt :: "('a \<Rightarrow> json) \<Rightarrow> 'a option \<Rightarrow> json" where
  "jopt f x = (case x of None \<Rightarrow> JNull | Some v \<Rightarrow> f v)"

definition jstrs :: "string list \<Rightarrow> json" where
  "jstrs xs = JArr (map JStr xs)"

lemma json_wf_jopt [wf_intros]: "(\<And>v. x = Some v \<Longrightarrow> json_wf (f v)) \<Longrightarrow> json_wf (jopt f x)"
  by (auto simp: jopt_def split: option.splits)

lemma json_wf_jstrs [simp, wf_intros]: "json_wf (jstrs xs)"
  by (simp add: jstrs_def list_all_iff)

text \<open>
  The list a field holds, nothing when it is absent or is not a list
  (\<open>value.and_then(Value::as_array).map_or(&[], Vec::as_slice)\<close>).
\<close>

definition entries :: "json option \<Rightarrow> json list" where
  "entries v = (case Option.bind v as_array of None \<Rightarrow> [] | Some xs \<Rightarrow> xs)"

text \<open>
  The trimmed string a field holds, \<open>None\<close> when it is absent, not a string, or blank
  (the \<open>trimmed\<close> helper of \<open>identifiers.rs\<close> and \<open>companies.rs\<close>).
\<close>

definition trimmed :: "jobject \<Rightarrow> string \<Rightarrow> string option" where
  "trimmed entry key =
     (case Option.bind (map_of entry key) as_str of
        None \<Rightarrow> None
      | Some t \<Rightarrow> (if trim t = [] then None else Some (trim t)))"

lemma trimmed_not_Nil: "trimmed e k = Some s \<Longrightarrow> s \<noteq> []"
  by (auto simp: trimmed_def split: option.splits if_splits)

lemma trimmed_Nil [simp]: "trimmed e k = Some [] \<longleftrightarrow> False"
  by (auto dest: trimmed_not_Nil)

lemma json_wf_entries:
  "(\<And>v. x = Some v \<Longrightarrow> json_wf v) \<Longrightarrow> e \<in> set (entries x) \<Longrightarrow> json_wf e"
  by (cases x; cases "the x") (auto simp: entries_def list_all_iff)

lemma entries_Some_JArr [simp]: "entries (Some (JArr xs)) = xs"
  by (simp add: entries_def)

end
