(* ===== verification/Data_Types.thy ===== *)
theory Data_Types
  imports Json
begin

text \<open>
  \<open>src/types.rs\<close>: the four entity types, the per-run progress counters and the messages
  of the event contract; with the two file-name readers of \<open>src/discogs/mod.rs\<close> and
  \<open>src/state_marker.rs\<close>.  Time stamps are natural numbers (nanoseconds) handed in by the
  caller wherever the source reads the clock.
\<close>

type_synonym time = nat

section \<open>Entity types\<close>

datatype data_type = Artists | Labels | Masters | Releases

definition all_types :: "data_type list" where
  "all_types = [Artists, Labels, Masters, Releases]"

definition discogs_types :: "data_type list" where
  "discogs_types = [Artists, Labels, Masters, Releases]"

fun dt_str :: "data_type \<Rightarrow> string" where
  "dt_str Artists = ''artists''"
| "dt_str Labels = ''labels''"
| "dt_str Masters = ''masters''"
| "dt_str Releases = ''releases''"

text \<open>\<open>FromStr\<close>: case-insensitive; see \<open>ascii_lower\<close> for why the ASCII table decides it.\<close>

definition dt_from_str :: "string \<Rightarrow> string + data_type" where
  "dt_from_str s =
     (let l = ascii_lower s in
      if l = ''artists'' then Ok Artists
      else if l = ''labels'' then Ok Labels
      else if l = ''masters'' then Ok Masters
      else if l = ''releases'' then Ok Releases
      else Err (''Unknown data type: '' @ s))"

text \<open>The hash-map key order is any linear order: declaration order is one.\<close>

fun dt_rank :: "data_type \<Rightarrow> nat" where
  "dt_rank Artists = 0"
| "dt_rank Labels = 1"
| "dt_rank Masters = 2"
| "dt_rank Releases = 3"

lemma dt_rank_inject [simp]: "dt_rank a = dt_rank b \<longleftrightarrow> a = b"
  by (cases a; cases b) auto

instantiation data_type :: linorder
begin

definition less_eq_data_type :: "data_type \<Rightarrow> data_type \<Rightarrow> bool" where
  "less_eq_data_type a b \<longleftrightarrow> dt_rank a \<le> dt_rank b"

definition less_data_type :: "data_type \<Rightarrow> data_type \<Rightarrow> bool" where
  "less_data_type a b \<longleftrightarrow> dt_rank a < dt_rank b"

instance
  by standard (auto simp: less_eq_data_type_def less_data_type_def)

end

lemma all_types_complete: "d \<in> set all_types"
  by (cases d) (auto simp: all_types_def)

lemma dt_str_inject [simp]: "dt_str a = dt_str b \<longleftrightarrow> a = b"
  by (cases a; cases b) auto

lemma dt_from_str_iff: "dt_from_str s = Ok d \<longleftrightarrow> ascii_lower s = dt_str d"
  by (cases d) (auto simp: dt_from_str_def Let_def)

lemma ascii_lower_dt_str [simp]: "ascii_lower (dt_str d) = dt_str d"
  by (cases d) (simp_all add: ascii_lower_def ascii_lower_char_def byte_def)

lemma dt_from_str_dt_str [simp]: "dt_from_str (dt_str d) = Ok d"
  by (simp add: dt_from_str_iff)

section \<open>Progress counters\<close>

record progress =
  pg_artists :: nat
  pg_labels :: nat
  pg_masters :: nat
  pg_releases :: nat

definition progress_default :: progress where
  "progress_default = \<lparr>pg_artists = 0, pg_labels = 0, pg_masters = 0, pg_releases = 0\<rparr>"

fun pg_add :: "progress \<Rightarrow> data_type \<Rightarrow> nat \<Rightarrow> progress" where
  "pg_add p Artists n = p\<lparr>pg_artists := pg_artists p + n\<rparr>"
| "pg_add p Labels n = p\<lparr>pg_labels := pg_labels p + n\<rparr>"
| "pg_add p Masters n = p\<lparr>pg_masters := pg_masters p + n\<rparr>"
| "pg_add p Releases n = p\<lparr>pg_releases := pg_releases p + n\<rparr>"

fun pg_increment :: "progress \<Rightarrow> data_type \<Rightarrow> progress" where
  "pg_increment p Artists = p\<lparr>pg_artists := pg_artists p + 1\<rparr>"
| "pg_increment p Labels = p\<lparr>pg_labels := pg_labels p + 1\<rparr>"
| "pg_increment p Masters = p\<lparr>pg_masters := pg_masters p + 1\<rparr>"
| "pg_increment p Releases = p\<lparr>pg_releases := pg_releases p + 1\<rparr>"

fun pg_get :: "progress \<Rightarrow> data_type \<Rightarrow> nat" where
  "pg_get p Artists = pg_artists p"
| "pg_get p Labels = pg_labels p"
| "pg_get p Masters = pg_masters p"
| "pg_get p Releases = pg_releases p"

definition pg_total :: "progress \<Rightarrow> nat" where
  "pg_total p = pg_artists p + pg_labels p + pg_masters p + pg_releases p"

lemma pg_increment_add: "pg_increment p d = pg_add p d 1"
  by (cases d) auto

lemma pg_get_add [simp]: "pg_get (pg_add p d n) e = pg_get p e + (if e = d then n else 0)"
  by (cases d; cases e) auto

lemma pg_total_add [simp]: "pg_total (pg_add p d n) = pg_total p + n"
  by (cases d) (auto simp: pg_total_def)

lemma pg_total_sum: "pg_total p = sum_list (map (pg_get p) all_types)"
  by (simp add: pg_total_def all_types_def)

lemma pg_get_default [simp]: "pg_get progress_default d = 0"
  by (cases d) (auto simp: progress_default_def)

section \<open>Messages\<close>

record data_message =
  dm_id :: string
  dm_sha256 :: string
  dm_data :: json
  dm_raw_xml :: "string option"

record file_complete_message =
  fc_data_type :: string
  fc_timestamp :: time
  fc_total_processed :: nat
  fc_file :: string

record extraction_complete_message =
  ec_version :: string
  ec_timestamp :: time
  ec_started_at :: time
  ec_record_counts :: "(string, nat) omap"

datatype message =
    Data data_message
  | FileComplete file_complete_message
  | ExtractionComplete extraction_complete_message

record s3_file_info =
  s3_name :: string
  s3_size :: nat

record local_file_info =
  lf_path :: string
  lf_checksum :: string
  lf_version :: string
  lf_size :: nat

text \<open>
  \<open>calculate_content_hash\<close>: the digest (\<open>sha256\<close>) of the serialised record
  (\<open>to_text\<close>); both are other packages' functions.
\<close>

definition calculate_content_hash ::
  "(json \<Rightarrow> string) \<Rightarrow> (string \<Rightarrow> string) \<Rightarrow> json \<Rightarrow> string" where
  "calculate_content_hash to_text sha256 data = sha256 (to_text data)"

section \<open>Reading dump file names\<close>

text \<open>\<open>Path::file_name\<close> of a relative path.\<close>

definition path_file_name :: "string \<Rightarrow> string option" where
  "path_file_name name =
     (case filter (\<lambda>c. c \<noteq> [] \<and> c \<noteq> ''.'') (split_on (CHR ''/'') name) of
        [] \<Rightarrow> None
      | cs \<Rightarrow> if last cs = ''..'' then None else Some (last cs))"

text \<open>\<open>extract_data_type\<close> of \<open>src/discogs/mod.rs\<close>.\<close>

definition extract_data_type :: "string \<Rightarrow> data_type option" where
  "extract_data_type filename =
     (let parts = split_on (CHR ''_'') filename in
      if length parts \<ge> 3 then
        (case split_on (CHR ''.'') (parts ! 2) of
           [] \<Rightarrow> None
         | t # _ \<Rightarrow> (case dt_from_str t of Inr d \<Rightarrow> Some d | Inl _ \<Rightarrow> None))
      else None)"

text \<open>\<open>extract_data_type\<close> of \<open>src/state_marker.rs\<close>: the same segment, unparsed.\<close>

definition marker_data_type :: "string \<Rightarrow> string option" where
  "marker_data_type filename =
     Option.bind (nth_opt (split_on (CHR ''_'') filename) 2)
       (\<lambda>s. nth_opt (split_on (CHR ''.'') s) 0)"

definition extract_version_from_filename :: "string \<Rightarrow> string option" where
  "extract_version_from_filename filename =
     (let parts = split_on (CHR ''_'') filename in
      if length parts \<ge> 2 then Some (parts ! 1) else None)"

text \<open>The two readers agree up to parsing.\<close>

lemma extract_data_type_marker:
  "extract_data_type f =
     Option.bind (marker_data_type f) (\<lambda>t. case dt_from_str t of Inr d \<Rightarrow> Some d | Inl _ \<Rightarrow> None)"
proof -
  have "split_on (CHR ''.'') x = [] \<Longrightarrow> False" for x by simp
  then show ?thesis
    by (auto simp: extract_data_type_def marker_data_type_def Let_def nth_opt_nth hd_conv_nth
        split: list.splits)
qed

text \<open>The names the provider publishes: \<open>discogs_<date>_<type>.xml.gz\<close>.\<close>

definition dump_name :: "string \<Rightarrow> data_type \<Rightarrow> string" where
  "dump_name version d = ''discogs_'' @ version @ ''_'' @ dt_str d @ ''.xml.gz''"

lemma split_dump_name:
  assumes "list_all (\<lambda>c. c \<noteq> CHR ''_'') version"
  shows "split_on (CHR ''_'') (dump_name version d) = [''discogs'', version, dt_str d @ ''.xml.gz'']"
proof -
  have 1: "split_on (CHR ''_'') (''discogs'' @ CHR ''_'' # t) = ''discogs'' # split_on (CHR ''_'') t" for t
    by (rule split_by_append_delim) auto
  have 2: "split_on (CHR ''_'') (version @ CHR ''_'' # t) = version # split_on (CHR ''_'') t" for t
    by (rule split_by_append_delim) (use assms in auto)
  have 3: "split_on (CHR ''_'') (dt_str d @ ''.xml.gz'') = [dt_str d @ ''.xml.gz'']"
    by (rule split_by_no_delim) (cases d; simp)
  show ?thesis
    using 1 [of "version @ CHR ''_'' # dt_str d @ ''.xml.gz''"] 2 [of "dt_str d @ ''.xml.gz''"] 3
    by (simp add: dump_name_def)
qed

lemma split_type_part: "split_on (CHR ''.'') (dt_str d @ ''.xml.gz'') = [dt_str d, ''xml'', ''gz'']"
  by (cases d) simp_all

lemma extract_data_type_dump:
  "list_all (\<lambda>c. c \<noteq> CHR ''_'') version \<Longrightarrow> extract_data_type (dump_name version d) = Some d"
  by (simp add: extract_data_type_def split_dump_name split_type_part)

lemma marker_data_type_dump:
  "list_all (\<lambda>c. c \<noteq> CHR ''_'') version \<Longrightarrow> marker_data_type (dump_name version d) = Some (dt_str d)"
  by (simp add: marker_data_type_def split_dump_name split_type_part nth_opt_nth)

lemma extract_version_dump:
  "list_all (\<lambda>c. c \<noteq> CHR ''_'') version \<Longrightarrow>
   extract_version_from_filename (dump_name version d) = Some version"
  by (simp add: extract_version_from_filename_def split_dump_name)

text \<open>
  A published dump name is read back by every reader of the program: the pipeline gets the
  entity type, the state marker its text, and both the version; the text parses to the type.
\<close>

theorem dump_name_readers:
  assumes "list_all (\<lambda>c. c \<noteq> CHR ''_'') version"
  shows "extract_data_type (dump_name version d) = Some d
    \<and> marker_data_type (dump_name version d) = Some (dt_str d)
    \<and> extract_version_from_filename (dump_name version d) = Some version
    \<and> dt_from_str (dt_str d) = Ok d"
  using assms by (simp add: extract_data_type_dump marker_data_type_dump extract_version_dump)

theorem dump_name_readers_witness:
  "extract_data_type ''discogs_20260101_releases.xml.gz'' = Some Releases
    \<and> marker_data_type ''discogs_20260101_releases.xml.gz'' = Some ''releases''"
  using dump_name_readers [of "''20260101''" Releases]
  by (simp add: dump_name_def)

end
