(* ===== verification/Normalize.thy ===== *)
theory Normalize
  imports Data_Types
begin

text \<open>
  \<open>src/discogs/normalize.rs\<close>: from the XML-shaped record the parser builds (attributes
  under \<open>@\<close>-keys, lists wrapped in a container object, a lone element unwrapped) to the
  flat shape the consumers read.  Each field update of the source is \<open>norm_field\<close>; its
  effect on lookups is one equation, from which the shape of every normalised record
  follows.
\<close>

section \<open>The operations\<close>

text \<open>\<open>key.strip_prefix('@')\<close>.\<close>

fun strip_at :: "string \<Rightarrow> string option" where
  "strip_at (c # k) = (if c = CHR ''@'' then Some k else None)"
| "strip_at [] = None"

text \<open>The renames collected from the keys, in key order.\<close>

definition rename_of :: "string list \<Rightarrow> string \<Rightarrow> (string \<times> string) option" where
  "rename_of keys key =
     (case strip_at key of
        Some stripped \<Rightarrow> Some (key, stripped)
      | None \<Rightarrow> (if key = ''#text'' \<and> ''name'' \<notin> set keys then Some (key, ''name'') else None))"

definition at_renames :: "string list \<Rightarrow> (string \<times> string) list" where
  "at_renames keys = filter_map (rename_of keys) keys"

definition apply_rename :: "string \<times> string \<Rightarrow> jobject \<Rightarrow> jobject" where
  "apply_rename r m =
     (case map_of m (fst r) of
        None \<Rightarrow> m
      | Some v \<Rightarrow> oinsert (snd r) v (oremove (fst r) m))"

definition strip_object :: "jobject \<Rightarrow> jobject" where
  "strip_object m = fold apply_rename (at_renames (okeys m)) m"

fun strip_at_prefixes :: "json \<Rightarrow> json" where
  "strip_at_prefixes (JObj m) = JObj (strip_object m)"
| "strip_at_prefixes v = v"

fun ensure_list :: "json \<Rightarrow> json" where
  "ensure_list (JArr xs) = JArr xs"
| "ensure_list JNull = JArr []"
| "ensure_list v = JArr [v]"

fun unwrap_container :: "json \<Rightarrow> string \<Rightarrow> json" where
  "unwrap_container JNull key = JArr []"
| "unwrap_container (JArr xs) key = JArr xs"
| "unwrap_container (JObj m) key =
     (case map_of m key of Some inner \<Rightarrow> ensure_list inner | None \<Rightarrow> JArr [])"
| "unwrap_container v key = JArr [v]"

definition insert_if_nonempty :: "jobject \<Rightarrow> string \<Rightarrow> json \<Rightarrow> jobject" where
  "insert_if_nonempty m key value =
     (case as_array value of
        Some arr \<Rightarrow> (if arr = [] then m else oinsert key value m)
      | None \<Rightarrow> m)"

fun normalize_item :: "json \<Rightarrow> json" where
  "normalize_item (JObj m) = strip_at_prefixes (JObj m)"
| "normalize_item (JStr s) = jobj [(''id'', JStr s)]"
| "normalize_item v = v"

definition normalize_item_list :: "json \<Rightarrow> string \<Rightarrow> json" where
  "normalize_item_list value key =
     (case as_array (unwrap_container value key) of
        None \<Rightarrow> JArr []
      | Some arr \<Rightarrow> JArr (map normalize_item arr))"

definition normalize_string_list :: "json \<Rightarrow> string \<Rightarrow> json" where
  "normalize_string_list value key = unwrap_container value key"

text \<open>The closure applied to each entry of \<open>formats\<close>: a bare string stays a string.\<close>

definition normalize_format_list :: "json \<Rightarrow> string \<Rightarrow> json" where
  "normalize_format_list value key =
     (case as_array (unwrap_container value key) of
        None \<Rightarrow> JArr []
      | Some arr \<Rightarrow> JArr (map (\<lambda>item. if is_object item then strip_at_prefixes item else item) arr))"

text \<open>\<open>if let Some(val) = map.remove(field) { insert_if_nonempty(map, field, normalizer(&val, key)) }\<close>.\<close>

definition norm_field :: "(json \<Rightarrow> string \<Rightarrow> json) \<Rightarrow> string \<Rightarrow> string \<Rightarrow> jobject \<Rightarrow> jobject" where
  "norm_field normalizer key field m =
     (case map_of m field of
        None \<Rightarrow> m
      | Some val \<Rightarrow> insert_if_nonempty (oremove field m) field (normalizer val key))"

definition normalize_artist :: "json \<Rightarrow> json" where
  "normalize_artist record =
     (case as_object record of
        None \<Rightarrow> record
      | Some m \<Rightarrow> JObj (fold (norm_field normalize_item_list ''name'') [''members'', ''groups'', ''aliases''] m))"

definition normalize_parent_label :: "jobject \<Rightarrow> jobject" where
  "normalize_parent_label m =
     omodify ''parentLabel'' (\<lambda>p. if is_object p then strip_at_prefixes p else p) m"

definition normalize_label :: "json \<Rightarrow> json" where
  "normalize_label record =
     (case as_object record of
        None \<Rightarrow> record
      | Some m \<Rightarrow> JObj (norm_field normalize_item_list ''label'' ''sublabels'' (normalize_parent_label m)))"

definition normalize_master :: "json \<Rightarrow> json" where
  "normalize_master record =
     (case as_object (strip_at_prefixes record) of
        None \<Rightarrow> strip_at_prefixes record
      | Some m \<Rightarrow>
          JObj (norm_field normalize_string_list ''style'' ''styles''
               (norm_field normalize_string_list ''genre'' ''genres''
               (norm_field normalize_item_list ''artist'' ''artists'' m))))"

text \<open>\<open>master_id\<close>: the text (or the id) of an element that carries attributes.\<close>

definition normalize_master_id :: "jobject \<Rightarrow> jobject" where
  "normalize_master_id m =
     (case map_of m ''master_id'' of
        Some (JObj o') \<Rightarrow>
          (case (case map_of o' ''#text'' of Some v \<Rightarrow> Some v | None \<Rightarrow> map_of o' ''id'') of
             Some v \<Rightarrow> oinsert ''master_id'' v m
           | None \<Rightarrow> m)
      | _ \<Rightarrow> m)"

definition release_steps :: "jobject \<Rightarrow> jobject" where
  "release_steps m0 =
     (let m1 = norm_field normalize_item_list ''artist'' ''artists'' m0;
          m2 = norm_field normalize_item_list ''label'' ''labels'' m1;
          m3 = normalize_master_id m2;
          m4 = norm_field normalize_string_list ''genre'' ''genres'' m3;
          m5 = norm_field normalize_string_list ''style'' ''styles'' m4;
          m6 = norm_field normalize_item_list ''artist'' ''extraartists'' m5;
          m7 = norm_field normalize_item_list ''identifier'' ''identifiers'' m6;
          m8 = norm_field normalize_item_list ''company'' ''companies'' m7
      in norm_field normalize_format_list ''format'' ''formats'' m8)"

definition normalize_release :: "json \<Rightarrow> json" where
  "normalize_release record =
     (case as_object (strip_at_prefixes record) of
        None \<Rightarrow> strip_at_prefixes record
      | Some m \<Rightarrow> JObj (release_steps m))"

definition normalize_record :: "string \<Rightarrow> json \<Rightarrow> json" where
  "normalize_record dt record =
     (if dt = ''artists'' then normalize_artist record
      else if dt = ''labels'' then normalize_label record
      else if dt = ''masters'' then normalize_master record
      else if dt = ''releases'' then normalize_release record
      else record)"

section \<open>Arrays in, arrays out\<close>

lemma ensure_list_array: "\<exists>xs. ensure_list v = JArr xs"
  by (cases v) auto

lemma unwrap_container_array: "\<exists>xs. unwrap_container v k = JArr xs"
  using ensure_list_array by (cases v) (auto split: option.splits)

text \<open>The items of a container, in source order.\<close>

definition container_items :: "json \<Rightarrow> string \<Rightarrow> json list" where
  "container_items v k = the (as_array (unwrap_container v k))"

lemma unwrap_container_items: "unwrap_container v k = JArr (container_items v k)"
  using unwrap_container_array [of v k] by (auto simp: container_items_def)

lemma normalize_item_list_items:
  "normalize_item_list v k = JArr (map normalize_item (container_items v k))"
  by (simp add: normalize_item_list_def unwrap_container_items)

lemma normalize_string_list_items: "normalize_string_list v k = JArr (container_items v k)"
  by (simp add: normalize_string_list_def unwrap_container_items)

lemma normalize_format_list_items:
  "normalize_format_list v k =
     JArr (map (\<lambda>i. if is_object i then strip_at_prefixes i else i) (container_items v k))"
  by (simp add: normalize_format_list_def unwrap_container_items)

text \<open>
  A lone element (a scalar child) and a one-element array are the same container, so the
  normalised list does not depend on whether the XML repeated the element.
\<close>

lemma container_items_singleton:
  "as_array x = None \<Longrightarrow> x \<noteq> JNull \<Longrightarrow>
   container_items (JObj [(k, x)]) k = container_items (JObj [(k, JArr [x])]) k"
  by (cases x) (auto simp: container_items_def)

section \<open>Effect on lookups\<close>

definition nonempty_list :: "json \<Rightarrow> json option" where
  "nonempty_list v = (case as_array v of Some (x # xs) \<Rightarrow> Some v | _ \<Rightarrow> None)"

lemma nonempty_list_Some: "nonempty_list v = Some w \<longleftrightarrow> w = v \<and> (\<exists>x xs. v = JArr (x # xs))"
  by (auto simp: nonempty_list_def as_array_Some split: option.splits list.splits)

lemma map_of_norm_field:
  "map_of (norm_field g k f m) = (map_of m)(f := Option.bind (map_of m f) (\<lambda>v. nonempty_list (g v k)))"
  by (auto simp: norm_field_def insert_if_nonempty_def nonempty_list_def fun_eq_iff
      split: option.splits list.splits)

lemma map_of_normalize_master_id:
  "map_of (normalize_master_id m) k =
     (if k = ''master_id'' then
        (case map_of m k of
           Some (JObj o') \<Rightarrow>
             (case map_of o' ''#text'' of
                Some v \<Rightarrow> Some v
              | None \<Rightarrow> (case map_of o' ''id'' of Some v \<Rightarrow> Some v | None \<Rightarrow> Some (JObj o')))
         | v \<Rightarrow> v)
      else map_of m k)"
  by (auto simp: normalize_master_id_def split: option.splits json.splits)

section \<open>Well-formedness\<close>

lemma obj_wf_apply_rename: "obj_wf m \<Longrightarrow> obj_wf (apply_rename r m)"
  by (auto simp: apply_rename_def obj_wf_oinsert obj_wf_oremove obj_wf_get split: option.splits)

lemma obj_wf_strip_object [wf_intros]: "obj_wf m \<Longrightarrow> obj_wf (strip_object m)"
proof -
  have "obj_wf m \<Longrightarrow> obj_wf (fold apply_rename rs m)" for rs
    by (induction rs arbitrary: m) (auto simp: obj_wf_apply_rename)
  then show "obj_wf m \<Longrightarrow> obj_wf (strip_object m)" by (simp add: strip_object_def)
qed

lemma json_wf_strip [wf_intros]: "json_wf v \<Longrightarrow> json_wf (strip_at_prefixes v)"
  by (cases v) (auto simp: obj_wf_strip_object)

lemma json_wf_container_items: "json_wf v \<Longrightarrow> x \<in> set (container_items v k) \<Longrightarrow> json_wf x"
proof -
  have ens: "json_wf w \<Longrightarrow> x \<in> set (the (as_array (ensure_list w))) \<Longrightarrow> json_wf x" for w
    by (cases w) (auto simp: list_all_iff)
  show "json_wf v \<Longrightarrow> x \<in> set (container_items v k) \<Longrightarrow> json_wf x"
    by (cases v)
      (auto simp: container_items_def list_all_iff dest: obj_wf_get intro: ens split: option.splits)
qed

lemma json_wf_normalize_item [wf_intros]: "json_wf v \<Longrightarrow> json_wf (normalize_item v)"
  by (cases v) (auto intro: wf_intros)

lemma json_wf_item_list [wf_intros]: "json_wf v \<Longrightarrow> json_wf (normalize_item_list v k)"
  by (auto simp: normalize_item_list_items list_all_iff json_wf_normalize_item json_wf_container_items)

lemma json_wf_string_list [wf_intros]: "json_wf v \<Longrightarrow> json_wf (normalize_string_list v k)"
  by (auto simp: normalize_string_list_items list_all_iff json_wf_container_items)

lemma json_wf_format_list [wf_intros]: "json_wf v \<Longrightarrow> json_wf (normalize_format_list v k)"
  by (auto simp: normalize_format_list_items list_all_iff json_wf_container_items json_wf_strip)

lemma obj_wf_norm_field [wf_intros]:
  "obj_wf m \<Longrightarrow> (\<And>v k. json_wf v \<Longrightarrow> json_wf (g v k)) \<Longrightarrow> obj_wf (norm_field g k f m)"
  by (auto simp: norm_field_def insert_if_nonempty_def obj_wf_get obj_wf_oinsert obj_wf_oremove
      split: option.splits)

lemma obj_wf_master_id [wf_intros]: "obj_wf m \<Longrightarrow> obj_wf (normalize_master_id m)"
  unfolding normalize_master_id_def
  by (auto split: option.splits json.splits intro!: obj_wf_oinsert dest: obj_wf_get)
    (metis json_wf_JObj obj_wf_get)+

lemma obj_wf_parent_label [wf_intros]: "obj_wf m \<Longrightarrow> obj_wf (normalize_parent_label m)"
  by (auto simp: normalize_parent_label_def omodify_def obj_wf_oinsert obj_wf_get json_wf_strip
      split: option.splits)

lemma obj_wf_release_steps [wf_intros]: "obj_wf m \<Longrightarrow> obj_wf (release_steps m)"
  by (simp add: release_steps_def Let_def wf_intros)

section \<open>What de-prefixing computes\<close>

text \<open>
  No attribute of an XML element is named \<open>@x\<close> or \<open>#text\<close>: neither character starts an
  XML name.  Under it the renames do not chain.
\<close>

definition plain_attrs :: "jobject \<Rightarrow> bool" where
  "plain_attrs m \<longleftrightarrow>
     list_all (\<lambda>k. case strip_at k of None \<Rightarrow> True | Some s \<Rightarrow> strip_at s = None \<and> s \<noteq> ''#text'') (okeys m)"

text \<open>
  The specification: \<open>@k\<close> becomes \<open>k\<close> and wins over a child of that name; the text becomes
  \<open>name\<close> unless a child \<open>name\<close> exists, and an attribute \<open>name\<close> wins over it.
\<close>

definition stripped_lookup :: "jobject \<Rightarrow> string \<Rightarrow> json option" where
  "stripped_lookup m k =
     (if strip_at k \<noteq> None then None
      else if k = ''#text'' then (if map_of m ''name'' = None then None else map_of m k)
      else (case map_of m (CHR ''@'' # k) of
              Some v \<Rightarrow> Some v
            | None \<Rightarrow> (if k = ''name'' \<and> map_of m k = None then map_of m ''#text'' else map_of m k)))"

lemma plain_attrsD:
  "plain_attrs m \<Longrightarrow> CHR ''@'' # s \<in> set (okeys m) \<Longrightarrow> strip_at s = None \<and> s \<noteq> ''#text''"
  by (fastforce simp: plain_attrs_def list_all_iff)

lemma strip_at_Some: "strip_at k = Some s \<longleftrightarrow> k = CHR ''@'' # s"
  by (cases k) auto

lemma map_of_apply_rename:
  "map_of (apply_rename (a, b) m) =
     (case map_of m a of None \<Rightarrow> map_of m | Some v \<Rightarrow> (map_of m)(a := None, b := Some v))"
  by (auto simp: apply_rename_def fun_eq_iff split: option.splits)

lemma fold_rename_other:
  "k \<notin> fst ` set rs \<Longrightarrow> k \<notin> snd ` set rs \<Longrightarrow> map_of (fold apply_rename rs m) k = map_of m k"
proof (induction rs arbitrary: m)
  case (Cons r rs)
  then show ?case
    by (cases r) (auto simp: map_of_apply_rename split: option.splits)
qed simp

lemma fold_rename_old:
  "k \<in> fst ` set rs \<Longrightarrow> k \<notin> snd ` set rs \<Longrightarrow> map_of (fold apply_rename rs m) k = None"
proof (induction rs arbitrary: m)
  case (Cons r rs)
  obtain a b where r: "r = (a, b)" by force
  show ?case
  proof (cases "k \<in> fst ` set rs")
    case True
    with Cons show ?thesis by (simp add: r)
  next
    case False
    with Cons.prems have "k = a" "k \<noteq> b" "k \<notin> snd ` set rs" by (auto simp: r)
    with False show ?thesis
      by (auto simp: r fold_rename_other map_of_apply_rename split: option.splits)
  qed
qed simp

lemma fold_rename_new:
  assumes "map_of m a = Some v"
    and "a \<notin> fst ` set rs1" "a \<notin> snd ` set rs1"
    and "k \<notin> fst ` set rs2" "k \<notin> snd ` set rs2"
  shows "map_of (fold apply_rename (rs1 @ (a, k) # rs2) m) k = Some v"
proof -
  have "map_of (fold apply_rename rs1 m) a = Some v"
    using assms by (simp add: fold_rename_other)
  then show ?thesis
    using assms by (simp add: fold_rename_other map_of_apply_rename)
qed

lemma rename_of_Some:
  "rename_of ks a = Some r \<longleftrightarrow>
     fst r = a \<and> (a = CHR ''@'' # snd r \<or> (a = ''#text'' \<and> snd r = ''name'' \<and> ''name'' \<notin> set ks))"
  by (cases r) (auto simp: rename_of_def strip_at_Some split: option.splits if_splits)

lemma at_renames_mem:
  "(a, b) \<in> set (at_renames ks) \<longleftrightarrow>
     a \<in> set ks \<and> (a = CHR ''@'' # b \<or> (a = ''#text'' \<and> b = ''name'' \<and> ''name'' \<notin> set ks))"
  by (auto simp: at_renames_def set_filter_map rename_of_Some)

lemma set_okeys: "k \<in> set (okeys m) \<longleftrightarrow> map_of m k \<noteq> None"
  by (simp add: okeys_def map_of_eq_None_iff)

lemma hash_less_at: "''#text'' < CHR ''@'' # k"
  by simp

lemma at_renames_split:
  assumes "owf m" "(a, b) \<in> set (at_renames (okeys m))"
  obtains rs1 rs2 where "at_renames (okeys m) = rs1 @ (a, b) # rs2"
    "\<forall>r \<in> set rs1. fst r < a" "\<forall>r \<in> set rs2. a < fst r"
proof -
  let ?f = "rename_of (okeys m)"
  have f: "?f a = Some (a, b)" "a \<in> set (okeys m)"
    using assms(2) by (auto simp: at_renames_mem rename_of_Some)
  then obtain ks1 ks2 where ks: "okeys m = ks1 @ a # ks2" by (meson split_list)
  have sorted: "sorted_wrt (<) (ks1 @ a # ks2)"
    using assms(1) ks by (simp add: owf_def okeys_def)
  have "filter_map ?f (ks1 @ a # ks2) = filter_map ?f ks1 @ (a, b) # filter_map ?f ks2"
    using f(1) by simp
  then have "at_renames (okeys m) = filter_map ?f ks1 @ (a, b) # filter_map ?f ks2"
    by (simp add: at_renames_def ks)
  moreover have "\<forall>r \<in> set (filter_map ?f ks1). fst r < a"
    using sorted by (auto simp: set_filter_map sorted_wrt_append rename_of_Some)
  moreover have "\<forall>r \<in> set (filter_map ?f ks2). a < fst r"
    using sorted by (auto simp: set_filter_map sorted_wrt_append rename_of_Some)
  ultimately show ?thesis by (rule that)
qed

text \<open>A rename that no later rename of the same target follows decides the target.\<close>

lemma strip_object_rename:
  assumes "owf m" "plain_attrs m" "(a, k) \<in> set (at_renames (okeys m))" "map_of m a = Some v"
    and k: "strip_at k = None" "k \<noteq> ''#text''"
    and last: "\<And>b. (b, k) \<in> set (at_renames (okeys m)) \<Longrightarrow> \<not> a < b"
  shows "map_of (strip_object m) k = Some v"
proof -
  obtain rs1 rs2 where rs: "at_renames (okeys m) = rs1 @ (a, k) # rs2"
    "\<forall>r \<in> set rs1. fst r < a" "\<forall>r \<in> set rs2. a < fst r"
    using at_renames_split [OF assms(1,3)] by blast
  have in2: "r \<in> set rs2 \<Longrightarrow> r \<in> set (at_renames (okeys m))"
    and in1: "r \<in> set rs1 \<Longrightarrow> r \<in> set (at_renames (okeys m))" for r
    by (auto simp: rs(1))
  have "k \<notin> fst ` set rs2"
    using in2 k by (fastforce simp: at_renames_mem)
  moreover have "k \<notin> snd ` set rs2"
    using in2 last rs(3) by fastforce
  moreover have "a \<notin> fst ` set rs1" using rs(2) by auto
  moreover have "a \<notin> snd ` set rs1"
  proof
    assume "a \<in> snd ` set rs1"
    then obtain c where "(c, a) \<in> set (at_renames (okeys m))" using in1 by force
    with assms(3) k plain_attrsD [OF assms(2)] show False
      by (fastforce simp: at_renames_mem)
  qed
  ultimately show ?thesis
    unfolding strip_object_def rs(1) using assms(4) by (intro fold_rename_new)
qed

lemma strip_object_lookup:
  assumes "owf m" "plain_attrs m"
  shows "map_of (strip_object m) k = stripped_lookup m k"
proof -
  let ?rs = "at_renames (okeys m)"
  have new: "x \<in> snd ` set ?rs \<Longrightarrow> strip_at x = None \<and> x \<noteq> ''#text''" for x
    using plain_attrsD [OF assms(2)] by (force simp: at_renames_mem)
  have old: "x \<in> fst ` set ?rs \<longleftrightarrow>
      map_of m x \<noteq> None \<and> (strip_at x \<noteq> None \<or> x = ''#text'' \<and> map_of m ''name'' = None)" for x
  proof -
    have "x \<in> fst ` set ?rs \<longleftrightarrow> (\<exists>b. (x, b) \<in> set ?rs)" by force
    then show ?thesis
      unfolding at_renames_mem set_okeys by (auto simp: strip_at_Some)
  qed
  consider (gone) "strip_at k \<noteq> None \<or> k = ''#text''"
    | (attr) v where "strip_at k = None" "k \<noteq> ''#text''" "map_of m (CHR ''@'' # k) = Some v"
    | (content) v where "k = ''name''" "map_of m ''@name'' = None" "map_of m k = None" "map_of m ''#text'' = Some v"
    | (same) "strip_at k = None" "k \<noteq> ''#text''" "map_of m (CHR ''@'' # k) = None"
        "k = ''name'' \<Longrightarrow> map_of m k = None \<Longrightarrow> map_of m ''#text'' = None"
    by (cases "map_of m (CHR ''@'' # k)"; cases "map_of m ''#text''") auto
  then show ?thesis
  proof cases
    case gone
    then have "k \<notin> snd ` set ?rs" using gone by (auto dest!: new)
    then show ?thesis
      using gone old [of k]
      by (cases "k \<in> fst ` set ?rs")
        (auto simp: strip_object_def stripped_lookup_def fold_rename_old fold_rename_other)
  next
    case attr
    have "map_of (strip_object m) k = Some v"
    proof (rule strip_object_rename [OF assms])
      show "(CHR ''@'' # k, k) \<in> set ?rs" using attr by (simp add: at_renames_mem set_okeys)
      show "\<not> CHR ''@'' # k < b" if "(b, k) \<in> set ?rs" for b
        using that by (auto simp: at_renames_mem)
    qed (use attr in auto)
    with attr show ?thesis by (simp add: stripped_lookup_def)
  next
    case content
    have "map_of (strip_object m) k = Some v"
    proof (rule strip_object_rename [OF assms])
      show "(''#text'', k) \<in> set ?rs" using content by (simp add: at_renames_mem set_okeys)
      show "\<not> ''#text'' < b" if "(b, k) \<in> set ?rs" for b
        using that content by (auto simp: at_renames_mem set_okeys)
    qed (use content in auto)
    with content show ?thesis by (simp add: stripped_lookup_def)
  next
    case same
    have "k \<notin> snd ` set ?rs"
      using same by (auto simp: at_renames_mem set_okeys)
    moreover have "k \<notin> fst ` set ?rs" using same old [of k] by simp
    ultimately show ?thesis
      using same by (auto simp: strip_object_def stripped_lookup_def fold_rename_other)
  qed
qed

section \<open>The normalised record\<close>

lemma json_wf_fold_norm [wf_intros]:
  "obj_wf m \<Longrightarrow> obj_wf (fold (norm_field normalize_item_list c) fs m)"
  by (induction fs arbitrary: m) (auto simp: obj_wf_norm_field json_wf_item_list)

text \<open>
  Normalisation keeps every record well formed, whatever the entity type: every object of
  the result, at every depth, still has strictly increasing keys.
\<close>

theorem normalize_record_wf: "json_wf r \<Longrightarrow> json_wf (normalize_record dt r)"
proof -
  assume r: "json_wf r"
  have a: "json_wf (normalize_artist r)"
    using r by (auto simp: normalize_artist_def as_object_Some wf_intros split: option.splits)
  have l: "json_wf (normalize_label r)"
    using r by (auto simp: normalize_label_def as_object_Some wf_intros split: option.splits)
  have s: "json_wf (strip_at_prefixes r)" using r by (rule json_wf_strip)
  have m: "json_wf (normalize_master r)"
    using s by (auto simp: normalize_master_def as_object_Some wf_intros split: option.splits)
  have "json_wf (normalize_release r)"
    using s by (auto simp: normalize_release_def as_object_Some wf_intros split: option.splits)
  with r a l m show ?thesis by (simp add: normalize_record_def)
qed

text \<open>The list fields of a release, with their container elements and normalisers.\<close>

definition release_lists :: "(string \<times> string \<times> (json \<Rightarrow> string \<Rightarrow> json)) list" where
  "release_lists =
     [(''artists'', ''artist'', normalize_item_list),
      (''labels'', ''label'', normalize_item_list),
      (''genres'', ''genre'', normalize_string_list),
      (''styles'', ''style'', normalize_string_list),
      (''extraartists'', ''artist'', normalize_item_list),
      (''identifiers'', ''identifier'', normalize_item_list),
      (''companies'', ''company'', normalize_item_list),
      (''formats'', ''format'', normalize_format_list)]"

lemma map_of_release_steps:
  "map_of (release_steps m) k =
     (case map_of release_lists k of
        Some (c, g) \<Rightarrow> Option.bind (map_of m k) (\<lambda>v. nonempty_list (g v c))
      | None \<Rightarrow> map_of (normalize_master_id m) k)"
  by (simp add: release_steps_def release_lists_def Let_def map_of_norm_field map_of_normalize_master_id)

lemma normalize_release_object: "normalize_release (JObj m) = JObj (release_steps (strip_object m))"
  by (simp add: normalize_release_def)

text \<open>
  Each of the eight list fields of a release ends up either absent or a non-empty array, and
  that array is the field's normaliser applied to what the de-prefixed record held under the
  field: no later step of \<open>normalize_release\<close> disturbs it.
\<close>

theorem normalize_release_lists:
  assumes "map_of release_lists f = Some (c, g)"
  shows "\<exists>r. normalize_release (JObj m) = JObj r
     \<and> map_of r f = Option.bind (map_of (strip_object m) f) (\<lambda>v. nonempty_list (g v c))
     \<and> (map_of r f = None \<or> (\<exists>x xs. map_of r f = Some (JArr (x # xs))))"
  using assms
  by (cases "Option.bind (map_of (strip_object m) f) (\<lambda>v. nonempty_list (g v c))")
    (auto simp: normalize_release_object map_of_release_steps nonempty_list_Some bind_eq_Some_conv)

lemma release_lists_key:
  "map_of release_lists f = Some (c, g) \<Longrightarrow>
     strip_at f = None \<and> f \<noteq> ''#text'' \<and> f \<noteq> ''name'' \<and> f \<noteq> ''master_id''"
  by (auto simp: release_lists_def split: if_splits)

lemma release_lists_normaliser:
  "map_of release_lists f = Some (c, g) \<Longrightarrow> container_items v c = container_items w c \<Longrightarrow> g v c = g w c"
  by (auto simp: release_lists_def normalize_item_list_items normalize_string_list_items
      normalize_format_list_items split: if_splits)

lemma plain_attrs_oinsert:
  "strip_at k = None \<Longrightarrow> plain_attrs m \<Longrightarrow> plain_attrs (oinsert k v m)"
proof -
  have "set (okeys (oinsert k v m)) = insert k (set (okeys m))"
    by (simp add: okeys_def)
  then show "strip_at k = None \<Longrightarrow> plain_attrs m \<Longrightarrow> plain_attrs (oinsert k v m)"
    by (simp add: plain_attrs_def list_all_iff)
qed

lemma stripped_lookup_cong:
  assumes "\<And>j. j \<noteq> f \<Longrightarrow> map_of a j = map_of b j"
    and "strip_at f = None" "f \<noteq> ''#text''" "f \<noteq> ''name''" "k \<noteq> f"
  shows "stripped_lookup a k = stripped_lookup b k"
proof -
  have "CHR ''@'' # k \<noteq> f" using assms(2) by auto
  then have "map_of a (CHR ''@'' # k) = map_of b (CHR ''@'' # k)"
    "map_of a ''name'' = map_of b ''name''" "map_of a ''#text'' = map_of b ''#text''"
    "map_of a k = map_of b k"
    using assms by (metis assms(1))+
  then show ?thesis unfolding stripped_lookup_def by presburger
qed

text \<open>
  C31: XML with one child and XML with a list of one child normalise alike: a container element
  whose only item was read as a scalar or an object gives the same release as the container
  with the item in a one-element array, for every list field.
\<close>

theorem release_singleton_container:
  assumes "obj_wf m" "plain_attrs m" "map_of release_lists f = Some (c, g)"
    and "as_array x = None" "x \<noteq> JNull" "json_wf x"
  shows "normalize_release (JObj (oinsert f (JObj [(c, x)]) m))
       = normalize_release (JObj (oinsert f (JObj [(c, JArr [x])]) m))"
proof -
  let ?a = "oinsert f (JObj [(c, x)]) m" and ?b = "oinsert f (JObj [(c, JArr [x])]) m"
  note f = release_lists_key [OF assms(3)]
  have "obj_wf [(c, x)]" "obj_wf [(c, JArr [x])]"
    using assms(6) by (simp_all add: obj_wf_def owf_Cons)
  then have wf: "obj_wf ?a" "obj_wf ?b" "plain_attrs ?a" "plain_attrs ?b"
    using assms(1,2) f by (simp_all add: obj_wf_oinsert plain_attrs_oinsert)
  then have look: "map_of (strip_object ?a) k = stripped_lookup ?a k"
    "map_of (strip_object ?b) k = stripped_lookup ?b k" for k
    by (auto intro: strip_object_lookup obj_wf_owf)
  have same: "stripped_lookup ?a k = stripped_lookup ?b k" if "k \<noteq> f" for k
    using f that by (intro stripped_lookup_cong [where f = f]) auto
  have items: "g (JObj [(c, x)]) c = g (JObj [(c, JArr [x])]) c"
    using release_lists_normaliser [OF assms(3) container_items_singleton] assms(4,5) by blast
  have at: "Option.bind (stripped_lookup ?a f) (\<lambda>v. nonempty_list (g v c))
      = Option.bind (stripped_lookup ?b f) (\<lambda>v. nonempty_list (g v c))"
    using f items by (cases "map_of m (CHR ''@'' # f)") (auto simp: stripped_lookup_def)
  have "map_of (release_steps (strip_object ?a)) k = map_of (release_steps (strip_object ?b)) k" for k
  proof (cases "k = f")
    case True
    with at assms(3) show ?thesis by (simp add: map_of_release_steps look)
  next
    case False
    then show ?thesis
      unfolding map_of_release_steps map_of_normalize_master_id look
      by (simp only: same [OF False])
  qed
  then have "release_steps (strip_object ?a) = release_steps (strip_object ?b)"
    using wf by (intro obj_ext ext) (simp_all add: obj_wf_release_steps obj_wf_strip_object)
  then show ?thesis by (simp add: normalize_release_object)
qed

lemma json_wf_lone: "json_wf (JObj [(''@id'', JStr ''1''), (''name'', JStr ''A'')])"
  by (simp add: obj_wf_def owf_def)

theorem normalize_record_wf_witness:
  "json_wf (normalize_record ''artists'' (JObj [(''@id'', JStr ''1''), (''name'', JStr ''A'')]))"
  by (rule normalize_record_wf) (rule json_wf_lone)

theorem normalize_release_lists_witness:
  "\<exists>r. normalize_release (JObj [(''@id'', JStr ''1''), (''genres'', JObj [(''genre'', JStr ''Rock'')])]) = JObj r
     \<and> (map_of r ''genres'' = None \<or> (\<exists>x xs. map_of r ''genres'' = Some (JArr (x # xs))))"
  using normalize_release_lists [of "''genres''" "''genre''" normalize_string_list
      "[(''@id'', JStr ''1''), (''genres'', JObj [(''genre'', JStr ''Rock'')])]"]
  by (simp add: release_lists_def) blast

theorem release_singleton_container_witness:
  "normalize_release (JObj (oinsert ''genres'' (JObj [(''genre'', JStr ''Rock'')]) [(''@id'', JStr ''1'')]))
     = normalize_release (JObj (oinsert ''genres'' (JObj [(''genre'', JArr [JStr ''Rock''])]) [(''@id'', JStr ''1'')]))"
  by (rule release_singleton_container [of _ _ _ normalize_string_list])
    (simp_all add: obj_wf_def owf_def plain_attrs_def okeys_def release_lists_def)

section \<open>De-prefixing, as a whole\<close>

text \<open>
  On a record whose attribute names are XML names, \<open>strip_at_prefixes\<close> computes the
  documented result key by key: every attribute loses its prefix and wins over a child of the
  same name, the element text becomes \<open>name\<close> unless the element has a child or an attribute
  \<open>name\<close>, and no prefixed key is left.
\<close>

theorem strip_at_prefixes_lookup:
  assumes "obj_wf m" "plain_attrs m"
  shows "\<exists>r. strip_at_prefixes (JObj m) = JObj r \<and> obj_wf r
     \<and> (\<forall>k. map_of r k = stripped_lookup m k)
     \<and> list_all (\<lambda>k. strip_at k = None) (okeys r)"
proof -
  have look: "map_of (strip_object m) k = stripped_lookup m k" for k
    using assms by (simp add: strip_object_lookup obj_wf_owf)
  have "list_all (\<lambda>k. strip_at k = None) (okeys (strip_object m))"
    by (auto simp: list_all_iff set_okeys look stripped_lookup_def split: if_splits)
  with look assms(1) show ?thesis by (auto simp: obj_wf_strip_object)
qed

theorem strip_at_prefixes_lookup_witness:
  "\<exists>r. strip_at_prefixes (JObj [(''#text'', JStr ''A''), (''@id'', JStr ''1'')]) = JObj r
     \<and> map_of r ''id'' = Some (JStr ''1'') \<and> map_of r ''name'' = Some (JStr ''A'')"
proof -
  let ?m = "[(''#text'', JStr ''A''), (''@id'', JStr ''1'')]"
  have "obj_wf ?m" "plain_attrs ?m"
    by (simp_all add: obj_wf_def owf_def plain_attrs_def okeys_def)
  from strip_at_prefixes_lookup [OF this] show ?thesis
    by (auto simp: stripped_lookup_def)
qed

end
