(* ===== verification/Companies.thy ===== *)
theory Companies
  imports Normalize
begin

text \<open>
  \<open>src/discogs/companies.rs\<close>: the companies block of a release.  The vocabulary is a record
  (the parsed \<open>company-roles.json\<close>); \<open>company_vocabulary\<close> is the vendored document.  The
  loops of this file and of \<open>identifiers.rs\<close> share one contract, \<open>entry_loop\<close>.
\<close>

section \<open>The loop over the raw entries\<close>

text \<open>
  Both mappers walk the raw list with two accumulators, skip the unreadable entries, push one
  item per readable entry and push the item's raw name when the vocabulary does not know it.
\<close>

locale entry_loop =
  fixes step :: "json \<Rightarrow> 'i list \<times> string list \<Rightarrow> 'i list \<times> string list"
    and read :: "json \<Rightarrow> 'i option"
    and unknown :: "'i \<Rightarrow> string option"
  assumes step_skip: "read e = None \<Longrightarrow> step e acc = acc"
    and step_known: "read e = Some i \<Longrightarrow> unknown i = None \<Longrightarrow> step e (items, us) = (items @ [i], us)"
    and step_unknown: "read e = Some i \<Longrightarrow> unknown i = Some u \<Longrightarrow> step e (items, us) = (items @ [i], us @ [u])"
begin

lemma fold_step:
  "fold step es (items, us) =
     (items @ filter_map read es, us @ filter_map unknown (filter_map read es))"
proof (induction es arbitrary: items us)
  case (Cons e es)
  show ?case
  proof (cases "read e")
    case None
    then show ?thesis using Cons.IH by (simp add: step_skip)
  next
    case (Some i)
    then show ?thesis
      using Cons.IH by (cases "unknown i") (simp_all add: step_known step_unknown)
  qed
qed simp

lemma fold_step_Nil:
  "fold step es ([], []) = (filter_map read es, filter_map unknown (filter_map read es))"
  by (simp add: fold_step)

end

section \<open>The vocabulary\<close>

record company_vocab =
  cv_version :: string
  cv_unmapped_category :: string
  cv_roles :: "(string \<times> string) list"

definition company_vocabulary :: company_vocab where
  "company_vocabulary = \<lparr>cv_version = ''1'', cv_unmapped_category = ''other'', cv_roles =
     [(''Copyright (c)'', ''rights''),
      (''Designed At'', ''other''),
      (''Distributed By'', ''distribution''),
      (''Duplicated By'', ''manufacturing''),
      (''Edited At'', ''recording_facility''),
      (''Engineered At'', ''recording_facility''),
      (''Exported By'', ''distribution''),
      (''Funded By'', ''other''),
      (''Glass Mastered At'', ''lacquer''),
      (''Lacquer Cut At'', ''lacquer''),
      (''Licensed From'', ''rights''),
      (''Licensed Through'', ''rights''),
      (''Licensed To'', ''rights''),
      (''Made By'', ''manufacturing''),
      (''Manufactured By'', ''manufacturing''),
      (''Manufactured For'', ''manufacturing''),
      (''Marketed By'', ''marketing''),
      (''Mastered At'', ''mastering''),
      (''Mixed At'', ''recording_facility''),
      (''Phonographic Copyright (p)'', ''rights''),
      (''Plated At'', ''lacquer''),
      (''Pressed By'', ''pressing''),
      (''Printed By'', ''manufacturing''),
      (''Produced At'', ''recording_facility''),
      (''Produced For'', ''rights''),
      (''Published By'', ''rights''),
      (''Record Company'', ''rights''),
      (''Recorded At'', ''recording_facility''),
      (''Recorded By'', ''recording_facility'')]\<rparr>"

text \<open>The category ids the document declares.\<close>

definition company_categories :: "string list" where
  "company_categories =
     [''manufacturing'', ''mastering'', ''lacquer'', ''pressing'', ''distribution'', ''marketing'',
      ''rights'', ''recording_facility'', ''other'']"

section \<open>The block\<close>

record company_source =
  cs_provider :: string
  cs_entity_type :: "string option"

record company_item =
  ci_name :: string
  ci_discogs_id :: "nat option"
  ci_role :: string
  ci_role_category :: string
  ci_catno :: "string option"
  ci_source :: company_source

record companies_block =
  cb_companies_version :: string
  cb_items :: "company_item list"
  cb_role_categories :: "string list"
  cb_unmapped_roles :: "string list"

definition discogs_id :: "jobject \<Rightarrow> nat option" where
  "discogs_id entry =
     (case (case map_of entry ''id'' of
              Some (JNum n) \<Rightarrow> num_as_u64 n
            | Some (JStr text) \<Rightarrow> parse_u64 (trim text)
            | _ \<Rightarrow> None) of
        Some i \<Rightarrow> (if i \<ge> 1 then Some i else None)
      | None \<Rightarrow> None)"

definition entity_type :: "jobject \<Rightarrow> string option" where
  "entity_type entry =
     (case (case map_of entry ''entity_type'' of
              Some (JStr text) \<Rightarrow> Some (trim text)
            | Some (JNum n) \<Rightarrow> (if num_is_integer n then Some (num_to_string n) else None)
            | _ \<Rightarrow> None) of
        Some code \<Rightarrow> (if code \<noteq> [] \<and> list_all is_digit code then Some code else None)
      | None \<Rightarrow> None)"

definition company_item_of :: "company_vocab \<Rightarrow> jobject \<Rightarrow> string \<Rightarrow> string \<Rightarrow> company_item" where
  "company_item_of voc entry name role =
     \<lparr>ci_name = name, ci_discogs_id = discogs_id entry, ci_role = role,
      ci_role_category = (case map_of (cv_roles voc) role of
          Some c \<Rightarrow> c | None \<Rightarrow> cv_unmapped_category voc),
      ci_catno = trimmed entry ''catno'',
      ci_source = \<lparr>cs_provider = ''discogs'', cs_entity_type = entity_type entry\<rparr>\<rparr>"

text \<open>The body of the \<open>for\<close> loop, on the pair \<open>(items, unmapped)\<close>.\<close>

definition company_step ::
  "company_vocab \<Rightarrow> json \<Rightarrow> company_item list \<times> string list \<Rightarrow> company_item list \<times> string list" where
  "company_step voc v acc =
     (case as_object v of
        None \<Rightarrow> acc
      | Some entry \<Rightarrow>
          (case (trimmed entry ''name'', trimmed entry ''entity_type_name'') of
             (Some name, Some role) \<Rightarrow>
               (fst acc @ [company_item_of voc entry name role],
                if map_of (cv_roles voc) role = None then snd acc @ [role] else snd acc)
           | _ \<Rightarrow> acc))"

definition map_companies :: "company_vocab \<Rightarrow> json option \<Rightarrow> companies_block" where
  "map_companies voc companies =
     (let (items, unmapped) = fold (company_step voc) (entries companies) ([], []) in
      \<lparr>cb_companies_version = cv_version voc, cb_items = items,
       cb_role_categories = sorted_unique (map ci_role_category items),
       cb_unmapped_roles = sorted_unique unmapped\<rparr>)"

definition map_discogs_companies :: "json option \<Rightarrow> companies_block" where
  "map_discogs_companies = map_companies company_vocabulary"

text \<open>The derived serialisation of the block.\<close>

definition company_item_json :: "company_item \<Rightarrow> json" where
  "company_item_json i =
     jobj [(''name'', JStr (ci_name i)),
           (''discogs_id'', jopt (\<lambda>n. JNum (PosInt n)) (ci_discogs_id i)),
           (''role'', JStr (ci_role i)),
           (''role_category'', JStr (ci_role_category i)),
           (''catno'', jopt JStr (ci_catno i)),
           (''source'', jobj [(''provider'', JStr (cs_provider (ci_source i))),
                              (''entity_type'', jopt JStr (cs_entity_type (ci_source i)))])]"

definition companies_json :: "companies_block \<Rightarrow> json" where
  "companies_json b =
     jobj [(''companies_version'', JStr (cb_companies_version b)),
           (''items'', JArr (map company_item_json (cb_items b))),
           (''role_categories'', jstrs (cb_role_categories b)),
           (''unmapped'', jobj [(''roles'', jstrs (cb_unmapped_roles b))])]"

definition attach_companies_block :: "json \<Rightarrow> json" where
  "attach_companies_block record =
     (case as_object record of
        None \<Rightarrow> record
      | Some m \<Rightarrow>
          JObj (oinsert ''companies'' (companies_json (map_discogs_companies (map_of m ''companies''))) m))"

section \<open>What the block holds\<close>

text \<open>The item an entry gives, if it names a company and a role.\<close>

definition company_of :: "company_vocab \<Rightarrow> json \<Rightarrow> company_item option" where
  "company_of voc v =
     Option.bind (as_object v) (\<lambda>e. Option.bind (trimmed e ''name'') (\<lambda>name.
       map_option (company_item_of voc e name) (trimmed e ''entity_type_name'')))"

definition company_unknown :: "company_vocab \<Rightarrow> company_item \<Rightarrow> string option" where
  "company_unknown voc i = (if map_of (cv_roles voc) (ci_role i) = None then Some (ci_role i) else None)"

interpretation cl: entry_loop "company_step voc" "company_of voc" "company_unknown voc" for voc
  by unfold_locales
    (auto simp: company_step_def company_of_def company_unknown_def company_item_of_def bind_eq_None_conv
      bind_eq_Some_conv split: option.splits if_splits)

lemma map_companies_eq:
  "map_companies voc cs =
     (let items = filter_map (company_of voc) (entries cs) in
      \<lparr>cb_companies_version = cv_version voc, cb_items = items,
       cb_role_categories = sorted_unique (map ci_role_category items),
       cb_unmapped_roles = sorted_unique (filter_map (company_unknown voc) items)\<rparr>)"
  by (simp add: map_companies_def cl.fold_step_Nil Let_def)

text \<open>What every item guarantees to the consumers.\<close>

definition company_item_ok :: "company_vocab \<Rightarrow> company_item \<Rightarrow> bool" where
  "company_item_ok voc i \<longleftrightarrow>
     ci_name i \<noteq> [] \<and> ci_role i \<noteq> []
     \<and> ci_role_category i = (case map_of (cv_roles voc) (ci_role i) of Some c \<Rightarrow> c | None \<Rightarrow> cv_unmapped_category voc)
     \<and> (\<forall>n. ci_discogs_id i = Some n \<longrightarrow> 1 \<le> n)
     \<and> ci_catno i \<noteq> Some []
     \<and> cs_provider (ci_source i) = ''discogs''
     \<and> (\<forall>c. cs_entity_type (ci_source i) = Some c \<longrightarrow> c \<noteq> [] \<and> list_all is_digit c)"

lemma discogs_id_pos: "discogs_id e = Some n \<Longrightarrow> 1 \<le> n"
  by (auto simp: discogs_id_def split: option.splits json.splits if_splits)

lemma entity_type_digits: "entity_type e = Some c \<Longrightarrow> c \<noteq> [] \<and> list_all is_digit c"
  by (auto simp: entity_type_def split: option.splits json.splits if_splits)

lemma company_of_ok: "company_of voc v = Some i \<Longrightarrow> company_item_ok voc i"
proof -
  assume "company_of voc v = Some i"
  then obtain e name role where e: "trimmed e ''name'' = Some name" "trimmed e ''entity_type_name'' = Some role"
      and i: "i = company_item_of voc e name role"
    by (auto simp: company_of_def bind_eq_Some_conv)
  have "name \<noteq> []" "role \<noteq> []" using e by auto
  then show ?thesis
    unfolding i company_item_ok_def company_item_of_def
    using discogs_id_pos entity_type_digits by simp
qed

lemma company_category_closed:
  "company_item_ok company_vocabulary i \<Longrightarrow> ci_role_category i \<in> set company_categories"
proof -
  have "\<forall>c \<in> snd ` set (cv_roles company_vocabulary). c \<in> set company_categories"
    by (simp add: company_vocabulary_def company_categories_def)
  then have "map_of (cv_roles company_vocabulary) r = Some c \<Longrightarrow> c \<in> set company_categories" for r c
    by (force dest: map_of_SomeD)
  moreover have "cv_unmapped_category company_vocabulary \<in> set company_categories"
    by (simp add: company_vocabulary_def company_categories_def)
  ultimately show "company_item_ok company_vocabulary i \<Longrightarrow> ci_role_category i \<in> set company_categories"
    by (auto simp: company_item_ok_def split: option.splits)
qed

section \<open>Properties\<close>

text \<open>
  The companies block is exact.  Its items are the readable entries of the raw list, in
  source order and one each; every item has a name, a role, a category of the closed
  vocabulary, a positive id if any and a digit-string code if any; the category list is the
  strictly increasing list of the items' categories, and the unmapped list is the strictly
  increasing list of exactly those roles the vocabulary does not know.
\<close>

theorem companies_block_exact:
  "let b = map_discogs_companies cs; voc = company_vocabulary in
     cb_items b = filter_map (company_of voc) (entries cs)
     \<and> list_all (\<lambda>i. company_item_ok voc i \<and> ci_role_category i \<in> set company_categories) (cb_items b)
     \<and> sorted_wrt (<) (cb_role_categories b)
     \<and> set (cb_role_categories b) = ci_role_category ` set (cb_items b)
     \<and> sorted_wrt (<) (cb_unmapped_roles b)
     \<and> set (cb_unmapped_roles b) = {ci_role i |i. i \<in> set (cb_items b) \<and> map_of (cv_roles voc) (ci_role i) = None}"
proof -
  have ok: "list_all (\<lambda>i. company_item_ok company_vocabulary i \<and> ci_role_category i \<in> set company_categories)
      (filter_map (company_of company_vocabulary) (entries cs))"
    by (auto simp: list_all_iff set_filter_map dest: company_of_ok intro: company_category_closed)
  have unknown: "set (filter_map (company_unknown company_vocabulary) items) =
      {ci_role i |i. i \<in> set items \<and> map_of (cv_roles company_vocabulary) (ci_role i) = None}" for items
    by (auto simp: set_filter_map company_unknown_def split: if_splits)
  show ?thesis
    by (simp add: map_discogs_companies_def map_companies_eq Let_def ok unknown sorted_unique_strict)
qed

lemma json_wf_company_item:
  "(\<And>n. ci_discogs_id i = Some n \<Longrightarrow> n < 2 ^ 64) \<Longrightarrow> json_wf (company_item_json i)"
  by (auto simp: company_item_json_def intro!: json_wf_jobj json_wf_jopt)

lemma discogs_id_u64: "obj_wf e \<Longrightarrow> discogs_id e = Some n \<Longrightarrow> n < 2 ^ 64"
proof -
  assume wf: "obj_wf e" and id: "discogs_id e = Some n"
  have "num_as_u64 k = Some n \<Longrightarrow> json_wf (JNum k) \<Longrightarrow> n < 2 ^ 64" for k
    by (cases k) auto
  with id obj_wf_get [OF wf, of "''id''"] show "n < 2 ^ 64"
    by (auto simp: discogs_id_def dest: parse_u64_bound split: option.splits json.splits if_splits)
qed

lemma json_wf_companies [wf_intros]:
  assumes "\<And>v. cs = Some v \<Longrightarrow> json_wf v"
  shows "json_wf (companies_json (map_companies voc cs))"
proof -
  have "json_wf e" if "e \<in> set (entries cs)" for e
    using assms that by (rule json_wf_entries)
  then have "json_wf (company_item_json i)" if "i \<in> set (filter_map (company_of voc) (entries cs))" for i
    using that discogs_id_u64
    by (fastforce simp: set_filter_map company_of_def company_item_of_def as_object_Some bind_eq_Some_conv
        intro: json_wf_company_item)
  then show ?thesis
    by (auto simp: companies_json_def map_companies_eq Let_def list_all_iff
        intro!: json_wf_jobj)
qed

lemma attach_companies_object:
  "attach_companies_block (JObj m) =
     JObj (oinsert ''companies'' (companies_json (map_discogs_companies (map_of m ''companies''))) m)"
  by (simp add: attach_companies_block_def)

lemma json_wf_attach_companies [wf_intros]: "json_wf r \<Longrightarrow> json_wf (attach_companies_block r)"
  by (auto simp: attach_companies_block_def map_discogs_companies_def as_object_Some
      intro!: obj_wf_oinsert json_wf_companies dest: obj_wf_get split: option.splits)

text \<open>
  The companies block does not depend on the entries that name no credit: dropping every
  entry without a name or a role, wherever it stands, leaves the block as it is.
\<close>

theorem companies_ignore_unreadable:
  "map_discogs_companies (Some (JArr (filter (\<lambda>v. company_of company_vocabulary v \<noteq> None) es)))
     = map_discogs_companies (Some (JArr es))"
proof -
  have "filter_map f (filter (\<lambda>v. f v \<noteq> None) es) = filter_map f es" for f :: "json \<Rightarrow> company_item option"
    by (induction es) auto
  then show ?thesis
    by (simp only: map_discogs_companies_def map_companies_eq entries_Some_JArr)
qed

end
