(* ===== verification/Identifiers.thy ===== *)
theory Identifiers
  imports Companies
begin

text \<open>
  \<open>src/discogs/identifiers.rs\<close>: the identifiers block of a release, built from its raw
  identifiers and from the catalogue numbers of its labels, and the provider aliases the
  release mints.  The vocabulary is indexed as the source does it
  (\<open>From<VocabularyDocument>\<close>); \<open>identifier_document\<close> is the vendored document.
  \<open>to_upper\<close> is the upper-casing of Unicode strings, whose tables are a parameter.
\<close>

section \<open>The vocabulary\<close>

record type_definition =
  td_id :: string
  td_alias_provider :: "string option"

record alias_namespace =
  an_provider :: string
  an_type_id :: string
  an_normalization :: string

record vocabulary_document =
  id_vocabulary_version :: string
  id_unmapped_type :: string
  id_identifier_types :: "type_definition list"
  id_alias_namespaces :: "alias_namespace list"
  id_identifier_field :: "string option"
  id_catalog_number_field :: "string option"
  id_absent_catalog_number :: "string option"
  id_types :: "(string \<times> string) list"

record identifier_vocab =
  iv_version :: string
  iv_unmapped_type :: string
  iv_namespaces :: "(string, alias_namespace) omap"
  iv_identifier_field :: string
  iv_catalog_number_field :: string
  iv_absent_catalog_number :: string
  iv_types :: "(string \<times> string) list"

text \<open>
  A namespace counts only when the type that declares it agrees.
\<close>

definition declared_types :: "type_definition list \<Rightarrow> (string, string option) omap" where
  "declared_types ds = ocollect (map (\<lambda>d. (td_id d, td_alias_provider d)) ds)"

definition identifier_vocab_of :: "vocabulary_document \<Rightarrow> identifier_vocab" where
  "identifier_vocab_of doc =
     (let declared = declared_types (id_identifier_types doc);
          agreed = filter (\<lambda>n. map_of declared (an_type_id n) = Some (Some (an_provider n)))
                     (id_alias_namespaces doc)
      in \<lparr>iv_version = id_vocabulary_version doc,
          iv_unmapped_type = id_unmapped_type doc,
          iv_namespaces = ocollect (map (\<lambda>n. (an_type_id n, n)) agreed),
          iv_identifier_field =
            (case id_identifier_field doc of Some f \<Rightarrow> f | None \<Rightarrow> ''identifiers''),
          iv_catalog_number_field =
            (case id_catalog_number_field doc of Some f \<Rightarrow> f | None \<Rightarrow> ''labels[].catno''),
          iv_absent_catalog_number =
            ascii_lower (case id_absent_catalog_number doc of Some a \<Rightarrow> a | None \<Rightarrow> []),
          iv_types = id_types doc\<rparr>)"

definition identifier_document :: vocabulary_document where
  "identifier_document =
     \<lparr>id_vocabulary_version = ''1'',
      id_unmapped_type = ''other'',
      id_identifier_types =
        [\<lparr>td_id = ''barcode'', td_alias_provider = Some ''barcode''\<rparr>,
         \<lparr>td_id = ''matrix_runout'', td_alias_provider = Some ''matrix''\<rparr>,
         \<lparr>td_id = ''label_code'', td_alias_provider = None\<rparr>,
         \<lparr>td_id = ''rights_society'', td_alias_provider = None\<rparr>,
         \<lparr>td_id = ''asin'', td_alias_provider = None\<rparr>,
         \<lparr>td_id = ''other'', td_alias_provider = None\<rparr>,
         \<lparr>td_id = ''catalog_number'', td_alias_provider = Some ''catalog_number''\<rparr>],
      id_alias_namespaces =
        [\<lparr>an_provider = ''barcode'', an_type_id = ''barcode'', an_normalization = ''digits_only''\<rparr>,
         \<lparr>an_provider = ''catalog_number'', an_type_id = ''catalog_number'',
          an_normalization = ''upper_collapse_space''\<rparr>,
         \<lparr>an_provider = ''matrix'', an_type_id = ''matrix_runout'', an_normalization = ''collapse_space''\<rparr>],
      id_identifier_field = Some ''identifiers'',
      id_catalog_number_field = Some ''labels[].catno'',
      id_absent_catalog_number = Some ''none'',
      id_types =
        [(''ASIN'', ''asin''), (''Barcode'', ''barcode''), (''ISRC'', ''other''),
         (''Label Code'', ''label_code''), (''Mastering SID Code'', ''other''),
         (''Matrix / Runout'', ''matrix_runout''), (''Mould SID Code'', ''other''),
         (''Other'', ''other''), (''Pressing Plant ID'', ''other''), (''Price Code'', ''other''),
         (''Rights Society'', ''rights_society''), (''SPARS Code'', ''other'')]\<rparr>"

definition identifier_vocabulary :: identifier_vocab where
  "identifier_vocabulary = identifier_vocab_of identifier_document"

section \<open>The block\<close>

record identifier_source =
  is_provider :: string
  is_type_name :: "string option"
  is_field :: string

record identifier_item =
  ii_type_id :: string
  ii_value :: string
  ii_description :: "string option"
  ii_source :: identifier_source

datatype identifier_alias = IdentifierAlias (ia_provider: string) (ia_external_id: string)

text \<open>The derived order: by provider, then by external id.\<close>

instantiation identifier_alias :: linorder
begin

definition less_eq_identifier_alias :: "identifier_alias \<Rightarrow> identifier_alias \<Rightarrow> bool" where
  "less_eq_identifier_alias a b \<longleftrightarrow>
     ia_provider a < ia_provider b
     \<or> ia_provider a = ia_provider b \<and> ia_external_id a \<le> ia_external_id b"

definition less_identifier_alias :: "identifier_alias \<Rightarrow> identifier_alias \<Rightarrow> bool" where
  "less_identifier_alias a b \<longleftrightarrow>
     ia_provider a < ia_provider b
     \<or> ia_provider a = ia_provider b \<and> ia_external_id a < ia_external_id b"

instance
  by standard
    (auto simp: less_eq_identifier_alias_def less_identifier_alias_def intro: identifier_alias.expand)

end

record identifiers_block =
  ib_identifiers_version :: string
  ib_items :: "identifier_item list"
  ib_types :: "string list"
  ib_aliases :: "identifier_alias list"
  ib_unmapped_types :: "string list"

section \<open>Alias values\<close>

definition collapse_space :: "string \<Rightarrow> string" where
  "collapse_space value = join '' '' (split_whitespace value)"

definition normalize_alias_value :: "(string \<Rightarrow> string) \<Rightarrow> string \<Rightarrow> string \<Rightarrow> string option" where
  "normalize_alias_value to_upper normalization value =
     (case (if normalization = ''digits_only'' then Some (filter is_digit value)
            else if normalization = ''collapse_space'' then Some (collapse_space value)
            else if normalization = ''upper_collapse_space'' then Some (to_upper (collapse_space value))
            else None) of
        None \<Rightarrow> None
      | Some normalized \<Rightarrow> (if normalized = [] then None else Some normalized))"

section \<open>The mapper\<close>

definition identifier_item_of :: "identifier_vocab \<Rightarrow> jobject \<Rightarrow> string \<Rightarrow> string \<Rightarrow> identifier_item" where
  "identifier_item_of voc entry raw_type value =
     \<lparr>ii_type_id = (case map_of (iv_types voc) raw_type of
          Some t \<Rightarrow> t | None \<Rightarrow> iv_unmapped_type voc),
      ii_value = value,
      ii_description = trimmed entry ''description'',
      ii_source = \<lparr>is_provider = ''discogs'', is_type_name = Some raw_type,
                   is_field = iv_identifier_field voc\<rparr>\<rparr>"

text \<open>The two loop bodies.\<close>

definition identifier_step ::
  "identifier_vocab \<Rightarrow> json \<Rightarrow> identifier_item list \<times> string list \<Rightarrow> identifier_item list \<times> string list" where
  "identifier_step voc v acc =
     (case as_object v of
        None \<Rightarrow> acc
      | Some entry \<Rightarrow>
          (case (trimmed entry ''type'', trimmed entry ''value'') of
             (Some raw_type, Some value) \<Rightarrow>
               (fst acc @ [identifier_item_of voc entry raw_type value],
                if map_of (iv_types voc) raw_type = None then snd acc @ [raw_type] else snd acc)
           | _ \<Rightarrow> acc))"

definition catalog_step :: "identifier_vocab \<Rightarrow> json \<Rightarrow> identifier_item list \<Rightarrow> identifier_item list" where
  "catalog_step voc v items =
     (case as_object v of
        None \<Rightarrow> items
      | Some entry \<Rightarrow>
          (case trimmed entry ''catno'' of
             None \<Rightarrow> items
           | Some catalog_number \<Rightarrow>
               (if ascii_lower catalog_number = iv_absent_catalog_number voc then items
                else items @
                  [\<lparr>ii_type_id = ''catalog_number'', ii_value = catalog_number, ii_description = None,
                    ii_source = \<lparr>is_provider = ''discogs'', is_type_name = None,
                                 is_field = iv_catalog_number_field voc\<rparr>\<rparr>])))"

definition alias_of :: "(string \<Rightarrow> string) \<Rightarrow> identifier_vocab \<Rightarrow> identifier_item \<Rightarrow> identifier_alias option" where
  "alias_of to_upper voc item =
     (case map_of (iv_namespaces voc) (ii_type_id item) of
        None \<Rightarrow> None
      | Some namespace \<Rightarrow>
          map_option (IdentifierAlias (an_provider namespace))
            (normalize_alias_value to_upper (an_normalization namespace) (ii_value item)))"

definition map_identifiers ::
  "(string \<Rightarrow> string) \<Rightarrow> identifier_vocab \<Rightarrow> json option \<Rightarrow> json option \<Rightarrow> identifiers_block" where
  "map_identifiers to_upper voc identifiers labels =
     (let (items1, unmapped) = fold (identifier_step voc) (entries identifiers) ([], []);
          items = fold (catalog_step voc) (entries labels) items1
      in \<lparr>ib_identifiers_version = iv_version voc, ib_items = items,
          ib_types = sorted_unique (map ii_type_id items),
          ib_aliases = sorted_unique (filter_map (alias_of to_upper voc) items),
          ib_unmapped_types = sorted_unique unmapped\<rparr>)"

definition map_discogs_identifiers ::
  "(string \<Rightarrow> string) \<Rightarrow> json option \<Rightarrow> json option \<Rightarrow> identifiers_block" where
  "map_discogs_identifiers to_upper = map_identifiers to_upper identifier_vocabulary"

definition identifier_item_json :: "identifier_item \<Rightarrow> json" where
  "identifier_item_json i =
     jobj [(''type'', JStr (ii_type_id i)),
           (''value'', JStr (ii_value i)),
           (''description'', jopt JStr (ii_description i)),
           (''source'', jobj [(''provider'', JStr (is_provider (ii_source i))),
                              (''type'', jopt JStr (is_type_name (ii_source i))),
                              (''field'', JStr (is_field (ii_source i)))])]"

definition alias_json :: "identifier_alias \<Rightarrow> json" where
  "alias_json a =
     jobj [(''provider'', JStr (ia_provider a)), (''external_id'', JStr (ia_external_id a))]"

definition identifiers_json :: "identifiers_block \<Rightarrow> json" where
  "identifiers_json b =
     jobj [(''identifiers_version'', JStr (ib_identifiers_version b)),
           (''items'', JArr (map identifier_item_json (ib_items b))),
           (''types'', jstrs (ib_types b)),
           (''aliases'', JArr (map alias_json (ib_aliases b))),
           (''unmapped'', jobj [(''types'', jstrs (ib_unmapped_types b))])]"

definition attach_identifiers_block :: "(string \<Rightarrow> string) \<Rightarrow> json \<Rightarrow> json" where
  "attach_identifiers_block to_upper record =
     (case as_object record of
        None \<Rightarrow> record
      | Some m \<Rightarrow>
          JObj (oinsert ''identifiers''
            (identifiers_json (map_discogs_identifiers to_upper (map_of m ''identifiers'') (map_of m ''labels''))) m))"

section \<open>What the block holds\<close>

definition identifier_of :: "identifier_vocab \<Rightarrow> json \<Rightarrow> identifier_item option" where
  "identifier_of voc v =
     Option.bind (as_object v) (\<lambda>e. Option.bind (trimmed e ''type'') (\<lambda>t.
       map_option (identifier_item_of voc e t) (trimmed e ''value'')))"

text \<open>The raw type of an item the vocabulary does not know.\<close>

definition identifier_unknown :: "identifier_vocab \<Rightarrow> identifier_item \<Rightarrow> string option" where
  "identifier_unknown voc i =
     Option.bind (is_type_name (ii_source i)) (\<lambda>t. if map_of (iv_types voc) t = None then Some t else None)"

definition catalog_item_of :: "identifier_vocab \<Rightarrow> json \<Rightarrow> identifier_item option" where
  "catalog_item_of voc v =
     Option.bind (as_object v) (\<lambda>e. Option.bind (trimmed e ''catno'') (\<lambda>n.
       if ascii_lower n = iv_absent_catalog_number voc then None
       else Some \<lparr>ii_type_id = ''catalog_number'', ii_value = n, ii_description = None,
              ii_source = \<lparr>is_provider = ''discogs'', is_type_name = None,
                           is_field = iv_catalog_number_field voc\<rparr>\<rparr>))"

interpretation il: entry_loop "identifier_step voc" "identifier_of voc" "identifier_unknown voc" for voc
  by unfold_locales
    (auto simp: identifier_step_def identifier_of_def identifier_unknown_def identifier_item_of_def
      bind_eq_None_conv bind_eq_Some_conv split: option.splits if_splits)

lemma fold_catalog_step: "fold (catalog_step voc) es items = items @ filter_map (catalog_item_of voc) es"
  by (induction es arbitrary: items)
    (auto simp: catalog_step_def catalog_item_of_def split: option.splits)

lemma map_identifiers_eq:
  "map_identifiers up voc ids labels =
     (let raw = filter_map (identifier_of voc) (entries ids);
          items = raw @ filter_map (catalog_item_of voc) (entries labels)
      in \<lparr>ib_identifiers_version = iv_version voc, ib_items = items,
          ib_types = sorted_unique (map ii_type_id items),
          ib_aliases = sorted_unique (filter_map (alias_of up voc) items),
          ib_unmapped_types = sorted_unique (filter_map (identifier_unknown voc) raw)\<rparr>)"
  by (simp add: map_identifiers_def il.fold_step_Nil fold_catalog_step Let_def)

section \<open>The vendored vocabulary\<close>

lemma identifier_namespaces:
  "map_of (iv_namespaces identifier_vocabulary) t =
     (if t = ''barcode'' then Some \<lparr>an_provider = ''barcode'', an_type_id = ''barcode'', an_normalization = ''digits_only''\<rparr>
      else if t = ''catalog_number'' then
        Some \<lparr>an_provider = ''catalog_number'', an_type_id = ''catalog_number'', an_normalization = ''upper_collapse_space''\<rparr>
      else if t = ''matrix_runout'' then
        Some \<lparr>an_provider = ''matrix'', an_type_id = ''matrix_runout'', an_normalization = ''collapse_space''\<rparr>
      else None)"
  by (simp add: identifier_vocabulary_def identifier_vocab_of_def identifier_document_def Let_def
      declared_types_def ocollect_def)

text \<open>The external id each minting type gives, and the namespace it is minted into.\<close>

definition minted :: "(string \<Rightarrow> string) \<Rightarrow> string \<Rightarrow> string \<Rightarrow> (string \<times> string) option" where
  "minted up type_id value =
     (if type_id = ''barcode'' then Some (''barcode'', filter is_digit value)
      else if type_id = ''catalog_number'' then Some (''catalog_number'', up (collapse_space value))
      else if type_id = ''matrix_runout'' then Some (''matrix'', collapse_space value)
      else None)"

lemma alias_of_vocabulary:
  "alias_of up identifier_vocabulary i =
     (case minted up (ii_type_id i) (ii_value i) of
        Some (p, x) \<Rightarrow> (if x = [] then None else Some (IdentifierAlias p x))
      | None \<Rightarrow> None)"
  by (simp add: alias_of_def identifier_namespaces minted_def normalize_alias_value_def)

definition identifier_type_ids :: "string list" where
  "identifier_type_ids = map td_id (id_identifier_types identifier_document)"

lemma identifier_types_closed:
  "map_of (iv_types identifier_vocabulary) t = Some c \<Longrightarrow>
     c \<in> set identifier_type_ids \<and> c \<noteq> ''catalog_number''"
proof -
  have "\<forall>c \<in> snd ` set (iv_types identifier_vocabulary). c \<in> set identifier_type_ids \<and> c \<noteq> ''catalog_number''"
    by (simp add: identifier_vocabulary_def identifier_vocab_of_def identifier_document_def Let_def
        identifier_type_ids_def)
  then show "map_of (iv_types identifier_vocabulary) t = Some c \<Longrightarrow> ?thesis"
    by (force dest: map_of_SomeD)
qed

lemma identifier_unmapped_type: "iv_unmapped_type identifier_vocabulary = ''other''"
  by (simp add: identifier_vocabulary_def identifier_vocab_of_def identifier_document_def Let_def)

lemma other_declared: "''other'' \<in> set identifier_type_ids" "''catalog_number'' \<in> set identifier_type_ids"
  by (simp_all add: identifier_type_ids_def identifier_document_def)

lemma identifier_vocab_lower: "iv_absent_catalog_number identifier_vocabulary = ''none''"
  by (simp add: identifier_vocabulary_def identifier_vocab_of_def identifier_document_def Let_def
      ascii_lower_def ascii_lower_char_def byte_def)

text \<open>What every item guarantees to the consumers.\<close>

definition identifier_item_ok :: "identifier_item \<Rightarrow> bool" where
  "identifier_item_ok i \<longleftrightarrow>
     ii_value i \<noteq> [] \<and> ii_type_id i \<in> set identifier_type_ids \<and> ii_description i \<noteq> Some []
     \<and> is_provider (ii_source i) = ''discogs''
     \<and> (ii_type_id i = ''catalog_number'' \<longleftrightarrow> is_type_name (ii_source i) = None)
     \<and> is_type_name (ii_source i) \<noteq> Some []
     \<and> (ii_type_id i = ''catalog_number'' \<longrightarrow> ascii_lower (ii_value i) \<noteq> ''none'')"

lemma identifier_of_ok: "identifier_of identifier_vocabulary v = Some i \<Longrightarrow> identifier_item_ok i"
proof -
  assume "identifier_of identifier_vocabulary v = Some i"
  then obtain e t x where e: "trimmed e ''type'' = Some t" "trimmed e ''value'' = Some x"
      and i: "i = identifier_item_of identifier_vocabulary e t x"
    by (auto simp: identifier_of_def bind_eq_Some_conv)
  have "t \<noteq> []" "x \<noteq> []" using e by auto
  then show ?thesis
    unfolding i identifier_item_ok_def identifier_item_of_def
    using identifier_types_closed other_declared
    by (auto simp: identifier_unmapped_type split: option.splits)
qed

lemma catalog_item_of_ok: "catalog_item_of identifier_vocabulary v = Some i \<Longrightarrow> identifier_item_ok i"
  unfolding catalog_item_of_def identifier_item_ok_def bind_eq_Some_conv identifier_vocab_lower
  using other_declared by (auto split: if_splits)

lemma alias_of_Some:
  "alias_of up identifier_vocabulary i = Some a \<longleftrightarrow>
     (\<exists>p x. minted up (ii_type_id i) (ii_value i) = Some (p, x) \<and> x \<noteq> [] \<and> a = IdentifierAlias p x)"
  unfolding alias_of_vocabulary
  by (cases "minted up (ii_type_id i) (ii_value i)") (auto split: if_splits)

lemma set_alias_of:
  "set (filter_map (alias_of up identifier_vocabulary) items) =
     {IdentifierAlias p x |p x i. i \<in> set items \<and> minted up (ii_type_id i) (ii_value i) = Some (p, x) \<and> x \<noteq> []}"
  unfolding set_filter_map alias_of_Some by blast

section \<open>Properties\<close>

text \<open>
  The identifiers block is exact.  Its items are the readable raw identifiers in source
  order followed by the catalogue numbers of the labels in source order; every item has a
  value and a type of the closed vocabulary, and is typed \<open>catalog_number\<close> just when no raw
  type names it; the type list and the unmapped list are strictly increasing and hold exactly
  the item types and the raw types the vocabulary does not know.
\<close>

theorem identifiers_block_exact:
  "let b = map_discogs_identifiers up ids labels; voc = identifier_vocabulary in
     ib_items b = filter_map (identifier_of voc) (entries ids) @ filter_map (catalog_item_of voc) (entries labels)
     \<and> list_all identifier_item_ok (ib_items b)
     \<and> sorted_wrt (<) (ib_types b) \<and> set (ib_types b) = ii_type_id ` set (ib_items b)
     \<and> sorted_wrt (<) (ib_unmapped_types b)
     \<and> set (ib_unmapped_types b) =
         {t. map_of (iv_types voc) t = None \<and> (\<exists>i \<in> set (ib_items b). is_type_name (ii_source i) = Some t)}"
proof -
  have ok: "list_all identifier_item_ok (filter_map (identifier_of identifier_vocabulary) (entries ids))"
    "list_all identifier_item_ok (filter_map (catalog_item_of identifier_vocabulary) (entries labels))"
    by (auto simp: list_all_iff set_filter_map intro: identifier_of_ok catalog_item_of_ok)
  have catalog: "i \<in> set (filter_map (catalog_item_of voc) es) \<Longrightarrow> is_type_name (ii_source i) = None"
    for i voc es
    by (auto simp: set_filter_map catalog_item_of_def bind_eq_Some_conv split: if_splits)
  have unmapped: "set (filter_map (identifier_unknown voc) raw) =
      {t. map_of (iv_types voc) t = None \<and> (\<exists>i \<in> set raw. is_type_name (ii_source i) = Some t)}" for voc raw
    by (auto simp: set_filter_map identifier_unknown_def bind_eq_Some_conv split: if_splits)
  show ?thesis
    using ok catalog
    by (auto simp: map_discogs_identifiers_def map_identifiers_eq Let_def sorted_unique_strict unmapped
        list_all_append)
qed

text \<open>
  C32: the aliases of a release are exactly the values its barcodes, catalogue numbers and
  matrix inscriptions normalise to, blank ones left out, in strictly increasing order; no
  other type mints one.
\<close>

theorem identifier_aliases_exact:
  "let b = map_discogs_identifiers up ids labels in
     sorted_wrt (<) (ib_aliases b)
     \<and> set (ib_aliases b) =
         {IdentifierAlias p x |p x i. i \<in> set (ib_items b)
            \<and> minted up (ii_type_id i) (ii_value i) = Some (p, x) \<and> x \<noteq> []}"
  by (simp add: map_discogs_identifiers_def map_identifiers_eq Let_def sorted_unique_strict
      set_alias_of del: filter_map_append flip: set_append)

text \<open>
  Collapsing the white space of an alias value is a normal form: it keeps the words, a
  second application changes nothing, and two spellings with the same words mint the same
  external id under both collapsing rules.
\<close>

theorem collapse_space_normal_form:
  assumes "utf8 v"
  shows "split_whitespace (collapse_space v) = split_whitespace v
     \<and> collapse_space (collapse_space v) = collapse_space v
     \<and> (split_whitespace w = split_whitespace v \<longrightarrow>
          normalize_alias_value up ''collapse_space'' w = normalize_alias_value up ''collapse_space'' v
          \<and> normalize_alias_value up ''upper_collapse_space'' w = normalize_alias_value up ''upper_collapse_space'' v)"
  using split_whitespace_join [OF assms]
  by (simp add: collapse_space_def normalize_alias_value_def)

theorem collapse_space_normal_form_witness:
  "split_whitespace (collapse_space ''  A1   B2 '') = split_whitespace ''  A1   B2 ''
     \<and> normalize_alias_value (\<lambda>s. s) ''collapse_space'' ''A1 B2'' = normalize_alias_value (\<lambda>s. s) ''collapse_space'' ''  A1   B2 ''"
proof -
  have "utf8 ''  A1   B2 ''" by (simp add: utf8_iff is_cont_def byte_def)
  moreover have "split_whitespace ''A1 B2'' = split_whitespace ''  A1   B2 ''" by code_simp
  ultimately show ?thesis using collapse_space_normal_form [of "''  A1   B2 ''" "''A1 B2''" "\<lambda>s. s"] by simp
qed

section \<open>The record the block is attached to\<close>

lemma json_wf_identifiers [wf_intros]: "json_wf (identifiers_json b)"
  by (auto simp: identifiers_json_def identifier_item_json_def alias_json_def list_all_iff
      intro!: json_wf_jobj json_wf_jopt)

lemma attach_identifiers_object:
  "attach_identifiers_block up (JObj m) =
     JObj (oinsert ''identifiers''
       (identifiers_json (map_discogs_identifiers up (map_of m ''identifiers'') (map_of m ''labels''))) m)"
  by (simp add: attach_identifiers_block_def)

lemma json_wf_attach_identifiers [wf_intros]: "json_wf r \<Longrightarrow> json_wf (attach_identifiers_block up r)"
  by (auto simp: attach_identifiers_block_def as_object_Some json_wf_identifiers
      intro!: obj_wf_oinsert split: option.splits)

end
