(* ===== verification/Media.thy ===== *)
theory Media
  imports Identifiers
begin

text \<open>
  \<open>src/discogs/media.rs\<close>: the media block of a release.  The taxonomy is a record (the
  parsed \<open>media-taxonomy.json\<close>), its three lookup tables association lists.  A mutable item or
  block of the source is a record passed along and returned updated; an item that a format
  entry may or may not produce is an option.
\<close>

section \<open>The taxonomy\<close>

record resolve_rule =
  rr_attribute :: string
  rr_map :: "(string \<times> string) list"

record medium_definition =
  md_family :: string
  md_defaults :: jobject

record format_entry =
  fe_family :: "string option"
  fe_medium :: "string option"
  fe_variant :: "string option"
  fe_container :: "string option"
  fe_flag :: "string option"

record description_rule =
  dr_target :: string
  dr_value :: json

record taxonomy =
  tx_version :: string
  tx_families :: "(string \<times> resolve_rule option) list"
  tx_media :: "(string \<times> medium_definition) list"
  tx_formats :: "(string \<times> format_entry) list"
  tx_descriptions :: "(string \<times> description_rule) list"

section \<open>The block\<close>

record item_source =
  ms_provider :: string
  ms_name :: "string option"
  ms_descriptions :: "string list"
  ms_text :: "string option"

record media_item =
  mi_family :: "string option"
  mi_medium :: "string option"
  mi_qty :: nat
  mi_size_inches :: "jnum option"
  mi_speed_rpm :: "jnum option"
  mi_channels :: "string option"
  mi_codec :: "string option"
  mi_variants :: "string list"
  mi_appearance :: "string list"
  mi_position :: "int option"
  mi_track_count :: "int option"
  mi_source :: item_source

record media_block =
  mb_taxonomy_version :: string
  mb_items :: "media_item list"
  mb_families :: "string list"
  mb_release_kind :: "string option"
  mb_traits :: "string list"
  mb_edition :: "string list"
  mb_packaging :: "string option"
  mb_container :: "string option"
  mb_flags :: "string list"
  mb_unmapped_formats :: "string list"
  mb_unmapped_descriptions :: "string list"

definition media_item_new :: "string option \<Rightarrow> string list \<Rightarrow> string option \<Rightarrow> media_item" where
  "media_item_new name descriptions txt =
     \<lparr>mi_family = None, mi_medium = None, mi_qty = 1, mi_size_inches = None, mi_speed_rpm = None,
      mi_channels = None, mi_codec = None, mi_variants = [], mi_appearance = [],
      mi_position = None, mi_track_count = None,
      mi_source = \<lparr>ms_provider = ''discogs'', ms_name = name, ms_descriptions = descriptions,
                   ms_text = txt\<rparr>\<rparr>"

definition media_block_empty :: "taxonomy \<Rightarrow> media_block" where
  "media_block_empty tax =
     \<lparr>mb_taxonomy_version = tx_version tax, mb_items = [], mb_families = [], mb_release_kind = None,
      mb_traits = [], mb_edition = [], mb_packaging = None, mb_container = None, mb_flags = [],
      mb_unmapped_formats = [], mb_unmapped_descriptions = []\<rparr>"

text \<open>\<open>fill\<close>: the slot keeps the value it has.\<close>

definition fill :: "'a option \<Rightarrow> 'a option \<Rightarrow> 'a option" where
  "fill slot value = (case slot of None \<Rightarrow> value | Some s \<Rightarrow> Some s)"

definition fill_attribute :: "string \<Rightarrow> json \<Rightarrow> media_item \<Rightarrow> media_item" where
  "fill_attribute attribute value i =
     (if attribute = ''size_inches'' then i\<lparr>mi_size_inches := fill (mi_size_inches i) (as_number value)\<rparr>
      else if attribute = ''speed_rpm'' then i\<lparr>mi_speed_rpm := fill (mi_speed_rpm i) (as_number value)\<rparr>
      else if attribute = ''channels'' then i\<lparr>mi_channels := fill (mi_channels i) (as_str value)\<rparr>
      else if attribute = ''codec'' then i\<lparr>mi_codec := fill (mi_codec i) (as_str value)\<rparr>
      else i)"

definition attribute_key :: "string \<Rightarrow> media_item \<Rightarrow> string option" where
  "attribute_key attribute i =
     (if attribute = ''size_inches'' then map_option num_to_string (mi_size_inches i)
      else if attribute = ''speed_rpm'' then map_option num_to_string (mi_speed_rpm i)
      else if attribute = ''channels'' then mi_channels i
      else if attribute = ''codec'' then mi_codec i
      else None)"

definition item_attributes :: "string list" where
  "item_attributes = [''size_inches'', ''speed_rpm'', ''channels'', ''codec'']"

section \<open>Reading a format object\<close>

lemma size_map_of: "map_of m k = Some v \<Longrightarrow> size v < Suc (size_list (size_prod (\<lambda>_. 0) size) m)"
  by (induction m) (auto split: if_splits)

function flatten_value :: "json \<Rightarrow> string list" where
  "flatten_value (JArr items) = filter_map as_str items"
| "flatten_value (JStr txt) = [txt]"
| "flatten_value (JObj m) =
     (case map_of m ''description'' of Some nested \<Rightarrow> flatten_value nested | None \<Rightarrow> [])"
| "flatten_value JNull = []"
| "flatten_value (JBool b) = []"
| "flatten_value (JNum n) = []"
  by pat_completeness auto
termination
  by (relation "measure size") (auto dest!: size_map_of)

definition flatten_descriptions :: "json option \<Rightarrow> string list" where
  "flatten_descriptions value = (case value of Some v \<Rightarrow> flatten_value v | None \<Rightarrow> [])"

text \<open>The parsed magnitude must fit an \<open>i64\<close>.\<close>

definition parse_leading_integer :: "string \<Rightarrow> int option" where
  "parse_leading_integer txt =
     (let trimmed_text = trim_start txt;
          (negative, rest) =
            (case strip_prefix ''-'' trimmed_text of
               Some rest \<Rightarrow> (True, rest)
             | None \<Rightarrow> (False, case strip_prefix ''+'' trimmed_text of Some r \<Rightarrow> r | None \<Rightarrow> trimmed_text));
          digits = takeWhile is_digit rest
      in if digits = [] \<or> digits_value digits \<ge> 2 ^ 63 then None
         else Some (if negative then - int (digits_value digits) else int (digits_value digits)))"

text \<open>
  The text of an array or an object starts with its bracket, which is all the integer reader
  looks at.
\<close>

fun qty_text :: "json option \<Rightarrow> string" where
  "qty_text None = ''1''"
| "qty_text (Some JNull) = ''1''"
| "qty_text (Some (JStr txt)) = txt"
| "qty_text (Some (JNum n)) = num_to_string n"
| "qty_text (Some (JBool b)) = (if b then ''true'' else ''false'')"
| "qty_text (Some (JArr xs)) = ''[''"
| "qty_text (Some (JObj m)) = ''{''"

definition parse_qty :: "json option \<Rightarrow> nat" where
  "parse_qty value =
     (case parse_leading_integer (qty_text value) of
        Some qty \<Rightarrow> (if qty \<ge> 1 then nat qty else 1)
      | None \<Rightarrow> 1)"

section \<open>The mapper\<close>

definition apply_format_entry :: "media_block \<Rightarrow> format_entry \<Rightarrow> media_item \<Rightarrow> media_block \<times> media_item option" where
  "apply_format_entry b entry item =
     (let b1 = (case fe_container entry of Some c \<Rightarrow> b\<lparr>mb_container := Some c\<rparr> | None \<Rightarrow> b);
          b2 = (case fe_flag entry of Some f \<Rightarrow> b1\<lparr>mb_flags := mb_flags b1 @ [f]\<rparr> | None \<Rightarrow> b1)
      in if fe_family entry = None \<and> fe_medium entry = None then (b2, None)
         else
           (let i1 = (case fe_medium entry of Some m \<Rightarrow> item\<lparr>mi_medium := Some m\<rparr> | None \<Rightarrow> item);
                i2 = (case fe_family entry of Some f \<Rightarrow> i1\<lparr>mi_family := Some f\<rparr> | None \<Rightarrow> i1);
                i3 = (case fe_variant entry of
                        Some v \<Rightarrow> i2\<lparr>mi_variants := mi_variants i2 @ [v]\<rparr> | None \<Rightarrow> i2)
            in (b2, Some i3)))"

definition finish_family :: "taxonomy \<Rightarrow> media_item \<Rightarrow> media_item" where
  "finish_family tax item =
     (case mi_medium item of
        Some medium_id \<Rightarrow>
          (if mi_family item = None then
             (case map_of (tx_media tax) medium_id of
                Some medium \<Rightarrow> item\<lparr>mi_family := Some (md_family medium)\<rparr>
              | None \<Rightarrow> item)
           else item)
      | None \<Rightarrow> item)"

definition resolve_medium :: "taxonomy \<Rightarrow> string \<Rightarrow> media_item \<Rightarrow> string option" where
  "resolve_medium tax family_id item =
     (case map_of (tx_families tax) family_id of
        Some (Some rule) \<Rightarrow>
          Option.bind (attribute_key (rr_attribute rule) item) (\<lambda>key. map_of (rr_map rule) key)
      | _ \<Rightarrow> None)"

definition finish_medium :: "taxonomy \<Rightarrow> media_item \<Rightarrow> media_item" where
  "finish_medium tax item =
     (case mi_medium item of
        None \<Rightarrow>
          (case mi_family item of
             Some family_id \<Rightarrow>
               item\<lparr>mi_medium := Some (case resolve_medium tax family_id item of
                  Some m \<Rightarrow> m | None \<Rightarrow> family_id @ ''_unspecified'')\<rparr>
           | None \<Rightarrow> item)
      | Some _ \<Rightarrow> item)"

definition finish_defaults :: "taxonomy \<Rightarrow> media_item \<Rightarrow> media_item" where
  "finish_defaults tax item =
     (case mi_medium item of
        Some medium_id \<Rightarrow>
          (case map_of (tx_media tax) medium_id of
             Some medium \<Rightarrow> fold (\<lambda>(attribute, value). fill_attribute attribute value) (md_defaults medium) item
           | None \<Rightarrow> item)
      | None \<Rightarrow> item)"

definition finish_item :: "taxonomy \<Rightarrow> media_item \<Rightarrow> media_item" where
  "finish_item tax item =
     (let i = finish_defaults tax (finish_medium tax (finish_family tax item))
      in i\<lparr>mi_variants := sorted_unique (mi_variants i), mi_appearance := sorted_unique (mi_appearance i)\<rparr>)"

definition apply_description ::
  "media_block \<Rightarrow> media_item option \<Rightarrow> description_rule \<Rightarrow> media_block \<times> media_item option" where
  "apply_description b item rule =
     (let target = dr_target rule in
      if target = ''ignore'' then (b, item)
      else if target \<in> set item_attributes then (b, map_option (fill_attribute target (dr_value rule)) item)
      else (case as_str (dr_value rule) of
          None \<Rightarrow> (b, item)
        | Some value \<Rightarrow>
            if target = ''variant'' then (b, map_option (\<lambda>i. i\<lparr>mi_variants := mi_variants i @ [value]\<rparr>) item)
            else if target = ''appearance'' then
              (b, map_option (\<lambda>i. i\<lparr>mi_appearance := mi_appearance i @ [value]\<rparr>) item)
            else if target = ''trait'' then (b\<lparr>mb_traits := mb_traits b @ [value]\<rparr>, item)
            else if target = ''edition'' then (b\<lparr>mb_edition := mb_edition b @ [value]\<rparr>, item)
            else if target = ''flag'' then (b\<lparr>mb_flags := mb_flags b @ [value]\<rparr>, item)
            else if target = ''release_kind'' then
              (b\<lparr>mb_release_kind := fill (mb_release_kind b) (Some value)\<rparr>, item)
            else if target = ''packaging'' then (b\<lparr>mb_packaging := fill (mb_packaging b) (Some value)\<rparr>, item)
            else if target = ''container'' then (b\<lparr>mb_container := fill (mb_container b) (Some value)\<rparr>, item)
            else (b, item)))"

definition finish_block :: "media_block \<Rightarrow> media_block" where
  "finish_block b =
     b\<lparr>mb_families := sorted_unique (filter_map mi_family (mb_items b)),
       mb_traits := sorted_unique (mb_traits b),
       mb_edition := sorted_unique (mb_edition b),
       mb_flags := sorted_unique (mb_flags b),
       mb_unmapped_formats := sorted_unique (mb_unmapped_formats b),
       mb_unmapped_descriptions := sorted_unique (mb_unmapped_descriptions b)\<rparr>"

text \<open>The inner loop body, over the descriptions.\<close>

definition description_step ::
  "taxonomy \<Rightarrow> string \<Rightarrow> media_block \<times> media_item option \<Rightarrow> media_block \<times> media_item option" where
  "description_step tax d acc =
     (case map_of (tx_descriptions tax) d of
        None \<Rightarrow> ((fst acc)\<lparr>mb_unmapped_descriptions := mb_unmapped_descriptions (fst acc) @ [d]\<rparr>, snd acc)
      | Some rule \<Rightarrow> apply_description (fst acc) (snd acc) rule)"

text \<open>What the format name contributes.\<close>

definition name_step ::
  "taxonomy \<Rightarrow> jobject \<Rightarrow> string option \<Rightarrow> string list \<Rightarrow> media_block \<Rightarrow> media_block \<times> media_item option" where
  "name_step tax format name descriptions b =
     (case Option.bind name (map_of (tx_formats tax)) of
        None \<Rightarrow>
          ((case name of
              Some n \<Rightarrow> b\<lparr>mb_unmapped_formats := mb_unmapped_formats b @ [n]\<rparr>
            | None \<Rightarrow> b), None)
      | Some entry \<Rightarrow>
          (let (b', item) = apply_format_entry b entry
                 (media_item_new name descriptions (Option.bind (map_of format ''text'') as_str))
           in (b', map_option (\<lambda>i. i\<lparr>mi_qty := parse_qty (map_of format ''qty'')\<rparr>) item)))"

text \<open>The outer loop body.\<close>

definition format_step :: "taxonomy \<Rightarrow> json \<Rightarrow> media_block \<Rightarrow> media_block" where
  "format_step tax v b =
     (case as_object v of
        None \<Rightarrow> b
      | Some format \<Rightarrow>
          (let name = Option.bind (map_of format ''name'') as_str;
               descriptions = flatten_descriptions (map_of format ''descriptions'');
               (b', item) = fold (description_step tax) descriptions (name_step tax format name descriptions b)
           in case item of
                Some i \<Rightarrow> b'\<lparr>mb_items := mb_items b' @ [finish_item tax i]\<rparr>
              | None \<Rightarrow> b'))"

definition map_discogs_formats :: "taxonomy \<Rightarrow> json option \<Rightarrow> media_block" where
  "map_discogs_formats tax formats =
     finish_block (fold (format_step tax) (entries formats) (media_block_empty tax))"

definition media_item_json :: "media_item \<Rightarrow> json" where
  "media_item_json i =
     jobj [(''family'', jopt JStr (mi_family i)),
           (''medium'', jopt JStr (mi_medium i)),
           (''qty'', JNum (PosInt (mi_qty i))),
           (''size_inches'', jopt JNum (mi_size_inches i)),
           (''speed_rpm'', jopt JNum (mi_speed_rpm i)),
           (''channels'', jopt JStr (mi_channels i)),
           (''codec'', jopt JStr (mi_codec i)),
           (''variants'', jstrs (mi_variants i)),
           (''appearance'', jstrs (mi_appearance i)),
           (''position'', jopt (\<lambda>n. JNum (if n < 0 then NegInt (nat (- n)) else PosInt (nat n))) (mi_position i)),
           (''track_count'', jopt (\<lambda>n. JNum (if n < 0 then NegInt (nat (- n)) else PosInt (nat n))) (mi_track_count i)),
           (''source'', jobj [(''provider'', JStr (ms_provider (mi_source i))),
                              (''name'', jopt JStr (ms_name (mi_source i))),
                              (''descriptions'', jstrs (ms_descriptions (mi_source i))),
                              (''text'', jopt JStr (ms_text (mi_source i)))])]"

definition media_json :: "media_block \<Rightarrow> json" where
  "media_json b =
     jobj [(''taxonomy_version'', JStr (mb_taxonomy_version b)),
           (''items'', JArr (map media_item_json (mb_items b))),
           (''families'', jstrs (mb_families b)),
           (''release_kind'', jopt JStr (mb_release_kind b)),
           (''traits'', jstrs (mb_traits b)),
           (''edition'', jstrs (mb_edition b)),
           (''packaging'', jopt JStr (mb_packaging b)),
           (''container'', jopt JStr (mb_container b)),
           (''flags'', jstrs (mb_flags b)),
           (''unmapped'', jobj [(''formats'', jstrs (mb_unmapped_formats b)),
                                (''descriptions'', jstrs (mb_unmapped_descriptions b))])]"

definition attach_media_block :: "taxonomy \<Rightarrow> json \<Rightarrow> json" where
  "attach_media_block tax record =
     (case as_object record of
        None \<Rightarrow> record
      | Some m \<Rightarrow> JObj (oinsert ''media'' (media_json (map_discogs_formats tax (map_of m ''formats''))) m))"

section \<open>The two effects of a description\<close>

definition item_rule :: "description_rule \<Rightarrow> media_item \<Rightarrow> media_item" where
  "item_rule rule i =
     (if dr_target rule \<in> set item_attributes then fill_attribute (dr_target rule) (dr_value rule) i
      else (case as_str (dr_value rule) of
          None \<Rightarrow> i
        | Some v \<Rightarrow>
            if dr_target rule = ''variant'' then i\<lparr>mi_variants := mi_variants i @ [v]\<rparr>
            else if dr_target rule = ''appearance'' then i\<lparr>mi_appearance := mi_appearance i @ [v]\<rparr>
            else i))"

definition desc_item :: "taxonomy \<Rightarrow> string \<Rightarrow> media_item \<Rightarrow> media_item" where
  "desc_item tax d i = (case map_of (tx_descriptions tax) d of None \<Rightarrow> i | Some rule \<Rightarrow> item_rule rule i)"

definition desc_block :: "taxonomy \<Rightarrow> string \<Rightarrow> media_block \<Rightarrow> media_block" where
  "desc_block tax d b = fst (description_step tax d (b, None))"

lemma description_step_split:
  "description_step tax d (b, i) = (desc_block tax d b, map_option (desc_item tax d) i)"
  by (cases "map_of (tx_descriptions tax) d"; cases i)
    (auto simp: desc_block_def description_step_def desc_item_def item_rule_def apply_description_def
      Let_def item_attributes_def split: option.splits)

lemma fold_description_step:
  "fold (description_step tax) ds (b, i) = (fold (desc_block tax) ds b, map_option (fold (desc_item tax) ds) i)"
proof (induction ds arbitrary: b i)
  case (Cons d ds)
  then show ?case by (simp add: description_step_split option.map_comp comp_def)
next
  case Nil
  show ?case by (cases i) simp_all
qed

definition name_item :: "taxonomy \<Rightarrow> jobject \<Rightarrow> media_item option" where
  "name_item tax format =
     snd (name_step tax format (Option.bind (map_of format ''name'') as_str)
       (flatten_descriptions (map_of format ''descriptions'')) (media_block_empty tax))"

lemma apply_format_entry_item: "snd (apply_format_entry b e i) = snd (apply_format_entry b' e i)"
  by (simp add: apply_format_entry_def Let_def)

lemma name_step_item: "snd (name_step tax f n ds b) = snd (name_step tax f n ds b')"
  using apply_format_entry_item [of b _ _ b']
  by (auto simp: name_step_def case_prod_beta Let_def split: option.split)

definition format_descriptions :: "json \<Rightarrow> string list" where
  "format_descriptions v =
     (case as_object v of None \<Rightarrow> [] | Some f \<Rightarrow> flatten_descriptions (map_of f ''descriptions''))"

text \<open>The item a format entry gives, on its own.\<close>

definition media_item_of :: "taxonomy \<Rightarrow> json \<Rightarrow> media_item option" where
  "media_item_of tax v =
     Option.bind (as_object v) (\<lambda>f.
       map_option (\<lambda>i. finish_item tax (fold (desc_item tax) (format_descriptions v) i)) (name_item tax f))"

definition name_block :: "taxonomy \<Rightarrow> json \<Rightarrow> media_block \<Rightarrow> media_block" where
  "name_block tax v b =
     (case as_object v of
        None \<Rightarrow> b
      | Some f \<Rightarrow> fst (name_step tax f (Option.bind (map_of f ''name'') as_str) (format_descriptions v) b))"

definition push_item :: "media_item option \<Rightarrow> media_block \<Rightarrow> media_block" where
  "push_item i b = (case i of None \<Rightarrow> b | Some i \<Rightarrow> b\<lparr>mb_items := mb_items b @ [i]\<rparr>)"

text \<open>The outer loop body, taken apart.\<close>

lemma format_step_split:
  "format_step tax v b =
     push_item (media_item_of tax v) (fold (desc_block tax) (format_descriptions v) (name_block tax v b))"
proof (cases "as_object v")
  case None
  then show ?thesis
    by (simp add: format_step_def push_item_def media_item_of_def name_block_def format_descriptions_def)
next
  case (Some f)
  let ?n = "Option.bind (map_of f ''name'') as_str" and ?ds = "flatten_descriptions (map_of f ''descriptions'')"
  have "snd (name_step tax f ?n ?ds b) = name_item tax f"
    unfolding name_item_def by (rule name_step_item)
  then have "name_step tax f ?n ?ds b = (fst (name_step tax f ?n ?ds b), name_item tax f)"
    by (metis prod.collapse)
  then have "fold (description_step tax) ?ds (name_step tax f ?n ?ds b) =
      (fold (desc_block tax) ?ds (fst (name_step tax f ?n ?ds b)),
       map_option (fold (desc_item tax) ?ds) (name_item tax f))"
    using fold_description_step by metis
  with Some show ?thesis
    by (cases "name_item tax f")
      (simp_all add: format_step_def push_item_def media_item_of_def name_block_def format_descriptions_def Let_def)
qed

section \<open>What each step adds to the block\<close>

text \<open>The string values of the rules for a target that a list of descriptions names.\<close>

definition stated :: "taxonomy \<Rightarrow> string \<Rightarrow> string list \<Rightarrow> string list" where
  "stated tax target ds =
     filter_map (\<lambda>d. Option.bind (map_of (tx_descriptions tax) d)
       (\<lambda>r. if dr_target r = target then as_str (dr_value r) else None)) ds"

definition unknown_descriptions :: "taxonomy \<Rightarrow> string list \<Rightarrow> string list" where
  "unknown_descriptions tax ds = filter (\<lambda>d. map_of (tx_descriptions tax) d = None) ds"

definition unknown_format :: "taxonomy \<Rightarrow> json \<Rightarrow> string option" where
  "unknown_format tax v =
     Option.bind (as_object v) (\<lambda>f. Option.bind (Option.bind (map_of f ''name'') as_str)
       (\<lambda>n. if map_of (tx_formats tax) n = None then Some n else None))"

text \<open>The first element, if any.\<close>

fun first :: "'a list \<Rightarrow> 'a option" where
  "first [] = None"
| "first (x # _) = Some x"

lemma fill_fill: "fill (fill a b) c = fill a (fill b c)"
  by (simp add: fill_def split: option.split)

lemma fill_None [simp]: "fill a None = a" "fill None a = a"
  by (simp_all add: fill_def split: option.split)

lemma fill_first_append: "fill (fill a (first xs)) (first ys) = fill a (first (xs @ ys))"
  by (cases xs) (simp_all add: fill_fill, simp add: fill_def)

lemma stated_append: "stated tax t (xs @ ys) = stated tax t xs @ stated tax t ys"
  by (simp add: stated_def)

lemma desc_block_fields:
  "mb_items (desc_block tax d b) = mb_items b"
  "mb_taxonomy_version (desc_block tax d b) = mb_taxonomy_version b"
  "mb_families (desc_block tax d b) = mb_families b"
  "mb_traits (desc_block tax d b) = mb_traits b @ stated tax ''trait'' [d]"
  "mb_edition (desc_block tax d b) = mb_edition b @ stated tax ''edition'' [d]"
  "mb_flags (desc_block tax d b) = mb_flags b @ stated tax ''flag'' [d]"
  "mb_release_kind (desc_block tax d b) = fill (mb_release_kind b) (first (stated tax ''release_kind'' [d]))"
  "mb_packaging (desc_block tax d b) = fill (mb_packaging b) (first (stated tax ''packaging'' [d]))"
  "mb_unmapped_formats (desc_block tax d b) = mb_unmapped_formats b"
  "mb_unmapped_descriptions (desc_block tax d b) = mb_unmapped_descriptions b @ unknown_descriptions tax [d]"
  by (auto simp: desc_block_def description_step_def apply_description_def stated_def unknown_descriptions_def
      item_attributes_def Let_def split: option.splits)

lemma fold_desc_block_fields:
  "mb_items (fold (desc_block tax) ds b) = mb_items b"
  "mb_traits (fold (desc_block tax) ds b) = mb_traits b @ stated tax ''trait'' ds"
  "mb_edition (fold (desc_block tax) ds b) = mb_edition b @ stated tax ''edition'' ds"
  "mb_release_kind (fold (desc_block tax) ds b) = fill (mb_release_kind b) (first (stated tax ''release_kind'' ds))"
  "mb_packaging (fold (desc_block tax) ds b) = fill (mb_packaging b) (first (stated tax ''packaging'' ds))"
  "mb_unmapped_formats (fold (desc_block tax) ds b) = mb_unmapped_formats b"
  "mb_unmapped_descriptions (fold (desc_block tax) ds b) = mb_unmapped_descriptions b @ unknown_descriptions tax ds"
proof (induction ds arbitrary: b)
  case Nil
  { case 1 show ?case by simp next case 2 show ?case by (simp add: stated_def)
  next case 3 show ?case by (simp add: stated_def) next case 4 show ?case by (simp add: stated_def)
  next case 5 show ?case by (simp add: stated_def) next case 6 show ?case by simp
  next case 7 show ?case by (simp add: unknown_descriptions_def) }
next
  case (Cons d ds)
  have s: "stated tax t (d # ds) = stated tax t [d] @ stated tax t ds" for t
    using stated_append [of tax t "[d]" ds] by simp
  have u: "unknown_descriptions tax (d # ds) = unknown_descriptions tax [d] @ unknown_descriptions tax ds"
    by (simp add: unknown_descriptions_def)
  { case 1 show ?case using Cons by (simp add: desc_block_fields)
  next case 2 show ?case using Cons by (simp add: desc_block_fields s)
  next case 3 show ?case using Cons by (simp add: desc_block_fields s)
  next case 4 show ?case using Cons by (simp add: desc_block_fields s fill_first_append)
  next case 5 show ?case using Cons by (simp add: desc_block_fields s fill_first_append)
  next case 6 show ?case using Cons by (simp add: desc_block_fields)
  next case 7 show ?case using Cons by (simp add: desc_block_fields u) }
qed

lemma name_block_fields:
  "mb_items (name_block tax v b) = mb_items b"
  "mb_traits (name_block tax v b) = mb_traits b"
  "mb_edition (name_block tax v b) = mb_edition b"
  "mb_release_kind (name_block tax v b) = mb_release_kind b"
  "mb_packaging (name_block tax v b) = mb_packaging b"
  "mb_unmapped_formats (name_block tax v b) =
     mb_unmapped_formats b @ (case unknown_format tax v of None \<Rightarrow> [] | Some n \<Rightarrow> [n])"
  "mb_unmapped_descriptions (name_block tax v b) = mb_unmapped_descriptions b"
  by (auto simp: name_block_def name_step_def apply_format_entry_def unknown_format_def Let_def case_prod_beta
      bind_eq_None_conv bind_eq_Some_conv split: option.splits)

lemma push_item_fields:
  "mb_items (push_item i b) = mb_items b @ (case i of None \<Rightarrow> [] | Some i \<Rightarrow> [i])"
  "mb_traits (push_item i b) = mb_traits b"
  "mb_edition (push_item i b) = mb_edition b"
  "mb_release_kind (push_item i b) = mb_release_kind b"
  "mb_packaging (push_item i b) = mb_packaging b"
  "mb_unmapped_formats (push_item i b) = mb_unmapped_formats b"
  "mb_unmapped_descriptions (push_item i b) = mb_unmapped_descriptions b"
  by (auto simp: push_item_def split: option.splits)

lemmas format_step_fields = format_step_split push_item_fields name_block_fields fold_desc_block_fields

definition all_descriptions :: "json list \<Rightarrow> string list" where
  "all_descriptions es = concat (map format_descriptions es)"

text \<open>The whole loop: every field of the block on its own.\<close>

lemma fold_format_step_fields:
  "mb_items (fold (format_step tax) es b) = mb_items b @ filter_map (media_item_of tax) es"
  "mb_traits (fold (format_step tax) es b) = mb_traits b @ stated tax ''trait'' (all_descriptions es)"
  "mb_edition (fold (format_step tax) es b) = mb_edition b @ stated tax ''edition'' (all_descriptions es)"
  "mb_release_kind (fold (format_step tax) es b) =
     fill (mb_release_kind b) (first (stated tax ''release_kind'' (all_descriptions es)))"
  "mb_packaging (fold (format_step tax) es b) =
     fill (mb_packaging b) (first (stated tax ''packaging'' (all_descriptions es)))"
  "mb_unmapped_formats (fold (format_step tax) es b) = mb_unmapped_formats b @ filter_map (unknown_format tax) es"
  "mb_unmapped_descriptions (fold (format_step tax) es b) =
     mb_unmapped_descriptions b @ unknown_descriptions tax (all_descriptions es)"
proof (induction es arbitrary: b)
  case Nil
  { case 1 show ?case by simp next case 2 show ?case by (simp add: stated_def all_descriptions_def)
  next case 3 show ?case by (simp add: stated_def all_descriptions_def)
  next case 4 show ?case by (simp add: stated_def all_descriptions_def)
  next case 5 show ?case by (simp add: stated_def all_descriptions_def) next case 6 show ?case by simp
  next case 7 show ?case by (simp add: unknown_descriptions_def all_descriptions_def) }
next
  case (Cons e es)
  have a: "all_descriptions (e # es) = format_descriptions e @ all_descriptions es"
    by (simp add: all_descriptions_def)
  { case 1 show ?case using Cons by (simp add: format_step_fields split: option.split)
  next case 2 show ?case using Cons by (simp add: format_step_fields a stated_append)
  next case 3 show ?case using Cons by (simp add: format_step_fields a stated_append)
  next case 4 show ?case using Cons by (simp add: format_step_fields a stated_append fill_first_append)
  next case 5 show ?case using Cons by (simp add: format_step_fields a stated_append fill_first_append)
  next case 6 show ?case using Cons by (simp add: format_step_fields split: option.split)
  next case 7 show ?case using Cons by (simp add: format_step_fields a unknown_descriptions_def) }
qed

section \<open>Attributes: stated first, defaulted last\<close>

definition stated_numbers :: "taxonomy \<Rightarrow> string \<Rightarrow> string list \<Rightarrow> jnum list" where
  "stated_numbers tax target ds =
     filter_map (\<lambda>d. Option.bind (map_of (tx_descriptions tax) d)
       (\<lambda>r. if dr_target r = target then as_number (dr_value r) else None)) ds"

text \<open>The defaults of a medium for one attribute.\<close>

definition defaults_for :: "(json \<Rightarrow> 'a option) \<Rightarrow> string \<Rightarrow> jobject \<Rightarrow> 'a list" where
  "defaults_for rd attribute m = filter_map (\<lambda>(a, v). if a = attribute then rd v else None) m"

definition default_of :: "taxonomy \<Rightarrow> (json \<Rightarrow> 'a option) \<Rightarrow> string \<Rightarrow> media_item \<Rightarrow> 'a option" where
  "default_of tax rd attribute i =
     (case Option.bind (mi_medium i) (map_of (tx_media tax)) of
        None \<Rightarrow> None
      | Some m \<Rightarrow> first (defaults_for rd attribute (md_defaults m)))"

lemma fill_attribute_fields:
  "mi_size_inches (fill_attribute a v i) = fill (mi_size_inches i) (if a = ''size_inches'' then as_number v else None)"
  "mi_speed_rpm (fill_attribute a v i) = fill (mi_speed_rpm i) (if a = ''speed_rpm'' then as_number v else None)"
  "mi_channels (fill_attribute a v i) = fill (mi_channels i) (if a = ''channels'' then as_str v else None)"
  "mi_codec (fill_attribute a v i) = fill (mi_codec i) (if a = ''codec'' then as_str v else None)"
  "mi_family (fill_attribute a v i) = mi_family i"
  "mi_medium (fill_attribute a v i) = mi_medium i"
  "mi_qty (fill_attribute a v i) = mi_qty i"
  by (simp_all add: fill_attribute_def)

lemma first_opt: "fill a (first (case x of None \<Rightarrow> ys | Some y \<Rightarrow> y # ys)) = fill (fill a x) (first ys)"
  by (cases x; cases a) (auto simp: fill_def)

lemma fold_fill_attribute_fields:
  "mi_size_inches (fold (\<lambda>(a, v). fill_attribute a v) m i) = fill (mi_size_inches i) (first (defaults_for as_number ''size_inches'' m))"
  "mi_speed_rpm (fold (\<lambda>(a, v). fill_attribute a v) m i) = fill (mi_speed_rpm i) (first (defaults_for as_number ''speed_rpm'' m))"
  "mi_channels (fold (\<lambda>(a, v). fill_attribute a v) m i) = fill (mi_channels i) (first (defaults_for as_str ''channels'' m))"
  "mi_codec (fold (\<lambda>(a, v). fill_attribute a v) m i) = fill (mi_codec i) (first (defaults_for as_str ''codec'' m))"
  "mi_family (fold (\<lambda>(a, v). fill_attribute a v) m i) = mi_family i"
  "mi_medium (fold (\<lambda>(a, v). fill_attribute a v) m i) = mi_medium i"
  "mi_qty (fold (\<lambda>(a, v). fill_attribute a v) m i) = mi_qty i"
  by (induction m arbitrary: i) (auto simp: defaults_for_def fill_attribute_fields first_opt)

lemma desc_item_fields:
  "mi_size_inches (desc_item tax d i) = fill (mi_size_inches i) (first (stated_numbers tax ''size_inches'' [d]))"
  "mi_speed_rpm (desc_item tax d i) = fill (mi_speed_rpm i) (first (stated_numbers tax ''speed_rpm'' [d]))"
  "mi_channels (desc_item tax d i) = fill (mi_channels i) (first (stated tax ''channels'' [d]))"
  "mi_codec (desc_item tax d i) = fill (mi_codec i) (first (stated tax ''codec'' [d]))"
  "mi_family (desc_item tax d i) = mi_family i"
  "mi_medium (desc_item tax d i) = mi_medium i"
  "mi_qty (desc_item tax d i) = mi_qty i"
  "mi_source (desc_item tax d i) = mi_source i"
  by (auto simp: desc_item_def item_rule_def stated_def stated_numbers_def item_attributes_def
      fill_attribute_def split: option.splits)

lemma stated_Cons: "stated tax t (d # ds) = stated tax t [d] @ stated tax t ds"
  by (simp add: stated_def split: option.split)

lemma stated_numbers_Cons: "stated_numbers tax t (d # ds) = stated_numbers tax t [d] @ stated_numbers tax t ds"
  by (simp add: stated_numbers_def split: option.split)

lemma fold_desc_item_fields:
  "mi_size_inches (fold (desc_item tax) ds i) = fill (mi_size_inches i) (first (stated_numbers tax ''size_inches'' ds))"
  "mi_speed_rpm (fold (desc_item tax) ds i) = fill (mi_speed_rpm i) (first (stated_numbers tax ''speed_rpm'' ds))"
  "mi_channels (fold (desc_item tax) ds i) = fill (mi_channels i) (first (stated tax ''channels'' ds))"
  "mi_codec (fold (desc_item tax) ds i) = fill (mi_codec i) (first (stated tax ''codec'' ds))"
  "mi_family (fold (desc_item tax) ds i) = mi_family i"
  "mi_medium (fold (desc_item tax) ds i) = mi_medium i"
  "mi_qty (fold (desc_item tax) ds i) = mi_qty i"
  "mi_source (fold (desc_item tax) ds i) = mi_source i"
proof (induction ds arbitrary: i)
  case Nil
  { case 1 show ?case by (simp add: stated_numbers_def) next case 2 show ?case by (simp add: stated_numbers_def)
  next case 3 show ?case by (simp add: stated_def) next case 4 show ?case by (simp add: stated_def)
  next case 5 show ?case by simp next case 6 show ?case by simp next case 7 show ?case by simp
  next case 8 show ?case by simp }
next
  case (Cons d ds)
  { case 1 show ?case using Cons by (simp add: desc_item_fields stated_numbers_Cons [of tax _ d ds] fill_first_append)
  next case 2 show ?case using Cons by (simp add: desc_item_fields stated_numbers_Cons [of tax _ d ds] fill_first_append)
  next case 3 show ?case using Cons by (simp add: desc_item_fields stated_Cons [of tax _ d ds] fill_first_append)
  next case 4 show ?case using Cons by (simp add: desc_item_fields stated_Cons [of tax _ d ds] fill_first_append)
  next case 5 show ?case using Cons by (simp add: desc_item_fields)
  next case 6 show ?case using Cons by (simp add: desc_item_fields)
  next case 7 show ?case using Cons by (simp add: desc_item_fields)
  next case 8 show ?case using Cons by (simp add: desc_item_fields) }
qed

lemma finish_family_fields:
  "mi_size_inches (finish_family tax i) = mi_size_inches i" "mi_speed_rpm (finish_family tax i) = mi_speed_rpm i"
  "mi_channels (finish_family tax i) = mi_channels i" "mi_codec (finish_family tax i) = mi_codec i"
  "mi_medium (finish_family tax i) = mi_medium i" "mi_qty (finish_family tax i) = mi_qty i"
  by (simp_all add: finish_family_def split: option.split)

lemma finish_medium_fields:
  "mi_size_inches (finish_medium tax i) = mi_size_inches i" "mi_speed_rpm (finish_medium tax i) = mi_speed_rpm i"
  "mi_channels (finish_medium tax i) = mi_channels i" "mi_codec (finish_medium tax i) = mi_codec i"
  "mi_family (finish_medium tax i) = mi_family i" "mi_qty (finish_medium tax i) = mi_qty i"
  by (simp_all add: finish_medium_def split: option.split)

lemma finish_defaults_fields:
  "mi_size_inches (finish_defaults tax i) = fill (mi_size_inches i) (default_of tax as_number ''size_inches'' i)"
  "mi_speed_rpm (finish_defaults tax i) = fill (mi_speed_rpm i) (default_of tax as_number ''speed_rpm'' i)"
  "mi_channels (finish_defaults tax i) = fill (mi_channels i) (default_of tax as_str ''channels'' i)"
  "mi_codec (finish_defaults tax i) = fill (mi_codec i) (default_of tax as_str ''codec'' i)"
  "mi_family (finish_defaults tax i) = mi_family i"
  "mi_medium (finish_defaults tax i) = mi_medium i"
  "mi_qty (finish_defaults tax i) = mi_qty i"
  by (auto simp: finish_defaults_def default_of_def fold_fill_attribute_fields split: option.split)

lemma default_of_medium: "mi_medium i = mi_medium j \<Longrightarrow> default_of tax rd a i = default_of tax rd a j"
  by (simp add: default_of_def)

lemma finish_item_fields:
  "mi_size_inches (finish_item tax i) = fill (mi_size_inches i) (default_of tax as_number ''size_inches'' (finish_item tax i))"
  "mi_speed_rpm (finish_item tax i) = fill (mi_speed_rpm i) (default_of tax as_number ''speed_rpm'' (finish_item tax i))"
  "mi_channels (finish_item tax i) = fill (mi_channels i) (default_of tax as_str ''channels'' (finish_item tax i))"
  "mi_codec (finish_item tax i) = fill (mi_codec i) (default_of tax as_str ''codec'' (finish_item tax i))"
  "mi_family (finish_item tax i) = mi_family (finish_family tax i)"
  "mi_medium (finish_item tax i) = mi_medium (finish_medium tax (finish_family tax i))"
  "mi_qty (finish_item tax i) = mi_qty i"
  by (auto simp: finish_item_def Let_def finish_defaults_fields finish_medium_fields finish_family_fields
      intro!: arg_cong [where f = "fill _"] default_of_medium)

lemma parse_qty_pos: "1 \<le> parse_qty v"
  by (auto simp: parse_qty_def split: option.split)

lemma parse_qty_i64: "parse_qty v < 2 ^ 63"
proof -
  have "parse_leading_integer t = Some n \<Longrightarrow> n < 2 ^ 63" for t n
    by (auto simp: parse_leading_integer_def Let_def split: option.splits if_splits)
  from this [of "qty_text v"] show ?thesis
    by (auto simp: parse_qty_def nat_less_iff split: option.split)
qed

lemma name_item_Some:
  assumes "name_item tax f = Some i"
  shows "\<exists>n e. Option.bind (map_of f ''name'') as_str = Some n \<and> map_of (tx_formats tax) n = Some e
    \<and> mi_family i = fe_family e \<and> mi_medium i = fe_medium e \<and> (fe_family e \<noteq> None \<or> fe_medium e \<noteq> None)
    \<and> mi_qty i = parse_qty (map_of f ''qty'')
    \<and> mi_size_inches i = None \<and> mi_speed_rpm i = None \<and> mi_channels i = None \<and> mi_codec i = None"
proof -
  let ?name = "Option.bind (map_of f ''name'') as_str"
  obtain e where e: "Option.bind ?name (map_of (tx_formats tax)) = Some e"
    using assms by (auto simp: name_item_def name_step_def Let_def split: option.splits)
  then obtain n where n: "?name = Some n" "map_of (tx_formats tax) n = Some e"
    by (auto simp: bind_eq_Some_conv)
  have i: "\<exists>j. snd (apply_format_entry (media_block_empty tax) e
      (media_item_new ?name (flatten_descriptions (map_of f ''descriptions'')) (Option.bind (map_of f ''text'') as_str))) = Some j
      \<and> i = j\<lparr>mi_qty := parse_qty (map_of f ''qty'')\<rparr>"
    using assms unfolding name_item_def name_step_def e by (auto simp: case_prod_beta Let_def)
  then have "mi_family i = fe_family e \<and> mi_medium i = fe_medium e \<and> (fe_family e \<noteq> None \<or> fe_medium e \<noteq> None)
      \<and> mi_qty i = parse_qty (map_of f ''qty'')
      \<and> mi_size_inches i = None \<and> mi_speed_rpm i = None \<and> mi_channels i = None \<and> mi_codec i = None"
    by (auto simp: apply_format_entry_def media_item_new_def Let_def split: option.splits if_splits)
  with n show ?thesis by blast
qed

section \<open>A taxonomy that resolves\<close>

text \<open>
  What the vendored document guarantees and the mapper relies on: a format entry names a
  medium or a family, not both; a named medium is declared; every medium a family can resolve
  to, and its unspecified medium, are declared for that family.
\<close>

definition declared_for :: "taxonomy \<Rightarrow> string \<Rightarrow> string \<Rightarrow> bool" where
  "declared_for tax family medium =
     (case map_of (tx_media tax) medium of Some d \<Rightarrow> md_family d = family | None \<Rightarrow> False)"

definition family_resolves :: "taxonomy \<Rightarrow> string \<Rightarrow> bool" where
  "family_resolves tax f =
     (declared_for tax f (f @ ''_unspecified'')
      \<and> (case map_of (tx_families tax) f of
            Some (Some rule) \<Rightarrow> list_all (\<lambda>(_, m). declared_for tax f m) (rr_map rule)
          | _ \<Rightarrow> True))"

definition format_resolves :: "taxonomy \<Rightarrow> format_entry \<Rightarrow> bool" where
  "format_resolves tax e =
     (case (fe_medium e, fe_family e) of
        (Some m, None) \<Rightarrow> map_of (tx_media tax) m \<noteq> None
      | (None, Some f) \<Rightarrow> family_resolves tax f
      | (None, None) \<Rightarrow> True
      | (Some _, Some _) \<Rightarrow> False)"

definition taxonomy_ok :: "taxonomy \<Rightarrow> bool" where
  "taxonomy_ok tax = list_all (\<lambda>(_, e). format_resolves tax e) (tx_formats tax)"

lemma resolve_medium_declared:
  assumes "family_resolves tax f"
  shows "declared_for tax f (case resolve_medium tax f i of Some m \<Rightarrow> m | None \<Rightarrow> f @ ''_unspecified'')"
proof (cases "resolve_medium tax f i")
  case None
  then show ?thesis using assms by (simp add: family_resolves_def)
next
  case (Some m)
  then obtain rule key where "map_of (tx_families tax) f = Some (Some rule)" "map_of (rr_map rule) key = Some m"
    by (auto simp: resolve_medium_def bind_eq_Some_conv split: option.splits)
  with assms Some show ?thesis
    by (fastforce simp: family_resolves_def list_all_iff dest: map_of_SomeD)
qed

lemma finish_item_declared:
  assumes "mi_family i = fe_family e" "mi_medium i = fe_medium e" "fe_family e \<noteq> None \<or> fe_medium e \<noteq> None"
    and "format_resolves tax e"
  shows "\<exists>f m. mi_family (finish_item tax i) = Some f \<and> mi_medium (finish_item tax i) = Some m
    \<and> declared_for tax f m"
proof (cases "fe_medium e")
  case None
  then obtain f where f: "fe_family e = Some f" "family_resolves tax f"
    using assms by (auto simp: format_resolves_def split: option.splits)
  with None assms resolve_medium_declared [OF f(2), of i] show ?thesis
    by (simp add: finish_item_fields finish_medium_def finish_family_def)
next
  case (Some m)
  then obtain d where d: "fe_family e = None" "map_of (tx_media tax) m = Some d"
    using assms by (auto simp: format_resolves_def split: option.splits)
  with Some assms show ?thesis
    by (simp add: finish_item_fields finish_medium_def finish_family_def declared_for_def)
qed

lemma media_item_of_Some:
  assumes "media_item_of tax v = Some i"
  obtains f j where "as_object v = Some f" "name_item tax f = Some j"
    "i = finish_item tax (fold (desc_item tax) (format_descriptions v) j)"
  using assms by (auto simp: media_item_of_def bind_eq_Some_conv)

lemma media_item_of_exists:
  assumes "as_object v = Some f" "Option.bind (Option.bind (map_of f ''name'') as_str) (map_of (tx_formats tax)) = Some e"
    and "fe_family e \<noteq> None \<or> fe_medium e \<noteq> None"
  shows "\<exists>i. media_item_of tax v = Some i"
  using assms by (auto simp: media_item_of_def name_item_def name_step_def apply_format_entry_def case_prod_beta Let_def)

section \<open>Properties\<close>

lemma sorted_unique_media: "sorted_wrt (<) (sorted_unique xs) \<and> set (sorted_unique xs) = set xs"
  by (simp add: sorted_unique_strict)

text \<open>
  C23: the media block separates the facts the raw format list mixes.  The items are those of
  the entries that name a medium or a family, in source order, each computed from its own
  entry alone; the release facts are collected from the descriptions of all entries, also of
  those that give no item: traits and editions as strictly increasing lists of exactly the
  values stated, kind and packaging as the first value stated; and the unmapped lists hold
  exactly the format names and the descriptions the taxonomy does not know.
\<close>

theorem media_block_exact:
  "let b = map_discogs_formats tax formats; es = entries formats; ds = all_descriptions es in
     mb_items b = filter_map (media_item_of tax) es
     \<and> (sorted_wrt (<) (mb_families b) \<and> set (mb_families b) = set (filter_map mi_family (mb_items b)))
     \<and> (sorted_wrt (<) (mb_traits b) \<and> set (mb_traits b) = set (stated tax ''trait'' ds))
     \<and> (sorted_wrt (<) (mb_edition b) \<and> set (mb_edition b) = set (stated tax ''edition'' ds))
     \<and> mb_release_kind b = first (stated tax ''release_kind'' ds)
     \<and> mb_packaging b = first (stated tax ''packaging'' ds)
     \<and> (sorted_wrt (<) (mb_unmapped_formats b) \<and> set (mb_unmapped_formats b) = set (filter_map (unknown_format tax) es))
     \<and> (sorted_wrt (<) (mb_unmapped_descriptions b)
        \<and> set (mb_unmapped_descriptions b) = {d \<in> set ds. map_of (tx_descriptions tax) d = None})"
  by (simp add: map_discogs_formats_def finish_block_def fold_format_step_fields media_block_empty_def
      Let_def sorted_unique_media unknown_descriptions_def)

text \<open>
  Every item of the block is resolved: it has a medium that the taxonomy declares for the
  item's family, and a quantity of at least one that fits an \<open>i64\<close>.
\<close>

theorem media_items_resolved:
  assumes "taxonomy_ok tax"
  shows "list_all (\<lambda>i. (\<exists>f m. mi_family i = Some f \<and> mi_medium i = Some m \<and> declared_for tax f m)
      \<and> 1 \<le> mi_qty i \<and> mi_qty i < 2 ^ 63)
    (mb_items (map_discogs_formats tax formats))"
  unfolding list_all_iff
proof
  fix i assume "i \<in> set (mb_items (map_discogs_formats tax formats))"
  then obtain v where "media_item_of tax v = Some i"
    by (auto simp: map_discogs_formats_def finish_block_def fold_format_step_fields media_block_empty_def set_filter_map)
  then obtain f j where j: "name_item tax f = Some j"
      and i: "i = finish_item tax (fold (desc_item tax) (format_descriptions v) j)"
    by (rule media_item_of_Some)
  obtain n e where e: "map_of (tx_formats tax) n = Some e" "mi_family j = fe_family e" "mi_medium j = fe_medium e"
      "fe_family e \<noteq> None \<or> fe_medium e \<noteq> None" "mi_qty j = parse_qty (map_of f ''qty'')"
    using name_item_Some [OF j] by blast
  from e(1) assms have "format_resolves tax e"
    by (auto simp: taxonomy_ok_def list_all_iff dest: map_of_SomeD)
  with e show "(\<exists>f m. mi_family i = Some f \<and> mi_medium i = Some m \<and> declared_for tax f m)
      \<and> 1 \<le> mi_qty i \<and> mi_qty i < 2 ^ 63"
    unfolding i
    using finish_item_declared [of "fold (desc_item tax) (format_descriptions v) j" e tax] parse_qty_pos parse_qty_i64
    by (simp add: finish_item_fields fold_desc_item_fields)
qed

text \<open>
  The attributes of an item follow one rule: the first value its own descriptions state
  wins, and the medium's default stands in only when none is stated.
\<close>

theorem media_attributes_first_wins:
  assumes "media_item_of tax v = Some i"
  shows "mi_size_inches i = fill (first (stated_numbers tax ''size_inches'' (format_descriptions v)))
      (default_of tax as_number ''size_inches'' i)
    \<and> mi_speed_rpm i = fill (first (stated_numbers tax ''speed_rpm'' (format_descriptions v)))
      (default_of tax as_number ''speed_rpm'' i)
    \<and> mi_channels i = fill (first (stated tax ''channels'' (format_descriptions v))) (default_of tax as_str ''channels'' i)
    \<and> mi_codec i = fill (first (stated tax ''codec'' (format_descriptions v))) (default_of tax as_str ''codec'' i)"
proof -
  obtain f j where j: "name_item tax f = Some j"
      and i: "i = finish_item tax (fold (desc_item tax) (format_descriptions v) j)"
    using media_item_of_Some [OF assms] by metis
  have "mi_size_inches j = None" "mi_speed_rpm j = None" "mi_channels j = None" "mi_codec j = None"
    using name_item_Some [OF j] by blast+
  then show ?thesis
    unfolding i finish_item_fields(1-4) fold_desc_item_fields by simp
qed

section \<open>The record the block is attached to\<close>

definition taxonomy_values_ok :: "taxonomy \<Rightarrow> bool" where
  "taxonomy_values_ok tax \<longleftrightarrow>
     list_all (\<lambda>(_, r). json_wf (dr_value r)) (tx_descriptions tax)
     \<and> list_all (\<lambda>(_, m). obj_wf (md_defaults m)) (tx_media tax)"

lemma attach_media_object:
  "attach_media_block tax (JObj m) =
     JObj (oinsert ''media'' (media_json (map_discogs_formats tax (map_of m ''formats''))) m)"
  by (simp add: attach_media_block_def)

lemma first_mem: "first xs = Some x \<Longrightarrow> x \<in> set xs"
  by (cases xs) auto

lemma stated_numbers_wf:
  "taxonomy_values_ok tax \<Longrightarrow> n \<in> set (stated_numbers tax t ds) \<Longrightarrow> json_wf (JNum n)"
proof -
  assume tax: "taxonomy_values_ok tax" and "n \<in> set (stated_numbers tax t ds)"
  then obtain d r where r: "map_of (tx_descriptions tax) d = Some r" "as_number (dr_value r) = Some n"
    by (auto simp: stated_numbers_def set_filter_map bind_eq_Some_conv split: if_splits)
  with tax have "json_wf (dr_value r)"
    by (force simp: taxonomy_values_ok_def list_all_iff dest: map_of_SomeD)
  with r(2) show "json_wf (JNum n)" by (cases "dr_value r") auto
qed

lemma default_number_wf:
  assumes "taxonomy_values_ok tax" "default_of tax as_number a i = Some n"
  shows "json_wf (JNum n)"
proof -
  obtain m d where m: "map_of (tx_media tax) m = Some d" "first (defaults_for as_number a (md_defaults d)) = Some n"
    using assms(2) by (auto simp: default_of_def bind_eq_Some_conv split: option.splits)
  from m(1) assms(1) have "obj_wf (md_defaults d)"
    by (force simp: taxonomy_values_ok_def list_all_iff dest: map_of_SomeD)
  moreover obtain k v where "(k, v) \<in> set (md_defaults d)" "as_number v = Some n"
    using first_mem [OF m(2)] by (auto simp: defaults_for_def set_filter_map split: if_splits)
  ultimately show ?thesis
    by (cases v) (auto simp: obj_wf_def list_all_iff)
qed

lemma fill_wf: "fill a b = Some n \<Longrightarrow> a = Some n \<or> b = Some n"
  by (auto simp: fill_def split: option.splits)

lemma media_numbers_wf:
  assumes "taxonomy_values_ok tax" "media_item_of tax v = Some i"
    and "mi_size_inches i = Some n \<or> mi_speed_rpm i = Some n"
  shows "json_wf (JNum n)"
proof -
  obtain f j where j: "name_item tax f = Some j"
      and i: "i = finish_item tax (fold (desc_item tax) (format_descriptions v) j)"
    using media_item_of_Some [OF assms(2)] by metis
  have "mi_size_inches j = None" "mi_speed_rpm j = None"
    using name_item_Some [OF j] by blast+
  then show ?thesis
    using assms(1,3) unfolding i finish_item_fields(1-2) fold_desc_item_fields
    by (auto dest!: fill_wf first_mem intro: stated_numbers_wf default_number_wf)
qed

lemma json_wf_media:
  assumes "taxonomy_values_ok tax"
  shows "json_wf (media_json (map_discogs_formats tax formats))"
proof -
  have "json_wf (media_item_json i)" if i: "media_item_of tax v = Some i" for v i
  proof -
    obtain f j where j: "name_item tax f = Some j"
        and i': "i = finish_item tax (fold (desc_item tax) (format_descriptions v) j)"
      using media_item_of_Some [OF i] by metis
    have "mi_qty i = mi_qty j" by (simp add: i' finish_item_fields fold_desc_item_fields)
    then have "mi_qty i < 2 ^ 63" using name_item_Some [OF j] parse_qty_i64 by metis
    moreover have "mi_position j = None \<and> mi_track_count j = None"
      using j by (auto simp: name_item_def name_step_def apply_format_entry_def media_item_new_def Let_def
          case_prod_beta split: option.splits if_splits)
    moreover have "mi_position (fill_attribute a v k) = mi_position k"
      "mi_track_count (fill_attribute a v k) = mi_track_count k" for a v k
      by (simp_all add: fill_attribute_def)
    moreover from this have "mi_position (fold (\<lambda>(a, v). fill_attribute a v) m k) = mi_position k"
      "mi_track_count (fold (\<lambda>(a, v). fill_attribute a v) m k) = mi_track_count k" for m k
      by (induction m arbitrary: k) auto
    moreover have "mi_position (desc_item tax d k) = mi_position k \<and> mi_track_count (desc_item tax d k) = mi_track_count k" for d k
      by (auto simp: desc_item_def item_rule_def fill_attribute_def split: option.splits)
    moreover from this have "mi_position (fold (desc_item tax) ds k) = mi_position k \<and>
        mi_track_count (fold (desc_item tax) ds k) = mi_track_count k" for ds k
      by (induction ds arbitrary: k) auto
    ultimately have "mi_position i = None" "mi_track_count i = None" "mi_qty i < 2 ^ 64"
      by (auto simp: i' finish_item_def finish_defaults_def finish_medium_def finish_family_def Let_def
          split: option.splits)
    then show ?thesis
      using media_numbers_wf [OF assms i]
      by (auto simp: media_item_json_def intro!: json_wf_jobj json_wf_jopt)
  qed
  then show ?thesis
    by (auto simp: media_json_def map_discogs_formats_def finish_block_def fold_format_step_fields
        media_block_empty_def list_all_iff set_filter_map intro!: json_wf_jobj json_wf_jopt)
qed

lemma json_wf_attach_media: "taxonomy_values_ok tax \<Longrightarrow> json_wf r \<Longrightarrow> json_wf (attach_media_block tax r)"
  by (auto simp: attach_media_block_def as_object_Some json_wf_media intro!: obj_wf_oinsert split: option.splits)

end
