(* ===== verification/Media_Taxonomy.thy ===== *)
theory Media_Taxonomy
  imports Media
begin

text \<open>
  The taxonomy the producer compiles in, \<open>contracts/catalog-events/vocab/media-taxonomy.json\<close>:
  families, media, and the Discogs format and description tables, indexed by id and by name.
  Sections the producer does not read are left out, as its deserialiser leaves them out.
\<close>

definition medium :: "string \<Rightarrow> string \<Rightarrow> jobject \<Rightarrow> string \<times> medium_definition" where
  "medium i f d = (i, \<lparr>md_family = f, md_defaults = d\<rparr>)"

definition fmt ::
  "string \<Rightarrow> string option \<Rightarrow> string option \<Rightarrow> string option \<Rightarrow> string option \<Rightarrow> string option \<Rightarrow> string \<times> format_entry" where
  "fmt n f m v c g =
     (n, \<lparr>fe_family = f, fe_medium = m, fe_variant = v, fe_container = c, fe_flag = g\<rparr>)"

definition descr :: "string \<Rightarrow> string \<Rightarrow> json \<Rightarrow> string \<times> description_rule" where
  "descr n t v = (n, \<lparr>dr_target = t, dr_value = v\<rparr>)"

definition taxonomy_families :: "(string \<times> resolve_rule option) list" where
  "taxonomy_families =
     [
      (''vinyl'', Some \<lparr>rr_attribute = ''size_inches'', rr_map = [(''10'', ''vinyl_10''), (''12'', ''vinyl_12''), (''7'', ''vinyl_7'')]\<rparr>),
      (''shellac'', Some \<lparr>rr_attribute = ''size_inches'', rr_map = [(''10'', ''shellac_10''), (''12'', ''shellac_12''), (''7'', ''shellac_7'')]\<rparr>),
      (''grooved_other'', None),
      (''tape'', None),
      (''optical'', None),
      (''digital'', None),
      (''video'', None),
      (''other'', None)]"

definition taxonomy_media :: "(string \<times> medium_definition) list" where
  "taxonomy_media =
     [
      medium ''vinyl_7'' ''vinyl'' [(''size_inches'', (JNum (PosInt 7)))],
      medium ''vinyl_10'' ''vinyl'' [(''size_inches'', (JNum (PosInt 10)))],
      medium ''vinyl_12'' ''vinyl'' [(''size_inches'', (JNum (PosInt 12)))],
      medium ''vinyl_unspecified'' ''vinyl'' [],
      medium ''shellac_7'' ''shellac'' [(''size_inches'', (JNum (PosInt 7))), (''speed_rpm'', (JNum (PosInt 78)))],
      medium ''shellac_10'' ''shellac'' [(''size_inches'', (JNum (PosInt 10))), (''speed_rpm'', (JNum (PosInt 78)))],
      medium ''shellac_12'' ''shellac'' [(''size_inches'', (JNum (PosInt 12))), (''speed_rpm'', (JNum (PosInt 78)))],
      medium ''shellac_unspecified'' ''shellac'' [(''speed_rpm'', (JNum (PosInt 78)))],
      medium ''grooved_acetate'' ''grooved_other'' [],
      medium ''grooved_lathe_cut'' ''grooved_other'' [],
      medium ''grooved_flexi_disc'' ''grooved_other'' [],
      medium ''grooved_cylinder'' ''grooved_other'' [],
      medium ''grooved_edison_disc'' ''grooved_other'' [],
      medium ''grooved_pathe_disc'' ''grooved_other'' [],
      medium ''grooved_piano_roll'' ''grooved_other'' [],
      medium ''grooved_other_unspecified'' ''grooved_other'' [],
      medium ''tape_cassette'' ''tape'' [],
      medium ''tape_microcassette'' ''tape'' [],
      medium ''tape_reel_to_reel'' ''tape'' [],
      medium ''tape_8_track'' ''tape'' [],
      medium ''tape_4_track'' ''tape'' [],
      medium ''tape_playtape'' ''tape'' [],
      medium ''tape_dat'' ''tape'' [],
      medium ''tape_dcc'' ''tape'' [],
      medium ''tape_elcaset'' ''tape'' [],
      medium ''tape_unspecified'' ''tape'' [],
      medium ''optical_cd'' ''optical'' [],
      medium ''optical_cdr'' ''optical'' [],
      medium ''optical_sacd'' ''optical'' [],
      medium ''optical_dvd_audio'' ''optical'' [],
      medium ''optical_minidisc'' ''optical'' [],
      medium ''optical_dualdisc'' ''optical'' [],
      medium ''optical_umd'' ''optical'' [],
      medium ''optical_unspecified'' ''optical'' [],
      medium ''digital_file'' ''digital'' [],
      medium ''digital_usb'' ''digital'' [],
      medium ''digital_memory_card'' ''digital'' [],
      medium ''digital_download_card'' ''digital'' [],
      medium ''digital_floppy_disk'' ''digital'' [],
      medium ''digital_unspecified'' ''digital'' [],
      medium ''video_dvd'' ''video'' [],
      medium ''video_dvdr'' ''video'' [],
      medium ''video_blu_ray'' ''video'' [],
      medium ''video_hd_dvd'' ''video'' [],
      medium ''video_laserdisc'' ''video'' [],
      medium ''video_cdv'' ''video'' [],
      medium ''video_vcd'' ''video'' [],
      medium ''video_svcd'' ''video'' [],
      medium ''video_vhs'' ''video'' [],
      medium ''video_betamax'' ''video'' [],
      medium ''video_vhd'' ''video'' [],
      medium ''video_ced'' ''video'' [],
      medium ''video_film_reel'' ''video'' [],
      medium ''video_unspecified'' ''video'' [],
      medium ''other_unspecified'' ''other'' []]"

definition taxonomy_formats :: "(string \<times> format_entry) list" where
  "taxonomy_formats =
     [
      fmt ''4-Track Cartridge'' None (Some ''tape_4_track'') None None None,
      fmt ''8-Track Cartridge'' None (Some ''tape_8_track'') None None None,
      fmt ''Acetate'' None (Some ''grooved_acetate'') None None None,
      fmt ''All Media'' None None None None (Some ''all_media''),
      fmt ''Betacam'' None (Some ''video_betamax'') None None None,
      fmt ''Betacam SP'' None (Some ''video_betamax'') None None None,
      fmt ''Betamax'' None (Some ''video_betamax'') None None None,
      fmt ''Blu-ray'' None (Some ''video_blu_ray'') None None None,
      fmt ''Blu-ray-R'' None (Some ''video_blu_ray'') None None None,
      fmt ''Box Set'' None None None (Some ''box_set'') None,
      fmt ''CD'' None (Some ''optical_cd'') None None None,
      fmt ''CDV'' None (Some ''video_cdv'') None None None,
      fmt ''CDr'' None (Some ''optical_cdr'') None None None,
      fmt ''CED'' None (Some ''video_ced'') None None None,
      fmt ''Cassette'' None (Some ''tape_cassette'') None None None,
      fmt ''Cylinder'' None (Some ''grooved_cylinder'') None None None,
      fmt ''DAT'' None (Some ''tape_dat'') None None None,
      fmt ''DCC'' None (Some ''tape_dcc'') None None None,
      fmt ''DVD'' None (Some ''video_dvd'') None None None,
      fmt ''DVD-Audio'' None (Some ''optical_dvd_audio'') None None None,
      fmt ''DVDr'' None (Some ''video_dvdr'') None None None,
      fmt ''DualDisc'' None (Some ''optical_dualdisc'') None None None,
      fmt ''Edison Disc'' None (Some ''grooved_edison_disc'') None None None,
      fmt ''Elcaset'' None (Some ''tape_elcaset'') None None None,
      fmt ''File'' None (Some ''digital_file'') None None None,
      fmt ''Film Reel'' None (Some ''video_film_reel'') None None None,
      fmt ''Flexi-disc'' None (Some ''grooved_flexi_disc'') None None None,
      fmt ''Floppy Disk'' None (Some ''digital_floppy_disk'') None None None,
      fmt ''HD DVD'' None (Some ''video_hd_dvd'') None None None,
      fmt ''HD DVD-R'' None (Some ''video_hd_dvd'') None None None,
      fmt ''Hybrid'' None (Some ''optical_sacd'') (Some ''hybrid_layer'') None None,
      fmt ''Laserdisc'' None (Some ''video_laserdisc'') None None None,
      fmt ''Lathe Cut'' None (Some ''grooved_lathe_cut'') None None None,
      fmt ''Memory Stick'' None (Some ''digital_memory_card'') None None None,
      fmt ''Microcassette'' None (Some ''tape_microcassette'') None None None,
      fmt ''MiniDisc'' None (Some ''optical_minidisc'') None None None,
      fmt ''Minidisc'' None (Some ''optical_minidisc'') None None None,
      fmt (''Path'' @ [CHR 0xC3, CHR 0xA9] @ '' Disc'') None (Some ''grooved_pathe_disc'') None None None,
      fmt ''PlayTape'' None (Some ''tape_playtape'') None None None,
      fmt ''Reel-To-Reel'' None (Some ''tape_reel_to_reel'') None None None,
      fmt ''SACD'' None (Some ''optical_sacd'') None None None,
      fmt ''SVCD'' None (Some ''video_svcd'') None None None,
      fmt ''Shellac'' (Some ''shellac'') None None None None,
      fmt ''UMD'' None (Some ''optical_umd'') None None None,
      fmt ''Ultra HD Blu-ray'' None (Some ''video_blu_ray'') (Some ''ultra_hd'') None None,
      fmt ''VCD'' None (Some ''video_vcd'') None None None,
      fmt ''VHD'' None (Some ''video_vhd'') None None None,
      fmt ''VHS'' None (Some ''video_vhs'') None None None,
      fmt ''Video 2000'' None (Some ''video_unspecified'') None None None,
      fmt ''Video8'' None (Some ''video_unspecified'') None None None,
      fmt ''Vinyl'' (Some ''vinyl'') None None None None]"

definition taxonomy_descriptions :: "(string \<times> description_rule) list" where
  "taxonomy_descriptions =
     [
      descr (''1 '' @ [CHR 0xE2, CHR 0x85, CHR 0x9E] @ '' ips'') ''ignore'' JNull,
      descr (''1'' @ [CHR 0x22]) ''ignore'' JNull,
      descr (''10'' @ [CHR 0x22]) ''size_inches'' (JNum (PosInt 10)),
      descr (''11'' @ [CHR 0x22]) ''size_inches'' (JNum (PosInt 11)),
      descr (''12'' @ [CHR 0x22]) ''size_inches'' (JNum (PosInt 12)),
      descr ''128 kbps'' ''ignore'' JNull,
      descr ''15 ips'' ''ignore'' JNull,
      descr ''16 Bit'' ''ignore'' JNull,
      descr (''16 '' @ [CHR 0xE2, CHR 0x85, CHR 0x94] @ '' RPM'') ''speed_rpm'' (JNum (Float ''16.67'')),
      descr (''16'' @ [CHR 0x22]) ''size_inches'' (JNum (PosInt 16)),
      descr ''160 kbps'' ''ignore'' JNull,
      descr ''192 kbps'' ''ignore'' JNull,
      descr ''24 Bit'' ''ignore'' JNull,
      descr ''256 kbps'' ''ignore'' JNull,
      descr (''3 '' @ [CHR 0xC2, CHR 0xBE] @ '' ips'') ''ignore'' JNull,
      descr (''3'' @ [CHR 0x22]) ''size_inches'' (JNum (PosInt 3)),
      descr ''320 kbps'' ''ignore'' JNull,
      descr (''33 '' @ [CHR 0xE2, CHR 0x85, CHR 0x93] @ '' RPM'') ''speed_rpm'' (JNum (Float ''33.33'')),
      descr ''45 RPM'' ''speed_rpm'' (JNum (PosInt 45)),
      descr ''4K'' ''variant'' (JStr ''ultra_hd''),
      descr (''5'' @ [CHR 0x22]) ''size_inches'' (JNum (PosInt 5)),
      descr (''7 '' @ [CHR 0xC2, CHR 0xBD] @ '' ips'') ''ignore'' JNull,
      descr (''7'' @ [CHR 0x22]) ''size_inches'' (JNum (PosInt 7)),
      descr ''78 RPM'' ''speed_rpm'' (JNum (PosInt 78)),
      descr (''8 '' @ [CHR 0xE2, CHR 0x85, CHR 0x93] @ '' RPM'') ''speed_rpm'' (JNum (Float ''8.33'')),
      descr (''8'' @ [CHR 0x22]) ''size_inches'' (JNum (PosInt 8)),
      descr ''AAC'' ''codec'' (JStr ''aac''),
      descr ''AIFF'' ''codec'' (JStr ''aiff''),
      descr ''ALAC'' ''codec'' (JStr ''alac''),
      descr ''APE'' ''codec'' (JStr ''ape''),
      descr ''AVI'' ''codec'' (JStr ''avi''),
      descr ''Advance'' ''edition'' (JStr ''advance''),
      descr ''Album'' ''release_kind'' (JStr ''album''),
      descr ''All Media'' ''flag'' (JStr ''all_media''),
      descr ''Ambisonic'' ''channels'' (JStr ''ambisonic''),
      descr ''Audiobook'' ''trait'' (JStr ''audiobook''),
      descr ''Blu-ray Audio'' ''ignore'' JNull,
      descr ''Blu-ray-R'' ''ignore'' JNull,
      descr ''Blu-spec CD'' ''variant'' (JStr ''blu_spec_cd''),
      descr ''Blu-spec CD2'' ''variant'' (JStr ''blu_spec_cd2''),
      descr ''Box Set'' ''container'' (JStr ''box_set''),
      descr ''Business Card'' ''packaging'' (JStr ''other''),
      descr ''CD'' ''ignore'' JNull,
      descr ''CD+G'' ''variant'' (JStr ''cd_g''),
      descr ''CD-ROM'' ''ignore'' JNull,
      descr ''Card Backed'' ''packaging'' (JStr ''cardboard_sleeve''),
      descr ''Cassette'' ''ignore'' JNull,
      descr ''Clear'' ''appearance'' (JStr ''clear''),
      descr ''Club Edition'' ''edition'' (JStr ''club_edition''),
      descr ''Coloured'' ''appearance'' (JStr ''coloured''),
      descr ''Compilation'' ''trait'' (JStr ''compilation''),
      descr ''Copy Prot.'' ''variant'' (JStr ''copy_control''),
      descr ''DSD'' ''codec'' (JStr ''dsd''),
      descr ''DTS'' ''variant'' (JStr ''dts''),
      descr ''DTS-HD'' ''ignore'' JNull,
      descr ''DVD-Data'' ''ignore'' JNull,
      descr ''DVD-ROM'' ''ignore'' JNull,
      descr ''DVD-Video'' ''ignore'' JNull,
      descr ''Data'' ''variant'' (JStr ''data''),
      descr ''Deluxe Edition'' ''edition'' (JStr ''deluxe_edition''),
      descr ''Demo'' ''trait'' (JStr ''demo''),
      descr ''Digibook'' ''packaging'' (JStr ''digibook''),
      descr ''Digipak'' ''packaging'' (JStr ''digipak''),
      descr ''Digisleeve'' ''packaging'' (JStr ''digisleeve''),
      descr ''Dolby Digital'' ''ignore'' JNull,
      descr ''EP'' ''release_kind'' (JStr ''ep''),
      descr ''Enhanced'' ''variant'' (JStr ''enhanced''),
      descr ''Etched'' ''appearance'' (JStr ''etched''),
      descr ''FLAC'' ''codec'' (JStr ''flac''),
      descr ''Gatefold'' ''packaging'' (JStr ''gatefold''),
      descr ''HDCD'' ''variant'' (JStr ''hdcd''),
      descr ''HQCD'' ''variant'' (JStr ''hqcd''),
      descr ''Hybrid'' ''variant'' (JStr ''hybrid_layer''),
      descr ''Interview'' ''trait'' (JStr ''interview''),
      descr ''Jewel Case'' ''packaging'' (JStr ''jewel_case''),
      descr ''Jukebox'' ''edition'' (JStr ''jukebox''),
      descr ''LP'' ''size_inches'' (JNum (PosInt 12)),
      descr ''Limited Edition'' ''edition'' (JStr ''limited''),
      descr ''Live'' ''trait'' (JStr ''live''),
      descr ''M4A'' ''codec'' (JStr ''m4a''),
      descr ''MKV'' ''codec'' (JStr ''mkv''),
      descr ''MOV'' ''codec'' (JStr ''mov''),
      descr ''MP3'' ''codec'' (JStr ''mp3''),
      descr ''MP4'' ''codec'' (JStr ''mp4''),
      descr ''MPEG-4 Video'' ''codec'' (JStr ''mpeg_4_video''),
      descr ''Marbled'' ''appearance'' (JStr ''marbled''),
      descr ''Maxi-Single'' ''release_kind'' (JStr ''single''),
      descr ''Mini'' ''variant'' (JStr ''mini''),
      descr ''Mini-Album'' ''release_kind'' (JStr ''album''),
      descr ''Minimax'' ''variant'' (JStr ''minimax''),
      descr ''Mispress'' ''edition'' (JStr ''mispress''),
      descr ''Misprint'' ''edition'' (JStr ''misprint''),
      descr ''Mixed'' ''trait'' (JStr ''mixed''),
      descr ''Mixed Mode'' ''variant'' (JStr ''mixed_mode''),
      descr ''Mixtape'' ''trait'' (JStr ''mixtape''),
      descr ''Mono'' ''channels'' (JStr ''mono''),
      descr ''Multi-Region'' ''ignore'' JNull,
      descr ''Multichannel'' ''channels'' (JStr ''multichannel''),
      descr ''NTSC'' ''ignore'' JNull,
      descr ''Numbered'' ''edition'' (JStr ''numbered''),
      descr ''OGG'' ''codec'' (JStr ''ogg''),
      descr ''Ogg Vorbis'' ''codec'' (JStr ''ogg''),
      descr ''Opus'' ''codec'' (JStr ''opus''),
      descr ''PAL'' ''ignore'' JNull,
      descr ''Partially Mixed'' ''trait'' (JStr ''mixed''),
      descr ''Partially Unofficial'' ''edition'' (JStr ''partially_unofficial''),
      descr ''Picture Disc'' ''appearance'' (JStr ''picture_disc''),
      descr ''Promo'' ''edition'' (JStr ''promo''),
      descr ''Quadraphonic'' ''channels'' (JStr ''quadraphonic''),
      descr ''Record Store Day'' ''ignore'' JNull,
      descr ''Region 1'' ''ignore'' JNull,
      descr ''Region 2'' ''ignore'' JNull,
      descr ''Region 3'' ''ignore'' JNull,
      descr ''Region 4'' ''ignore'' JNull,
      descr ''Region 5'' ''ignore'' JNull,
      descr ''Region 6'' ''ignore'' JNull,
      descr ''Region Free'' ''ignore'' JNull,
      descr ''Reissue'' ''edition'' (JStr ''reissue''),
      descr ''Remastered'' ''edition'' (JStr ''remastered''),
      descr ''Remix'' ''trait'' (JStr ''remix''),
      descr ''Repress'' ''edition'' (JStr ''repress''),
      descr ''SACD'' ''ignore'' JNull,
      descr ''SECAM'' ''ignore'' JNull,
      descr ''SHM-CD'' ''variant'' (JStr ''shm_cd''),
      descr ''SHM-SACD'' ''variant'' (JStr ''shm_sacd''),
      descr ''Sampler'' ''trait'' (JStr ''sampler''),
      descr ''Shape'' ''appearance'' (JStr ''shape''),
      descr ''Single'' ''release_kind'' (JStr ''single''),
      descr ''Single Sided'' ''variant'' (JStr ''single_sided''),
      descr ''Slipcase'' ''packaging'' (JStr ''slipcase''),
      descr ''Soundtrack'' ''trait'' (JStr ''soundtrack''),
      descr ''Special Edition'' ''edition'' (JStr ''special_edition''),
      descr ''Splatter'' ''appearance'' (JStr ''splatter''),
      descr ''Spoken Word'' ''trait'' (JStr ''spokenword''),
      descr ''Stereo'' ''channels'' (JStr ''stereo''),
      descr ''Styrene'' ''appearance'' (JStr ''styrene''),
      descr ''Test Pressing'' ''edition'' (JStr ''test_pressing''),
      descr ''Transcription'' ''trait'' (JStr ''transcription''),
      descr ''Unofficial Release'' ''edition'' (JStr ''unofficial''),
      descr ''Vinyl'' ''ignore'' JNull,
      descr ''WAV'' ''codec'' (JStr ''wav''),
      descr ''WMA'' ''codec'' (JStr ''wma''),
      descr ''WMV'' ''codec'' (JStr ''wmv''),
      descr ''WavPack'' ''codec'' (JStr ''wavpack''),
      descr ''White Label'' ''edition'' (JStr ''white_label''),
      descr ([CHR 0xC2, CHR 0xBC] @ [CHR 0x22]) ''ignore'' JNull,
      descr ([CHR 0xC2, CHR 0xBD] @ [CHR 0x22]) ''ignore'' JNull]"

definition discogs_taxonomy :: taxonomy where
  "discogs_taxonomy = \<lparr>tx_version = ''1'', tx_families = taxonomy_families,
     tx_media = taxonomy_media, tx_formats = taxonomy_formats, tx_descriptions = taxonomy_descriptions\<rparr>"

lemma discogs_taxonomy_ok: "taxonomy_ok discogs_taxonomy"
  by code_simp

theorem media_items_resolved_witness:
  "list_all (\<lambda>i. (\<exists>f m. mi_family i = Some f \<and> mi_medium i = Some m \<and> declared_for discogs_taxonomy f m)
       \<and> 1 \<le> mi_qty i \<and> mi_qty i < 2 ^ 63)
     (mb_items (map_discogs_formats discogs_taxonomy
       (Some (JArr [JObj [(''name'', JStr ''Vinyl''), (''qty'', JStr ''2'')]]))))"
  by (rule media_items_resolved) (rule discogs_taxonomy_ok)

lemma discogs_taxonomy_values: "taxonomy_values_ok discogs_taxonomy"
  by (simp add: taxonomy_values_ok_def discogs_taxonomy_def taxonomy_descriptions_def taxonomy_media_def
      descr_def medium_def obj_wf_def owf_def)

text \<open>A twelve-inch record stated as such: the stated size, the speed of the description.\<close>

definition sample_format :: json where
  "sample_format = JObj [(''descriptions'', JObj [(''description'', JArr [JStr ''LP'', JStr ([CHR ''1'', CHR ''2'', CHR 0x22]), JStr ''45 RPM''])]),
     (''name'', JStr ''Vinyl''), (''qty'', JStr ''2'')]"

theorem media_attributes_first_wins_witness:
  "\<exists>i. media_item_of discogs_taxonomy sample_format = Some i
     \<and> mi_size_inches i = Some (PosInt 12) \<and> mi_speed_rpm i = Some (PosInt 45)"
proof -
  have "Option.bind (Option.bind (map_of (the (as_object sample_format)) ''name'') as_str) (map_of (tx_formats discogs_taxonomy))
      = Some (snd (fmt ''Vinyl'' (Some ''vinyl'') None None None None))"
    by code_simp
  then have "\<exists>i. media_item_of discogs_taxonomy sample_format = Some i"
    by (rule media_item_of_exists [rotated]) (simp_all add: sample_format_def fmt_def)
  then obtain i where i: "media_item_of discogs_taxonomy sample_format = Some i" by blast
  have "first (stated_numbers discogs_taxonomy ''size_inches'' (format_descriptions sample_format)) = Some (PosInt 12)"
    "first (stated_numbers discogs_taxonomy ''speed_rpm'' (format_descriptions sample_format)) = Some (PosInt 45)"
    by code_simp+
  with media_attributes_first_wins [OF i] i show ?thesis by (simp add: fill_def)
qed

end
