(* ===== verification/Float64.thy ===== *)
theory Float64
  imports Complex_Main Prelude
begin

text \<open>
  The part of \<open>f64\<close> the quality rules use: \<open>str::parse::<f64>\<close> and the comparisons.  A finite
  double is the rational it stands for (the sign of zero is invisible to both operations);
  parsing reads the decimal text exactly and rounds it to the nearest double, ties to even,
  with gradual underflow and overflow to infinity.
\<close>

datatype f64 = NaN | Inf bool | Fin rat

fun f64_lt :: "f64 \<Rightarrow> f64 \<Rightarrow> bool" where
  "f64_lt NaN _ = False"
| "f64_lt _ NaN = False"
| "f64_lt (Inf neg) (Inf neg') = (neg \<and> \<not> neg')"
| "f64_lt (Inf neg) (Fin _) = neg"
| "f64_lt (Fin _) (Inf neg) = (\<not> neg)"
| "f64_lt (Fin a) (Fin b) = (a < b)"

abbreviation f64_gt :: "f64 \<Rightarrow> f64 \<Rightarrow> bool" where
  "f64_gt a b \<equiv> f64_lt b a"

section \<open>Rounding\<close>

fun log2_nat :: "nat \<Rightarrow> nat" where
  "log2_nat n = (if n < 2 then 0 else Suc (log2_nat (n div 2)))"

declare log2_nat.simps [simp del]

definition pow2 :: "int \<Rightarrow> rat" where
  "pow2 k = (if k \<ge> 0 then 2 ^ nat k else 1 / 2 ^ nat (- k))"

text \<open>The binary exponent of a positive rational.\<close>

definition ilog2 :: "rat \<Rightarrow> int" where
  "ilog2 q =
     (let (a, b) = quotient_of q;
          k = int (log2_nat (nat a)) - int (log2_nat (nat b))
      in if q < pow2 k then k - 1 else k)"

definition round_half_even :: "rat \<Rightarrow> int" where
  "round_half_even q =
     (let f = \<lfloor>q\<rfloor>; r = q - of_int f in
      if r < 1 / 2 then f else if r > 1 / 2 then f + 1 else if even f then f else f + 1)"

text \<open>53 bits of significand, least exponent -1074, largest finite value below \<open>2 ^ 1024\<close>.\<close>

definition round_f64 :: "bool \<Rightarrow> rat \<Rightarrow> f64" where
  "round_f64 neg q =
     (if q = 0 then Fin 0
      else
        (let e = max (- 1074) (ilog2 q - 52);
             v = of_int (round_half_even (q / pow2 e)) * pow2 e
         in if v \<ge> pow2 1024 then Inf neg else Fin (if neg then - v else v)))"

section \<open>The text of a float\<close>

definition strip_sign :: "string \<Rightarrow> bool \<times> string" where
  "strip_sign s =
     (case strip_prefix ''-'' s of
        Some r \<Rightarrow> (True, r)
      | None \<Rightarrow> (False, case strip_prefix ''+'' s of Some r \<Rightarrow> r | None \<Rightarrow> s))"

text \<open>The exponent part: nothing, or \<open>e\<close>, an optional sign and digits.\<close>

definition parse_exponent :: "string \<Rightarrow> int option" where
  "parse_exponent s =
     (case s of
        [] \<Rightarrow> Some 0
      | c # r \<Rightarrow>
          (if c = CHR ''e'' \<or> c = CHR ''E'' then
             (let (neg, d) = strip_sign r in
              if d = [] \<or> \<not> list_all is_digit d then None
              else Some (if neg then - int (digits_value d) else int (digits_value d)))
           else None))"

definition parse_decimal :: "string \<Rightarrow> rat option" where
  "parse_decimal s =
     (let whole = takeWhile is_digit s;
          rest = dropWhile is_digit s;
          (frac, rest') = (case strip_prefix ''.'' rest of
              Some r \<Rightarrow> (takeWhile is_digit r, dropWhile is_digit r)
            | None \<Rightarrow> ([], rest))
      in if whole = [] \<and> frac = [] then None
         else map_option (\<lambda>e. let k = e - int (length frac); m = of_nat (digits_value (whole @ frac))
                in if k \<ge> 0 then m * 10 ^ nat k else m / 10 ^ nat (- k))
              (parse_exponent rest'))"

definition parse_f64 :: "string \<Rightarrow> f64 option" where
  "parse_f64 s =
     (let (neg, r) = strip_sign s; l = ascii_lower r in
      if l = ''inf'' \<or> l = ''infinity'' then Some (Inf neg)
      else if l = ''nan'' then Some NaN
      else map_option (round_f64 neg) (parse_decimal r))"

lemma f64_lt_irrefl [simp]: "\<not> f64_lt a a"
  by (cases a) auto

lemma parse_f64_Nil [simp]: "parse_f64 [] = None"
  by (simp add: parse_f64_def strip_sign_def parse_decimal_def Let_def ascii_lower_def)

end
