(* ===== verification/Rules.thy ===== *)
theory Rules
  imports Data_Types Float64 "HOL-Library.Multiset"
begin

text \<open>
  \<open>src/discogs/rules.rs\<close>, first half: the rules configuration, its compilation, and the three
  evaluations of a raw record: quality rules, skip conditions and filters.  The regex engine
  (\<open>re_new\<close>, \<open>re_match\<close>), Unicode lower-casing and the JSON pointer of \<open>serde_json\<close> are the
  fields of \<open>host\<close>, a parameter of the definitions that use them.
\<close>

record 'r host =
  re_new :: "string \<Rightarrow> 'r option"
  re_match :: "'r \<Rightarrow> string \<Rightarrow> bool"
  to_lower :: "string \<Rightarrow> string"
  ptr_get :: "json \<Rightarrow> string \<Rightarrow> json option"
  ptr_set :: "json \<Rightarrow> string \<Rightarrow> json \<Rightarrow> json"

section \<open>The configuration\<close>

datatype severity = Error | Warning | Info

datatype rule_condition =
    Range "f64 option" "f64 option"
  | Required
  | Regex string
  | Length "nat option" "nat option"
  | Enum "string list"

record rule =
  ru_name :: string
  ru_description :: "string option"
  ru_field :: string
  ru_condition :: rule_condition
  ru_severity :: severity

record skip_condition =
  sk_field :: string
  sk_contains :: string
  sk_reason :: string

record nullify_condition =
  nc_type :: string
  nc_below :: "f64 option"
  nc_above :: "f64 option"

datatype filter_condition =
    RemoveMatching string string string
  | NullifyWhen string nullify_condition string

record rules_config =
  rc_skip_records :: "(string, skip_condition list) omap"
  rc_filters :: "(string, filter_condition list) omap"
  rc_rules :: "(string, rule list) omap"

section \<open>The compiled configuration\<close>

datatype 'r compiled_condition =
    CRange "f64 option" "f64 option"
  | CRequired
  | CRegex 'r
  | CLength "nat option" "nat option"
  | CEnum "string set"

record 'r compiled_rule =
  cr_name :: string
  cr_description :: "string option"
  cr_field :: string
  cr_condition :: "'r compiled_condition"
  cr_severity :: severity

record compiled_skip =
  ck_field :: string
  ck_contains_lower :: string
  ck_reason :: string

datatype 'r compiled_filter =
    CRemoveMatching string 'r string
  | CNullifyWhen string "f64 option" "f64 option" string

record 'r compiled_config =
  cc_rules :: "(string, 'r compiled_rule list) omap"
  cc_skip_conditions :: "(string, compiled_skip list) omap"
  cc_filters :: "(string, 'r compiled_filter list) omap"

datatype compile_error =
    UnknownDataType string string
  | InvalidRegex string string
  | UnknownNullifyType string string
  | NullifyWithoutBounds string

definition compile_condition :: "'r host \<Rightarrow> string \<Rightarrow> rule_condition \<Rightarrow> compile_error + 'r compiled_condition" where
  "compile_condition h name c =
     (case c of
        Range lo hi \<Rightarrow> Ok (CRange lo hi)
      | Required \<Rightarrow> Ok CRequired
      | Regex pattern \<Rightarrow> (case re_new h pattern of
            Some regex \<Rightarrow> Ok (CRegex regex) | None \<Rightarrow> Err (InvalidRegex name pattern))
      | Length lo hi \<Rightarrow> Ok (CLength lo hi)
      | Enum values \<Rightarrow> Ok (CEnum (set values)))"

definition compile_rule :: "'r host \<Rightarrow> rule \<Rightarrow> compile_error + 'r compiled_rule" where
  "compile_rule h r =
     and_then (compile_condition h (ru_name r) (ru_condition r)) (\<lambda>condition.
       Ok \<lparr>cr_name = ru_name r, cr_description = ru_description r, cr_field = ru_field r,
           cr_condition = condition, cr_severity = ru_severity r\<rparr>)"

definition compile_skip :: "'r host \<Rightarrow> skip_condition \<Rightarrow> compile_error + compiled_skip" where
  "compile_skip h c =
     Ok \<lparr>ck_field = sk_field c, ck_contains_lower = to_lower h (sk_contains c), ck_reason = sk_reason c\<rparr>"

definition compile_filter :: "'r host \<Rightarrow> filter_condition \<Rightarrow> compile_error + 'r compiled_filter" where
  "compile_filter h c =
     (case c of
        RemoveMatching field pattern reason \<Rightarrow> (case re_new h pattern of
            Some regex \<Rightarrow> Ok (CRemoveMatching field regex reason)
          | None \<Rightarrow> Err (InvalidRegex field pattern))
      | NullifyWhen field when' reason \<Rightarrow>
          (if nc_type when' \<noteq> ''range'' then Err (UnknownNullifyType (nc_type when') field)
           else if nc_below when' = None \<and> nc_above when' = None then Err (NullifyWithoutBounds field)
           else Ok (CNullifyWhen field (nc_below when') (nc_above when') reason)))"

text \<open>
  One section of the configuration: its key must parse as an entity type, and is kept as
  written.
\<close>

definition compile_section ::
  "string \<Rightarrow> ('c \<Rightarrow> compile_error + 'd) \<Rightarrow> (string, 'c list) omap \<Rightarrow> compile_error + (string, 'd list) omap" where
  "compile_section section_name f m =
     try_map (\<lambda>(key, conditions).
       case dt_from_str key of
         Inl _ \<Rightarrow> Err (UnknownDataType section_name key)
       | Inr _ \<Rightarrow> and_then (try_map f conditions) (\<lambda>cs. Ok (key, cs))) m"

definition compile :: "'r host \<Rightarrow> rules_config \<Rightarrow> compile_error + 'r compiled_config" where
  "compile h config =
     and_then (compile_section ''rules'' (compile_rule h) (rc_rules config)) (\<lambda>rules.
     and_then (compile_section ''skip_records'' (compile_skip h) (rc_skip_records config)) (\<lambda>skips.
     and_then (compile_section ''filters'' (compile_filter h) (rc_filters config)) (\<lambda>filters.
       Ok \<lparr>cc_rules = rules, cc_skip_conditions = skips, cc_filters = filters\<rparr>)))"

definition section_for :: "(string, 'c list) omap \<Rightarrow> string \<Rightarrow> 'c list" where
  "section_for m data_type = (case map_of m data_type of Some cs \<Rightarrow> cs | None \<Rightarrow> [])"

definition rules_for :: "'r compiled_config \<Rightarrow> string \<Rightarrow> 'r compiled_rule list" where
  "rules_for config = section_for (cc_rules config)"

definition skip_conditions_for :: "'r compiled_config \<Rightarrow> string \<Rightarrow> compiled_skip list" where
  "skip_conditions_for config = section_for (cc_skip_conditions config)"

definition filters_for :: "'r compiled_config \<Rightarrow> string \<Rightarrow> 'r compiled_filter list" where
  "filters_for config = section_for (cc_filters config)"

section \<open>Field paths\<close>

definition resolve_step :: "string \<Rightarrow> json list \<Rightarrow> json list" where
  "resolve_step segment current =
     concat (map (\<lambda>v.
       (case Option.bind (as_object v) (\<lambda>m. map_of m segment) of
          None \<Rightarrow> []
        | Some child \<Rightarrow> (case as_array child of Some arr \<Rightarrow> arr | None \<Rightarrow> [child]))) current)"

fun field_text :: "json \<Rightarrow> string option" where
  "field_text (JStr s) = Some s"
| "field_text (JNum n) = Some (num_to_string n)"
| "field_text JNull = Some []"
| "field_text _ = None"

definition resolve_field :: "json \<Rightarrow> string \<Rightarrow> string list" where
  "resolve_field value field =
     filter_map field_text (fold resolve_step (split_on (CHR ''.'') field) [value])"

section \<open>Rule evaluation\<close>

record violation =
  vi_rule_name :: string
  vi_severity :: severity
  vi_field :: string
  vi_field_value :: string

text \<open>\<open>None\<close> is the \<open>unreachable!()\<close> of the source.\<close>

definition check_condition :: "'r host \<Rightarrow> 'r compiled_condition \<Rightarrow> string \<Rightarrow> bool option" where
  "check_condition h c value =
     (case c of
        CRange lo hi \<Rightarrow> Some (case parse_f64 value of
            Some num \<Rightarrow>
              (case lo of Some l \<Rightarrow> f64_lt num l | None \<Rightarrow> False)
              \<or> (case hi of Some u \<Rightarrow> f64_gt num u | None \<Rightarrow> False)
          | None \<Rightarrow> False)
      | CRequired \<Rightarrow> None
      | CRegex regex \<Rightarrow> Some (re_match h regex value)
      | CLength lo hi \<Rightarrow> Some
          ((case lo of Some l \<Rightarrow> length (chars value) < l | None \<Rightarrow> False)
           \<or> (case hi of Some u \<Rightarrow> length (chars value) > u | None \<Rightarrow> False))
      | CEnum values \<Rightarrow> Some (value \<notin> values))"

definition violation_of :: "'r compiled_rule \<Rightarrow> string \<Rightarrow> violation" where
  "violation_of r val =
     \<lparr>vi_rule_name = cr_name r, vi_severity = cr_severity r, vi_field = cr_field r, vi_field_value = val\<rparr>"

fun check_values :: "'r host \<Rightarrow> 'r compiled_rule \<Rightarrow> string list \<Rightarrow> violation list option" where
  "check_values h r [] = Some []"
| "check_values h r (val # vals) =
     (case check_condition h (cr_condition r) val of
        None \<Rightarrow> None
      | Some bad \<Rightarrow> map_option (\<lambda>vs. if bad then violation_of r val # vs else vs) (check_values h r vals))"

definition evaluate_rule :: "'r host \<Rightarrow> json \<Rightarrow> 'r compiled_rule \<Rightarrow> violation list option" where
  "evaluate_rule h record r =
     (let field_values = resolve_field record (cr_field r) in
      case cr_condition r of
        CRequired \<Rightarrow>
          (if field_values = [] then Some [violation_of r []]
           else Some (map (violation_of r) (filter (\<lambda>v. v = []) field_values)))
      | _ \<Rightarrow> check_values h r field_values)"

fun evaluate_all :: "'r host \<Rightarrow> json \<Rightarrow> 'r compiled_rule list \<Rightarrow> violation list option" where
  "evaluate_all h record [] = Some []"
| "evaluate_all h record (r # rs) =
     (case evaluate_rule h record r of
        None \<Rightarrow> None
      | Some vs \<Rightarrow> map_option (\<lambda>ws. vs @ ws) (evaluate_all h record rs))"

definition evaluate_rules :: "'r host \<Rightarrow> 'r compiled_config \<Rightarrow> string \<Rightarrow> json \<Rightarrow> violation list option" where
  "evaluate_rules h config data_type record = evaluate_all h record (rules_for config data_type)"

section \<open>Skip conditions\<close>

record skip_info =
  si_reason :: string
  si_field :: string
  si_field_value :: string

definition skip_value :: "'r host \<Rightarrow> compiled_skip \<Rightarrow> string \<Rightarrow> bool" where
  "skip_value h cond val \<longleftrightarrow> contains (to_lower h val) (ck_contains_lower cond)"

fun skip_scan :: "'r host \<Rightarrow> json \<Rightarrow> compiled_skip list \<Rightarrow> skip_info option" where
  "skip_scan h record [] = None"
| "skip_scan h record (cond # conds) =
     (case find (skip_value h cond) (resolve_field record (ck_field cond)) of
        Some val \<Rightarrow> Some \<lparr>si_reason = ck_reason cond, si_field = ck_field cond, si_field_value = val\<rparr>
      | None \<Rightarrow> skip_scan h record conds)"

definition should_skip_record :: "'r host \<Rightarrow> 'r compiled_config \<Rightarrow> string \<Rightarrow> json \<Rightarrow> skip_info option" where
  "should_skip_record h config data_type record = skip_scan h record (skip_conditions_for config data_type)"

section \<open>Filters\<close>

record filter_action =
  fa_field :: string
  fa_removed_count :: nat
  fa_removed_values :: "string list"
  fa_reason :: string

definition parse_leading_year :: "string \<Rightarrow> f64 option" where
  "parse_leading_year value =
     (let token = trim (hd (split_by (\<lambda>c. c \<in> {CHR ''-'', CHR ''/'', CHR ''.'', CHR '' '', CHR ''T''}) value))
      in if token = [] then None else parse_f64 token)"

definition matching :: "'r host \<Rightarrow> 'r \<Rightarrow> json \<Rightarrow> bool" where
  "matching h regex v = (case as_str v of Some s \<Rightarrow> re_match h regex s | None \<Rightarrow> False)"

text \<open>The removal inside the parent object.\<close>

definition remove_leaf ::
  "'r host \<Rightarrow> string \<Rightarrow> 'r \<Rightarrow> string \<Rightarrow> string \<Rightarrow> jobject \<Rightarrow> jobject \<times> filter_action list" where
  "remove_leaf h field regex reason leaf m =
     (case map_of m leaf of
        Some (JArr arr) \<Rightarrow>
          (let kept = filter (\<lambda>v. \<not> matching h regex v) arr;
               removed_values = filter_map as_str (filter (matching h regex) arr);
               removed_count = length arr - length kept
           in (oinsert leaf (JArr kept) m,
               if removed_count > 0 then
                 [\<lparr>fa_field = field, fa_removed_count = removed_count,
                   fa_removed_values = removed_values, fa_reason = reason\<rparr>]
               else []))
      | Some (JStr s) \<Rightarrow>
          (if re_match h regex s then
             (oremove leaf m,
              [\<lparr>fa_field = field, fa_removed_count = 1, fa_removed_values = [s], fa_reason = reason\<rparr>])
           else (m, []))
      | _ \<Rightarrow> (m, []))"

text \<open>The parent object is the record itself, or what the pointer to the parent path reaches.\<close>

definition remove_matching_step ::
  "'r host \<Rightarrow> string \<Rightarrow> 'r \<Rightarrow> string \<Rightarrow> json \<Rightarrow> json \<times> filter_action list" where
  "remove_matching_step h field regex reason record =
     (let segments = split_on (CHR ''.'') field;
          parents = butlast segments; leaf = last segments
      in if parents = [] then
           (case record of
              JObj m \<Rightarrow> (let (m', as) = remove_leaf h field regex reason leaf m in (JObj m', as))
            | _ \<Rightarrow> (record, []))
         else
           (let pointer = CHR ''/'' # join ''/'' parents in
            case ptr_get h record pointer of
              Some (JObj m) \<Rightarrow>
                (let (m', as) = remove_leaf h field regex reason leaf m
                 in (ptr_set h record pointer (JObj m'), as))
            | _ \<Rightarrow> (record, [])))"

fun nullify_text :: "json \<Rightarrow> string option" where
  "nullify_text (JStr s) = Some s"
| "nullify_text (JNum n) = Some (num_to_string n)"
| "nullify_text _ = None"

definition out_of_range :: "f64 option \<Rightarrow> f64 option \<Rightarrow> string \<Rightarrow> bool" where
  "out_of_range below above' str_val =
     (case (case parse_f64 str_val of Some n \<Rightarrow> Some n | None \<Rightarrow> parse_leading_year str_val) of
        Some num \<Rightarrow>
          (case below of Some b \<Rightarrow> f64_lt num b | None \<Rightarrow> False)
          \<or> (case above' of Some a \<Rightarrow> f64_gt num a | None \<Rightarrow> False)
      | None \<Rightarrow> False)"

definition nullify_step ::
  "string \<Rightarrow> f64 option \<Rightarrow> f64 option \<Rightarrow> string \<Rightarrow> json \<Rightarrow> json \<times> filter_action list" where
  "nullify_step field below above' reason record =
     (case as_object record of
        None \<Rightarrow> (record, [])
      | Some m \<Rightarrow>
          (case Option.bind (map_of m field) nullify_text of
             None \<Rightarrow> (record, [])
           | Some str_val \<Rightarrow>
               (if out_of_range below above' str_val then
                  (JObj (oinsert field JNull m),
                   [\<lparr>fa_field = field, fa_removed_count = 1, fa_removed_values = [str_val], fa_reason = reason\<rparr>])
                else (record, []))))"

definition filter_step :: "'r host \<Rightarrow> json \<Rightarrow> 'r compiled_filter \<Rightarrow> json \<times> filter_action list" where
  "filter_step h record cond =
     (case cond of
        CRemoveMatching field regex reason \<Rightarrow> remove_matching_step h field regex reason record
      | CNullifyWhen field below above' reason \<Rightarrow> nullify_step field below above' reason record)"

fun run_filters :: "'r host \<Rightarrow> 'r compiled_filter list \<Rightarrow> json \<Rightarrow> json \<times> filter_action list" where
  "run_filters h [] record = (record, [])"
| "run_filters h (cond # conds) record =
     (let (record', as) = filter_step h record cond;
          (record'', bs) = run_filters h conds record'
      in (record'', as @ bs))"

definition apply_filters :: "'r host \<Rightarrow> 'r compiled_config \<Rightarrow> string \<Rightarrow> json \<Rightarrow> json \<times> filter_action list" where
  "apply_filters h config data_type record = run_filters h (filters_for config data_type) record"

section \<open>Compilation\<close>

definition condition_ok :: "'r host \<Rightarrow> rule_condition \<Rightarrow> bool" where
  "condition_ok h c = (case c of Regex p \<Rightarrow> re_new h p \<noteq> None | _ \<Rightarrow> True)"

definition filter_ok :: "'r host \<Rightarrow> filter_condition \<Rightarrow> bool" where
  "filter_ok h c =
     (case c of
        RemoveMatching _ p _ \<Rightarrow> re_new h p \<noteq> None
      | NullifyWhen _ w _ \<Rightarrow> nc_type w = ''range'' \<and> (nc_below w \<noteq> None \<or> nc_above w \<noteq> None))"

text \<open>Every key of a section is an entity type in some case.\<close>

definition keys_ok :: "(string, 'c) omap \<Rightarrow> bool" where
  "keys_ok m = list_all (\<lambda>k. is_ok (dt_from_str k)) (okeys m)"

lemma is_ok_and_then_Ok [simp]: "is_ok (and_then r (\<lambda>x. Inr (g x))) \<longleftrightarrow> is_ok r"
  by (cases r) auto

lemma compile_rule_ok: "is_ok (compile_rule h r) \<longleftrightarrow> condition_ok h (ru_condition r)"
  by (auto simp: compile_rule_def compile_condition_def condition_ok_def split: rule_condition.splits option.splits)

lemma compile_skip_ok: "is_ok (compile_skip h c)"
  by (simp add: compile_skip_def)

lemma compile_filter_ok: "is_ok (compile_filter h c) \<longleftrightarrow> filter_ok h c"
  by (auto simp: compile_filter_def filter_ok_def split: filter_condition.splits option.splits)

lemma compile_section_ok:
  "is_ok (compile_section n f m) \<longleftrightarrow> keys_ok m \<and> list_all (\<lambda>(_, cs). list_all (\<lambda>c. is_ok (f c)) cs) m"
proof -
  have "is_ok (case dt_from_str k of Inl _ \<Rightarrow> Err (UnknownDataType n k)
        | Inr _ \<Rightarrow> and_then (try_map f cs) (\<lambda>cs. Ok (k, cs)))
      \<longleftrightarrow> is_ok (dt_from_str k) \<and> list_all (\<lambda>c. is_ok (f c)) cs" for k cs
    by (cases "dt_from_str k") (auto simp: try_map_is_ok)
  then have "is_ok (compile_section n f m) \<longleftrightarrow>
      list_all (\<lambda>p. is_ok (dt_from_str (fst p)) \<and> list_all (\<lambda>c. is_ok (f c)) (snd p)) m"
    by (simp add: compile_section_def try_map_is_ok split_def)
  also have "\<dots> \<longleftrightarrow> keys_ok m \<and> list_all (\<lambda>(_, cs). list_all (\<lambda>c. is_ok (f c)) cs) m"
    unfolding keys_ok_def okeys_def by (induction m) auto
  finally show ?thesis .
qed

lemma compile_section_map_of:
  assumes "compile_section n f m = Ok m'"
  shows "(case (map_of m k, map_of m' k) of
      (None, None) \<Rightarrow> True
    | (Some cs, Some ds) \<Rightarrow> list_all2 (\<lambda>c d. f c = Ok d) cs ds
    | _ \<Rightarrow> False)"
proof -
  have "list_all2 (\<lambda>(k, cs) kd. fst kd = k \<and> list_all2 (\<lambda>c d. f c = Ok d) cs (snd kd)) m m'"
    using assms unfolding compile_section_def try_map_Ok
    by (rule list_all2_mono) (auto simp: and_then_Ok try_map_Ok split: sum.splits)
  then show ?thesis
    by (induction rule: list_all2_induct) (auto split: option.splits prod.splits)
qed

lemma section_for_compiled:
  "compile_section n f m = Ok m' \<Longrightarrow> list_all2 (\<lambda>c d. f c = Ok d) (section_for m k) (section_for m' k)"
  using compile_section_map_of [of n f m m' k] by (auto simp: section_for_def split: option.splits)

text \<open>
  Compilation accepts a configuration exactly when every section key names an entity type
  (in any case), every pattern is a valid regex and every nullify condition is a range with a
  bound; what it returns then holds, for every key, the conditions of that key in order, each
  the compiled form of its source.
\<close>

theorem compile_ok_iff:
  "(is_ok (compile h cfg) \<longleftrightarrow>
     keys_ok (rc_rules cfg) \<and> keys_ok (rc_skip_records cfg) \<and> keys_ok (rc_filters cfg)
     \<and> list_all (\<lambda>(_, rs). list_all (\<lambda>r. condition_ok h (ru_condition r)) rs) (rc_rules cfg)
     \<and> list_all (\<lambda>(_, fs). list_all (filter_ok h) fs) (rc_filters cfg))
   \<and> (case compile h cfg of Inl _ \<Rightarrow> True | Inr c \<Rightarrow> \<forall>k.
        list_all2 (\<lambda>r r'. compile_rule h r = Ok r') (section_for (rc_rules cfg) k) (rules_for c k)
        \<and> list_all2 (\<lambda>s s'. compile_skip h s = Ok s') (section_for (rc_skip_records cfg) k) (skip_conditions_for c k)
        \<and> list_all2 (\<lambda>f f'. compile_filter h f = Ok f') (section_for (rc_filters cfg) k) (filters_for c k))"
proof (intro conjI, goal_cases)
  case 1
  have skips: "list_all (\<lambda>(_, cs). list_all (\<lambda>c. is_ok (compile_skip h c)) cs) (rc_skip_records cfg)"
    by (auto simp: list_all_iff compile_skip_ok)
  show ?case
    using compile_section_ok [of "''rules''" "compile_rule h" "rc_rules cfg"]
      compile_section_ok [of "''skip_records''" "compile_skip h" "rc_skip_records cfg"]
      compile_section_ok [of "''filters''" "compile_filter h" "rc_filters cfg"] skips
    unfolding compile_rule_ok compile_filter_ok
    by (cases "compile_section ''rules'' (compile_rule h) (rc_rules cfg)";
        cases "compile_section ''skip_records'' (compile_skip h) (rc_skip_records cfg)";
        cases "compile_section ''filters'' (compile_filter h) (rc_filters cfg)") (simp_all add: compile_def)
qed (auto simp: compile_def and_then_Ok rules_for_def skip_conditions_for_def filters_for_def section_for_compiled
    split: sum.split)

text \<open>
  A section whose key is an entity type in another case compiles but is never applied:
  lookups use the lower-case name, so the record passes with no violation, no skip and no
  filter, whatever that section says.
\<close>

theorem miscased_section_ignored:
  assumes "compile h cfg = Ok c"
    and "map_of (rc_rules cfg) (dt_str d) = None" "map_of (rc_skip_records cfg) (dt_str d) = None"
    and "map_of (rc_filters cfg) (dt_str d) = None"
  shows "evaluate_rules h c (dt_str d) rec = Some []
    \<and> should_skip_record h c (dt_str d) rec = None
    \<and> apply_filters h c (dt_str d) rec = (rec, [])"
proof -
  have "rules_for c (dt_str d) = []" "skip_conditions_for c (dt_str d) = []" "filters_for c (dt_str d) = []"
    using assms section_for_compiled [of _ _ "rc_rules cfg" "cc_rules c" "dt_str d"]
      section_for_compiled [of _ _ "rc_skip_records cfg" "cc_skip_conditions c" "dt_str d"]
      section_for_compiled [of _ _ "rc_filters cfg" "cc_filters c" "dt_str d"]
    by (fastforce simp: compile_def and_then_Ok rules_for_def skip_conditions_for_def filters_for_def section_for_def)+
  then show ?thesis
    by (simp add: evaluate_rules_def should_skip_record_def apply_filters_def)
qed

text \<open>A regex engine for the witnesses: a pattern matches the strings that contain it.\<close>

definition substring_host :: "string host" where
  "substring_host =
     \<lparr>re_new = Some, re_match = (\<lambda>p s. contains s p), to_lower = ascii_lower,
      ptr_get = (\<lambda>v p. None), ptr_set = (\<lambda>v p w. v)\<rparr>"

definition miscased_config :: rules_config where
  "miscased_config =
     \<lparr>rc_skip_records = [], rc_filters = [],
      rc_rules = [(''Releases'', [\<lparr>ru_name = ''title-required'', ru_description = None, ru_field = ''title'',
                                 ru_condition = Required, ru_severity = Error\<rparr>])]\<rparr>"

theorem miscased_section_ignored_witness:
  "is_ok (compile substring_host miscased_config)
    \<and> evaluate_rules substring_host (projr (compile substring_host miscased_config)) (dt_str Releases) (JObj []) = Some []"
proof -
  have ok: "is_ok (compile substring_host miscased_config)" by code_simp
  then have c: "compile substring_host miscased_config = Ok (projr (compile substring_host miscased_config))"
    by (cases "compile substring_host miscased_config") auto
  have "map_of (rc_rules miscased_config) (dt_str Releases) = None"
    "map_of (rc_skip_records miscased_config) (dt_str Releases) = None"
    "map_of (rc_filters miscased_config) (dt_str Releases) = None"
    by (simp_all add: miscased_config_def)
  from miscased_section_ignored [OF c this] ok show ?thesis by simp
qed

section \<open>Evaluation\<close>

text \<open>The values of the field that violate a rule.\<close>

definition bad_values :: "'r host \<Rightarrow> 'r compiled_condition \<Rightarrow> string list \<Rightarrow> string list" where
  "bad_values h c vals =
     (case c of
        CRequired \<Rightarrow> (if vals = [] then [[]] else filter (\<lambda>v. v = []) vals)
      | CRange lo hi \<Rightarrow> filter (\<lambda>v. \<exists>n. parse_f64 v = Some n
            \<and> ((\<exists>l. lo = Some l \<and> f64_lt n l) \<or> (\<exists>u. hi = Some u \<and> f64_lt u n))) vals
      | CRegex regex \<Rightarrow> filter (re_match h regex) vals
      | CLength lo hi \<Rightarrow> filter (\<lambda>v. (\<exists>l. lo = Some l \<and> length (chars v) < l)
            \<or> (\<exists>u. hi = Some u \<and> u < length (chars v))) vals
      | CEnum values \<Rightarrow> filter (\<lambda>v. v \<notin> values) vals)"

lemma check_values_filter:
  "(\<And>v. v \<in> set vals \<Longrightarrow> check_condition h (cr_condition r) v = Some (P v)) \<Longrightarrow>
     check_values h r vals = Some (map (violation_of r) (filter P vals))"
  by (induction vals) auto

lemma evaluate_rule_eq:
  "evaluate_rule h record r =
     Some (map (violation_of r) (bad_values h (cr_condition r) (resolve_field record (cr_field r))))"
proof (cases "cr_condition r")
  case (CRange lo hi)
  have "check_values h r vals = Some (map (violation_of r) (bad_values h (cr_condition r) vals))" for vals
    unfolding bad_values_def CRange compiled_condition.case
    by (rule check_values_filter) (auto simp: CRange check_condition_def split: option.splits)
  then show ?thesis by (simp add: evaluate_rule_def CRange)
next
  case CRequired
  then show ?thesis by (simp add: evaluate_rule_def bad_values_def)
next
  case (CRegex x)
  have "check_values h r vals = Some (map (violation_of r) (bad_values h (cr_condition r) vals))" for vals
    unfolding bad_values_def CRegex compiled_condition.case
    by (rule check_values_filter) (auto simp: CRegex check_condition_def)
  then show ?thesis by (simp add: evaluate_rule_def CRegex)
next
  case (CLength lo hi)
  have "check_values h r vals = Some (map (violation_of r) (bad_values h (cr_condition r) vals))" for vals
    unfolding bad_values_def CLength compiled_condition.case
    by (rule check_values_filter) (auto simp: CLength check_condition_def split: option.splits)
  then show ?thesis by (simp add: evaluate_rule_def CLength)
next
  case (CEnum x)
  have "check_values h r vals = Some (map (violation_of r) (bad_values h (cr_condition r) vals))" for vals
    unfolding bad_values_def CEnum compiled_condition.case
    by (rule check_values_filter) (auto simp: CEnum check_condition_def)
  then show ?thesis by (simp add: evaluate_rule_def CEnum)
qed

lemma evaluate_all_eq:
  "evaluate_all h record rs =
     Some (concat (map (\<lambda>r. map (violation_of r)
       (bad_values h (cr_condition r) (resolve_field record (cr_field r)))) rs))"
  by (induction rs) (simp_all add: evaluate_rule_eq)

text \<open>
  C26: rule evaluation never reaches its \<open>unreachable!()\<close> and is exact: the violations are, rule
  by rule in configuration order, exactly the values of the field that break the condition; a
  required field that resolves to nothing gives one violation with the empty value.
\<close>

theorem evaluate_rules_exact:
  "evaluate_rules h cfg dt record =
     Some (concat (map (\<lambda>r. map (violation_of r)
       (bad_values h (cr_condition r) (resolve_field record (cr_field r)))) (rules_for cfg dt)))"
  by (simp add: evaluate_rules_def evaluate_all_eq)

text \<open>All condition and value pairs that match, in scanning order.\<close>

definition skip_hits :: "'r host \<Rightarrow> json \<Rightarrow> compiled_skip list \<Rightarrow> (compiled_skip \<times> string) list" where
  "skip_hits h record conds =
     concat (map (\<lambda>c. map (Pair c) (filter (skip_value h c) (resolve_field record (ck_field c)))) conds)"

text \<open>
  A record is skipped exactly when some condition's text occurs, ignoring case, in some
  value of its field, and the reported reason, field and value are those of the first such
  pair in scanning order.
\<close>

theorem should_skip_first_hit:
  "should_skip_record h cfg dt record =
     (case skip_hits h record (skip_conditions_for cfg dt) of
        [] \<Rightarrow> None
      | (c, v) # _ \<Rightarrow> Some \<lparr>si_reason = ck_reason c, si_field = ck_field c, si_field_value = v\<rparr>)"
proof -
  have find: "find P vs = (case filter P vs of [] \<Rightarrow> None | v # _ \<Rightarrow> Some v)" for P and vs :: "string list"
    by (induction vs) auto
  have "skip_scan h record cs = (case skip_hits h record cs of
        [] \<Rightarrow> None
      | (c, v) # _ \<Rightarrow> Some \<lparr>si_reason = ck_reason c, si_field = ck_field c, si_field_value = v\<rparr>)" for cs
  proof (induction cs)
    case (Cons c cs)
    have "skip_hits h record (c # cs) =
        map (Pair c) (filter (skip_value h c) (resolve_field record (ck_field c))) @ skip_hits h record cs"
      by (simp add: skip_hits_def)
    with Cons show ?case
      by (cases "filter (skip_value h c) (resolve_field record (ck_field c))") (simp_all add: find)
  qed (simp add: skip_hits_def)
  then show ?thesis by (simp add: should_skip_record_def)
qed

section \<open>Filters on the record's own fields\<close>

text \<open>
  A filter whose field has no dot addresses a key of the record itself.  \<open>filter_clean\<close>: the
  filter finds nothing to do.
\<close>

definition filter_field :: "'r compiled_filter \<Rightarrow> string" where
  "filter_field cond = (case cond of CRemoveMatching f _ _ \<Rightarrow> f | CNullifyWhen f _ _ _ \<Rightarrow> f)"

definition top_level :: "'r compiled_filter \<Rightarrow> bool" where
  "top_level cond \<longleftrightarrow> list_all (\<lambda>c. c \<noteq> CHR ''.'') (filter_field cond)"

definition value_clean :: "'r host \<Rightarrow> 'r compiled_filter \<Rightarrow> json option \<Rightarrow> bool" where
  "value_clean h cond v =
     (case cond of
        CRemoveMatching _ regex _ \<Rightarrow>
          (case v of
             Some (JArr arr) \<Rightarrow> list_all (\<lambda>x. \<not> matching h regex x) arr
           | Some (JStr s) \<Rightarrow> \<not> re_match h regex s
           | _ \<Rightarrow> True)
      | CNullifyWhen _ b a _ \<Rightarrow>
          (case Option.bind v nullify_text of Some t \<Rightarrow> \<not> out_of_range b a t | None \<Rightarrow> True))"

definition filter_clean :: "'r host \<Rightarrow> jobject \<Rightarrow> 'r compiled_filter \<Rightarrow> bool" where
  "filter_clean h m cond \<longleftrightarrow> value_clean h cond (map_of m (filter_field cond))"

text \<open>What a filter does to the value of its field.\<close>

definition filter_value :: "'r host \<Rightarrow> 'r compiled_filter \<Rightarrow> json option \<Rightarrow> json option" where
  "filter_value h cond v =
     (case cond of
        CRemoveMatching _ regex _ \<Rightarrow>
          (case v of
             Some (JArr arr) \<Rightarrow> Some (JArr (filter (\<lambda>x. \<not> matching h regex x) arr))
           | Some (JStr s) \<Rightarrow> (if re_match h regex s then None else v)
           | _ \<Rightarrow> v)
      | CNullifyWhen _ b a _ \<Rightarrow>
          (case Option.bind v nullify_text of
             Some t \<Rightarrow> (if out_of_range b a t then Some JNull else v)
           | None \<Rightarrow> v))"

text \<open>
  An action says what a filter of the list did: its field and reason, and one or more values, every
  one of them hit by that filter, with their number.
\<close>

definition filter_reason :: "'r compiled_filter \<Rightarrow> string" where
  "filter_reason cond = (case cond of CRemoveMatching _ _ x \<Rightarrow> x | CNullifyWhen _ _ _ x \<Rightarrow> x)"

definition hits :: "'r host \<Rightarrow> 'r compiled_filter \<Rightarrow> string \<Rightarrow> bool" where
  "hits h cond s = (case cond of CRemoveMatching _ regex _ \<Rightarrow> re_match h regex s | CNullifyWhen _ b a _ \<Rightarrow> out_of_range b a s)"

definition action_of :: "'r host \<Rightarrow> 'r compiled_filter \<Rightarrow> filter_action \<Rightarrow> bool" where
  "action_of h cond a \<longleftrightarrow> fa_field a = filter_field cond \<and> fa_reason a = filter_reason cond
     \<and> 0 < fa_removed_count a \<and> fa_removed_count a = length (fa_removed_values a)
     \<and> list_all (hits h cond) (fa_removed_values a)"

text \<open>
  What the filters of one field are to do to its value, all together: from a list, the elements that match
  some pattern go and the others stay in their order; a text goes, or becomes null, by the first filter
  that hits it; a number becomes null; and the texts that are lost.
\<close>

definition element_hit :: "'r host \<Rightarrow> 'r compiled_filter list \<Rightarrow> json \<Rightarrow> bool" where
  "element_hit h conds x \<longleftrightarrow>
     list_ex (\<lambda>c. case c of CRemoveMatching _ regex _ \<Rightarrow> matching h regex x | CNullifyWhen _ _ _ _ \<Rightarrow> False) conds"

definition field_after :: "'r host \<Rightarrow> 'r compiled_filter list \<Rightarrow> json option \<Rightarrow> json option" where
  "field_after h conds v =
     (case v of
        None \<Rightarrow> None
      | Some (JArr arr) \<Rightarrow> Some (JArr (filter (\<lambda>x. \<not> element_hit h conds x) arr))
      | Some _ \<Rightarrow>
          (case find (\<lambda>c. \<not> value_clean h c v) conds of
             None \<Rightarrow> v
           | Some (CRemoveMatching _ _ _) \<Rightarrow> None
           | Some (CNullifyWhen _ _ _ _) \<Rightarrow> Some JNull))"

definition texts_lost :: "'r host \<Rightarrow> 'r compiled_filter list \<Rightarrow> json option \<Rightarrow> string list" where
  "texts_lost h conds v =
     (case v of
        None \<Rightarrow> []
      | Some (JArr arr) \<Rightarrow> filter_map as_str (filter (element_hit h conds) arr)
      | Some x \<Rightarrow>
          (if list_all (\<lambda>c. value_clean h c v) conds then [] else case nullify_text x of Some t \<Rightarrow> [t] | None \<Rightarrow> []))"

definition texts_reported :: "filter_action list \<Rightarrow> string \<Rightarrow> string list" where
  "texts_reported actions k = concat (map fa_removed_values (filter (\<lambda>a. fa_field a = k) actions))"

definition filters_on :: "'r compiled_filter list \<Rightarrow> string \<Rightarrow> 'r compiled_filter list" where
  "filters_on conds k = filter (\<lambda>c. filter_field c = k) conds"

lemma filters_on_simps [simp]:
  "filters_on [] k = []" "filters_on (c # cs) k = (if filter_field c = k then c # filters_on cs k else filters_on cs k)"
  by (simp_all add: filters_on_def)

lemma texts_reported_append [simp]: "texts_reported (as @ bs) k = texts_reported as k @ texts_reported bs k"
  by (simp add: texts_reported_def)

lemma no_filters [simp]: "field_after h [] v = v" "texts_lost h [] v = []"
  by (auto simp: field_after_def texts_lost_def element_hit_def split: option.split json.split)

lemma element_hit_Cons: "element_hit h (c # cs) x \<longleftrightarrow> element_hit h [c] x \<or> element_hit h cs x"
  by (simp add: element_hit_def)

lemma field_after_single: "field_after h [c] v = filter_value h c v"
  by (cases c; cases v)
    (auto simp: field_after_def filter_value_def value_clean_def element_hit_def split: json.split option.split)

text \<open>The filters of a field compose.\<close>

lemma find_clean: "list_all P xs \<Longrightarrow> find (\<lambda>x. \<not> P x) xs = None"
  by (induction xs) auto

lemma value_clean_null: "value_clean h c (Some JNull)" "value_clean h c None"
  by (auto simp: value_clean_def split: compiled_filter.split)

lemma field_after_Cons: "field_after h (c # cs) v = field_after h cs (filter_value h c v)"
proof -
  have "list_all (\<lambda>c. value_clean h c (Some JNull)) cs" by (simp add: value_clean_null list_all_iff)
  then have "find (\<lambda>c. \<not> value_clean h c (Some JNull)) cs = None" by (rule find_clean)
  then have null: "field_after h cs (Some JNull) = Some JNull" by (simp add: field_after_def)
  consider (none) "v = None" | (arr) arr where "v = Some (JArr arr)"
    | (other) x where "v = Some x" "\<And>arr. x \<noteq> JArr arr" by (cases v; cases "the v") auto
  then show ?thesis
  proof cases
    case none
    then show ?thesis by (simp add: field_after_def filter_value_def split: compiled_filter.split)
  next
    case arr
    then show ?thesis
      by (cases c) (auto simp: field_after_def filter_value_def element_hit_def intro: filter_cong)
  next
    case other
    then show ?thesis
      using null
      by (cases c; cases x)
        (auto simp: field_after_def filter_value_def value_clean_def split: option.split)
  qed
qed

lemma texts_lost_Cons: "mset (texts_lost h (c # cs) v) = mset (texts_lost h [c] v) + mset (texts_lost h cs (filter_value h c v))"
proof -
  have clean: "texts_lost h cs (Some JNull) = []" "texts_lost h cs None = []"
    by (simp_all add: texts_lost_def value_clean_null)
  have split_mset: "mset (filter_map as_str (filter (\<lambda>x. P x \<or> Q x) arr))
      = mset (filter_map as_str (filter P arr)) + mset (filter_map as_str (filter Q (filter (\<lambda>x. \<not> P x) arr)))" for P Q arr
    by (induction arr) (auto split: option.split)
  consider (none) "v = None" | (arr) arr where "v = Some (JArr arr)"
    | (other) x where "v = Some x" "\<And>arr. x \<noteq> JArr arr" by (cases v; cases "the v") auto
  then show ?thesis
  proof cases
    case none
    then show ?thesis using clean by (simp add: texts_lost_def filter_value_def split: compiled_filter.split)
  next
    case arr
    have kept: "filter_value h c v = Some (JArr (filter (\<lambda>x. \<not> element_hit h [c] x) arr))"
      using arr field_after_single [of h c v] by (simp add: field_after_def)
    have "element_hit h (c # cs) = (\<lambda>x. element_hit h [c] x \<or> element_hit h cs x)"
      by (simp add: fun_eq_iff element_hit_def)
    then show ?thesis
      using split_mset [of "element_hit h [c]" "element_hit h cs" arr] unfolding kept by (simp add: texts_lost_def arr)
  next
    case other
    then show ?thesis
      using clean
      by (cases c; cases x)
        (auto simp: texts_lost_def filter_value_def value_clean_def split: option.split)
  qed
qed

lemma split_plain: "top_level (CRemoveMatching f r x) \<Longrightarrow> split_on (CHR ''.'') f = [f]"
  by (simp add: top_level_def filter_field_def split_by_no_delim)

lemma removed_values_length: "length (filter_map as_str (filter (matching h rx) arr)) = length (filter (matching h rx) arr)"
proof (induction arr)
  case (Cons x arr)
  have "matching h rx x \<Longrightarrow> \<exists>s. as_str x = Some s"
    by (auto simp: matching_def split: option.splits)
  with Cons show ?case by auto
qed simp

lemma length_kept: "length arr - length (filter (\<lambda>v. \<not> P v) arr) = length (filter P arr)"
  using sum_length_filter_compl [of P arr] by simp

lemma removed_some: "length (filter (\<lambda>v. \<not> P v) arr) < length arr \<Longrightarrow> filter P arr \<noteq> []"
  using length_kept [of arr P] by auto

lemma remove_leaf_fst:
  "map_of (fst (remove_leaf h f rx reason f m)) = (map_of m)(f := filter_value h (CRemoveMatching f rx reason) (map_of m f))"
  by (auto simp: remove_leaf_def filter_value_def Let_def fun_eq_iff split: option.splits json.splits)

lemma removed_texts_hit: "list_all (re_match h rx) (filter_map as_str (filter (matching h rx) arr))"
  by (induction arr) (auto simp: matching_def split: option.splits)

lemma remove_leaf_actions:
  "list_all (action_of h (CRemoveMatching f rx reason)) (snd (remove_leaf h f rx reason f m))
    \<and> concat (map fa_removed_values (snd (remove_leaf h f rx reason f m)))
      = texts_lost h [CRemoveMatching f rx reason] (map_of m f)"
proof -
  have elem: "element_hit h [CRemoveMatching f rx reason] = matching h rx" by (simp add: element_hit_def fun_eq_iff)
  have act: "hits h (CRemoveMatching f rx reason) = re_match h rx" by (simp add: hits_def fun_eq_iff)
  have none: "filter (matching h rx) arr = []" if "\<not> length (filter (\<lambda>v. \<not> matching h rx v) arr) < length arr" for arr
    using that sum_length_filter_compl [of "matching h rx" arr] by (subst length_0_conv [symmetric]) linarith
  show ?thesis
    by (auto simp: remove_leaf_def action_of_def act elem texts_lost_def value_clean_def filter_field_def filter_reason_def
        Let_def removed_values_length length_kept removed_texts_hit none
        dest: removed_some split: option.splits json.splits)
qed

lemma remove_leaf_wf: "obj_wf m \<Longrightarrow> obj_wf (fst (remove_leaf h f rx reason leaf m))"
proof -
  assume m: "obj_wf m"
  have "json_wf (JArr arr) \<Longrightarrow> json_wf (JArr (filter P arr))" for arr P
    by (auto simp: list_all_iff)
  with m show ?thesis
    by (auto simp: remove_leaf_def Let_def simp del: json_wf.simps split: option.splits json.splits
        intro!: obj_wf_oinsert obj_wf_oremove dest: obj_wf_get)
qed

text \<open>One top-level filter on an object: a new object, changed at one key only.\<close>

lemma filter_step_object:
  assumes "top_level cond" "obj_wf m"
  shows "\<exists>m' acts. filter_step h (JObj m) cond = (JObj m', acts) \<and> obj_wf m' \<and> list_all (action_of h cond) acts
    \<and> concat (map fa_removed_values acts) = texts_lost h [cond] (map_of m (filter_field cond))
    \<and> map_of m' = (map_of m)(filter_field cond := filter_value h cond (map_of m (filter_field cond)))"
proof (cases cond)
  case (CRemoveMatching f rx reason)
  have seg: "split_on (CHR ''.'') f = [f]"
    using assms(1) unfolding CRemoveMatching by (rule split_plain)
  let ?r = "remove_leaf h f rx reason f m"
  have "filter_step h (JObj m) cond = (JObj (fst ?r), snd ?r)"
    by (simp add: CRemoveMatching filter_step_def remove_matching_step_def seg Let_def case_prod_beta)
  then show ?thesis
    using remove_leaf_fst [of h f rx reason m] remove_leaf_actions [of h f rx reason m] remove_leaf_wf [OF assms(2)]
    by (simp add: CRemoveMatching filter_field_def)
next
  case (CNullifyWhen f b a reason)
  have arrays: "element_hit h [cond] x \<longleftrightarrow> False" for x by (simp add: CNullifyWhen element_hit_def)
  show ?thesis
  proof (cases "Option.bind (map_of m f) nullify_text")
    case None
    have "texts_lost h [cond] (map_of m f) = []"
      using None arrays by (auto simp: texts_lost_def CNullifyWhen value_clean_def split: option.splits json.splits)
    then show ?thesis
      using assms(2) None by (simp add: CNullifyWhen filter_step_def nullify_step_def filter_field_def filter_value_def)
  next
    case (Some t)
    then obtain x where x: "map_of m f = Some x" "nullify_text x = Some t" by (auto split: Option.bind_splits)
    then have "texts_lost h [cond] (map_of m f) = (if out_of_range b a t then [t] else [])"
      by (cases x) (auto simp: texts_lost_def CNullifyWhen value_clean_def)
    then show ?thesis
      using assms(2) Some
      by (simp add: CNullifyWhen filter_step_def nullify_step_def filter_field_def filter_value_def action_of_def
          filter_reason_def hits_def obj_wf_oinsert)
  qed
qed

lemma filter_value_clean: "value_clean h cond (filter_value h cond v)"
  by (auto simp: value_clean_def filter_value_def list_all_iff
      split: compiled_filter.splits option.splits json.splits)

text \<open>A filter leaves the value clean for every other filter it was clean for.\<close>

lemma filter_value_keeps_clean: "value_clean h c v \<Longrightarrow> value_clean h c (filter_value h c' v)"
  by (cases c; cases c'; cases v)
    (auto simp: value_clean_def filter_value_def list_all_iff split: option.splits json.splits)

lemma filter_step_clean:
  assumes "top_level cond" "obj_wf m" "filter_clean h m cond"
  shows "filter_step h (JObj m) cond = (JObj m, [])"
proof (cases cond)
  case (CRemoveMatching f rx reason)
  have seg: "split_on (CHR ''.'') f = [f]"
    using assms(1) unfolding CRemoveMatching by (rule split_plain)
  have "remove_leaf h f rx reason f m = (m, [])"
  proof (cases "map_of m f")
    case (Some v)
    show ?thesis
    proof (cases v)
      case (JArr arr)
      then have "filter (\<lambda>x. \<not> matching h rx x) arr = arr"
        using assms(3) Some by (simp add: CRemoveMatching filter_clean_def value_clean_def filter_field_def list_all_iff filter_id_conv)
      then show ?thesis
        using Some JArr assms(2) by (simp add: remove_leaf_def Let_def oinsert_same obj_wf_owf)
    qed (use assms(3) Some in \<open>auto simp: CRemoveMatching remove_leaf_def filter_clean_def value_clean_def filter_field_def\<close>)
  qed (simp add: remove_leaf_def)
  then show ?thesis
    by (simp add: CRemoveMatching filter_step_def remove_matching_step_def seg Let_def)
next
  case (CNullifyWhen f b a reason)
  then show ?thesis
    using assms(3)
    by (auto simp: filter_step_def nullify_step_def filter_clean_def value_clean_def filter_field_def split: option.splits)
qed

lemma run_filters_object:
  assumes "list_all top_level conds" "obj_wf m" "list_all (filter_clean h m) prev"
  shows "\<exists>m' acts. run_filters h conds (JObj m) = (JObj m', acts) \<and> obj_wf m'
    \<and> list_all (\<lambda>a. list_ex (\<lambda>c. action_of h c a) conds) acts
    \<and> list_all (filter_clean h m') (prev @ conds)
    \<and> (\<forall>k. map_of m' k = field_after h (filters_on conds k) (map_of m k)
        \<and> mset (texts_reported acts k) = mset (texts_lost h (filters_on conds k) (map_of m k)))"
  using assms
proof (induction conds arbitrary: m prev)
  case Nil
  then show ?case by (auto simp: texts_reported_def)
next
  case (Cons c conds)
  obtain m1 acts where step: "filter_step h (JObj m) c = (JObj m1, acts)" "obj_wf m1" "list_all (action_of h c) acts"
      and lost: "concat (map fa_removed_values acts) = texts_lost h [c] (map_of m (filter_field c))"
      and m1: "map_of m1 = (map_of m)(filter_field c := filter_value h c (map_of m (filter_field c)))"
    using filter_step_object [of c m h] Cons.prems by auto
  have "filter_clean h m1 d" if "filter_clean h m d" for d
    using that by (auto simp: filter_clean_def m1 filter_value_keeps_clean)
  moreover have "filter_clean h m1 c"
    by (simp add: filter_clean_def m1 filter_value_clean)
  ultimately have "list_all (filter_clean h m1) (prev @ [c])"
    using Cons.prems(3) by (auto simp: list_all_iff)
  from Cons.IH [OF _ step(2) this] Cons.prems(1)
  obtain m' bs where run: "run_filters h conds (JObj m1) = (JObj m', bs)" "obj_wf m'"
      "list_all (\<lambda>a. list_ex (\<lambda>c. action_of h c a) conds) bs"
      "list_all (filter_clean h m') ((prev @ [c]) @ conds)"
      and rest: "map_of m' k = field_after h (filters_on conds k) (map_of m1 k)"
        "mset (texts_reported bs k) = mset (texts_lost h (filters_on conds k) (map_of m1 k))" for k
    by auto
  have "filter (\<lambda>a. fa_field a = k) acts = (if k = filter_field c then acts else [])" for k
    using step(3) by (auto simp: list_all_iff action_of_def filter_empty_conv)
  then have "texts_reported acts k = (if k = filter_field c then texts_lost h [c] (map_of m k) else [])" for k
    using lost by (simp add: texts_reported_def)
  then have each: "map_of m' k = field_after h (filters_on (c # conds) k) (map_of m k)
      \<and> mset (texts_reported (acts @ bs) k) = mset (texts_lost h (filters_on (c # conds) k) (map_of m k))" for k
    using rest [of k] texts_lost_Cons [of h c "filters_on conds k" "map_of m k"]
    by (auto simp: m1 field_after_Cons)
  have "list_all (\<lambda>a. list_ex (\<lambda>c. action_of h c a) (c # conds)) (acts @ bs)"
    using step(3) run(3) by (auto simp: list_all_iff)
  moreover have "list_all (filter_clean h m') (prev @ c # conds)" using run(4) by simp
  moreover have "run_filters h (c # conds) (JObj m) = (JObj m', acts @ bs)" using step(1) run(1) by simp
  ultimately show ?case using run(2) each by blast
qed

lemma run_filters_clean:
  "list_all top_level conds \<Longrightarrow> obj_wf m \<Longrightarrow> list_all (filter_clean h m) conds \<Longrightarrow>
   run_filters h conds (JObj m) = (JObj m, [])"
  by (induction conds) (auto simp: filter_step_clean)

lemma run_filters_other:
  assumes "as_object v = None" "list_all top_level conds"
  shows "run_filters h conds v = (v, [])"
  using assms(2)
proof (induction conds)
  case (Cons c conds)
  have "filter_step h v c = (v, [])"
    using assms(1) Cons.prems
    by (cases c; cases v)
      (auto simp: filter_step_def remove_matching_step_def nullify_step_def Let_def split_plain)
  with Cons show ?case by simp
qed simp

text \<open>
  C27: filtering of the record's own fields is exact, completely reported and idempotent.  Every field
  ends as its filters say (a list keeps exactly the elements that no pattern matches, in their order; a text or
  number is removed or nullified by the first filter that hits it; a field without filters stays); the
  values reported for a field are, one for one, the texts it lost; every action names one of the filters,
  and counts the values it lists, all of which that filter hits; a second pass changes and reports nothing.
\<close>

theorem apply_filters_exact:
  assumes "json_wf r0" "list_all top_level (filters_for cfg dt)"
  shows "let (r, actions) = apply_filters h cfg dt r0; conds = filters_for cfg dt in
     json_wf r \<and> apply_filters h cfg dt r = (r, [])
     \<and> list_all (\<lambda>a. list_ex (\<lambda>c. action_of h c a) conds) actions
     \<and> (case r0 of
          JObj m \<Rightarrow> \<exists>m'. r = JObj m' \<and> (\<forall>k.
            map_of m' k = field_after h (filters_on conds k) (map_of m k)
            \<and> mset (texts_reported actions k) = mset (texts_lost h (filters_on conds k) (map_of m k)))
        | _ \<Rightarrow> r = r0 \<and> actions = [])"
proof (cases "as_object r0")
  case None
  then show ?thesis
    using assms by (cases r0) (simp_all add: apply_filters_def run_filters_other)
next
  case (Some m)
  then have r0: "r0 = JObj m" by (cases r0) auto
  then obtain m' acts where run: "run_filters h (filters_for cfg dt) (JObj m) = (JObj m', acts)" "obj_wf m'"
      "list_all (\<lambda>a. list_ex (\<lambda>c. action_of h c a) (filters_for cfg dt)) acts"
      "list_all (filter_clean h m') (filters_for cfg dt)"
      "\<forall>k. map_of m' k = field_after h (filters_on (filters_for cfg dt) k) (map_of m k)
        \<and> mset (texts_reported acts k) = mset (texts_lost h (filters_on (filters_for cfg dt) k) (map_of m k))"
    using run_filters_object [OF assms(2), of m h "[]"] assms(1) by auto
  then show ?thesis
    using run_filters_clean [OF assms(2) run(2) run(4)] by (simp add: apply_filters_def r0)
qed

text \<open>Two patterns on one list, and a text that is removed.\<close>

definition genre_config :: "string compiled_config" where
  "genre_config = \<lparr>cc_rules = [], cc_skip_conditions = [],
     cc_filters = [(''releases'', [CRemoveMatching ''genres'' ''1'' ''numeric genre'', CRemoveMatching ''genres'' ''x'' ''x'',
       CRemoveMatching ''notes'' ''spam'' ''spam''])]\<rparr>"

definition genre_record :: json where
  "genre_record = JObj [(''genres'', JArr [JStr ''Rock'', JStr ''x'', JStr ''1'', JStr ''Pop'', JStr ''1'']),
     (''id'', JStr ''7''), (''notes'', JStr ''spam'')]"

theorem apply_filters_exact_witness:
  "\<exists>m'. fst (apply_filters substring_host genre_config ''releases'' genre_record) = JObj m'
     \<and> map_of m' ''genres'' = Some (JArr [JStr ''Rock'', JStr ''Pop'']) \<and> map_of m' ''notes'' = None
     \<and> map_of m' ''id'' = Some (JStr ''7'')
     \<and> mset (texts_reported (snd (apply_filters substring_host genre_config ''releases'' genre_record)) ''genres'')
       = mset [''x'', ''1'', ''1'']"
proof -
  let ?conds = "filters_for genre_config ''releases''"
  have wf: "json_wf genre_record" by (simp add: genre_record_def obj_wf_def owf_def)
  have plain: "list_all top_level ?conds" by code_simp
  obtain m where m: "genre_record = JObj m" by (simp add: genre_record_def)
  have after: "field_after substring_host (filters_on ?conds ''genres'') (map_of m ''genres'') = Some (JArr [JStr ''Rock'', JStr ''Pop''])"
    "field_after substring_host (filters_on ?conds ''notes'') (map_of m ''notes'') = None"
    "field_after substring_host (filters_on ?conds ''id'') (map_of m ''id'') = Some (JStr ''7'')"
    "texts_lost substring_host (filters_on ?conds ''genres'') (map_of m ''genres'') = [''x'', ''1'', ''1'']"
    using m unfolding genre_record_def json.inject by (clarify, code_simp)+
  from apply_filters_exact [OF wf plain, of substring_host]
  obtain m' where m': "fst (apply_filters substring_host genre_config ''releases'' genre_record) = JObj m'"
    and each: "map_of m' k = field_after substring_host (filters_on ?conds k) (map_of m k)"
      "mset (texts_reported (snd (apply_filters substring_host genre_config ''releases'' genre_record)) k)
        = mset (texts_lost substring_host (filters_on ?conds k) (map_of m k))" for k
    unfolding Let_def case_prod_beta m by auto
  show ?thesis
    using m' each(1) [of "''genres''"] each(1) [of "''notes''"] each(1) [of "''id''"] each(2) [of "''genres''"]
    unfolding after by blast
qed

end
