(* ===== verification/Quality_Report.thy ===== *)
theory Quality_Report
  imports Rules "HOL-Library.Product_Lexorder"
begin

text \<open>
  \<open>src/discogs/rules.rs\<close>, second half: the quality report.  Its maps are ordered maps keyed by
  entity type; counters are natural numbers.  A report is a fold of the events the validator
  records, and \<open>merge\<close> is shown to be concatenation of events.
\<close>

record rule_counts =
  ct_errors :: nat
  ct_warnings :: nat
  ct_info :: nat

record skipped_record =
  sr_record_id :: string
  sr_reason :: string

record filter_counts =
  fc_records :: nat
  fc_values :: nat

record quality_report =
  qr_counts :: "(string, (string, rule_counts) omap) omap"
  qr_total_records :: "(string, nat) omap"
  qr_skipped :: "(string, skipped_record list) omap"
  qr_filtered :: "(string, (string \<times> string, filter_counts) omap) omap"

definition rule_counts_default :: rule_counts where
  "rule_counts_default = \<lparr>ct_errors = 0, ct_warnings = 0, ct_info = 0\<rparr>"

definition filter_counts_default :: filter_counts where
  "filter_counts_default = \<lparr>fc_records = 0, fc_values = 0\<rparr>"

definition report_new :: quality_report where
  "report_new = \<lparr>qr_counts = [], qr_total_records = [], qr_skipped = [], qr_filtered = []\<rparr>"

definition bump :: "severity \<Rightarrow> rule_counts \<Rightarrow> rule_counts" where
  "bump sev c =
     (case sev of
        Error \<Rightarrow> c\<lparr>ct_errors := ct_errors c + 1\<rparr>
      | Warning \<Rightarrow> c\<lparr>ct_warnings := ct_warnings c + 1\<rparr>
      | Info \<Rightarrow> c\<lparr>ct_info := ct_info c + 1\<rparr>)"

definition record_violation :: "string \<Rightarrow> string \<Rightarrow> severity \<Rightarrow> quality_report \<Rightarrow> quality_report" where
  "record_violation dt rule_name sev r =
     r\<lparr>qr_counts := oentry dt [] (oentry rule_name rule_counts_default (bump sev)) (qr_counts r)\<rparr>"

definition increment_total :: "string \<Rightarrow> quality_report \<Rightarrow> quality_report" where
  "increment_total dt r = r\<lparr>qr_total_records := oentry dt 0 (\<lambda>n. n + 1) (qr_total_records r)\<rparr>"

definition record_skip :: "string \<Rightarrow> string \<Rightarrow> string \<Rightarrow> quality_report \<Rightarrow> quality_report" where
  "record_skip dt record_id reason r =
     r\<lparr>qr_skipped := oentry dt [] (\<lambda>rs. rs @ [\<lparr>sr_record_id = record_id, sr_reason = reason\<rparr>]) (qr_skipped r)\<rparr>"

definition add_action :: "filter_action \<Rightarrow> filter_counts \<Rightarrow> filter_counts" where
  "add_action a c = c\<lparr>fc_records := fc_records c + 1, fc_values := fc_values c + fa_removed_count a\<rparr>"

definition record_filter_action :: "string \<Rightarrow> filter_action \<Rightarrow> quality_report \<Rightarrow> quality_report" where
  "record_filter_action dt a r =
     r\<lparr>qr_filtered :=
       oentry dt [] (oentry (fa_field a, fa_reason a) filter_counts_default (add_action a)) (qr_filtered r)\<rparr>"

definition record_filter_actions :: "string \<Rightarrow> filter_action list \<Rightarrow> quality_report \<Rightarrow> quality_report" where
  "record_filter_actions dt actions r = fold (record_filter_action dt) actions r"

definition has_filtered_values :: "quality_report \<Rightarrow> bool" where
  "has_filtered_values r \<longleftrightarrow>
     list_ex (\<lambda>f. list_ex (\<lambda>c. fc_values c > 0) (ovalues f)) (ovalues (qr_filtered r))"

definition has_skipped_records :: "quality_report \<Rightarrow> bool" where
  "has_skipped_records r \<longleftrightarrow> list_ex (\<lambda>v. v \<noteq> []) (ovalues (qr_skipped r))"

definition has_violations :: "quality_report \<Rightarrow> bool" where
  "has_violations r \<longleftrightarrow>
     list_ex (\<lambda>rs. list_ex (\<lambda>c. ct_errors c > 0 \<or> ct_warnings c > 0 \<or> ct_info c > 0) (ovalues rs))
       (ovalues (qr_counts r))"

text \<open>The merging loops: every entry of the other map is combined into the entry here.\<close>

definition omerge :: "'v \<Rightarrow> ('v \<Rightarrow> 'w \<Rightarrow> 'v) \<Rightarrow> ('k::linorder, 'w) omap \<Rightarrow> ('k, 'v) omap \<Rightarrow> ('k, 'v) omap" where
  "omerge d f other m = fold (\<lambda>(k, w). oentry k d (\<lambda>v. f v w)) other m"

definition add_counts :: "rule_counts \<Rightarrow> rule_counts \<Rightarrow> rule_counts" where
  "add_counts a b =
     \<lparr>ct_errors = ct_errors a + ct_errors b, ct_warnings = ct_warnings a + ct_warnings b,
      ct_info = ct_info a + ct_info b\<rparr>"

definition add_filter_counts :: "filter_counts \<Rightarrow> filter_counts \<Rightarrow> filter_counts" where
  "add_filter_counts a b =
     \<lparr>fc_records = fc_records a + fc_records b, fc_values = fc_values a + fc_values b\<rparr>"

definition merge :: "quality_report \<Rightarrow> quality_report \<Rightarrow> quality_report" where
  "merge r other =
     \<lparr>qr_counts = omerge [] (\<lambda>m rules. omerge rule_counts_default add_counts rules m) (qr_counts other) (qr_counts r),
      qr_total_records = omerge 0 (+) (qr_total_records other) (qr_total_records r),
      qr_skipped = omerge [] (@) (qr_skipped other) (qr_skipped r),
      qr_filtered = omerge [] (\<lambda>m fs. omerge filter_counts_default add_filter_counts fs m)
                      (qr_filtered other) (qr_filtered r)\<rparr>"

section \<open>The summary text\<close>

definition nl :: string where "nl = [CHR 0x0A]"

text \<open>The symbols of the headings, as UTF-8.\<close>

definition chart_symbol :: string where "chart_symbol = [CHR 0xF0, CHR 0x9F, CHR 0x93, CHR 0x8A]"
definition skip_symbol :: string where "skip_symbol = [CHR 0xE2, CHR 0x8F, CHR 0xAD, CHR 0xEF, CHR 0xB8, CHR 0x8F]"
definition wrench_symbol :: string where "wrench_symbol = [CHR 0xF0, CHR 0x9F, CHR 0x94, CHR 0xA7]"

definition summary_types :: "string list" where
  "summary_types = [''releases'', ''artists'', ''labels'', ''masters'']"

definition skipped_line :: "quality_report \<Rightarrow> string \<Rightarrow> string" where
  "skipped_line r dt =
     (case map_of (qr_skipped r) dt of
        None \<Rightarrow> []
      | Some records \<Rightarrow>
          (if records = [] then []
           else
             (let by_reason = fold (\<lambda>x. oentry (sr_reason x) [] (\<lambda>ids. ids @ [sr_record_id x])) records [];
                  details = map (\<lambda>(reason, ids). reason @ '': '' @ join '', '' ids) by_reason
              in ''    '' @ dt @ '': '' @ show_nat (length records) @ '' ('' @ join ''; '' details @ '')'' @ nl)))"

definition filtered_lines :: "quality_report \<Rightarrow> string \<Rightarrow> string" where
  "filtered_lines r dt =
     (case map_of (qr_filtered r) dt of
        None \<Rightarrow> []
      | Some filters \<Rightarrow>
          concat (map (\<lambda>((field, reason), c).
            ''    '' @ dt @ '': '' @ field @ '': '' @ show_nat (fc_values c) @ '' values in ''
              @ show_nat (fc_records c) @ '' records ('' @ reason @ '')'' @ nl) filters))"

definition rule_line :: "string \<times> rule_counts \<Rightarrow> string" where
  "rule_line p =
     (let c = snd p;
          parts = (if ct_errors c > 0 then [show_nat (ct_errors c) @ '' errors''] else [])
                @ (if ct_warnings c > 0 then [show_nat (ct_warnings c) @ '' warnings''] else [])
                @ (if ct_info c > 0 then [show_nat (ct_info c) @ '' info''] else [])
      in ''    '' @ fst p @ '': '' @ join '', '' parts @ nl)"

definition type_lines :: "quality_report \<Rightarrow> string \<Rightarrow> string" where
  "type_lines r dt =
     (let total = (case map_of (qr_total_records r) dt of Some n \<Rightarrow> n | None \<Rightarrow> 0) in
      case map_of (qr_counts r) dt of
        Some rules \<Rightarrow>
          ''  '' @ dt @ '': '' @ show_nat (osum ct_errors rules) @ '' errors, ''
            @ show_nat (osum ct_warnings rules) @ '' warnings (of '' @ show_nat total @ '' records)'' @ nl
            @ concat (map rule_line rules)
      | None \<Rightarrow>
          (if total > 0 then ''  '' @ dt @ '': 0 errors, 0 warnings (of '' @ show_nat total @ '' records)'' @ nl
           else []))"

definition all_clear :: "string \<Rightarrow> string" where
  "all_clear version =
     chart_symbol @ '' Data Quality Report for discogs_'' @ version
       @ '': No data quality violations found.'' @ nl"

definition format_summary :: "string \<Rightarrow> quality_report \<Rightarrow> string" where
  "format_summary version r =
     (if \<not> has_violations r \<and> \<not> has_skipped_records r \<and> \<not> has_filtered_values r then all_clear version
      else
        chart_symbol @ '' Data Quality Report for discogs_'' @ version @ '':'' @ nl
        @ (if has_skipped_records r then
             ''  '' @ skip_symbol @ '' Skipped records:'' @ nl @ concat (map (skipped_line r) summary_types)
           else [])
        @ (if has_filtered_values r then
             ''  '' @ wrench_symbol @ '' Filtered values (repaired before validation):'' @ nl
               @ concat (map (filtered_lines r) summary_types)
           else [])
        @ concat (map (type_lines r) summary_types))"

section \<open>Merging entry by entry\<close>

lemma owf_omerge [wf_intros]: "owf m \<Longrightarrow> owf (omerge d f other m)"
  unfolding omerge_def by (induction other arbitrary: m) (auto simp: owf_oentry)

lemma omerge_Nil [simp]: "omerge d f [] m = m"
  by (simp add: omerge_def)

lemma map_of_omerge:
  "owf other \<Longrightarrow> map_of (omerge d f other m) k =
     (case map_of other k of
        None \<Rightarrow> map_of m k
      | Some w \<Rightarrow> Some (f (case map_of m k of None \<Rightarrow> d | Some v \<Rightarrow> v) w))"
proof (induction other arbitrary: m)
  case (Cons p other)
  obtain k' w where p: "p = (k', w)" by force
  have "map_of other k' = None"
    using Cons.prems by (force simp: p owf_Cons map_of_eq_None_iff)
  with Cons show ?case
    by (auto simp: p owf_Cons omerge_def map_of_oentry split: option.splits)
qed (simp add: omerge_def)

text \<open>
  Merging commutes with an update of the merged-in map, when the combination commutes with
  the update of a value and a fresh entry is neutral.
\<close>

lemma omerge_oentry:
  assumes "owf other" "owf m" "\<And>x. f x e = x"
    and "\<And>x y. map_of m k = Some x \<or> x = d \<Longrightarrow> map_of other k = Some y \<or> y = e \<Longrightarrow> f x (g y) = g' (f x y)"
  shows "omerge d f (oentry k e g other) m = oentry k d g' (omerge d f other m)"
proof (rule omap_ext)
  show "map_of (omerge d f (oentry k e g other) m) = map_of (oentry k d g' (omerge d f other m))"
    using assms by (auto simp: fun_eq_iff map_of_omerge map_of_oentry owf_oentry split: option.splits)
qed (use assms in \<open>auto simp: owf_omerge owf_oentry\<close>)

definition report_wf :: "quality_report \<Rightarrow> bool" where
  "report_wf r \<longleftrightarrow>
     owf (qr_counts r) \<and> (\<forall>k m. map_of (qr_counts r) k = Some m \<longrightarrow> owf m)
     \<and> owf (qr_total_records r) \<and> owf (qr_skipped r)
     \<and> owf (qr_filtered r) \<and> (\<forall>k m. map_of (qr_filtered r) k = Some m \<longrightarrow> owf m)"

lemma report_wf_new [simp]: "report_wf report_new"
  by (simp add: report_wf_def report_new_def)

lemma report_wf_violation: "report_wf r \<Longrightarrow> report_wf (record_violation dt rn sev r)"
  by (auto simp: report_wf_def record_violation_def owf_oentry map_of_oentry split: option.splits if_splits)

lemma report_wf_total: "report_wf r \<Longrightarrow> report_wf (increment_total dt r)"
  by (auto simp: report_wf_def increment_total_def owf_oentry)

lemma report_wf_skip: "report_wf r \<Longrightarrow> report_wf (record_skip dt i re r)"
  by (auto simp: report_wf_def record_skip_def owf_oentry)

lemma report_wf_action: "report_wf r \<Longrightarrow> report_wf (record_filter_action dt a r)"
  by (auto simp: report_wf_def record_filter_action_def owf_oentry map_of_oentry split: option.splits if_splits)

lemma add_counts_default [simp]: "add_counts x rule_counts_default = x"
  by (simp add: add_counts_def rule_counts_default_def)

lemma add_counts_bump: "add_counts x (bump sev y) = bump sev (add_counts x y)"
  by (simp add: add_counts_def bump_def split: severity.split)

lemma add_filter_counts_default [simp]: "add_filter_counts x filter_counts_default = x"
  by (simp add: add_filter_counts_def filter_counts_default_def)

lemma add_filter_counts_action: "add_filter_counts x (add_action a y) = add_action a (add_filter_counts x y)"
  by (simp add: add_filter_counts_def add_action_def)

section \<open>A report is the fold of its events\<close>

datatype report_event =
    ViolationEvent string string severity
  | TotalEvent string
  | SkipEvent string string string
  | FilterEvent string "filter_action list"

fun report_step :: "report_event \<Rightarrow> quality_report \<Rightarrow> quality_report" where
  "report_step (ViolationEvent dt rn sev) r = record_violation dt rn sev r"
| "report_step (TotalEvent dt) r = increment_total dt r"
| "report_step (SkipEvent dt i reason) r = record_skip dt i reason r"
| "report_step (FilterEvent dt actions) r = record_filter_actions dt actions r"

definition report_of :: "report_event list \<Rightarrow> quality_report" where
  "report_of evs = fold report_step evs report_new"

lemma report_wf_actions: "report_wf r \<Longrightarrow> report_wf (record_filter_actions dt actions r)"
  unfolding record_filter_actions_def by (induction actions arbitrary: r) (auto simp: report_wf_action)

lemma report_wf_step: "report_wf r \<Longrightarrow> report_wf (report_step e r)"
  by (cases e) (auto simp: report_wf_violation report_wf_total report_wf_skip report_wf_actions)

lemma report_wf_of [simp]: "report_wf (report_of evs)"
proof -
  have "report_wf r \<Longrightarrow> report_wf (fold report_step evs r)" for r
    by (induction evs arbitrary: r) (auto simp: report_wf_step)
  then show ?thesis by (simp add: report_of_def)
qed

lemma merge_violation:
  assumes "report_wf r" "report_wf o'"
  shows "merge r (record_violation dt rn sev o') = record_violation dt rn sev (merge r o')"
proof -
  let ?f = "\<lambda>m rules. omerge rule_counts_default add_counts rules m"
  have "omerge [] ?f (oentry dt [] (oentry rn rule_counts_default (bump sev)) (qr_counts o')) (qr_counts r)
      = oentry dt [] (oentry rn rule_counts_default (bump sev)) (omerge [] ?f (qr_counts o') (qr_counts r))"
  proof (rule omerge_oentry)
    fix x y
    assume "map_of (qr_counts r) dt = Some x \<or> x = []" "map_of (qr_counts o') dt = Some y \<or> y = []"
    then have "owf x" "owf y" using assms by (auto simp: report_wf_def)
    then show "?f x (oentry rn rule_counts_default (bump sev) y) = oentry rn rule_counts_default (bump sev) (?f x y)"
      by (intro omerge_oentry) (auto simp: add_counts_bump)
  qed (use assms in \<open>simp_all add: report_wf_def\<close>)
  then show ?thesis by (simp add: merge_def record_violation_def)
qed

lemma merge_total:
  "report_wf r \<Longrightarrow> report_wf o' \<Longrightarrow> merge r (increment_total dt o') = increment_total dt (merge r o')"
  by (auto simp: merge_def increment_total_def report_wf_def intro!: omerge_oentry)

lemma merge_skip:
  "report_wf r \<Longrightarrow> report_wf o' \<Longrightarrow> merge r (record_skip dt i reason o') = record_skip dt i reason (merge r o')"
  by (auto simp: merge_def record_skip_def report_wf_def intro!: omerge_oentry)

lemma merge_action:
  assumes "report_wf r" "report_wf o'"
  shows "merge r (record_filter_action dt a o') = record_filter_action dt a (merge r o')"
proof -
  let ?f = "\<lambda>m fs. omerge filter_counts_default add_filter_counts fs m"
    and ?g = "oentry (fa_field a, fa_reason a) filter_counts_default (add_action a)"
  have "omerge [] ?f (oentry dt [] ?g (qr_filtered o')) (qr_filtered r)
      = oentry dt [] ?g (omerge [] ?f (qr_filtered o') (qr_filtered r))"
  proof (rule omerge_oentry)
    fix x y
    assume "map_of (qr_filtered r) dt = Some x \<or> x = []" "map_of (qr_filtered o') dt = Some y \<or> y = []"
    then have "owf x" "owf y" using assms by (auto simp: report_wf_def)
    then show "?f x (?g y) = ?g (?f x y)"
      by (intro omerge_oentry) (auto simp: add_filter_counts_action)
  qed (use assms in \<open>simp_all add: report_wf_def\<close>)
  then show ?thesis by (simp add: merge_def record_filter_action_def)
qed

lemma merge_actions:
  "report_wf r \<Longrightarrow> report_wf o' \<Longrightarrow>
   merge r (record_filter_actions dt actions o') = record_filter_actions dt actions (merge r o')"
  unfolding record_filter_actions_def
  by (induction actions arbitrary: o') (auto simp: merge_action report_wf_action)

lemma merge_step:
  "report_wf r \<Longrightarrow> report_wf o' \<Longrightarrow> merge r (report_step e o') = report_step e (merge r o')"
  by (cases e) (auto simp: merge_violation merge_total merge_skip merge_actions)

text \<open>
  Merging two validators' reports is the report of one validator that saw the records of
  the first and then those of the second: every counter, every skip list and every entry is
  the same, so nothing is lost or counted twice.
\<close>

theorem merge_is_concatenation:
  "merge (report_of xs) (report_of ys) = report_of (xs @ ys)"
proof (induction ys rule: rev_induct)
  case Nil
  show ?case by (simp add: report_of_def merge_def report_new_def)
next
  case (snoc e ys)
  have "report_of (zs @ [e]) = report_step e (report_of zs)" for zs
    by (simp add: report_of_def)
  with snoc show ?case
    by (metis append_assoc merge_step report_wf_of)
qed

section \<open>When the summary says all is clear\<close>

lemma list_ex_ovalues: "owf m \<Longrightarrow> list_ex P (ovalues m) \<longleftrightarrow> (\<exists>j v. map_of m j = Some v \<and> P v)"
  unfolding list_ex_iff ovalues_def by (force simp: owf_map_of_iff)

lemma ex_map_upd: "(\<exists>j v. (f(k \<mapsto> x)) j = Some v \<and> P v) \<longleftrightarrow> P x \<or> (\<exists>j v. j \<noteq> k \<and> f j = Some v \<and> P v)"
  by (auto split: if_splits)

lemma ovalues_oentry:
  "owf m \<Longrightarrow> list_ex P (ovalues (oentry k d f m)) \<longleftrightarrow>
     P (f (case map_of m k of None \<Rightarrow> d | Some v \<Rightarrow> v)) \<or> (\<exists>j v. j \<noteq> k \<and> map_of m j = Some v \<and> P v)"
  unfolding list_ex_ovalues [OF owf_oentry] map_of_oentry ex_map_upd ..

text \<open>An update that makes the value satisfy a property it keeps makes the map satisfy it.\<close>

lemma list_ex_oentry:
  assumes "owf m" "\<And>v. map_of m k = Some v \<or> v = d \<Longrightarrow> P (f v) \<longleftrightarrow> Q \<or> P v" "\<not> P d"
  shows "list_ex P (ovalues (oentry k d f m)) \<longleftrightarrow> Q \<or> list_ex P (ovalues m)"
proof (cases "map_of m k")
  case None
  then have "P (f d) \<longleftrightarrow> Q" using assms(2) [of d] assms(3) by simp
  moreover have "(\<exists>j v. j \<noteq> k \<and> map_of m j = Some v \<and> P v) \<longleftrightarrow> (\<exists>j v. map_of m j = Some v \<and> P v)"
    using None by (metis option.distinct(1))
  ultimately show ?thesis by (simp add: None ovalues_oentry assms(1) list_ex_ovalues)
next
  case (Some v)
  then have "P (f v) \<longleftrightarrow> Q \<or> P v" using assms(2) by blast
  moreover have "(\<exists>j v. map_of m j = Some v \<and> P v) \<longleftrightarrow> P v \<or> (\<exists>j v. j \<noteq> k \<and> map_of m j = Some v \<and> P v)"
    using Some by (metis option.sel)
  ultimately show ?thesis by (auto simp: Some ovalues_oentry assms(1) list_ex_ovalues)
qed

definition counts_some :: "rule_counts \<Rightarrow> bool" where
  "counts_some c \<longleftrightarrow> ct_errors c > 0 \<or> ct_warnings c > 0 \<or> ct_info c > 0"

lemma counts_some_bump [simp]: "counts_some (bump sev c)" "\<not> counts_some rule_counts_default"
  by (simp_all add: counts_some_def bump_def rule_counts_default_def split: severity.split)

lemma has_violations_alt: "has_violations r = list_ex (\<lambda>rs. list_ex counts_some (ovalues rs)) (ovalues (qr_counts r))"
  by (simp add: has_violations_def counts_some_def [abs_def])

lemma ovalues_Nil [simp]: "ovalues [] = []"
  by (simp add: ovalues_def)

lemma has_violations_step:
  assumes "report_wf r"
  shows "has_violations (record_violation dt rn sev r)"
    "has_violations (increment_total dt r) = has_violations r"
    "has_violations (record_skip dt i reason r) = has_violations r"
    "has_violations (record_filter_actions dt actions r) = has_violations r"
proof -
  have "list_ex counts_some (ovalues (oentry rn rule_counts_default (bump sev) m))" if "owf m" for m
    using list_ex_oentry [of m rn rule_counts_default counts_some "bump sev" True] that by simp
  then have "list_ex (\<lambda>rs. list_ex counts_some (ovalues rs))
      (ovalues (oentry dt [] (oentry rn rule_counts_default (bump sev)) (qr_counts r)))
      \<longleftrightarrow> True \<or> list_ex (\<lambda>rs. list_ex counts_some (ovalues rs)) (ovalues (qr_counts r))"
    using assms by - (rule list_ex_oentry [where Q = True], auto simp: report_wf_def)
  then show "has_violations (record_violation dt rn sev r)"
    by (simp add: has_violations_alt record_violation_def)
  have "qr_counts (record_filter_actions dt actions r) = qr_counts r"
    unfolding record_filter_actions_def
    by (induction actions arbitrary: r) (auto simp: record_filter_action_def)
  then show "has_violations (record_filter_actions dt actions r) = has_violations r"
    by (simp add: has_violations_def)
qed (simp_all add: has_violations_def increment_total_def record_skip_def)

lemma has_skipped_step:
  assumes "report_wf r"
  shows "has_skipped_records (record_skip dt i reason r)"
    "has_skipped_records (record_violation dt rn sev r) = has_skipped_records r"
    "has_skipped_records (increment_total dt r) = has_skipped_records r"
    "has_skipped_records (record_filter_actions dt actions r) = has_skipped_records r"
proof -
  have "list_ex (\<lambda>v. v \<noteq> []) (ovalues (oentry dt [] (\<lambda>rs. rs @ [\<lparr>sr_record_id = i, sr_reason = reason\<rparr>]) (qr_skipped r)))
      \<longleftrightarrow> True \<or> list_ex (\<lambda>v. v \<noteq> []) (ovalues (qr_skipped r))"
    using assms by - (rule list_ex_oentry [where Q = True], auto simp: report_wf_def)
  then show "has_skipped_records (record_skip dt i reason r)"
    by (simp add: has_skipped_records_def record_skip_def)
  have "qr_skipped (record_filter_actions dt actions r) = qr_skipped r"
    unfolding record_filter_actions_def
    by (induction actions arbitrary: r) (auto simp: record_filter_action_def)
  then show "has_skipped_records (record_filter_actions dt actions r) = has_skipped_records r"
    by (simp add: has_skipped_records_def)
qed (simp_all add: has_skipped_records_def increment_total_def record_violation_def)

lemma has_filtered_action:
  assumes "report_wf r"
  shows "has_filtered_values (record_filter_action dt a r) \<longleftrightarrow> fa_removed_count a > 0 \<or> has_filtered_values r"
proof -
  have "list_ex (\<lambda>c. fc_values c > 0) (ovalues (oentry (fa_field a, fa_reason a) filter_counts_default (add_action a) m))
      \<longleftrightarrow> fa_removed_count a > 0 \<or> list_ex (\<lambda>c. fc_values c > 0) (ovalues m)" if "owf m" for m
    using that by - (rule list_ex_oentry [where Q = "fa_removed_count a > 0"], auto simp: add_action_def filter_counts_default_def)
  then have "list_ex (\<lambda>f. list_ex (\<lambda>c. fc_values c > 0) (ovalues f))
      (ovalues (oentry dt [] (oentry (fa_field a, fa_reason a) filter_counts_default (add_action a)) (qr_filtered r)))
      \<longleftrightarrow> fa_removed_count a > 0 \<or> list_ex (\<lambda>f. list_ex (\<lambda>c. fc_values c > 0) (ovalues f)) (ovalues (qr_filtered r))"
    using assms by - (rule list_ex_oentry [where Q = "fa_removed_count a > 0"], auto simp: report_wf_def)
  then show ?thesis
    by (simp add: has_filtered_values_def record_filter_action_def)
qed

lemma has_filtered_step:
  assumes "report_wf r"
  shows "has_filtered_values (record_filter_actions dt actions r)
      \<longleftrightarrow> list_ex (\<lambda>a. fa_removed_count a > 0) actions \<or> has_filtered_values r"
    "has_filtered_values (record_violation dt rn sev r) = has_filtered_values r"
    "has_filtered_values (increment_total dt r) = has_filtered_values r"
    "has_filtered_values (record_skip dt i reason r) = has_filtered_values r"
proof -
  show "has_filtered_values (record_filter_actions dt actions r)
      \<longleftrightarrow> list_ex (\<lambda>a. fa_removed_count a > 0) actions \<or> has_filtered_values r"
    using assms unfolding record_filter_actions_def
    by (induction actions arbitrary: r) (auto simp: has_filtered_action report_wf_action)
qed (simp_all add: has_filtered_values_def increment_total_def record_violation_def record_skip_def)

text \<open>An event that shows in the summary.\<close>

fun notable :: "report_event \<Rightarrow> bool" where
  "notable (ViolationEvent dt rn sev) = True"
| "notable (TotalEvent dt) = False"
| "notable (SkipEvent dt i reason) = True"
| "notable (FilterEvent dt actions) = list_ex (\<lambda>a. fa_removed_count a > 0) actions"

definition report_notable :: "quality_report \<Rightarrow> bool" where
  "report_notable r \<longleftrightarrow> has_violations r \<or> has_skipped_records r \<or> has_filtered_values r"

lemma report_notable_step: "report_wf r \<Longrightarrow> report_notable (report_step e r) \<longleftrightarrow> notable e \<or> report_notable r"
  by (cases e) (auto simp: report_notable_def has_violations_step has_skipped_step has_filtered_step)

lemma report_notable_of: "report_notable (report_of evs) \<longleftrightarrow> list_ex notable evs"
proof (induction evs rule: rev_induct)
  case Nil
  show ?case
    by (simp add: report_of_def report_notable_def report_new_def has_violations_def has_skipped_records_def
        has_filtered_values_def)
next
  case (snoc e evs)
  have "report_of (evs @ [e]) = report_step e (report_of evs)" by (simp add: report_of_def)
  with snoc show ?case by (auto simp: report_notable_step)
qed

text \<open>
  The summary says that no data quality violation was found exactly when the validator saw
  no violation of any severity, skipped no record and removed or nullified no value: a run
  that cleaned values never reads as all clear.
\<close>

theorem summary_all_clear_iff:
  "format_summary version (report_of evs) = all_clear version \<longleftrightarrow> \<not> list_ex notable evs"
proof -
  have "format_summary version r = all_clear version \<longleftrightarrow> \<not> report_notable r" for r
    by (auto simp: format_summary_def report_notable_def all_clear_def nl_def)
  then show ?thesis by (simp add: report_notable_of)
qed

end
