(* ===== verification/Flagged_Writer.thy ===== *)
theory Flagged_Writer
  imports Quality_Report
begin

text \<open>
  \<open>src/discogs/rules.rs\<close>, last part: the writer of flagged records.  A path is the list of its
  components; each operation returns the writer's new state and the file-system effects it
  attempts, in order.  Whether a directory can be created and a log opened are arguments, since
  the source branches on them; failed writes are only logged by the source, so an attempt is
  all there is to model.
\<close>

section \<open>Safe file names\<close>

text \<open>\<open>char::is_alphanumeric\<close> is a parameter; the other three are kept explicitly.\<close>

definition name_char :: "(rchar \<Rightarrow> bool) \<Rightarrow> rchar \<Rightarrow> bool" where
  "name_char is_alnum c \<longleftrightarrow> is_alnum c \<or> c = ''-'' \<or> c = ''_'' \<or> c = ''.''"

text \<open>\<open>replace("..", "_")\<close>: left to right, without overlap.\<close>

fun replace_dots :: "string \<Rightarrow> string" where
  "replace_dots (a # b # s) =
     (if a = CHR ''.'' \<and> b = CHR ''.'' then CHR ''_'' # replace_dots s else a # replace_dots (b # s))"
| "replace_dots s = s"

definition sanitize_filename :: "(rchar \<Rightarrow> bool) \<Rightarrow> string \<Rightarrow> string" where
  "sanitize_filename is_alnum raw = replace_dots (concat (filter (name_char is_alnum) (chars raw)))"

section \<open>The writer\<close>

type_synonym path = "string list"

datatype content = Xml string | Json json | Text string

datatype fs_effect = WriteFile path content | AppendLine path json

record flagged_writer =
  fw_base_dir :: path
  fw_written_records :: "string set"
  fw_jsonl_writers :: "string set"
  fw_skip_jsonl_writers :: "string set"

definition writer_new :: "path \<Rightarrow> string \<Rightarrow> flagged_writer" where
  "writer_new discogs_root version =
     \<lparr>fw_base_dir = discogs_root @ [''flagged'', version], fw_written_records = {},
      fw_jsonl_writers = {}, fw_skip_jsonl_writers = {}\<rparr>"

text \<open>The XML and JSON of a record, written once per record.\<close>

definition capture_record ::
  "path \<Rightarrow> string \<Rightarrow> string \<Rightarrow> string option \<Rightarrow> json \<Rightarrow> flagged_writer \<Rightarrow> flagged_writer \<times> fs_effect list" where
  "capture_record type_dir data_type safe_id raw_xml parsed_json w =
     (let record_key = data_type @ '':'' @ safe_id in
      if record_key \<in> fw_written_records w then (w, [])
      else
        (w\<lparr>fw_written_records := insert record_key (fw_written_records w)\<rparr>,
         (case raw_xml of Some xml \<Rightarrow> [WriteFile (type_dir @ [safe_id @ ''.xml'']) (Xml xml)] | None \<Rightarrow> [])
         @ [WriteFile (type_dir @ [safe_id @ ''.json'']) (Json parsed_json)]))"

fun severity_str :: "severity \<Rightarrow> string" where
  "severity_str Error = ''error''"
| "severity_str Warning = ''warning''"
| "severity_str Info = ''info''"

definition violation_entry :: "string \<Rightarrow> string \<Rightarrow> string \<Rightarrow> violation \<Rightarrow> json" where
  "violation_entry now record_id safe_id v =
     jobj [(''record_id'', JStr record_id), (''rule'', JStr (vi_rule_name v)),
           (''severity'', JStr (severity_str (vi_severity v))), (''field'', JStr (vi_field v)),
           (''field_value'', JStr (vi_field_value v)), (''xml_file'', JStr (safe_id @ ''.xml'')),
           (''json_file'', JStr (safe_id @ ''.json'')), (''timestamp'', JStr now)]"

definition skip_entry :: "string \<Rightarrow> string \<Rightarrow> string \<Rightarrow> skip_info \<Rightarrow> json" where
  "skip_entry now record_id safe_id i =
     jobj [(''record_id'', JStr record_id), (''reason'', JStr (si_reason i)), (''field'', JStr (si_field i)),
           (''field_value'', JStr (si_field_value i)), (''xml_file'', JStr (safe_id @ ''.xml'')),
           (''json_file'', JStr (safe_id @ ''.json'')), (''timestamp'', JStr now)]"

text \<open>What the environment answers to one call.\<close>

record io_results =
  io_mkdir_ok :: bool
  io_open_ok :: bool
  io_now :: string

definition write_violation ::
  "(rchar \<Rightarrow> bool) \<Rightarrow> io_results \<Rightarrow> string \<Rightarrow> string \<Rightarrow> violation \<Rightarrow> string option \<Rightarrow> json \<Rightarrow> bool
     \<Rightarrow> flagged_writer \<Rightarrow> flagged_writer \<times> fs_effect list" where
  "write_violation is_alnum io data_type record_id violation raw_xml parsed_json capture_files w =
     (let type_dir = fw_base_dir w @ [data_type] in
      if \<not> io_mkdir_ok io then (w, [])
      else
        (let safe_id = sanitize_filename is_alnum record_id;
             (w1, es) = (if capture_files then capture_record type_dir data_type safe_id raw_xml parsed_json w
                         else (w, []))
         in if data_type \<notin> fw_jsonl_writers w1 \<and> \<not> io_open_ok io then (w1, es)
            else
              (w1\<lparr>fw_jsonl_writers := insert data_type (fw_jsonl_writers w1)\<rparr>,
               es @ [AppendLine (type_dir @ [''violations.jsonl'']) (violation_entry (io_now io) record_id safe_id violation)])))"

definition write_skip ::
  "(rchar \<Rightarrow> bool) \<Rightarrow> io_results \<Rightarrow> string \<Rightarrow> string \<Rightarrow> skip_info \<Rightarrow> string option \<Rightarrow> json
     \<Rightarrow> flagged_writer \<Rightarrow> flagged_writer \<times> fs_effect list" where
  "write_skip is_alnum io data_type record_id info raw_xml parsed_json w =
     (let type_dir = fw_base_dir w @ [data_type] in
      if \<not> io_mkdir_ok io then (w, [])
      else
        (let safe_id = sanitize_filename is_alnum record_id;
             (w1, es) = capture_record type_dir data_type safe_id raw_xml parsed_json w
         in if data_type \<notin> fw_skip_jsonl_writers w1 \<and> \<not> io_open_ok io then (w1, es)
            else
              (w1\<lparr>fw_skip_jsonl_writers := insert data_type (fw_skip_jsonl_writers w1)\<rparr>,
               es @ [AppendLine (type_dir @ [''skipped.jsonl'']) (skip_entry (io_now io) record_id safe_id info)])))"

text \<open>One report file per entity type the report mentions; \<open>mkdir_ok\<close> per type.\<close>

definition report_types :: "quality_report \<Rightarrow> string list" where
  "report_types r =
     sorted_unique (okeys (qr_counts r) @ okeys (qr_total_records r) @ okeys (qr_skipped r) @ okeys (qr_filtered r))"

definition write_report ::
  "(string \<Rightarrow> bool) \<Rightarrow> quality_report \<Rightarrow> string \<Rightarrow> flagged_writer \<Rightarrow> fs_effect list" where
  "write_report mkdir_ok report version w =
     (let summary = format_summary version report in
      map (\<lambda>dt. WriteFile (fw_base_dir w @ [dt, ''report.txt'']) (Text summary))
        (filter mkdir_ok (report_types report)))"

section \<open>Safety of the names\<close>

text \<open>
  What Unicode says of alphanumerics: an ASCII byte of one is a letter or a digit.
\<close>

definition ascii_alnum :: "char \<Rightarrow> bool" where
  "ascii_alnum c \<longleftrightarrow> is_digit c \<or> (65 \<le> byte c \<and> byte c \<le> 90) \<or> (97 \<le> byte c \<and> byte c \<le> 122)"

definition alnum_law :: "(rchar \<Rightarrow> bool) \<Rightarrow> bool" where
  "alnum_law is_alnum \<longleftrightarrow> (\<forall>r. is_alnum r \<longrightarrow> list_all (\<lambda>c. is_ascii c \<longrightarrow> ascii_alnum c) r)"

definition safe_char :: "char \<Rightarrow> bool" where
  "safe_char c \<longleftrightarrow> (is_ascii c \<longrightarrow> ascii_alnum c \<or> c \<in> {CHR ''-'', CHR ''_'', CHR ''.''})"

text \<open>No byte of the name is a separator or a control character, and no two dots stand together.\<close>

definition safe_name :: "string \<Rightarrow> bool" where
  "safe_name s \<longleftrightarrow> list_all safe_char s \<and> \<not> contains s ''..''"

lemma replace_dots_chars: "list_all safe_char s \<Longrightarrow> list_all safe_char (replace_dots s)"
proof (induction s rule: replace_dots.induct)
  case (1 a b s)
  have "safe_char (CHR ''_'')" by (simp add: safe_char_def)
  with 1 show ?case by simp
qed simp_all

lemma replace_dots_hd: "replace_dots s = CHR ''.'' # t \<Longrightarrow> \<exists>u. s = CHR ''.'' # u"
  by (induction s rule: replace_dots.induct) (auto split: if_splits)

lemma replace_dots_hd2: "replace_dots (b # s) = b' # t \<Longrightarrow> b' = CHR ''.'' \<Longrightarrow> b = CHR ''.''"
  using replace_dots_hd [of "b # s"] by auto

lemma replace_dots_no_dots: "\<not> contains (replace_dots s) ''..''"
proof (induction s rule: replace_dots.induct)
  case (1 a b s)
  show ?case
  proof (cases "a = CHR ''.'' \<and> b = CHR ''.''")
    case True
    with 1 show ?thesis by (auto simp: prefix_def)
  next
    case False
    have "\<not> prefix ''..'' (a # replace_dots (b # s))"
      using False replace_dots_hd [of "b # s"] by (auto simp: prefix_def)
    moreover have "\<not> contains (replace_dots (b # s)) ''..''" using 1(2) False by blast
    ultimately show ?thesis using False by auto
  qed
qed (auto simp: prefix_def)

lemma sanitize_safe:
  assumes "alnum_law is_alnum"
  shows "safe_name (sanitize_filename is_alnum raw)"
proof -
  have "list_all safe_char (concat (filter (name_char is_alnum) rs))" for rs
    using assms
    by (induction rs) (auto simp: name_char_def alnum_law_def safe_char_def list_all_iff)
  then show ?thesis
    by (simp add: safe_name_def sanitize_filename_def replace_dots_chars replace_dots_no_dots)
qed

section \<open>Sequences of writer operations\<close>

datatype writer_op =
    WriteViolation io_results string string violation "string option" json bool
  | WriteSkip io_results string string skip_info "string option" json

fun writer_step :: "(rchar \<Rightarrow> bool) \<Rightarrow> writer_op \<Rightarrow> flagged_writer \<Rightarrow> flagged_writer \<times> fs_effect list" where
  "writer_step al (WriteViolation io dt i v xml j cap) w = write_violation al io dt i v xml j cap w"
| "writer_step al (WriteSkip io dt i info xml j) w = write_skip al io dt i info xml j w"

fun op_type :: "writer_op \<Rightarrow> string" where
  "op_type (WriteViolation io dt i v xml j cap) = dt"
| "op_type (WriteSkip io dt i info xml j) = dt"

fun run_writer :: "(rchar \<Rightarrow> bool) \<Rightarrow> writer_op list \<Rightarrow> flagged_writer \<Rightarrow> flagged_writer \<times> fs_effect list" where
  "run_writer al [] w = (w, [])"
| "run_writer al (x # xs) w =
     (let (w1, es) = writer_step al x w; (w2, fs) = run_writer al xs w1 in (w2, es @ fs))"

fun written_path :: "fs_effect \<Rightarrow> path option" where
  "written_path (WriteFile p c) = Some p"
| "written_path (AppendLine p j) = None"

fun effect_path :: "fs_effect \<Rightarrow> path" where
  "effect_path (WriteFile p c) = p"
| "effect_path (AppendLine p j) = p"

text \<open>The record file of a key, and the set of keys a step may add.\<close>

definition record_file :: "path \<Rightarrow> string \<Rightarrow> string \<Rightarrow> path \<Rightarrow> bool" where
  "record_file base dt sid p \<longleftrightarrow> p = base @ [dt, sid @ ''.xml''] \<or> p = base @ [dt, sid @ ''.json'']"

lemma record_file_inject: "record_file base dt sid p \<Longrightarrow> record_file base dt' sid' p \<Longrightarrow> dt = dt' \<and> sid = sid'"
proof -
  have "sid @ ''.xml'' \<noteq> sid' @ ''.json''" for sid sid' :: string
  proof
    assume "sid @ ''.xml'' = sid' @ ''.json''"
    then have "last (sid @ ''.xml'') = last (sid' @ ''.json'')" by (rule arg_cong)
    then show False by simp
  qed
  then show "record_file base dt sid p \<Longrightarrow> record_file base dt' sid' p \<Longrightarrow> dt = dt' \<and> sid = sid'"
    by (fastforce simp: record_file_def)
qed

definition writes :: "fs_effect list \<Rightarrow> path list" where
  "writes es = filter_map written_path es"

lemma writes_append [simp]: "writes (es @ fs) = writes es @ writes fs"
  by (simp add: writes_def)

lemma writes_append_line [simp]: "writes [AppendLine p j] = []" "writes [] = []"
  by (simp_all add: writes_def)

text \<open>What one operation does to the writer.\<close>

definition step_ok :: "flagged_writer \<Rightarrow> string \<Rightarrow> string \<Rightarrow> flagged_writer \<times> fs_effect list \<Rightarrow> bool" where
  "step_ok w dt sid r \<longleftrightarrow>
     fw_base_dir (fst r) = fw_base_dir w \<and> fw_written_records w \<subseteq> fw_written_records (fst r)
     \<and> distinct (writes (snd r))
     \<and> (writes (snd r) \<noteq> [] \<longrightarrow> dt @ '':'' @ sid \<notin> fw_written_records w \<and> dt @ '':'' @ sid \<in> fw_written_records (fst r))
     \<and> (\<forall>p \<in> set (writes (snd r)). record_file (fw_base_dir w) dt sid p)"

lemma capture_ok: "step_ok w dt sid (capture_record (fw_base_dir w @ [dt]) dt sid xml j w)"
  by (auto simp: step_ok_def capture_record_def Let_def writes_def record_file_def split: option.splits)

lemma writer_step_ok: "\<exists>sid. step_ok w (op_type x) sid (writer_step al x w)"
proof (cases x)
  case (WriteViolation io dt i v xml j cap)
  have "step_ok w dt (sanitize_filename al i) (write_violation al io dt i v xml j cap w)"
    using capture_ok [of w dt "sanitize_filename al i" xml j]
    by (auto simp: write_violation_def Let_def case_prod_beta step_ok_def)
  then show ?thesis by (auto simp: WriteViolation)
next
  case (WriteSkip io dt i info xml j)
  have "step_ok w dt (sanitize_filename al i) (write_skip al io dt i info xml j w)"
    using capture_ok [of w dt "sanitize_filename al i" xml j]
    by (auto simp: write_skip_def Let_def case_prod_beta step_ok_def)
  then show ?thesis by (auto simp: WriteSkip)
qed

lemma run_writer_once:
  assumes "run_writer al xs w = (w', es)"
  shows "fw_base_dir w' = fw_base_dir w \<and> fw_written_records w \<subseteq> fw_written_records w' \<and> distinct (writes es)
    \<and> (\<forall>p \<in> set (writes es). \<exists>dt sid. record_file (fw_base_dir w) dt sid p \<and> dt @ '':'' @ sid \<notin> fw_written_records w)"
  using assms
proof (induction xs arbitrary: w w' es)
  case (Cons x xs)
  obtain w1 es1 w2 es2 where step: "writer_step al x w = (w1, es1)" and run: "run_writer al xs w1 = (w2, es2)"
    by force
  obtain sid where ok: "step_ok w (op_type x) sid (w1, es1)"
    using writer_step_ok [of w x al] step by auto
  have es: "es = es1 @ es2" "w' = w2" using Cons.prems step run by auto
  note IH = Cons.IH [OF run]
  have base: "fw_base_dir w1 = fw_base_dir w" using ok by (simp add: step_ok_def)
  have "set (writes es1) \<inter> set (writes es2) = {}"
  proof (rule ccontr)
    assume "set (writes es1) \<inter> set (writes es2) \<noteq> {}"
    then obtain p where p: "p \<in> set (writes es1)" "p \<in> set (writes es2)" by blast
    obtain dt' sid' where "record_file (fw_base_dir w) dt' sid' p" "dt' @ '':'' @ sid' \<notin> fw_written_records w1"
      using IH p(2) base by auto
    moreover have "record_file (fw_base_dir w) (op_type x) sid p" "op_type x @ '':'' @ sid \<in> fw_written_records w1"
      using ok p(1) by (auto simp: step_ok_def)
    ultimately show False using record_file_inject by metis
  qed
  moreover have "\<exists>dt sid. record_file (fw_base_dir w) dt sid p \<and> dt @ '':'' @ sid \<notin> fw_written_records w"
    if "p \<in> set (writes es)" for p
  proof -
    from that es(1) consider "p \<in> set (writes es1)" | "p \<in> set (writes es2)" by auto
    then show ?thesis
    proof cases
      case 1
      then have "writes es1 \<noteq> []" by auto
      with 1 ok show ?thesis by (auto simp: step_ok_def)
    next
      case 2
      with IH ok base show ?thesis by (fastforce simp: step_ok_def)
    qed
  qed
  ultimately show ?case using IH ok es by (auto simp: step_ok_def)
qed simp

definition is_append :: "fs_effect \<Rightarrow> bool" where
  "is_append e = (case e of AppendLine _ _ \<Rightarrow> True | WriteFile _ _ \<Rightarrow> False)"

fun op_io_ok :: "writer_op \<Rightarrow> bool" where
  "op_io_ok (WriteViolation io dt i v xml j cap) = (io_mkdir_ok io \<and> io_open_ok io)"
| "op_io_ok (WriteSkip io dt i info xml j) = (io_mkdir_ok io \<and> io_open_ok io)"

fun op_log :: "writer_op \<Rightarrow> string" where
  "op_log (WriteViolation io dt i v xml j cap) = ''violations.jsonl''"
| "op_log (WriteSkip io dt i info xml j) = ''skipped.jsonl''"

lemma capture_no_append: "filter is_append (snd (capture_record d dt sid xml j w)) = []"
  by (auto simp: capture_record_def Let_def is_append_def split: option.splits)

lemma capture_base: "fw_base_dir (fst (capture_record d dt sid xml j w)) = fw_base_dir w"
  by (auto simp: capture_record_def Let_def)

lemma writer_step_log:
  "op_io_ok x \<Longrightarrow> map effect_path (filter is_append (snd (writer_step al x w))) = [fw_base_dir w @ [op_type x, op_log x]]"
  using capture_no_append
  by (cases x) (auto simp: write_violation_def write_skip_def Let_def case_prod_beta is_append_def [of "AppendLine _ _"])

lemma writer_step_base: "fw_base_dir (fst (writer_step al x w)) = fw_base_dir w"
  using writer_step_ok [of w x al] by (auto simp: step_ok_def)

lemma run_writer_log:
  "list_all op_io_ok xs \<Longrightarrow>
   map effect_path (filter is_append (snd (run_writer al xs w))) = map (\<lambda>x. fw_base_dir w @ [op_type x, op_log x]) xs"
proof (induction xs arbitrary: w)
  case (Cons x xs)
  then show ?case
    using writer_step_log [of x al w] writer_step_base [of al x w] by (auto simp: case_prod_beta Let_def)
qed simp

text \<open>The name of every file touched, for the containment property.\<close>

definition contained :: "path \<Rightarrow> string set \<Rightarrow> path \<Rightarrow> bool" where
  "contained base types p \<longleftrightarrow>
     (\<exists>dt name. p = base @ [dt, name] \<and> dt \<in> types \<and> list_all safe_char name \<and> name \<notin> {[], ''.'', ''..''})"

lemma safe_suffix:
  "list_all safe_char s \<Longrightarrow> list_all safe_char (s @ ''.xml'') \<and> list_all safe_char (s @ ''.json'')"
  "list_all safe_char ''violations.jsonl''" "list_all safe_char ''skipped.jsonl''"
  by (simp_all add: safe_char_def ascii_alnum_def is_ascii_def is_digit_def byte_def)

lemma capture_contained:
  "list_all safe_char sid \<Longrightarrow> e \<in> set (snd (capture_record (base @ [dt]) dt sid xml j w)) \<Longrightarrow>
   contained base {dt} (effect_path e)"
  using safe_suffix(1) [of sid]
  by (auto simp: capture_record_def Let_def contained_def split: option.splits if_splits)

lemma writer_step_contained:
  assumes "alnum_law al" "e \<in> set (snd (writer_step al x w))"
  shows "contained (fw_base_dir w) {op_type x} (effect_path e)"
proof -
  have sid: "list_all safe_char (sanitize_filename al i)" for i
    using sanitize_safe [OF assms(1)] by (simp add: safe_name_def)
  have logs: "contained (fw_base_dir w) {dt} (fw_base_dir w @ [dt, ''violations.jsonl''])"
    "contained (fw_base_dir w) {dt} (fw_base_dir w @ [dt, ''skipped.jsonl''])" for dt
    using safe_suffix(2,3) by (auto simp: contained_def)
  show ?thesis
    using assms(2) logs capture_contained [OF sid]
    by (cases x) (auto simp: write_violation_def write_skip_def Let_def case_prod_beta split: if_splits)
qed

lemma contained_mono: "contained base A p \<Longrightarrow> A \<subseteq> B \<Longrightarrow> contained base B p"
  by (auto simp: contained_def)

lemma run_writer_contained:
  "alnum_law al \<Longrightarrow> e \<in> set (snd (run_writer al xs w)) \<Longrightarrow>
   contained (fw_base_dir w) (op_type ` set xs) (effect_path e)"
proof (induction xs arbitrary: w)
  case (Cons x xs)
  show ?case
  proof (cases "e \<in> set (snd (writer_step al x w))")
    case True
    then have "contained (fw_base_dir w) {op_type x} (effect_path e)"
      using writer_step_contained Cons.prems(1) by blast
    then show ?thesis by (rule contained_mono) simp
  next
    case False
    with Cons.prems have "e \<in> set (snd (run_writer al xs (fst (writer_step al x w))))"
      by (auto simp: case_prod_beta Let_def)
    then have "contained (fw_base_dir w) (op_type ` set xs) (effect_path e)"
      using Cons.IH Cons.prems(1) writer_step_base by metis
    then show ?thesis by (rule contained_mono) auto
  qed
qed simp

section \<open>Properties\<close>

text \<open>
  Whatever the record ids of the dump contain, every file the writer touches lies directly
  in the directory of one of the entity types under the flagged root: its name has no path
  separator, and is neither empty nor a dot entry.
\<close>

theorem flagged_paths_contained:
  assumes "alnum_law al"
  shows "list_all (\<lambda>e. contained (rt @ [''flagged'', version]) (op_type ` set xs) (effect_path e))
    (snd (run_writer al xs (writer_new rt version)))"
  using run_writer_contained [OF assms, of _ xs "writer_new rt version"]
  by (simp add: list_all_iff writer_new_def)

text \<open>
  The writer captures each record once: over any sequence of violations and skips no file
  is written twice, and when directories and logs can be opened every violation adds exactly
  one line to the violations log of its type and every skip one to the skip log, in order.
\<close>

theorem flagged_once_and_logged:
  "distinct (writes (snd (run_writer al xs (writer_new rt version))))
   \<and> (list_all op_io_ok xs \<longrightarrow>
        map effect_path (filter is_append (snd (run_writer al xs (writer_new rt version))))
          = map (\<lambda>x. rt @ [''flagged'', version, op_type x, op_log x]) xs)"
proof -
  obtain w es where "run_writer al xs (writer_new rt version) = (w, es)" by force
  then show ?thesis
    using run_writer_once [of al xs "writer_new rt version" w es]
      run_writer_log [of xs al "writer_new rt version"]
    by (simp add: writer_new_def)
qed

definition ascii_only :: "rchar \<Rightarrow> bool" where
  "ascii_only r \<longleftrightarrow> list_all ascii_alnum r"

definition sample_ops :: "writer_op list" where
  "sample_ops =
     [WriteSkip \<lparr>io_mkdir_ok = True, io_open_ok = True, io_now = ''t''\<rparr> ''releases'' ''../1''
        \<lparr>si_reason = ''r'', si_field = ''f'', si_field_value = ''v''\<rparr> None JNull]"

theorem flagged_paths_contained_witness:
  "list_all (\<lambda>e. contained [''data'', ''flagged'', ''v1''] {''releases''} (effect_path e))
     (snd (run_writer ascii_only sample_ops (writer_new [''data''] ''v1'')))"
proof -
  have "alnum_law ascii_only" by (auto simp: alnum_law_def ascii_only_def list_all_iff)
  from flagged_paths_contained [OF this, of "[''data'']" "''v1''" sample_ops] show ?thesis
    by (simp add: sample_ops_def)
qed

theorem flagged_once_and_logged_witness:
  "map effect_path (filter is_append (snd (run_writer ascii_only sample_ops (writer_new [''data''] ''v1''))))
     = [[''data'', ''flagged'', ''v1'', ''releases'', ''skipped.jsonl'']]"
  using flagged_once_and_logged [of ascii_only sample_ops "[''data'']" "''v1''"]
  by (simp add: sample_ops_def)

end
