(* ===== verification/Xml_Parser.thy ===== *)
theory Xml_Parser
  imports Normalize
begin

text \<open>
  \<open>src/discogs/parser.rs\<close>: the streaming XML reader.  The pull parser (quick-xml) is the list
  of what its successive reads return; the receiver is the function saying which sends
  succeed.  One read is \<open>parse_step\<close> on the loop's state; \<open>parse_events\<close> is the loop.
\<close>

section \<open>Events\<close>

text \<open>An attribute: its key, the unescaped value when unescaping succeeds, and the raw value.\<close>

record attribute =
  at_key :: string
  at_normalized :: "string option"
  at_raw :: string

datatype char_ref = Resolved rchar | Unresolved | BadRef

datatype general_ref = CharRef char_ref | EntityRef string

text \<open>\<open>attributes()\<close> yields a result per attribute; \<open>None\<close> is one that does not parse.\<close>

datatype xml_event =
    EvStart string "attribute option list"
  | EvEmpty string "attribute option list"
  | EvEnd string
  | EvText string
  | EvGeneralRef general_ref
  | EvCData string
  | EvOther

text \<open>One read: an event, or an error at a byte position.  The list ends where the file does.\<close>

datatype read_result = Event xml_event | ReadError nat

section \<open>Element contexts\<close>

record element_context =
  ec_attributes :: jobject
  ec_children :: jobject
  ec_text_content :: string

definition context_new :: element_context where
  "context_new = \<lparr>ec_attributes = [], ec_children = [], ec_text_content = []\<rparr>"

definition attribute_value :: "attribute \<Rightarrow> string" where
  "attribute_value a = (case at_normalized a of Some v \<Rightarrow> v | None \<Rightarrow> at_raw a)"

definition with_attributes :: "attribute option list \<Rightarrow> element_context" where
  "with_attributes attrs =
     context_new\<lparr>ec_attributes :=
       fold (\<lambda>a. oinsert (at_key a) (JStr (attribute_value a))) (filter_map id attrs) []\<rparr>"

definition into_value :: "element_context \<Rightarrow> json" where
  "into_value c =
     (let result = fold (\<lambda>(k, v). oinsert (CHR ''@'' # k) v) (ec_attributes c) [];
          txt = ec_text_content c;
          has_text = (trim txt \<noteq> [])
      in if ec_children c = [] \<and> result = [] \<and> has_text then JStr txt
         else
           (let result1 = (if has_text then oinsert ''#text'' (JStr txt) result else result);
                result2 = fold (\<lambda>(k, v). oinsert k v) (ec_children c) result1
            in if result2 = [] \<and> has_text then JStr txt
               else if result2 = [] then JNull
               else JObj result2))"

definition add_child :: "string \<Rightarrow> json \<Rightarrow> element_context \<Rightarrow> element_context" where
  "add_child name v c =
     (case map_of (ec_children c) name of
        None \<Rightarrow> c\<lparr>ec_children := oinsert name v (ec_children c)\<rparr>
      | Some existing \<Rightarrow>
          (case as_array existing of
             Some arr \<Rightarrow> c\<lparr>ec_children := oinsert name (JArr (arr @ [v])) (ec_children c)\<rparr>
           | None \<Rightarrow> c\<lparr>ec_children := oinsert name (JArr [existing, v]) (ec_children c)\<rparr>))"

definition push_text :: "string \<Rightarrow> element_context \<Rightarrow> element_context" where
  "push_text s c = c\<lparr>ec_text_content := ec_text_content c @ s\<rparr>"

definition replacement_char :: string where
  "replacement_char = [CHR 0xEF, CHR 0xBF, CHR 0xBD]"

definition entity_text :: "string \<Rightarrow> string" where
  "entity_text name =
     (if name = ''amp'' then ''&''
      else if name = ''lt'' then ''<''
      else if name = ''gt'' then ''>''
      else if name = ''apos'' then [CHR 0x27]
      else if name = ''quot'' then [CHR 0x22]
      else ''&'' @ name @ '';'')"

fun ref_text :: "general_ref \<Rightarrow> string" where
  "ref_text (CharRef (Resolved ch)) = ch"
| "ref_text (CharRef Unresolved) = replacement_char"
| "ref_text (CharRef BadRef) = replacement_char"
| "ref_text (EntityRef name) = entity_text name"

section \<open>Writing a record back as XML\<close>

text \<open>
  The events handed to the XML writer.  The writer itself (escaping, rendering) is the
  parameter \<open>px_render\<close>; on a byte buffer it does not fail.
\<close>

datatype write_event =
    WStart string "(string \<times> string) list"
  | WText string
  | WEnd string
  | WEmpty string

definition written_attrs :: "jobject \<Rightarrow> (string \<times> string) list" where
  "written_attrs m =
     filter_map (\<lambda>(k, v). case (strip_at k, as_str v) of (Some a, Some s) \<Rightarrow> Some (a, s) | _ \<Rightarrow> None) m"

definition written_text :: "jobject \<Rightarrow> write_event list" where
  "written_text m = (case map_of m ''#text'' of Some (JStr t) \<Rightarrow> [WText t] | _ \<Rightarrow> [])"

text \<open>The keys skipped in the child loop.\<close>

definition written_child :: "jobject \<Rightarrow> string \<Rightarrow> bool" where
  "written_child m k \<longleftrightarrow>
     strip_at k = None \<and> k \<noteq> ''#text'' \<and> \<not> (k = ''id'' \<and> map_of m ''@id'' \<noteq> None)"

lemma size_json_mem: "(k, v) \<in> set m \<Longrightarrow> size v < Suc (size_list (size_prod (\<lambda>_. 0) size) m)"
  by (induction m) auto

lemma size_json_arr_mem:
  assumes "(k, JArr xs) \<in> set m" "x \<in> set xs"
  shows "size x < Suc (size_list (size_prod (\<lambda>_. 0) size) m)"
proof -
  have "size x < Suc (size_list size xs)" using assms(2) by (induction xs) auto
  with size_json_mem [OF assms(1)] show ?thesis by simp
qed

function write_element :: "string \<Rightarrow> json \<Rightarrow> write_event list" where
  "write_element name (JObj m) =
     WStart name (written_attrs m) # written_text m
     @ concat (map (\<lambda>(k, v).
         if written_child m k then
           (case v of JArr arr \<Rightarrow> concat (map (\<lambda>x. write_element k x) arr) | _ \<Rightarrow> write_element k v)
         else []) m)
     @ [WEnd name]"
| "write_element name (JStr s) = [WStart name [], WText s, WEnd name]"
| "write_element name (JNum n) = [WStart name [], WText (num_to_string n), WEnd name]"
| "write_element name JNull = [WEmpty name]"
| "write_element name (JBool b) = []"
| "write_element name (JArr xs) = []"
  by pat_completeness auto
termination
  by (relation "measure (\<lambda>(_, v). size v)") (auto dest: size_json_mem intro: size_json_arr_mem)

section \<open>The loop\<close>

record parser_config =
  px_data_type :: data_type
  px_capture_raw_xml :: bool
  px_render :: "write_event list \<Rightarrow> string"
  px_accepts :: "nat \<Rightarrow> bool"

record parser_state =
  ps_record_count :: nat
  ps_in_target :: bool
  ps_stack :: "element_context list"
  ps_depth :: nat
  ps_malformed :: nat
  ps_resyncing :: bool
  ps_last_error :: nat
  ps_sent :: "data_message list"

definition max_malformed :: nat where
  "max_malformed = 100"

definition parser_init :: parser_state where
  "parser_init =
     \<lparr>ps_record_count = 0, ps_in_target = False, ps_stack = [], ps_depth = 0, ps_malformed = 0,
      ps_resyncing = False, ps_last_error = 2 ^ 64 - 1, ps_sent = []\<rparr>"

fun target_element :: "data_type \<Rightarrow> string" where
  "target_element Artists = ''artist''"
| "target_element Labels = ''label''"
| "target_element Masters = ''master''"
| "target_element Releases = ''release''"

datatype parse_error = NoProgress nat | BudgetExceeded nat

text \<open>The loop goes on, breaks, or returns an error.\<close>

datatype flow = Continue parser_state | Break parser_state | Fail parser_state parse_error

definition record_id :: "jobject \<Rightarrow> string" where
  "record_id obj =
     (case Option.bind (case map_of obj ''@id'' of Some v \<Rightarrow> Some v | None \<Rightarrow> map_of obj ''id'') as_str of
        Some s \<Rightarrow> s
      | None \<Rightarrow> ''unknown'')"

definition reconstruct_xml :: "parser_config \<Rightarrow> json \<Rightarrow> string" where
  "reconstruct_xml cfg v = px_render cfg (write_element (target_element (px_data_type cfg)) v)"

definition record_message :: "parser_config \<Rightarrow> string \<Rightarrow> jobject \<Rightarrow> data_message" where
  "record_message cfg i obj =
     \<lparr>dm_id = i, dm_sha256 = [], dm_data = JObj obj,
      dm_raw_xml = (if px_capture_raw_xml cfg then Some (reconstruct_xml cfg (JObj obj)) else None)\<rparr>"

text \<open>A send: the loop breaks when the receiver is gone.\<close>

definition send_record :: "parser_config \<Rightarrow> data_message \<Rightarrow> parser_state \<Rightarrow> flow" where
  "send_record cfg msg st =
     (if px_accepts cfg (length (ps_sent st)) then
        Continue (st\<lparr>ps_sent := ps_sent st @ [msg], ps_record_count := ps_record_count st + 1\<rparr>)
      else Break st)"

definition on_start :: "parser_config \<Rightarrow> string \<Rightarrow> attribute option list \<Rightarrow> parser_state \<Rightarrow> flow" where
  "on_start cfg name attrs st =
     (let st1 = st\<lparr>ps_depth := ps_depth st + 1\<rparr>;
          st2 = (if name = target_element (px_data_type cfg) \<and> ps_depth st1 = 2
                 then st1\<lparr>ps_in_target := True, ps_stack := []\<rparr> else st1)
      in Continue
           (if ps_in_target st2 then st2\<lparr>ps_stack := with_attributes attrs # ps_stack st2\<rparr> else st2))"

text \<open>Continue a flow.\<close>

fun flow_then :: "flow \<Rightarrow> (parser_state \<Rightarrow> parser_state) \<Rightarrow> flow" where
  "flow_then (Continue st) f = Continue (f st)"
| "flow_then (Break st) f = Break st"
| "flow_then (Fail st e) f = Fail st e"

definition on_empty :: "parser_config \<Rightarrow> string \<Rightarrow> attribute option list \<Rightarrow> parser_state \<Rightarrow> flow" where
  "on_empty cfg name attrs st =
     (let st1 = st\<lparr>ps_depth := ps_depth st + 1\<rparr>;
          v = into_value (with_attributes attrs)
      in flow_then
           (if name = target_element (px_data_type cfg) \<and> ps_depth st1 = 2 then
              (let st2 = st1\<lparr>ps_stack := []\<rparr> in
               flow_then
                 (case v of
                    JObj obj \<Rightarrow> send_record cfg (record_message cfg (record_id obj) obj) st2
                  | _ \<Rightarrow> Continue st2)
                 (\<lambda>s. s\<lparr>ps_in_target := False\<rparr>))
            else if ps_in_target st1 then
              (case ps_stack st1 of
                 parent # rest \<Rightarrow> Continue (st1\<lparr>ps_stack := add_child name v parent # rest\<rparr>)
               | [] \<Rightarrow> Continue st1)
            else Continue st1)
           (\<lambda>s. s\<lparr>ps_depth := ps_depth s - 1\<rparr>))"

definition on_end :: "parser_config \<Rightarrow> string \<Rightarrow> parser_state \<Rightarrow> flow" where
  "on_end cfg name st =
     flow_then
       (if ps_in_target st then
          (case ps_stack st of
             [] \<Rightarrow> Continue st
           | c # rest \<Rightarrow>
               (let st1 = st\<lparr>ps_stack := rest\<rparr>; v = into_value c in
                if name = target_element (px_data_type cfg) \<and> ps_depth st = 2 then
                  flow_then
                    (case v of
                       JObj obj \<Rightarrow>
                         (let final_obj = (if map_of obj ''@id'' \<noteq> None then oremove ''id'' obj else obj)
                          in send_record cfg (record_message cfg (record_id obj) final_obj) st1)
                     | _ \<Rightarrow> Continue st1)
                    (\<lambda>s. s\<lparr>ps_in_target := False\<rparr>)
                else
                  (case rest of
                     parent # rest' \<Rightarrow> Continue (st1\<lparr>ps_stack := add_child name v parent # rest'\<rparr>)
                   | [] \<Rightarrow> Continue st1)))
        else Continue st)
       (\<lambda>s. s\<lparr>ps_depth := ps_depth s - 1\<rparr>)"

text \<open>Text, references and character data go to the innermost open element.\<close>

definition on_text :: "string \<Rightarrow> parser_state \<Rightarrow> flow" where
  "on_text s st =
     Continue
       (if ps_in_target st then
          (case ps_stack st of
             c # rest \<Rightarrow> st\<lparr>ps_stack := push_text s c # rest\<rparr>
           | [] \<Rightarrow> st)
        else st)"

definition on_event :: "parser_config \<Rightarrow> xml_event \<Rightarrow> parser_state \<Rightarrow> flow" where
  "on_event cfg ev st =
     (case ev of
        EvStart name attrs \<Rightarrow> on_start cfg name attrs st
      | EvEmpty name attrs \<Rightarrow> on_empty cfg name attrs st
      | EvEnd name \<Rightarrow> on_end cfg name st
      | EvText s \<Rightarrow> on_text s st
      | EvGeneralRef r \<Rightarrow> on_text (ref_text r) st
      | EvCData s \<Rightarrow> on_text s st
      | EvOther \<Rightarrow> Continue st)"

definition starts_target :: "parser_config \<Rightarrow> xml_event \<Rightarrow> bool" where
  "starts_target cfg ev =
     (case ev of
        EvStart name _ \<Rightarrow> name = target_element (px_data_type cfg)
      | EvEmpty name _ \<Rightarrow> name = target_element (px_data_type cfg)
      | _ \<Rightarrow> False)"

text \<open>A malformed record: dropped, unless the reader is stuck or the budget is used up.\<close>

definition on_error :: "nat \<Rightarrow> parser_state \<Rightarrow> flow" where
  "on_error position st =
     (let st1 = st\<lparr>ps_malformed := ps_malformed st + 1\<rparr> in
      if position = ps_last_error st then Fail st1 (NoProgress position)
      else if ps_malformed st1 > max_malformed then Fail st1 (BudgetExceeded position)
      else Continue (st1\<lparr>ps_last_error := position, ps_stack := [], ps_in_target := False, ps_resyncing := True\<rparr>))"

definition parse_step :: "parser_config \<Rightarrow> read_result \<Rightarrow> parser_state \<Rightarrow> flow" where
  "parse_step cfg r st =
     (case r of
        ReadError position \<Rightarrow> on_error position st
      | Event ev \<Rightarrow>
          (if ps_resyncing st then
             (if starts_target cfg ev then on_event cfg ev (st\<lparr>ps_resyncing := False, ps_depth := 1\<rparr>)
              else Continue st)
           else on_event cfg ev st))"

text \<open>The messages sent, and the record count or the error.\<close>

fun parse_events :: "parser_config \<Rightarrow> read_result list \<Rightarrow> parser_state \<Rightarrow> parser_state \<times> (parse_error + nat)" where
  "parse_events cfg [] st = (st, Ok (ps_record_count st))"
| "parse_events cfg (r # rs) st =
     (case parse_step cfg r st of
        Continue st' \<Rightarrow> parse_events cfg rs st'
      | Break st' \<Rightarrow> (st', Ok (ps_record_count st'))
      | Fail st' e \<Rightarrow> (st', Err e))"

definition parse_file :: "parser_config \<Rightarrow> read_result list \<Rightarrow> data_message list \<times> (parse_error + nat)" where
  "parse_file cfg rs = (let (st, r) = parse_events cfg rs parser_init in (ps_sent st, r))"

end
