(* ===== verification/Xml_Refinement.thy ===== *)
theory Xml_Refinement
  imports Xml_Parser
begin

text \<open>
  The streaming parser against documents: on the events of an element tree it computes the
  recursive tree-to-JSON function, record by record; a malformed record is isolated; and the
  outcome of any stream of reads is decided by its errors alone.
\<close>

section \<open>Running a stretch of reads\<close>

fun run :: "parser_config \<Rightarrow> read_result list \<Rightarrow> parser_state \<Rightarrow> flow" where
  "run cfg [] st = Continue st"
| "run cfg (r # rs) st =
     (case parse_step cfg r st of
        Continue st' \<Rightarrow> run cfg rs st'
      | Break st' \<Rightarrow> Break st'
      | Fail st' e \<Rightarrow> Fail st' e)"

lemma run_append_Continue: "run cfg xs st = Continue st' \<Longrightarrow> run cfg (xs @ ys) st = run cfg ys st'"
  by (induction xs arbitrary: st) (auto split: flow.splits)

lemma parse_events_run:
  "parse_events cfg (xs @ ys) st =
     (case run cfg xs st of
        Continue st' \<Rightarrow> parse_events cfg ys st'
      | Break st' \<Rightarrow> (st', Ok (ps_record_count st'))
      | Fail st' e \<Rightarrow> (st', Err e))"
  by (induction xs arbitrary: st) (auto split: flow.splits)

section \<open>Documents\<close>

datatype xnode =
    Element string "attribute option list" "xnode list"
  | SelfClosed string "attribute option list"
  | Leaf xml_event

fun event_text :: "xml_event \<Rightarrow> string" where
  "event_text (EvText s) = s"
| "event_text (EvCData s) = s"
| "event_text (EvGeneralRef r) = ref_text r"
| "event_text _ = []"

fun content_event :: "xml_event \<Rightarrow> bool" where
  "content_event (EvStart n a) = False"
| "content_event (EvEmpty n a) = False"
| "content_event (EvEnd n) = False"
| "content_event _ = True"

fun node_ok :: "xnode \<Rightarrow> bool" where
  "node_ok (Element n a ns) = list_all node_ok ns"
| "node_ok (SelfClosed n a) = True"
| "node_ok (Leaf ev) = content_event ev"

fun node_events :: "xnode \<Rightarrow> xml_event list" where
  "node_events (Element n a ns) = EvStart n a # concat (map node_events ns) @ [EvEnd n]"
| "node_events (SelfClosed n a) = [EvEmpty n a]"
| "node_events (Leaf ev) = [ev]"

definition nodes_events :: "xnode list \<Rightarrow> xml_event list" where
  "nodes_events ns = concat (map node_events ns)"

text \<open>The value of an element, by recursion on the tree.\<close>

fun node_child :: "xnode \<Rightarrow> element_context \<Rightarrow> element_context" where
  "node_child (Element n a ns) c = add_child n (into_value (fold node_child ns (with_attributes a))) c"
| "node_child (SelfClosed n a) c = add_child n (into_value (with_attributes a)) c"
| "node_child (Leaf ev) c = push_text (event_text ev) c"

definition element_value :: "attribute option list \<Rightarrow> xnode list \<Rightarrow> json" where
  "element_value a ns = into_value (fold node_child ns (with_attributes a))"

text \<open>The message of a node below the root, if it is a record.\<close>

definition final_obj :: "jobject \<Rightarrow> jobject" where
  "final_obj obj = (if map_of obj ''@id'' \<noteq> None then oremove ''id'' obj else obj)"

fun record_of :: "parser_config \<Rightarrow> xnode \<Rightarrow> data_message option" where
  "record_of cfg (Element n a ns) =
     (if n = target_element (px_data_type cfg) then
        (case element_value a ns of
           JObj obj \<Rightarrow> Some (record_message cfg (record_id obj) (final_obj obj))
         | _ \<Rightarrow> None)
      else None)"
| "record_of cfg (SelfClosed n a) =
     (if n = target_element (px_data_type cfg) then
        (case into_value (with_attributes a) of
           JObj obj \<Rightarrow> Some (record_message cfg (record_id obj) obj)
         | _ \<Rightarrow> None)
      else None)"
| "record_of cfg (Leaf ev) = None"

section \<open>Inside a record\<close>

lemma on_event_content:
  "content_event ev \<Longrightarrow> ps_in_target st \<Longrightarrow> ps_stack st = c # rest \<Longrightarrow>
   on_event cfg ev st = Continue (st\<lparr>ps_stack := push_text (event_text ev) c # rest\<rparr>)"
  by (cases ev) (auto simp: on_event_def on_text_def push_text_def)

lemma node_run:
  assumes "node_ok n" "ps_in_target st" "\<not> ps_resyncing st" "ps_stack st = c # rest" "2 \<le> ps_depth st"
  shows "run cfg (map Event (node_events n)) st = Continue (st\<lparr>ps_stack := node_child n c # rest\<rparr>)"
  using assms
proof (induction n arbitrary: st c rest)
  case (Element name a ns)
  let ?c0 = "with_attributes a"
  let ?st1 = "st\<lparr>ps_depth := ps_depth st + 1, ps_stack := ?c0 # c # rest\<rparr>"
  have children: "run cfg (map Event (concat (map node_events ms))) s =
      Continue (s\<lparr>ps_stack := fold node_child ms d # c # rest\<rparr>)"
    if "set ms \<subseteq> set ns" "ps_in_target s" "\<not> ps_resyncing s" "ps_stack s = d # c # rest" "3 \<le> ps_depth s"
    for ms s d
    using that
  proof (induction ms arbitrary: s d)
    case (Cons m ms)
    have "run cfg (map Event (node_events m)) s = Continue (s\<lparr>ps_stack := node_child m d # c # rest\<rparr>)"
      using Cons.prems Element.prems(1) by (intro Element.IH) (auto simp: list_all_iff)
    then show ?case
      using Cons.prems Cons.IH [of "s\<lparr>ps_stack := node_child m d # c # rest\<rparr>" "node_child m d"]
      by (simp add: run_append_Continue)
  qed simp
  have start: "parse_step cfg (Event (EvStart name a)) st = Continue ?st1"
    using Element.prems by (simp add: parse_step_def on_event_def on_start_def Let_def)
  have body: "run cfg (map Event (concat (map node_events ns))) ?st1 =
      Continue (?st1\<lparr>ps_stack := fold node_child ns ?c0 # c # rest\<rparr>)"
    using Element.prems by (intro children) auto
  have stop: "parse_step cfg (Event (EvEnd name)) (?st1\<lparr>ps_stack := fold node_child ns ?c0 # c # rest\<rparr>) =
      Continue (st\<lparr>ps_stack := node_child (Element name a ns) c # rest\<rparr>)"
    using Element.prems by (simp add: parse_step_def on_event_def on_end_def Let_def)
  show ?case
    using start stop body by (simp add: run_append_Continue)
next
  case (SelfClosed name a)
  then show ?case
    by (simp add: parse_step_def on_event_def on_empty_def Let_def)
next
  case (Leaf ev)
  then show ?case
    by (simp add: parse_step_def on_event_content)
qed

lemma nodes_run:
  assumes "list_all node_ok ns" "ps_in_target st" "\<not> ps_resyncing st" "ps_stack st = c # rest" "2 \<le> ps_depth st"
  shows "run cfg (map Event (nodes_events ns)) st = Continue (st\<lparr>ps_stack := fold node_child ns c # rest\<rparr>)"
  using assms
proof (induction ns arbitrary: st c)
  case (Cons n ns)
  have "run cfg (map Event (node_events n)) st = Continue (st\<lparr>ps_stack := node_child n c # rest\<rparr>)"
    using Cons.prems by (intro node_run) auto
  then show ?case
    using Cons.prems Cons.IH [of "st\<lparr>ps_stack := node_child n c # rest\<rparr>" "node_child n c"]
    by (simp add: nodes_events_def run_append_Continue)
qed (simp add: nodes_events_def)

section \<open>Outside a record\<close>

text \<open>Below depth two nothing outside a record changes the state.\<close>

lemma skip_run:
  assumes "node_ok n" "\<not> ps_in_target st" "\<not> ps_resyncing st" "2 \<le> ps_depth st"
  shows "run cfg (map Event (node_events n)) st = Continue st"
  using assms
proof (induction n arbitrary: st)
  case (Element name a ns)
  let ?st1 = "st\<lparr>ps_depth := ps_depth st + 1\<rparr>"
  have children: "run cfg (map Event (concat (map node_events ms))) ?st1 = Continue ?st1"
    if "set ms \<subseteq> set ns" for ms
    using that
  proof (induction ms)
    case (Cons m ms)
    have "run cfg (map Event (node_events m)) ?st1 = Continue ?st1"
      using Cons.prems Element.prems by (intro Element.IH) (auto simp: list_all_iff)
    with Cons show ?case by (simp add: run_append_Continue)
  qed simp
  have start: "parse_step cfg (Event (EvStart name a)) st = Continue ?st1"
    using Element.prems by (simp add: parse_step_def on_event_def on_start_def Let_def)
  have stop: "parse_step cfg (Event (EvEnd name)) ?st1 = Continue st"
    using Element.prems by (simp add: parse_step_def on_event_def on_end_def)
  show ?case using start stop children [of ns] by (simp add: run_append_Continue)
next
  case (SelfClosed name a)
  then show ?case
    by (simp add: parse_step_def on_event_def on_empty_def Let_def)
next
  case (Leaf ev)
  then show ?case
    by (cases ev) (auto simp: parse_step_def on_event_def on_text_def)
qed

lemma skip_nodes_run:
  "list_all node_ok ns \<Longrightarrow> \<not> ps_in_target st \<Longrightarrow> \<not> ps_resyncing st \<Longrightarrow> 2 \<le> ps_depth st \<Longrightarrow>
   run cfg (map Event (nodes_events ns)) st = Continue st"
  by (induction ns) (auto simp: nodes_events_def skip_run run_append_Continue)

section \<open>Records\<close>

text \<open>Between two records of the root element.\<close>

definition ready :: "parser_state \<Rightarrow> bool" where
  "ready st \<longleftrightarrow> \<not> ps_in_target st \<and> \<not> ps_resyncing st \<and> ps_depth st = 1 \<and> ps_stack st = []"

definition push_messages :: "data_message list \<Rightarrow> parser_state \<Rightarrow> parser_state" where
  "push_messages ms st =
     st\<lparr>ps_sent := ps_sent st @ ms, ps_record_count := ps_record_count st + length ms\<rparr>"

definition all_accepted :: "parser_config \<Rightarrow> bool" where
  "all_accepted cfg \<longleftrightarrow> px_accepts cfg = (\<lambda>_. True)"

lemma ready_push [simp]: "ready (push_messages ms st) = ready st"
  by (simp add: ready_def push_messages_def)

lemma push_messages_Nil [simp]: "push_messages [] st = st"
  by (simp add: push_messages_def)

lemma push_messages_append: "push_messages ms (push_messages ns st) = push_messages (ns @ ms) st"
  by (simp add: push_messages_def add.assoc)

lemma record_run:
  assumes "node_ok n" "ready st" "all_accepted cfg"
  shows "run cfg (map Event (node_events n)) st =
    Continue (push_messages (case record_of cfg n of None \<Rightarrow> [] | Some m \<Rightarrow> [m]) st)"
proof (cases n)
  case (Element name a ns)
  have ok: "list_all node_ok ns" using assms(1) Element by simp
  show ?thesis
  proof (cases "name = target_element (px_data_type cfg)")
    case True
    let ?st1 = "st\<lparr>ps_depth := 2, ps_in_target := True, ps_stack := [with_attributes a]\<rparr>"
    let ?st2 = "?st1\<lparr>ps_stack := [fold node_child ns (with_attributes a)]\<rparr>"
    have start: "parse_step cfg (Event (EvStart name a)) st = Continue ?st1"
      using assms(2) True by (simp add: parse_step_def on_event_def on_start_def Let_def ready_def)
    have body: "run cfg (map Event (nodes_events ns)) ?st1 = Continue ?st2"
      using nodes_run [OF ok, of ?st1 "with_attributes a" "[]" cfg] assms(2) by (simp add: ready_def)
    have stop: "parse_step cfg (Event (EvEnd name)) ?st2 =
        Continue (push_messages (case record_of cfg n of None \<Rightarrow> [] | Some m \<Rightarrow> [m]) st)"
      using assms(2,3) True Element
      by (cases "into_value (fold node_child ns (with_attributes a))")
        (simp_all add: parse_step_def on_event_def on_end_def Let_def element_value_def push_messages_def
          send_record_def all_accepted_def ready_def final_obj_def)
    show ?thesis
      using start stop body Element by (simp add: nodes_events_def run_append_Continue)
  next
    case False
    let ?st1 = "st\<lparr>ps_depth := 2\<rparr>"
    have start: "parse_step cfg (Event (EvStart name a)) st = Continue ?st1"
      using assms(2) False by (simp add: parse_step_def on_event_def on_start_def Let_def ready_def)
    have body: "run cfg (map Event (nodes_events ns)) ?st1 = Continue ?st1"
      using skip_nodes_run [OF ok, of ?st1 cfg] assms(2) by (simp add: ready_def)
    have stop: "parse_step cfg (Event (EvEnd name)) ?st1 = Continue st"
      using assms(2) by (simp add: parse_step_def on_event_def on_end_def ready_def)
    show ?thesis
      using start stop body Element False by (simp add: nodes_events_def run_append_Continue)
  qed
next
  case (SelfClosed name a)
  then show ?thesis
    using assms(2,3)
    by (cases "into_value (with_attributes a)")
      (auto simp: parse_step_def on_event_def on_empty_def Let_def ready_def push_messages_def
        send_record_def all_accepted_def)
next
  case (Leaf ev)
  with assms(1,2) show ?thesis
    by (cases ev) (auto simp: parse_step_def on_event_def on_text_def ready_def)
qed

lemma records_run:
  assumes "list_all node_ok ns" "ready st" "all_accepted cfg"
  shows "run cfg (map Event (nodes_events ns)) st = Continue (push_messages (filter_map (record_of cfg) ns) st)"
  using assms
proof (induction ns arbitrary: st)
  case (Cons n ns)
  have "run cfg (map Event (node_events n)) st =
      Continue (push_messages (case record_of cfg n of None \<Rightarrow> [] | Some m \<Rightarrow> [m]) st)"
    using Cons.prems by (intro record_run) auto
  with Cons show ?case
    by (auto simp: nodes_events_def run_append_Continue push_messages_append split: option.splits)
qed (simp add: nodes_events_def)

text \<open>The reads of a document whose root holds the nodes.\<close>

definition doc_open :: "string \<Rightarrow> attribute option list \<Rightarrow> read_result list" where
  "doc_open rt a = map Event [EvOther, EvStart rt a]"

definition doc_close :: "string \<Rightarrow> read_result list" where
  "doc_close rt = map Event [EvEnd rt, EvText [CHR 0x0A]]"

definition document :: "string \<Rightarrow> attribute option list \<Rightarrow> xnode list \<Rightarrow> read_result list" where
  "document rt a ns = doc_open rt a @ map Event (nodes_events ns) @ doc_close rt"

definition opened :: parser_state where
  "opened = parser_init\<lparr>ps_depth := 1\<rparr>"

lemma doc_open_run: "run cfg (doc_open rt a) parser_init = Continue opened"
  by (simp add: doc_open_def opened_def parse_step_def on_event_def on_start_def Let_def parser_init_def)

lemma ready_opened: "ready opened"
  by (simp add: ready_def opened_def parser_init_def)

lemma doc_close_parse:
  "ready st \<Longrightarrow> parse_events cfg (doc_close rt) st = (st\<lparr>ps_depth := 0\<rparr>, Ok (ps_record_count st))"
  by (simp add: doc_close_def parse_step_def on_event_def on_end_def on_text_def ready_def)

lemma document_parsed:
  assumes "list_all node_ok ns" "all_accepted cfg"
  shows "parse_file cfg (document rt a ns) =
    (filter_map (record_of cfg) ns, Ok (length (filter_map (record_of cfg) ns)))"
proof -
  let ?ms = "filter_map (record_of cfg) ns"
  have "run cfg (map Event (nodes_events ns)) opened = Continue (push_messages ?ms opened)"
    using assms by (intro records_run ready_opened)
  then have "parse_events cfg (document rt a ns) parser_init =
      ((push_messages ?ms opened)\<lparr>ps_depth := 0\<rparr>, Ok (ps_record_count (push_messages ?ms opened)))"
    by (simp add: document_def parse_events_run doc_open_run doc_close_parse ready_opened)
  then show ?thesis
    by (simp add: parse_file_def push_messages_def opened_def parser_init_def)
qed

text \<open>
  C1: on the events of a well-formed document the streaming parser refines the tree-to-JSON
  function: it sends exactly the records of the root's target children, in document order,
  each with the value of its element, whatever stands around and below them, and returns
  their number.
\<close>

theorem parse_document:
  assumes "list_all node_ok ns" "all_accepted cfg"
  shows "parse_file cfg (document rt a ns) =
    (filter_map (record_of cfg) ns, Ok (length (filter_map (record_of cfg) ns)))"
  using assms by (rule document_parsed)

section \<open>Fault isolation\<close>

lemma resync_skip:
  "ps_resyncing st \<Longrightarrow> list_all (\<lambda>ev. \<not> starts_target cfg ev) evs \<Longrightarrow> run cfg (map Event evs) st = Continue st"
  by (induction evs) (auto simp: parse_step_def)

text \<open>The first start of a record after an error re-anchors the parser.\<close>

definition target_node :: "parser_config \<Rightarrow> xnode \<Rightarrow> bool" where
  "target_node cfg n =
     (case n of
        Element name a ns \<Rightarrow> name = target_element (px_data_type cfg)
      | SelfClosed name a \<Rightarrow> name = target_element (px_data_type cfg)
      | Leaf ev \<Rightarrow> False)"

lemma resync_anchor:
  assumes "ps_resyncing st" "target_node cfg n"
  shows "run cfg (map Event (node_events n @ evs)) st =
    run cfg (map Event (node_events n @ evs)) (st\<lparr>ps_resyncing := False, ps_depth := 1\<rparr>)"
  using assms
  by (cases n) (auto simp: target_node_def parse_step_def starts_target_def)

lemma resync_records:
  assumes "ps_resyncing st" "\<not> ps_in_target st" "ps_stack st = []" "target_node cfg n"
    and "list_all node_ok (n # ns)" "all_accepted cfg"
  shows "run cfg (map Event (nodes_events (n # ns))) st =
    Continue (push_messages (filter_map (record_of cfg) (n # ns)) (st\<lparr>ps_resyncing := False, ps_depth := 1\<rparr>))"
proof -
  have "ready (st\<lparr>ps_resyncing := False, ps_depth := 1\<rparr>)"
    using assms(2,3) by (simp add: ready_def)
  from records_run [OF assms(5) this assms(6)] show ?thesis
    using resync_anchor [OF assms(1,4), of "nodes_events ns"] by (simp add: nodes_events_def)
qed

text \<open>A record cut short: its start and some complete children.\<close>

definition cut_record :: "string \<Rightarrow> attribute option list \<Rightarrow> xnode list \<Rightarrow> xml_event list" where
  "cut_record name a ns = EvStart name a # nodes_events ns"

lemma cut_record_run:
  assumes "list_all node_ok ns" "ready st"
  shows "\<exists>st'. run cfg (map Event (cut_record name a ns)) st = Continue st' \<and> ps_sent st' = ps_sent st
    \<and> ps_record_count st' = ps_record_count st \<and> ps_malformed st' = ps_malformed st
    \<and> ps_last_error st' = ps_last_error st \<and> \<not> ps_resyncing st'"
proof (cases "name = target_element (px_data_type cfg)")
  case True
  let ?st1 = "st\<lparr>ps_depth := 2, ps_in_target := True, ps_stack := [with_attributes a]\<rparr>"
  have "parse_step cfg (Event (EvStart name a)) st = Continue ?st1"
    using assms(2) True by (simp add: parse_step_def on_event_def on_start_def Let_def ready_def)
  then show ?thesis
    using nodes_run [OF assms(1), of ?st1 "with_attributes a" "[]" cfg] assms(2)
    by (simp add: cut_record_def ready_def)
next
  case False
  let ?st1 = "st\<lparr>ps_depth := 2\<rparr>"
  have "parse_step cfg (Event (EvStart name a)) st = Continue ?st1"
    using assms(2) False by (simp add: parse_step_def on_event_def on_start_def Let_def ready_def)
  then show ?thesis
    using skip_nodes_run [OF assms(1), of ?st1 cfg] assms(2) by (simp add: cut_record_def ready_def)
qed

lemma on_error_continue:
  assumes "position \<noteq> ps_last_error st" "ps_malformed st < max_malformed"
  shows "on_error position st = Continue (st\<lparr>ps_malformed := ps_malformed st + 1, ps_last_error := position,
    ps_stack := [], ps_in_target := False, ps_resyncing := True\<rparr>)"
  using assms by (simp add: on_error_def Let_def)

section \<open>Documents with damaged records\<close>

text \<open>The byte positions of the errors of a stream of reads, in order.\<close>

definition errors_of :: "read_result list \<Rightarrow> nat list" where
  "errors_of rs = filter_map (\<lambda>r. case r of ReadError p \<Rightarrow> Some p | Event _ \<Rightarrow> None) rs"

lemma errors_of_simps [simp]:
  "errors_of [] = []" "errors_of (ReadError p # rs) = p # errors_of rs" "errors_of (Event ev # rs) = errors_of rs"
  "errors_of (rs @ ts) = errors_of rs @ errors_of ts" "errors_of (map Event evs) = []"
proof -
  show app: "errors_of (rs @ ts) = errors_of rs @ errors_of ts" for rs ts
    by (induction rs) (auto simp: errors_of_def split: read_result.splits)
  show "errors_of (map Event evs) = []" by (induction evs) (simp_all add: errors_of_def)
qed (simp_all add: errors_of_def)

text \<open>
  What the reader delivers of a child of the root: all its events; or, of a damaged one, the
  first \<open>k\<close> of its events, an error, and whatever it makes of the bytes that are left of it,
  further errors included.
\<close>

datatype piece =
    Intact xnode
  | Damaged xnode nat nat "read_result list"

fun piece_reads :: "piece \<Rightarrow> read_result list" where
  "piece_reads (Intact n) = map Event (node_events n)"
| "piece_reads (Damaged n k p rest) = map Event (take k (node_events n)) @ ReadError p # rest"

fun intact_node :: "piece \<Rightarrow> xnode option" where
  "intact_node (Intact n) = Some n"
| "intact_node (Damaged n k p rest) = None"

text \<open>Reads that start no record, and children that are a record or hold none.\<close>

fun quiet_read :: "parser_config \<Rightarrow> read_result \<Rightarrow> bool" where
  "quiet_read cfg (Event ev) = (\<not> starts_target cfg ev)"
| "quiet_read cfg (ReadError p) = True"

definition plain_child :: "parser_config \<Rightarrow> xnode \<Rightarrow> bool" where
  "plain_child cfg n \<longleftrightarrow> node_ok n \<and> (target_node cfg n \<or> list_all (\<lambda>ev. \<not> starts_target cfg ev) (node_events n))"

fun piece_ok :: "parser_config \<Rightarrow> piece \<Rightarrow> bool" where
  "piece_ok cfg (Intact n) = plain_child cfg n"
| "piece_ok cfg (Damaged n k p rest) =
     (plain_child cfg n \<and> k < length (node_events n) \<and> list_all (quiet_read cfg) rest)"

text \<open>Between two pieces: ready for a record, or resynchronising.\<close>

definition at_rest :: "parser_state \<Rightarrow> bool" where
  "at_rest st \<longleftrightarrow> \<not> ps_in_target st \<and> ps_stack st = [] \<and> (ps_resyncing st \<or> ps_depth st = 1)"

text \<open>What a stretch of reads adds to a state: messages, and errors.\<close>

definition grown :: "parser_state \<Rightarrow> data_message list \<Rightarrow> nat list \<Rightarrow> parser_state \<Rightarrow> bool" where
  "grown st ms es st' \<longleftrightarrow>
     ps_sent st' = ps_sent st @ ms \<and> ps_record_count st' = ps_record_count st + length ms
     \<and> ps_malformed st' = ps_malformed st + length es \<and> ps_last_error st' = last (ps_last_error st # es)"

definition budget :: "parser_state \<Rightarrow> nat list \<Rightarrow> bool" where
  "budget st es \<longleftrightarrow> ps_malformed st + length es \<le> max_malformed \<and> distinct_adj (ps_last_error st # es)"

lemma grown_refl [simp]: "grown st [] [] st"
  by (simp add: grown_def)

lemma grown_trans: "grown a ms es b \<Longrightarrow> grown b ns fs c \<Longrightarrow> grown a (ms @ ns) (es @ fs) c"
  by (auto simp: grown_def)

lemma budget_append: "budget st (es @ fs) \<Longrightarrow> grown st ms es st' \<Longrightarrow> budget st es \<and> budget st' fs"
  by (auto simp: budget_def grown_def distinct_adj_append_iff distinct_adj_Cons hd_append split: if_splits)

lemma ready_at_rest: "ready st \<longleftrightarrow> at_rest st \<and> \<not> ps_resyncing st"
  by (auto simp: ready_def at_rest_def)

subsection \<open>A record cut short\<close>

text \<open>Events only ever add messages, and change neither the errors nor, backwards, the flag.\<close>

lemma step_event_grows:
  assumes "parse_step cfg (Event ev) st = Continue st'"
  shows "\<exists>ms. grown st ms [] st' \<and> (ps_resyncing st' \<longrightarrow> ps_resyncing st)"
proof -
  have ev: "\<exists>ms. grown s ms [] s' \<and> ps_resyncing s' = ps_resyncing s" if "on_event cfg ev s = Continue s'" for s s'
    using that
    by (cases ev)
      (auto simp: on_event_def on_start_def on_empty_def on_end_def on_text_def send_record_def grown_def Let_def
        split: list.splits json.splits if_splits)
  let ?a = "st\<lparr>ps_resyncing := False, ps_depth := 1\<rparr>"
  have anchor: "grown ?a ms es s \<longleftrightarrow> grown st ms es s" for ms es s
    by (simp add: grown_def)
  show ?thesis
  proof (cases "ps_resyncing st")
    case False
    with assms ev [of st st'] show ?thesis by (auto simp: parse_step_def)
  next
    case True
    then have "st' = st \<or> on_event cfg ev ?a = Continue st'"
      using assms by (auto simp: parse_step_def split: if_splits)
    with True ev [of ?a st'] show ?thesis
      unfolding anchor by (metis grown_refl)
  qed
qed

lemma run_events_grows:
  "run cfg (map Event evs) st = Continue st' \<Longrightarrow> \<exists>ms. grown st ms [] st' \<and> (ps_resyncing st' \<longrightarrow> ps_resyncing st)"
proof (induction evs arbitrary: st)
  case Nil
  then show ?case by (auto intro: exI [of _ "[]"])
next
  case (Cons ev evs)
  then obtain s where s: "parse_step cfg (Event ev) st = Continue s" "run cfg (map Event evs) s = Continue st'"
    by (auto split: flow.splits)
  from step_event_grows [OF s(1)] Cons.IH [OF s(2)] show ?case
    by (metis grown_trans append_Nil)
qed

lemma run_append_split:
  "run cfg (xs @ ys) st = Continue st'' \<Longrightarrow> \<exists>st'. run cfg xs st = Continue st' \<and> run cfg ys st' = Continue st''"
  by (induction xs arbitrary: st) (auto split: flow.splits)

lemma prefix_run:
  assumes "run cfg (map Event evs) st = Continue st'" "grown st [] [] st'" "\<not> ps_resyncing st"
  shows "\<exists>s. run cfg (map Event (take k evs)) st = Continue s \<and> grown st [] [] s \<and> \<not> ps_resyncing s"
proof -
  have "run cfg (map Event (take k evs) @ map Event (drop k evs)) st = Continue st'"
    using assms(1) by (simp flip: map_append)
  then obtain s where s: "run cfg (map Event (take k evs)) st = Continue s" "run cfg (map Event (drop k evs)) s = Continue st'"
    using run_append_split by blast
  from run_events_grows [OF s(1)] run_events_grows [OF s(2)] obtain ms ns
    where "grown st ms [] s" "grown s ns [] st'" "ps_resyncing s \<longrightarrow> ps_resyncing st" by blast
  moreover from this(1,2) assms(2) have "ms = []" by (auto simp: grown_def)
  ultimately show ?thesis using s(1) assms(3) by blast
qed

lemma damaged_prefix_run:
  assumes "node_ok n" "ready st" "k < length (node_events n)"
  shows "\<exists>s. run cfg (map Event (take k (node_events n))) st = Continue s \<and> grown st [] [] s \<and> \<not> ps_resyncing s"
proof (cases n)
  case (Element name a ns)
  then have ok: "list_all node_ok ns" using assms(1) by simp
  obtain st' where st': "run cfg (map Event (cut_record name a ns)) st = Continue st'" "grown st [] [] st'"
    using cut_record_run [OF ok assms(2), of cfg name a] by (auto simp: grown_def)
  have "take k (node_events n) = take k (cut_record name a ns)"
    using assms(3) by (cases k) (auto simp: Element cut_record_def nodes_events_def)
  then show ?thesis
    using prefix_run [OF st'] assms(2) by (simp add: ready_def)
qed (use assms in \<open>auto simp: ready_def\<close>)

subsection \<open>Errors, and what is left of a damaged record\<close>

lemma quiet_run:
  assumes "ps_resyncing st" "at_rest st" "list_all (quiet_read cfg) rs" "budget st (errors_of rs)"
  shows "\<exists>st'. run cfg rs st = Continue st' \<and> ps_resyncing st' \<and> at_rest st' \<and> grown st [] (errors_of rs) st'"
  using assms
proof (induction rs arbitrary: st)
  case (Cons r rs)
  show ?case
  proof (cases r)
    case (Event ev)
    with Cons show ?thesis by (simp add: parse_step_def)
  next
    case (ReadError p)
    let ?s = "st\<lparr>ps_malformed := ps_malformed st + 1, ps_last_error := p, ps_stack := [], ps_in_target := False,
      ps_resyncing := True\<rparr>"
    have step: "parse_step cfg r st = Continue ?s"
      using Cons.prems on_error_continue [of p st] by (auto simp: ReadError parse_step_def budget_def)
    have "grown st [] [p] ?s" by (simp add: grown_def)
    moreover from this have "budget ?s (errors_of rs)"
      using Cons.prems(4) budget_append [of st "[p]" "errors_of rs" "[]" ?s] by (simp add: ReadError)
    then obtain st' where "run cfg rs ?s = Continue st'" "ps_resyncing st'" "at_rest st'" "grown ?s [] (errors_of rs) st'"
      using Cons.IH [of ?s] Cons.prems(3) by (auto simp: at_rest_def)
    ultimately show ?thesis
      using step grown_trans [of st "[]" "[p]" ?s "[]" "errors_of rs" st'] by (auto simp: ReadError)
  qed
qed auto

lemma error_run:
  assumes "list_all (quiet_read cfg) rs" "budget st (p # errors_of rs)"
  shows "\<exists>st'. run cfg (ReadError p # rs) st = Continue st' \<and> at_rest st' \<and> grown st [] (p # errors_of rs) st'"
proof -
  let ?s = "st\<lparr>ps_malformed := ps_malformed st + 1, ps_last_error := p, ps_stack := [], ps_in_target := False,
    ps_resyncing := True\<rparr>"
  have step: "parse_step cfg (ReadError p) st = Continue ?s"
    using assms(2) on_error_continue [of p st] by (auto simp: parse_step_def budget_def)
  have g: "grown st [] [p] ?s" by (simp add: grown_def)
  then have "budget ?s (errors_of rs)"
    using assms(2) budget_append [of st "[p]" "errors_of rs" "[]" ?s] by simp
  from quiet_run [OF _ _ assms(1) this] obtain st' where
    "run cfg rs ?s = Continue st'" "at_rest st'" "grown ?s [] (errors_of rs) st'"
    by (auto simp: at_rest_def)
  with step g grown_trans [of st "[]" "[p]" ?s "[]" "errors_of rs" st'] show ?thesis by auto
qed

subsection \<open>One piece, and all of them\<close>

text \<open>The first start of a record after an error re-anchors the parser.\<close>

definition anchored :: "parser_state \<Rightarrow> parser_state" where
  "anchored st = (if ps_resyncing st then st\<lparr>ps_resyncing := False, ps_depth := 1\<rparr> else st)"

lemma anchored_ready: "at_rest st \<Longrightarrow> ready (anchored st)"
  by (auto simp: anchored_def at_rest_def ready_def)

lemma anchored_grown [simp]: "grown (anchored st) ms es s = grown st ms es s"
  by (simp add: anchored_def grown_def)

lemma target_starts: "target_node cfg n \<Longrightarrow> \<exists>ev evs. node_events n = ev # evs \<and> starts_target cfg ev"
  by (cases n) (auto simp: target_node_def starts_target_def)

lemma target_prefix_anchored:
  assumes "target_node cfg n" "0 < k"
  shows "run cfg (map Event (take k (node_events n))) st = run cfg (map Event (take k (node_events n))) (anchored st)"
proof -
  obtain ev evs where ev: "node_events n = ev # evs" "starts_target cfg ev" using target_starts assms(1) by blast
  have "parse_step cfg (Event ev) st = parse_step cfg (Event ev) (anchored st)"
    using ev(2) by (auto simp: anchored_def parse_step_def)
  with assms(2) show ?thesis by (cases k) (simp_all add: ev)
qed

lemma plain_record_of: "plain_child cfg n \<Longrightarrow> \<not> target_node cfg n \<Longrightarrow> record_of cfg n = None"
  by (cases n) (auto simp: target_node_def)

lemma intact_run:
  assumes "at_rest st" "plain_child cfg n" "all_accepted cfg"
  shows "\<exists>st'. run cfg (map Event (node_events n)) st = Continue st' \<and> at_rest st'
    \<and> grown st (case record_of cfg n of None \<Rightarrow> [] | Some m \<Rightarrow> [m]) [] st'"
proof (cases "ps_resyncing st \<and> \<not> target_node cfg n")
  case True
  then have "list_all (\<lambda>ev. \<not> starts_target cfg ev) (node_events n)" using assms(2) by (simp add: plain_child_def)
  then show ?thesis
    using resync_skip [of st cfg "node_events n"] True assms by (auto simp: plain_record_of)
next
  case False
  have "run cfg (map Event (node_events n)) st = run cfg (map Event (node_events n)) (anchored st)"
    using False target_prefix_anchored [of cfg n "length (node_events n)" st] target_starts [of cfg n]
    by (cases "target_node cfg n") (auto simp: anchored_def)
  moreover have "node_ok n" using assms(2) by (simp add: plain_child_def)
  moreover note record_run [OF this anchored_ready [OF assms(1)] assms(3)]
  moreover have "grown (anchored st) ms [] (push_messages ms (anchored st))" for ms
    by (simp add: grown_def push_messages_def)
  moreover have "at_rest (push_messages ms (anchored st))" for ms
    using anchored_ready [OF assms(1)] ready_at_rest ready_push by blast
  ultimately show ?thesis by auto
qed

lemma piece_run:
  assumes "at_rest st" "piece_ok cfg c" "all_accepted cfg" "budget st (errors_of (piece_reads c))"
  shows "\<exists>st'. run cfg (piece_reads c) st = Continue st' \<and> at_rest st'
    \<and> grown st (filter_map (record_of cfg) (filter_map intact_node [c])) (errors_of (piece_reads c)) st'"
proof (cases c)
  case (Intact n)
  with intact_run [OF assms(1) _ assms(3), of n] assms(2) show ?thesis
    by (auto split: option.splits)
next
  case (Damaged n k p rest)
  have ok: "plain_child cfg n" "k < length (node_events n)" "list_all (quiet_read cfg) rest"
    using assms(2) by (simp_all add: Damaged)
  have "\<exists>s. run cfg (map Event (take k (node_events n))) st = Continue s \<and> grown st [] [] s"
  proof (cases "ps_resyncing st \<and> (k = 0 \<or> \<not> target_node cfg n)")
    case True
    then have "list_all (\<lambda>ev. \<not> starts_target cfg ev) (take k (node_events n))"
      using ok(1) by (auto simp: plain_child_def list_all_iff dest: in_set_takeD)
    with True resync_skip show ?thesis by fastforce
  next
    case False
    have "run cfg (map Event (take k (node_events n))) st = run cfg (map Event (take k (node_events n))) (anchored st)"
    proof (cases "ps_resyncing st")
      case True
      with False have "target_node cfg n" "0 < k" by auto
      then show ?thesis by (rule target_prefix_anchored)
    qed (simp add: anchored_def)
    moreover have "node_ok n" using ok(1) by (simp add: plain_child_def)
    moreover note damaged_prefix_run [OF this anchored_ready [OF assms(1)] ok(2), of cfg]
    ultimately show ?thesis by auto
  qed
  then obtain s where s: "run cfg (map Event (take k (node_events n))) st = Continue s" "grown st [] [] s" by blast
  have "budget s (p # errors_of rest)"
    using assms(4) budget_append [OF _ s(2), of "p # errors_of rest"] by (simp add: Damaged)
  from error_run [OF ok(3) this] obtain st' where
    "run cfg (ReadError p # rest) s = Continue st'" "at_rest st'" "grown s [] (p # errors_of rest) st'" by blast
  with s grown_trans [OF s(2)] show ?thesis
    by (auto simp: Damaged run_append_Continue)
qed

lemma pieces_run:
  assumes "at_rest st" "list_all (piece_ok cfg) cs" "all_accepted cfg" "budget st (errors_of (concat (map piece_reads cs)))"
  shows "\<exists>st'. run cfg (concat (map piece_reads cs)) st = Continue st' \<and> at_rest st'
    \<and> grown st (filter_map (record_of cfg) (filter_map intact_node cs)) (errors_of (concat (map piece_reads cs))) st'"
  using assms(1,2,4)
proof (induction cs arbitrary: st)
  case (Cons c cs)
  let ?e = "errors_of (piece_reads c)" and ?es = "errors_of (concat (map piece_reads cs))"
  have "budget st ?e" using Cons.prems(3) by (auto simp: budget_def distinct_adj_append_iff distinct_adj_Cons split: if_splits)
  from piece_run [OF Cons.prems(1) _ assms(3) this] Cons.prems(2) obtain s where
    s: "run cfg (piece_reads c) st = Continue s" "at_rest s"
       "grown st (filter_map (record_of cfg) (filter_map intact_node [c])) ?e s" by auto
  have "budget s ?es" using budget_append [OF _ s(3), of ?es] Cons.prems(3) by simp
  with Cons.IH [OF s(2)] Cons.prems(2) obtain st' where
    "run cfg (concat (map piece_reads cs)) s = Continue st'" "at_rest st'"
    "grown s (filter_map (record_of cfg) (filter_map intact_node cs)) ?es st'" by auto
  with s grown_trans [OF s(3)] show ?case
    by (auto simp: run_append_Continue split: option.splits)
qed auto

lemma doc_close_at_rest:
  assumes "at_rest st"
  shows "\<exists>st'. parse_events cfg (doc_close rt) st = (st', Ok (ps_record_count st)) \<and> ps_sent st' = ps_sent st"
  using assms
  by (cases "ps_resyncing st")
    (auto simp: doc_close_def parse_step_def starts_target_def on_event_def on_end_def on_text_def at_rest_def)

text \<open>
  C2: a malformed record costs only itself.  In a document whose children are records, or hold
  none, any number of them may be damaged: the reader breaks off anywhere inside such a child,
  reports one or more errors, and may deliver anything of what is left of it except the start of
  another record element.  As long as the file stays within its budget (at most a hundred
  errors, no two in a row at one position) every intact record is sent, unchanged and in order,
  nothing is sent for a damaged one, and the file completes with the number of intact records.
\<close>

theorem malformed_record_isolated:
  assumes "list_all (piece_ok cfg) cs" "all_accepted cfg"
    and "length (errors_of (concat (map piece_reads cs))) \<le> 100"
    and "distinct_adj ((2 ^ 64 - 1) # errors_of (concat (map piece_reads cs)))"
  shows "parse_file cfg (doc_open rt a @ concat (map piece_reads cs) @ doc_close rt)
    = (filter_map (record_of cfg) (filter_map intact_node cs),
       Ok (length (filter_map (record_of cfg) (filter_map intact_node cs))))"
proof -
  have "at_rest opened" by (simp add: at_rest_def opened_def parser_init_def)
  moreover have "budget opened (errors_of (concat (map piece_reads cs)))"
    using assms(3,4) by (simp add: budget_def opened_def parser_init_def max_malformed_def)
  ultimately obtain st where st: "run cfg (concat (map piece_reads cs)) opened = Continue st" "at_rest st"
      "grown opened (filter_map (record_of cfg) (filter_map intact_node cs)) (errors_of (concat (map piece_reads cs))) st"
    using pieces_run assms(1,2) by blast
  obtain st' where "parse_events cfg (doc_close rt) st = (st', Ok (ps_record_count st))" "ps_sent st' = ps_sent st"
    using doc_close_at_rest [OF st(2)] by blast
  moreover have "ps_sent opened = []" "ps_record_count opened = 0"
    by (simp_all add: opened_def parser_init_def)
  ultimately show ?thesis
    using st(1,3) by (simp add: parse_file_def parse_events_run doc_open_run grown_def)
qed

section \<open>When a file fails\<close>

lemma on_event_flow:
  assumes "all_accepted cfg"
  shows "\<exists>st'. on_event cfg ev st = Continue st' \<and> ps_malformed st' = ps_malformed st \<and> ps_last_error st' = ps_last_error st"
  using assms
  by (cases ev)
    (auto simp: on_event_def on_start_def on_empty_def on_end_def on_text_def send_record_def all_accepted_def
      Let_def split: list.splits json.splits)

lemma parse_step_event:
  assumes "all_accepted cfg"
  shows "\<exists>st'. parse_step cfg (Event ev) st = Continue st' \<and> ps_malformed st' = ps_malformed st \<and> ps_last_error st' = ps_last_error st"
  using on_event_flow [OF assms, of ev st] on_event_flow [OF assms, of ev "st\<lparr>ps_resyncing := False, ps_depth := 1\<rparr>"]
  by (auto simp: parse_step_def)

lemma parse_events_ok_iff:
  assumes "all_accepted cfg" "ps_malformed st \<le> max_malformed"
  shows "is_ok (snd (parse_events cfg rs st)) \<longleftrightarrow>
    ps_malformed st + length (errors_of rs) \<le> max_malformed \<and> distinct_adj (ps_last_error st # errors_of rs)"
  using assms(2)
proof (induction rs arbitrary: st)
  case Nil
  then show ?case by (simp add: errors_of_def)
next
  case (Cons r rs)
  show ?case
  proof (cases r)
    case (Event ev)
    obtain st' where "parse_step cfg (Event ev) st = Continue st'" "ps_malformed st' = ps_malformed st"
        "ps_last_error st' = ps_last_error st"
      using parse_step_event [OF assms(1)] by blast
    with Cons show ?thesis by (simp add: Event errors_of_def)
  next
    case (ReadError p)
    show ?thesis
    proof (cases "p \<noteq> ps_last_error st \<and> ps_malformed st < max_malformed")
      case True
      let ?st' = "st\<lparr>ps_malformed := ps_malformed st + 1, ps_last_error := p, ps_stack := [], ps_in_target := False,
        ps_resyncing := True\<rparr>"
      have "parse_step cfg (ReadError p) st = Continue ?st'"
        using True by (simp add: parse_step_def on_error_continue)
      with True Cons.IH [of ?st'] show ?thesis
        by (simp add: ReadError errors_of_def)
    next
      case False
      then have "\<exists>st' e. parse_step cfg (ReadError p) st = Fail st' e"
        using Cons.prems by (auto simp: parse_step_def on_error_def Let_def)
      with False Cons.prems show ?thesis
        by (auto simp: ReadError errors_of_def)
    qed
  qed
qed

text \<open>
  C19: a file fails exactly when it holds more than a hundred malformed records or the reader
  reports two successive errors at one position: otherwise parsing returns a count.  So a few
  bad records never abort a dump, and a stuck reader never loops.
\<close>

theorem parse_file_ok_iff:
  assumes "all_accepted cfg"
  shows "is_ok (snd (parse_file cfg rs)) \<longleftrightarrow>
    length (errors_of rs) \<le> 100 \<and> distinct_adj ((2 ^ 64 - 1) # errors_of rs)"
  using parse_events_ok_iff [OF assms, of parser_init rs]
  by (simp add: parse_file_def case_prod_beta parser_init_def max_malformed_def)

end
