(* ===== verification/Xml_Records.thy ===== *)
theory Xml_Records
  imports Xml_Refinement
begin

text \<open>
  What every record sent by the parser satisfies, on any stream of reads: an invariant of the
  loop, and with it the precondition of normalisation.  Then the XML written back for quality
  reports, and the resynchronisation defect on nested labels.
\<close>

section \<open>The invariant of the loop\<close>

definition xml_name :: "string \<Rightarrow> bool" where
  "xml_name n \<longleftrightarrow> strip_at n = None \<and> n \<noteq> ''#text''"

definition names_ok :: "jobject \<Rightarrow> bool" where
  "names_ok m \<longleftrightarrow> obj_wf m \<and> list_all xml_name (okeys m)"

definition attrs_ok :: "attribute option list \<Rightarrow> bool" where
  "attrs_ok attrs = list_all (\<lambda>a. xml_name (at_key a)) (filter_map id attrs)"

fun event_ok :: "xml_event \<Rightarrow> bool" where
  "event_ok (EvStart n a) = (xml_name n \<and> attrs_ok a)"
| "event_ok (EvEmpty n a) = (xml_name n \<and> attrs_ok a)"
| "event_ok (EvEnd n) = xml_name n"
| "event_ok _ = True"

fun read_ok :: "read_result \<Rightarrow> bool" where
  "read_ok (Event ev) = event_ok ev"
| "read_ok (ReadError p) = True"

text \<open>
  The values the parser builds: text is not blank, an object is not text alone, attributes are
  strings under XML names, a list is a child that was repeated.
\<close>

function parsed_value :: "json \<Rightarrow> bool" where
  "parsed_value (JObj m) =
     (owf m \<and> \<not> list_all (\<lambda>k. k = ''#text'') (okeys m)
      \<and> list_all (\<lambda>(k, v).
          case strip_at k of
            Some a \<Rightarrow> xml_name a \<and> as_str v \<noteq> None
          | None \<Rightarrow>
              if k = ''#text'' then (case v of JStr s \<Rightarrow> trim s \<noteq> [] | _ \<Rightarrow> False)
              else (case v of JArr arr \<Rightarrow> 2 \<le> length arr \<and> list_all (\<lambda>x. parsed_value x) arr | _ \<Rightarrow> parsed_value v)) m)"
| "parsed_value (JStr s) = (trim s \<noteq> [])"
| "parsed_value JNull = True"
| "parsed_value (JNum n) = False"
| "parsed_value (JBool b) = False"
| "parsed_value (JArr xs) = False"
  by pat_completeness auto
termination
  by (relation "measure size") (auto dest: size_json_mem intro: size_json_arr_mem)

declare parsed_value.simps(1) [simp del]

definition parsed_child :: "json \<Rightarrow> bool" where
  "parsed_child v = (case v of JArr arr \<Rightarrow> 2 \<le> length arr \<and> list_all parsed_value arr | _ \<Rightarrow> parsed_value v)"

text \<open>One entry of a parsed object.\<close>

definition parsed_entry :: "string \<Rightarrow> json \<Rightarrow> bool" where
  "parsed_entry k v =
     (case strip_at k of
        Some a \<Rightarrow> xml_name a \<and> as_str v \<noteq> None
      | None \<Rightarrow> if k = ''#text'' then (case v of JStr s \<Rightarrow> trim s \<noteq> [] | _ \<Rightarrow> False) else parsed_child v)"

lemma parsed_value_JObj:
  "parsed_value (JObj m) \<longleftrightarrow>
     owf m \<and> (\<exists>k \<in> set (okeys m). k \<noteq> ''#text'') \<and> (\<forall>(k, v) \<in> set m. parsed_entry k v)"
  unfolding parsed_value.simps(1) parsed_entry_def parsed_child_def list_all_iff by fast

lemma parsed_value_child: "parsed_value v \<Longrightarrow> parsed_child v"
  by (cases v) (auto simp: parsed_child_def)

definition values_ok :: "(json \<Rightarrow> bool) \<Rightarrow> jobject \<Rightarrow> bool" where
  "values_ok P m = list_all (\<lambda>(k, v). P v) m"

definition context_ok :: "element_context \<Rightarrow> bool" where
  "context_ok c \<longleftrightarrow> names_ok (ec_attributes c) \<and> names_ok (ec_children c)
     \<and> values_ok (\<lambda>v. as_str v \<noteq> None) (ec_attributes c) \<and> values_ok parsed_child (ec_children c)"

lemma values_ok_Nil [simp]: "values_ok P []"
  by (simp add: values_ok_def)

lemma values_ok_oinsert: "values_ok P m \<Longrightarrow> P v \<Longrightarrow> values_ok P (oinsert k v m)"
  by (induction m) (auto simp: values_ok_def)

lemma values_ok_get: "values_ok P m \<Longrightarrow> map_of m k = Some v \<Longrightarrow> P v"
  by (auto simp: values_ok_def list_all_iff dest: map_of_SomeD)

lemma names_ok_Nil [simp]: "names_ok []"
  by (simp add: names_ok_def okeys_def)

lemma okeys_oinsert: "set (okeys (oinsert k v m)) = insert k (set (okeys m))"
  by (simp add: okeys_def)

lemma names_ok_oinsert: "names_ok m \<Longrightarrow> xml_name k \<Longrightarrow> json_wf v \<Longrightarrow> names_ok (oinsert k v m)"
  by (auto simp: names_ok_def obj_wf_oinsert list_all_iff okeys_oinsert)

lemma names_ok_get: "names_ok m \<Longrightarrow> map_of m k = Some v \<Longrightarrow> json_wf v \<and> xml_name k"
  by (auto simp: names_ok_def list_all_iff set_okeys dest: obj_wf_get)

lemma context_ok_attributes: "attrs_ok a \<Longrightarrow> context_ok (with_attributes a)"
proof -
  have "names_ok m \<and> values_ok (\<lambda>v. as_str v \<noteq> None) m \<Longrightarrow> list_all (\<lambda>a. xml_name (at_key a)) as' \<Longrightarrow>
      names_ok (fold (\<lambda>a. oinsert (at_key a) (JStr (attribute_value a))) as' m)
      \<and> values_ok (\<lambda>v. as_str v \<noteq> None) (fold (\<lambda>a. oinsert (at_key a) (JStr (attribute_value a))) as' m)" for m as'
    by (induction as' arbitrary: m) (auto simp: names_ok_oinsert values_ok_oinsert)
  then show "attrs_ok a \<Longrightarrow> context_ok (with_attributes a)"
    by (simp add: with_attributes_def context_new_def context_ok_def attrs_ok_def)
qed

lemma context_ok_add_child:
  assumes "context_ok c" "xml_name n" "json_wf v" "parsed_value v"
  shows "context_ok (add_child n v c)"
proof (cases "map_of (ec_children c) n")
  case None
  with assms show ?thesis
    by (simp add: add_child_def context_ok_def names_ok_oinsert values_ok_oinsert parsed_value_child)
next
  case (Some w)
  then have w: "json_wf w" "parsed_child w"
    using assms(1) by (auto simp: context_ok_def dest: names_ok_get values_ok_get)
  have "parsed_child (JArr (arr @ [v]))" if "as_array w = Some arr" for arr
    using w(2) that assms(4) by (simp add: as_array_Some parsed_child_def)
  moreover have "parsed_child (JArr [w, v])" if "as_array w = None"
    using w(2) that assms(4) by (cases w) (auto simp: parsed_child_def)
  ultimately show ?thesis
    using Some assms w(1)
    by (auto simp: add_child_def context_ok_def as_array_Some intro!: names_ok_oinsert values_ok_oinsert split: option.split)
qed

lemma context_ok_push_text [simp]: "context_ok (push_text s c) = context_ok c"
  by (simp add: context_ok_def push_text_def)

section \<open>The value of a context\<close>

text \<open>The attributes under their prefixed keys.\<close>

definition prefixed :: "jobject \<Rightarrow> jobject" where
  "prefixed m = fold (\<lambda>(k, v). oinsert (CHR ''@'' # k) v) m []"

lemma map_of_prefixed:
  assumes "owf m"
  shows "map_of (prefixed m) k = (case strip_at k of Some s \<Rightarrow> map_of m s | None \<Rightarrow> None)"
proof -
  have "owf m \<Longrightarrow> map_of (fold (\<lambda>(k, v). oinsert (CHR ''@'' # k) v) m r) k =
      (case strip_at k of
         Some s \<Rightarrow> (case map_of m s of Some v \<Rightarrow> Some v | None \<Rightarrow> map_of r k)
       | None \<Rightarrow> map_of r k)" for r
  proof (induction m arbitrary: r)
    case (Cons p m)
    obtain j v where p: "p = (j, v)" by force
    have "map_of m j = None" using Cons.prems by (force simp: p owf_Cons map_of_eq_None_iff)
    with Cons show ?case
      by (auto simp: p owf_Cons strip_at_Some split: option.splits)
  qed (auto split: option.split)
  from this [OF assms, of "[]"] show ?thesis
    by (auto simp: prefixed_def split: option.splits)
qed

lemma owf_prefixed: "owf (prefixed m)"
proof -
  have "owf r \<Longrightarrow> owf (fold (\<lambda>(k, v). oinsert (CHR ''@'' # k) v) m r)" for r
    by (induction m arbitrary: r) (auto simp: owf_oinsert)
  then show ?thesis by (simp add: prefixed_def)
qed

text \<open>The object of a context: prefixed attributes, the text unless blank, the children.\<close>

definition context_object :: "element_context \<Rightarrow> jobject" where
  "context_object c =
     fold (\<lambda>(k, v). oinsert k v) (ec_children c)
       (if trim (ec_text_content c) \<noteq> [] then oinsert ''#text'' (JStr (ec_text_content c)) (prefixed (ec_attributes c))
        else prefixed (ec_attributes c))"

lemma owf_context_object: "owf (context_object c)"
  by (simp add: context_object_def owf_fold_oinsert owf_oinsert owf_prefixed)

lemma map_of_fold_oinsert:
  "owf m \<Longrightarrow> map_of (fold (\<lambda>(k, v). oinsert k v) m r) k = (case map_of m k of Some v \<Rightarrow> Some v | None \<Rightarrow> map_of r k)"
proof (induction m arbitrary: r)
  case (Cons p m)
  obtain j v where p: "p = (j, v)" by force
  have "map_of m j = None" using Cons.prems by (force simp: p owf_Cons map_of_eq_None_iff)
  with Cons show ?case by (auto simp: p owf_Cons split: option.splits)
qed simp

lemma map_of_context_object:
  assumes "context_ok c"
  shows "map_of (context_object c) k =
    (case strip_at k of
       Some s \<Rightarrow> map_of (ec_attributes c) s
     | None \<Rightarrow>
         if k = ''#text'' then (if trim (ec_text_content c) \<noteq> [] then Some (JStr (ec_text_content c)) else None)
         else map_of (ec_children c) k)"
proof -
  have wf: "owf (ec_attributes c)" "owf (ec_children c)"
    using assms by (auto simp: context_ok_def names_ok_def obj_wf_owf)
  have "map_of (ec_children c) j = None" if "strip_at j \<noteq> None \<or> j = ''#text''" for j
  proof (rule ccontr)
    assume "map_of (ec_children c) j \<noteq> None"
    then have "xml_name j" using assms names_ok_get by (auto simp: context_ok_def)
    with that show False by (auto simp: xml_name_def)
  qed
  then show ?thesis
    by (auto simp: context_object_def map_of_fold_oinsert wf map_of_prefixed split: option.splits)
qed

lemma into_value_object:
  "into_value c =
     (if trim (ec_text_content c) \<noteq> [] \<and> ec_children c = [] \<and> prefixed (ec_attributes c) = [] then JStr (ec_text_content c)
      else if context_object c = [] then JNull else JObj (context_object c))"
proof -
  have nil: "fold (\<lambda>(k, v). oinsert k v) m r = [] \<longleftrightarrow> m = [] \<and> r = []" for m r :: jobject
  proof (induction m arbitrary: r)
    case (Cons p m)
    obtain k v where "p = (k, v)" by force
    then show ?case using Cons.IH [of "oinsert k v r"] by simp
  qed simp
  have "context_object c = [] \<longleftrightarrow> ec_children c = [] \<and> prefixed (ec_attributes c) = [] \<and> trim (ec_text_content c) = []"
    unfolding context_object_def nil by simp
  moreover have "into_value c =
     (if ec_children c = [] \<and> prefixed (ec_attributes c) = [] \<and> trim (ec_text_content c) \<noteq> [] then JStr (ec_text_content c)
      else if context_object c = [] \<and> trim (ec_text_content c) \<noteq> [] then JStr (ec_text_content c)
      else if context_object c = [] then JNull else JObj (context_object c))"
    unfolding into_value_def Let_def prefixed_def [symmetric] context_object_def [symmetric] by (rule refl)
  ultimately show ?thesis by simp
qed

lemma into_value_JObj: "into_value c = JObj obj \<Longrightarrow> obj = context_object c"
  by (auto simp: into_value_object split: if_splits)

lemma obj_wf_context_object: "context_ok c \<Longrightarrow> obj_wf (context_object c)"
proof -
  assume c: "context_ok c"
  have "json_wf v" if "map_of (context_object c) k = Some v" for k v
    using that c names_ok_get
    by (auto simp: map_of_context_object context_ok_def split: option.splits if_splits)
  moreover have "owf (context_object c)" by (rule owf_context_object)
  ultimately show ?thesis
    unfolding obj_wf_def list_all_iff by (auto simp: owf_map_of_iff)
qed

lemma json_wf_into_value: "context_ok c \<Longrightarrow> json_wf (into_value c)"
  by (simp add: into_value_object obj_wf_context_object)

lemma plain_attrs_context: "context_ok c \<Longrightarrow> plain_attrs (context_object c)"
proof -
  assume c: "context_ok c"
  have "strip_at s = None \<and> s \<noteq> ''#text''" if k: "k \<in> set (okeys (context_object c))" "strip_at k = Some s" for k s
  proof -
    have "map_of (context_object c) k \<noteq> None" using k(1) by (simp add: set_okeys)
    then obtain v where "map_of (ec_attributes c) s = Some v"
      using k(2) by (auto simp: map_of_context_object [OF c])
    then have "xml_name s" using c names_ok_get by (auto simp: context_ok_def)
    then show ?thesis by (simp add: xml_name_def)
  qed
  then show ?thesis by (auto simp: plain_attrs_def list_all_iff split: option.splits)
qed

lemma parsed_value_into_value:
  assumes "context_ok c"
  shows "parsed_value (into_value c)"
proof -
  let ?m = "context_object c"
  have entry: "parsed_entry k v" if "(k, v) \<in> set ?m" for k v
  proof -
    have "map_of ?m k = Some v" using that owf_map_of_iff [OF owf_context_object, of c k v] by simp
    then have look: "(case strip_at k of
       Some s \<Rightarrow> map_of (ec_attributes c) s
     | None \<Rightarrow>
         if k = ''#text'' then (if trim (ec_text_content c) \<noteq> [] then Some (JStr (ec_text_content c)) else None)
         else map_of (ec_children c) k) = Some v"
      by (simp add: map_of_context_object [OF assms])
    show ?thesis
    proof (cases "strip_at k")
      case (Some a)
      with look have "map_of (ec_attributes c) a = Some v" by simp
      with assms Some show ?thesis
        using names_ok_get [of "ec_attributes c" a v] values_ok_get [of "\<lambda>v. as_str v \<noteq> None" "ec_attributes c" a v]
        by (simp add: context_ok_def parsed_entry_def)
    next
      case None
      with look assms values_ok_get [of parsed_child "ec_children c" k v] show ?thesis
        by (auto simp: context_ok_def parsed_entry_def split: if_splits)
    qed
  qed
  have "parsed_value (JObj ?m)"
    if "\<not> (ec_children c = [] \<and> prefixed (ec_attributes c) = [])"
  proof -
    have "\<exists>k. k \<noteq> ''#text'' \<and> k \<in> set (okeys ?m)"
    proof (cases "ec_children c")
      case (Cons p n)
      obtain k v where p: "p = (k, v)" by force
      then have kv: "map_of (ec_children c) k = Some v" by (simp add: Cons)
      then have "xml_name k" using assms by (auto simp: context_ok_def dest: names_ok_get)
      moreover from this kv have "map_of ?m k = Some v"
        by (simp add: map_of_context_object [OF assms] xml_name_def)
      ultimately show ?thesis by (auto simp: set_okeys xml_name_def)
    next
      case Nil
      then obtain k v n where p: "prefixed (ec_attributes c) = (k, v) # n"
        using \<open>\<not> _\<close> by (cases "prefixed (ec_attributes c)") auto
      have "owf (ec_attributes c)" using assms by (auto simp: context_ok_def names_ok_def obj_wf_owf)
      from map_of_prefixed [OF this, of k] p obtain s where "strip_at k = Some s" "map_of (ec_attributes c) s = Some v"
        by (auto split: option.splits)
      then have "map_of ?m k = Some v" by (simp add: map_of_context_object [OF assms])
      moreover have "k \<noteq> ''#text''" using \<open>strip_at k = Some s\<close> by (auto simp: strip_at_Some)
      ultimately show ?thesis by (auto simp: set_okeys)
    qed
    with entry owf_context_object show ?thesis
      by (auto simp: parsed_value_JObj)
  qed
  moreover have "?m = []" if "ec_children c = []" "prefixed (ec_attributes c) = []" "trim (ec_text_content c) = []"
    using that by (simp add: context_object_def)
  ultimately show ?thesis by (auto simp: into_value_object)
qed

lemma parsed_value_final:
  assumes "parsed_value (JObj obj)"
  shows "parsed_value (JObj (final_obj obj))"
proof (cases "map_of obj ''@id''")
  case (Some v)
  have "''@id'' \<in> set (okeys (oremove ''id'' obj))"
    using map_of_SomeD [OF Some] by (force simp: okeys_def oremove_def)
  moreover have "set (oremove ''id'' obj) \<subseteq> set obj" by (auto simp: oremove_def)
  ultimately show ?thesis
    using assms Some owf_oremove [of obj] unfolding final_obj_def parsed_value_JObj
    by (intro conjI bexI [of _ "''@id''"]) auto
qed (use assms in \<open>simp add: final_obj_def\<close>)

section \<open>Every message\<close>

text \<open>
  A record as it is sent: a well-formed object of the parser's shape without chained attribute keys, its own
  identifier, no hash yet, and the XML of this very object exactly when XML is captured.
\<close>

definition message_ok :: "parser_config \<Rightarrow> data_message \<Rightarrow> bool" where
  "message_ok cfg msg \<longleftrightarrow>
     (\<exists>obj. dm_data msg = JObj obj \<and> obj_wf obj \<and> plain_attrs obj \<and> parsed_value (JObj obj) \<and> dm_id msg = record_id obj
        \<and> (map_of obj ''@id'' = None \<or> map_of obj ''id'' = None))
     \<and> dm_sha256 msg = []
     \<and> dm_raw_xml msg = (if px_capture_raw_xml cfg then Some (reconstruct_xml cfg (dm_data msg)) else None)"

definition state_ok :: "parser_config \<Rightarrow> parser_state \<Rightarrow> bool" where
  "state_ok cfg st \<longleftrightarrow>
     list_all context_ok (ps_stack st) \<and> list_all (message_ok cfg) (ps_sent st)
     \<and> ps_record_count st = length (ps_sent st) \<and> ps_malformed st \<le> max_malformed"

lemma plain_attrs_oremove: "plain_attrs m \<Longrightarrow> plain_attrs (oremove k m)"
  by (auto simp: plain_attrs_def okeys_def oremove_def list_all_iff)

lemma record_id_final: "record_id (final_obj obj) = record_id obj"
  by (auto simp: record_id_def final_obj_def split: option.splits)

lemma message_ok_end:
  assumes "context_ok c" "into_value c = JObj obj"
  shows "message_ok cfg (record_message cfg (record_id obj) (final_obj obj))"
proof -
  have "obj = context_object c" using into_value_JObj assms(2) by blast
  then have "obj_wf obj" "plain_attrs obj"
    using assms(1) by (simp_all add: obj_wf_context_object plain_attrs_context)
  moreover have "parsed_value (JObj (final_obj obj))"
    using parsed_value_into_value [OF assms(1)] assms(2) by (simp add: parsed_value_final)
  ultimately show ?thesis
    using record_id_final [of obj]
    by (auto simp: message_ok_def record_message_def final_obj_def obj_wf_oremove plain_attrs_oremove)
qed

lemma message_ok_empty:
  assumes "attrs_ok a" "into_value (with_attributes a) = JObj obj"
  shows "message_ok cfg (record_message cfg (record_id obj) obj)"
proof -
  let ?c = "with_attributes a"
  have c: "context_ok ?c" using assms(1) by (rule context_ok_attributes)
  have obj: "obj = context_object ?c" using into_value_JObj assms(2) by blast
  have "map_of obj ''id'' = None"
    unfolding obj map_of_context_object [OF c] by (simp add: with_attributes_def context_new_def)
  then show ?thesis
    using c parsed_value_into_value [OF c] assms(2)
    by (auto simp: message_ok_def record_message_def obj obj_wf_context_object plain_attrs_context)
qed

text \<open>A flow whose state satisfies the invariant.\<close>

fun flow_ok :: "parser_config \<Rightarrow> flow \<Rightarrow> bool" where
  "flow_ok cfg (Continue st) = state_ok cfg st"
| "flow_ok cfg (Break st) = state_ok cfg st"
| "flow_ok cfg (Fail st e) = (state_ok cfg (st\<lparr>ps_malformed := 0\<rparr>))"

lemma send_record_ok: "state_ok cfg st \<Longrightarrow> message_ok cfg msg \<Longrightarrow> flow_ok cfg (send_record cfg msg st)"
  by (auto simp: send_record_def state_ok_def)

lemma flow_then_ok: "flow_ok cfg fl \<Longrightarrow> (\<And>st. state_ok cfg st \<Longrightarrow> state_ok cfg (f st)) \<Longrightarrow> flow_ok cfg (flow_then fl f)"
  by (cases fl) auto

lemma on_end_ok:
  assumes "state_ok cfg st" "xml_name n"
  shows "flow_ok cfg (on_end cfg n st)"
proof -
  have "flow_ok cfg (if ps_in_target st then
          (case ps_stack st of
             [] \<Rightarrow> Continue st
           | c # rest \<Rightarrow>
               (let st1 = st\<lparr>ps_stack := rest\<rparr>; v = into_value c in
                if n = target_element (px_data_type cfg) \<and> ps_depth st = 2 then
                  flow_then
                    (case v of
                       JObj obj \<Rightarrow>
                         (let final_obj = (if map_of obj ''@id'' \<noteq> None then oremove ''id'' obj else obj)
                          in send_record cfg (record_message cfg (record_id obj) final_obj) st1)
                     | _ \<Rightarrow> Continue st1)
                    (\<lambda>s. s\<lparr>ps_in_target := False\<rparr>)
                else
                  (case rest of
                     parent # rest' \<Rightarrow> Continue (st1\<lparr>ps_stack := add_child n v parent # rest'\<rparr>)
                   | [] \<Rightarrow> Continue st1)))
        else Continue st)"
  proof (cases "ps_stack st")
    case (Cons c rest)
    have c: "context_ok c" "state_ok cfg (st\<lparr>ps_stack := rest\<rparr>)" "list_all context_ok rest"
      using assms(1) Cons by (auto simp: state_ok_def)
    have msg: "into_value c = JObj obj \<Longrightarrow>
        flow_ok cfg (send_record cfg (record_message cfg (record_id obj) (final_obj obj)) (st\<lparr>ps_stack := rest\<rparr>))" for obj
      using c message_ok_end by (intro send_record_ok) auto
    have parent: "rest = parent # rest' \<Longrightarrow> state_ok cfg (st\<lparr>ps_stack := add_child n (into_value c) parent # rest'\<rparr>)" for parent rest'
      using c assms by (auto simp: state_ok_def context_ok_add_child json_wf_into_value parsed_value_into_value)
    show ?thesis
      using assms(1) c(2) msg parent unfolding Cons
      by (cases "into_value c"; cases rest)
        (auto simp: Let_def final_obj_def state_ok_def intro!: flow_then_ok)
  qed (use assms in auto)
  then show ?thesis
    unfolding on_end_def by (rule flow_then_ok) (simp add: state_ok_def)
qed

lemma on_empty_ok:
  assumes "state_ok cfg st" "xml_name n" "attrs_ok a"
  shows "flow_ok cfg (on_empty cfg n a st)"
proof -
  let ?c = "with_attributes a"
  have c: "context_ok ?c" using assms(3) by (rule context_ok_attributes)
  have st: "state_ok cfg (st\<lparr>ps_depth := d\<rparr>)" "state_ok cfg (st\<lparr>ps_depth := d, ps_stack := []\<rparr>)" for d
    using assms(1) by (auto simp: state_ok_def)
  have msg: "into_value ?c = JObj obj \<Longrightarrow> flow_ok cfg (send_record cfg (record_message cfg (record_id obj) obj) (st\<lparr>ps_depth := d, ps_stack := []\<rparr>))" for obj d
    using message_ok_empty [OF assms(3)] st by (intro send_record_ok) auto
  have parent: "ps_stack st = p # rest \<Longrightarrow> state_ok cfg (st\<lparr>ps_depth := d, ps_stack := add_child n (into_value ?c) p # rest\<rparr>)" for p rest d
    using c assms by (auto simp: state_ok_def context_ok_add_child json_wf_into_value parsed_value_into_value)
  show ?thesis
    unfolding on_empty_def Let_def
    using st msg parent
    by (cases "into_value ?c"; cases "ps_stack st") (auto intro!: flow_then_ok simp: state_ok_def)
qed

lemma on_start_ok:
  assumes "state_ok cfg st" "attrs_ok a"
  shows "flow_ok cfg (on_start cfg n a st)"
  using assms context_ok_attributes [OF assms(2)] by (auto simp: on_start_def Let_def state_ok_def)

lemma on_text_ok: "state_ok cfg st \<Longrightarrow> flow_ok cfg (on_text s st)"
  by (auto simp: on_text_def state_ok_def split: list.split)

lemma on_event_ok: "state_ok cfg st \<Longrightarrow> event_ok ev \<Longrightarrow> flow_ok cfg (on_event cfg ev st)"
  by (cases ev) (auto simp: on_event_def on_start_ok on_empty_ok on_end_ok on_text_ok simp del: flow_ok.simps,
      auto)

lemma on_error_ok: "state_ok cfg st \<Longrightarrow> flow_ok cfg (on_error p st)"
  by (auto simp: on_error_def Let_def state_ok_def)

lemma parse_step_ok:
  assumes "state_ok cfg st" "read_ok r"
  shows "flow_ok cfg (parse_step cfg r st)"
proof (cases r)
  case (Event ev)
  have "state_ok cfg (st\<lparr>ps_resyncing := False, ps_depth := 1\<rparr>)" using assms(1) by (simp add: state_ok_def)
  then show ?thesis using assms on_event_ok by (auto simp: Event parse_step_def)
next
  case (ReadError p)
  then show ?thesis using assms(1) on_error_ok by (simp add: parse_step_def)
qed

lemma parse_events_ok:
  assumes "state_ok cfg st" "list_all read_ok rs"
  shows "list_all (message_ok cfg) (ps_sent (fst (parse_events cfg rs st)))
    \<and> (\<forall>n. snd (parse_events cfg rs st) = Ok n \<longrightarrow> n = length (ps_sent (fst (parse_events cfg rs st))))"
  using assms
proof (induction rs arbitrary: st)
  case (Cons r rs)
  have "flow_ok cfg (parse_step cfg r st)" using Cons.prems by (intro parse_step_ok) auto
  with Cons show ?case by (cases "parse_step cfg r st") (auto simp: state_ok_def)
qed (auto simp: state_ok_def)

text \<open>
  C20: whatever the file holds, errors and a vanishing receiver included, every record sent is a
  well-formed object whose attribute keys do not chain, so that normalisation reads it as
  specified; its id is the one the object shows and it never carries both \<open>@id\<close> and \<open>id\<close>; with
  capture on it carries the XML written from this very object, without capture none; and a
  returned count is the number of records sent.
\<close>

theorem parse_file_records:
  assumes "list_all read_ok rs"
  shows "list_all (message_ok cfg) (fst (parse_file cfg rs))
    \<and> (\<forall>n. snd (parse_file cfg rs) = Ok n \<longrightarrow> n = length (fst (parse_file cfg rs)))"
proof -
  have "state_ok cfg parser_init" by (simp add: state_ok_def parser_init_def)
  from parse_events_ok [OF this assms] show ?thesis
    by (simp add: parse_file_def case_prod_beta)
qed

section \<open>Resynchronising on a nested element\<close>

text \<open>After too many end tags the parser stands above the root's children.\<close>

definition lost :: "parser_state \<Rightarrow> bool" where
  "lost st \<longleftrightarrow> \<not> ps_in_target st \<and> \<not> ps_resyncing st \<and> ps_depth st = 0 \<and> ps_stack st = []"

text \<open>No direct child of the node is named like the records.\<close>

definition no_target_child :: "parser_config \<Rightarrow> xnode \<Rightarrow> bool" where
  "no_target_child cfg n =
     (case n of Element name a ns \<Rightarrow> list_all (\<lambda>m. \<not> target_node cfg m) ns | _ \<Rightarrow> True)"

lemma record_of_None: "\<not> target_node cfg n \<Longrightarrow> record_of cfg n = None"
  by (cases n) (auto simp: target_node_def)

lemma lost_run:
  assumes "node_ok n" "no_target_child cfg n" "lost st" "all_accepted cfg"
  shows "run cfg (map Event (node_events n)) st = Continue st"
proof (cases n)
  case (Element name a ns)
  let ?st1 = "st\<lparr>ps_depth := 1\<rparr>"
  have start: "parse_step cfg (Event (EvStart name a)) st = Continue ?st1"
    using assms(3) by (simp add: parse_step_def on_event_def on_start_def Let_def lost_def)
  have "list_all (\<lambda>m. \<not> target_node cfg m) ns"
    using assms(2) Element by (simp add: no_target_child_def)
  then have none: "filter_map (record_of cfg) ns = []"
    by (induction ns) (auto simp: record_of_None)
  have "run cfg (map Event (nodes_events ns)) ?st1 = Continue (push_messages (filter_map (record_of cfg) ns) ?st1)"
    using assms Element by (intro records_run) (auto simp: ready_def lost_def)
  then have body: "run cfg (map Event (nodes_events ns)) ?st1 = Continue ?st1"
    by (simp add: none)
  have stop: "parse_step cfg (Event (EvEnd name)) ?st1 = Continue st"
    using assms(3) by (simp add: parse_step_def on_event_def on_end_def lost_def)
  show ?thesis using start stop body Element by (simp add: nodes_events_def run_append_Continue)
next
  case (SelfClosed name a)
  with assms(3) show ?thesis
    by (simp add: parse_step_def on_event_def on_empty_def Let_def lost_def)
next
  case (Leaf ev)
  with assms(1,3) show ?thesis
    by (cases ev) (auto simp: parse_step_def on_event_def on_text_def lost_def)
qed

lemma lost_nodes_run:
  "list_all node_ok ns \<Longrightarrow> list_all (no_target_child cfg) ns \<Longrightarrow> lost st \<Longrightarrow> all_accepted cfg \<Longrightarrow>
   run cfg (map Event (nodes_events ns)) st = Continue st"
  by (induction ns) (auto simp: nodes_events_def lost_run run_append_Continue)

text \<open>The rest of a malformed record: a container with one nested element named like a record.\<close>

definition nested_rest :: "string \<Rightarrow> attribute option list \<Rightarrow> xnode \<Rightarrow> string \<Rightarrow> xml_event list" where
  "nested_rest container b n name = EvStart container b # node_events n @ [EvEnd container, EvEnd name]"

text \<open>
  Resynchronisation takes a nested element named like the records for a record.  After a
  malformed record whose rest holds a container with such an element (a label's sublabels) the
  nested element is sent as a record of its own, the depth no longer matches the document, and
  every later record of the file is lost while parsing still returns successfully.
\<close>

theorem nested_resync_loses_records:
  assumes "list_all node_ok before" "list_all node_ok part" "node_ok n" "list_all node_ok after"
    and "target_node cfg n" "list_all (no_target_child cfg) after" "all_accepted cfg"
    and "position \<noteq> 2 ^ 64 - 1" "container \<noteq> target_element (px_data_type cfg)"
  shows "parse_file cfg
      (doc_open rt a @ map Event (nodes_events before) @ map Event (cut_record name b part)
        @ ReadError position # map Event (nested_rest container c n name) @ map Event (nodes_events after) @ doc_close rt)
    = (filter_map (record_of cfg) (before @ [n]), Ok (length (filter_map (record_of cfg) (before @ [n]))))"
proof -
  let ?m1 = "filter_map (record_of cfg) before" and ?m2 = "filter_map (record_of cfg) [n]"
  let ?s1 = "push_messages ?m1 opened"
  have r1: "run cfg (map Event (nodes_events before)) opened = Continue ?s1"
    using assms by (intro records_run ready_opened)
  have "ready ?s1" using ready_opened by simp
  from cut_record_run [OF assms(2) this, of cfg name b]
  obtain s2 where r2: "run cfg (map Event (cut_record name b part)) ?s1 = Continue s2"
      and s2': "ps_sent s2 = ps_sent ?s1" "ps_record_count s2 = ps_record_count ?s1"
        "ps_malformed s2 = ps_malformed ?s1" "ps_last_error s2 = ps_last_error ?s1" "\<not> ps_resyncing s2"
    by blast
  then have s2: "ps_sent s2 = ?m1" "ps_record_count s2 = length ?m1" "ps_malformed s2 = 0" "ps_last_error s2 = 2 ^ 64 - 1"
    by (simp_all add: push_messages_def opened_def parser_init_def)
  let ?s3 = "s2\<lparr>ps_malformed := 1, ps_last_error := position, ps_stack := [], ps_in_target := False, ps_resyncing := True\<rparr>"
  have r3: "parse_step cfg (ReadError position) s2 = Continue ?s3"
    using on_error_continue [of position s2] assms(8) s2 by (simp add: parse_step_def max_malformed_def)
  let ?s4 = "push_messages ?m2 (?s3\<lparr>ps_resyncing := False, ps_depth := 1\<rparr>)"
  have skip: "parse_step cfg (Event (EvStart container c)) ?s3 = Continue ?s3"
    using assms(9) by (simp add: parse_step_def starts_target_def)
  have "run cfg (map Event (nodes_events [n])) ?s3 = Continue ?s4"
    using assms by (intro resync_records) auto
  then have r4: "run cfg (map Event (EvStart container c # node_events n)) ?s3 = Continue ?s4"
    using skip by (simp add: nodes_events_def)
  have r5: "run cfg (map Event [EvEnd container, EvEnd name]) ?s4 = Continue (?s4\<lparr>ps_depth := 0\<rparr>)"
    by (simp add: parse_step_def on_event_def on_end_def push_messages_def)
  have rest: "map Event (nested_rest container c n name) =
      map Event (EvStart container c # node_events n) @ map Event [EvEnd container, EvEnd name]"
    by (simp add: nested_rest_def)
  have lost: "lost (?s4\<lparr>ps_depth := 0\<rparr>)" by (simp add: lost_def push_messages_def)
  have r6: "run cfg (map Event (nodes_events after)) (?s4\<lparr>ps_depth := 0\<rparr>) = Continue (?s4\<lparr>ps_depth := 0\<rparr>)"
    using assms(4,6) lost assms(7) by (rule lost_nodes_run)
  have r7: "parse_events cfg (doc_close rt) (?s4\<lparr>ps_depth := 0\<rparr>) = (?s4\<lparr>ps_depth := 0\<rparr>, Ok (ps_record_count ?s4))"
    by (simp add: doc_close_def parse_step_def on_event_def on_end_def on_text_def push_messages_def)
  have "parse_events cfg (doc_open rt a @ map Event (nodes_events before) @ map Event (cut_record name b part)
        @ ReadError position # map Event (nested_rest container c n name) @ map Event (nodes_events after) @ doc_close rt) parser_init
      = (?s4\<lparr>ps_depth := 0\<rparr>, Ok (ps_record_count ?s4))"
    unfolding rest append_assoc
    by (simp only: parse_events_run doc_open_run r1 r2 r3 r4 r5 r6 r7 flow.case parse_events.simps)
  then show ?thesis
    by (simp add: parse_file_def push_messages_def s2)
qed

section \<open>Witnesses\<close>

definition sample_config :: "data_type \<Rightarrow> parser_config" where
  "sample_config dt = \<lparr>px_data_type = dt, px_capture_raw_xml = False, px_render = (\<lambda>_. []), px_accepts = (\<lambda>_. True)\<rparr>"

lemma sample_accepted: "all_accepted (sample_config dt)"
  by (simp add: all_accepted_def sample_config_def)

definition id_attribute :: "string \<Rightarrow> attribute option list" where
  "id_attribute i = [Some \<lparr>at_key = ''id'', at_normalized = Some i, at_raw = i\<rparr>]"

definition sample_label :: "string \<Rightarrow> xnode" where
  "sample_label i = Element ''label'' [] [Element ''id'' [] [Leaf (EvText i)], Leaf (EvText '' '')]"

definition sublabel :: "string \<Rightarrow> xnode" where
  "sublabel i = Element ''label'' (id_attribute i) [Leaf (EvText ''Sub'')]"

theorem parse_document_witness:
  "map dm_id (fst (parse_file (sample_config Labels) (document ''labels'' [] [sample_label ''1'', sample_label ''2'']))) = [''1'', ''2'']"
proof -
  have "list_all node_ok [sample_label ''1'', sample_label ''2'']" by (simp add: sample_label_def)
  from parse_document [OF this sample_accepted, of Labels "''labels''" "[]"]
  have "fst (parse_file (sample_config Labels) (document ''labels'' [] [sample_label ''1'', sample_label ''2''])) =
      filter_map (record_of (sample_config Labels)) [sample_label ''1'', sample_label ''2'']"
    by simp
  moreover have "map dm_id (filter_map (record_of (sample_config Labels)) [sample_label ''1'', sample_label ''2'']) = [''1'', ''2'']"
    by code_simp
  ultimately show ?thesis by simp
qed

text \<open>
  Two damaged labels among three intact ones: the first breaks off inside its second child and the
  reader stumbles again over what is left of it, the second follows while the parser is still
  resynchronising.
\<close>

definition damaged_labels :: "piece list" where
  "damaged_labels =
     [Intact (sample_label ''1''), Intact (Leaf (EvText '' '')),
      Damaged (sample_label ''2'') 2 7 [Event (EvText ''x''), ReadError 9, Event (EvEnd ''label'')],
      Damaged (sample_label ''3'') 0 12 [], Intact (Leaf (EvText '' '')),
      Intact (sample_label ''4''), Intact (sample_label ''5'')]"

theorem malformed_record_isolated_witness:
  "map dm_id (fst (parse_file (sample_config Labels)
      (doc_open ''labels'' [] @ concat (map piece_reads damaged_labels) @ doc_close ''labels''))) = [''1'', ''4'', ''5'']"
proof -
  have "list_all (piece_ok (sample_config Labels)) damaged_labels" by code_simp
  moreover have "errors_of (concat (map piece_reads damaged_labels)) = [7, 9, 12]" by code_simp
  moreover have "map dm_id (filter_map (record_of (sample_config Labels)) (filter_map intact_node damaged_labels)) = [''1'', ''4'', ''5'']"
    by code_simp
  ultimately show ?thesis
    using malformed_record_isolated [of "sample_config Labels" damaged_labels "''labels''" "[]"] sample_accepted
    by simp
qed

theorem parse_file_ok_iff_witness:
  "is_ok (snd (parse_file (sample_config Labels) [ReadError 7, ReadError 9]))
    \<and> \<not> is_ok (snd (parse_file (sample_config Labels) [ReadError 7, ReadError 7]))"
  using parse_file_ok_iff [OF sample_accepted, of Labels "[ReadError 7, ReadError 9]"]
    parse_file_ok_iff [OF sample_accepted, of Labels "[ReadError 7, ReadError 7]"]
  by (simp add: errors_of_def)

definition capture_config :: parser_config where
  "capture_config =
     (sample_config Labels)\<lparr>px_capture_raw_xml := True,
       px_render := (\<lambda>ws. concat (map (\<lambda>w. case w of WStart n a \<Rightarrow> ''<'' @ n @ ''>'' | WText t \<Rightarrow> t | WEnd n \<Rightarrow> ''</'' @ n @ ''>''
         | WEmpty n \<Rightarrow> ''<'' @ n @ ''/>'') ws))\<rparr>"

definition captured_stream :: "read_result list" where
  "captured_stream =
     doc_open ''labels'' [] @ map Event (node_events (sample_label ''1'')) @ [ReadError 7] @ doc_close ''labels''"

theorem parse_file_records_witness:
  "list_all (message_ok capture_config) (fst (parse_file capture_config captured_stream))
    \<and> map dm_raw_xml (fst (parse_file capture_config captured_stream)) = [Some ''<label><id>1</id></label>'']"
proof -
  have "list_all read_ok captured_stream" by code_simp
  from parse_file_records [OF this, of capture_config] have
    "list_all (message_ok capture_config) (fst (parse_file capture_config captured_stream))" by simp
  moreover have "fst (parse_file capture_config captured_stream) =
      filter_map (record_of capture_config) [sample_label ''1'']"
    by (simp add: parse_file_def captured_stream_def doc_open_def doc_close_def sample_label_def parser_init_def
        parse_step_def on_event_def on_start_def on_end_def on_text_def on_error_def max_malformed_def Let_def
        send_record_def record_of.simps element_value_def with_attributes_def context_new_def add_child_def push_text_def
        into_value_def final_obj_def capture_config_def sample_config_def)
  moreover have "map dm_raw_xml (filter_map (record_of capture_config) [sample_label ''1'']) = [Some ''<label><id>1</id></label>'']"
    by code_simp
  ultimately show ?thesis by simp
qed

theorem nested_resync_loses_records_witness:
  "parse_file (sample_config Labels)
      (doc_open ''labels'' [] @ map Event (nodes_events []) @ map Event (cut_record ''label'' [] [])
        @ ReadError 7 # map Event (nested_rest ''sublabels'' [] (sublabel ''9'') ''label'')
        @ map Event (nodes_events [sample_label ''2'', sample_label ''3'']) @ doc_close ''labels'')
    = (filter_map (record_of (sample_config Labels)) [sublabel ''9''],
       Ok (length (filter_map (record_of (sample_config Labels)) [sublabel ''9''])))"
proof -
  have "target_node (sample_config Labels) (sublabel ''9'')" "node_ok (sublabel i)" "node_ok (sample_label i)"
    "no_target_child (sample_config Labels) (sample_label i)" for i
    by (simp_all add: target_node_def no_target_child_def sample_label_def sublabel_def sample_config_def)
  then show ?thesis
    using nested_resync_loses_records [of "[]" "[]" "sublabel ''9''" "[sample_label ''2'', sample_label ''3'']"
        "sample_config Labels" 7 "''sublabels''" "''labels''" "[]" "''label''" "[]" "[]"] sample_accepted
    by (simp add: sample_config_def)
qed

end
