(* ===== verification/Xml_Writeback.thy ===== *)
theory Xml_Writeback
  imports Xml_Records
begin

text \<open>
  \<open>reconstruct_xml\<close> of \<open>src/discogs/parser.rs\<close>: the XML written back for a flagged record, read
  again by the parser.  The XML writer and the XML reader are library code: the writer is the
  parameter \<open>px_render\<close>, the reader a function on the written text, and what is relied on is
  \<open>faithful_reader\<close>.  What is shown is that no information is lost between JSON and events.
\<close>

section \<open>Records that can be restored\<close>

text \<open>
  A name as it stands in a tag, and an attribute value that normalisation leaves alone (the
  reader turns tabs and line breaks of an attribute into blanks).
\<close>

definition name_token :: "string \<Rightarrow> bool" where
  "name_token n \<longleftrightarrow> n \<noteq> []
     \<and> list_all (\<lambda>c. c \<notin> {CHR 0x09, CHR 0x0A, CHR 0x0D, CHR '' '', CHR ''<'', CHR ''>'', CHR ''/'', CHR ''='', CHR ''&'',
         CHR 0x22, CHR 0x27}) n"

definition attribute_text :: "string \<Rightarrow> bool" where
  "attribute_text s = list_all (\<lambda>c. c \<notin> {CHR 0x09, CHR 0x0A, CHR 0x0D}) s"

text \<open>
  What the written XML can carry: tags and attributes under proper names, attribute values
  without tabs and line breaks, and no object with both an \<open>@id\<close> attribute and an \<open>id\<close> child (the
  writer leaves the child out).
\<close>

definition restorable_entry :: "string \<Rightarrow> json \<Rightarrow> bool" where
  "restorable_entry k v =
     (case strip_at k of
        Some a \<Rightarrow> name_token a \<and> (case v of JStr s \<Rightarrow> attribute_text s | _ \<Rightarrow> True)
      | None \<Rightarrow> k = ''#text'' \<or> name_token k)"

function restorable :: "json \<Rightarrow> bool" where
  "restorable (JObj m) =
     ((map_of m ''@id'' = None \<or> map_of m ''id'' = None)
      \<and> list_all (\<lambda>(k, v). restorable_entry k v
          \<and> (case v of JArr arr \<Rightarrow> list_all (\<lambda>x. restorable x) arr | _ \<Rightarrow> restorable v)) m)"
| "restorable (JStr s) = True"
| "restorable JNull = True"
| "restorable (JNum n) = True"
| "restorable (JBool b) = True"
| "restorable (JArr xs) = True"
  by pat_completeness auto
termination
  by (relation "measure size") (auto dest: size_json_mem intro: size_json_arr_mem)

declare restorable.simps(1) [simp del]

definition xml_shaped :: "json \<Rightarrow> bool" where
  "xml_shaped v \<longleftrightarrow> parsed_value v \<and> restorable v"

definition child_shaped :: "json \<Rightarrow> bool" where
  "child_shaped v = (case v of JArr arr \<Rightarrow> 2 \<le> length arr \<and> list_all xml_shaped arr | _ \<Rightarrow> xml_shaped v)"

lemma xml_shaped_simps [simp]:
  "xml_shaped (JStr s) = (trim s \<noteq> [])" "xml_shaped JNull" "\<not> xml_shaped (JNum n)" "\<not> xml_shaped (JBool b)"
  "\<not> xml_shaped (JArr xs)"
  by (simp_all add: xml_shaped_def)

lemma xml_shaped_JObj:
  assumes "xml_shaped (JObj m)"
  shows "owf m" "\<exists>k \<in> set (okeys m). k \<noteq> ''#text''" "map_of m ''@id'' = None \<or> map_of m ''id'' = None"
  using assms by (auto simp: xml_shaped_def parsed_value_JObj restorable.simps(1))

lemma xml_shaped_entry:
  assumes "xml_shaped (JObj m)" "(k, v) \<in> set m"
  shows "case strip_at k of
      Some a \<Rightarrow> xml_name a \<and> name_token a \<and> (\<exists>s. v = JStr s \<and> attribute_text s)
    | None \<Rightarrow> if k = ''#text'' then (\<exists>s. v = JStr s \<and> trim s \<noteq> []) else child_shaped v"
proof -
  have p: "parsed_entry k v"
    using assms by (auto simp: xml_shaped_def parsed_value_JObj)
  have q: "restorable_entry k v" "case v of JArr arr \<Rightarrow> list_all (\<lambda>x. restorable x) arr | _ \<Rightarrow> restorable v"
    using assms by (auto simp: xml_shaped_def restorable.simps(1) list_all_iff)
  have "child_shaped v" if "parsed_child v"
    using that q(2) by (cases v) (auto simp: parsed_child_def child_shaped_def xml_shaped_def list_all_iff)
  then show ?thesis
    using p q(1) by (cases v) (auto simp: parsed_entry_def restorable_entry_def split: option.splits if_splits)
qed

lemma xml_shaped_child:
  "xml_shaped (JObj m) \<Longrightarrow> (k, v) \<in> set m \<Longrightarrow> written_child m k \<Longrightarrow> child_shaped v"
  using xml_shaped_entry [of m k v] by (auto simp: written_child_def)

section \<open>The reader of the written XML\<close>

text \<open>
  What the reader makes of a start tag's attributes and of a text, as it finds them written: a
  parameter.  It is faithful when every attribute comes back under its key with its value, given
  distinct proper names and values normalisation leaves alone, and when a text comes back as
  events (texts and references) that spell it.
\<close>

record xml_reader =
  xr_attrs :: "(string \<times> string) list \<Rightarrow> attribute option list"
  xr_text :: "string \<Rightarrow> xml_event list"

definition plain_attributes :: "(string \<times> string) list \<Rightarrow> bool" where
  "plain_attributes kvs \<longleftrightarrow> distinct (map fst kvs) \<and> list_all (\<lambda>(k, v). name_token k \<and> attribute_text v) kvs"

definition faithful_reader :: "xml_reader \<Rightarrow> bool" where
  "faithful_reader xr \<longleftrightarrow>
     (\<forall>kvs. plain_attributes kvs \<longrightarrow>
        map (\<lambda>a. (at_key a, at_normalized a)) (filter_map id (xr_attrs xr kvs)) = map (\<lambda>(k, v). (k, Some v)) kvs)
     \<and> (\<forall>t. list_all content_event (xr_text xr t) \<and> concat (map event_text (xr_text xr t)) = t)"

fun read_back :: "xml_reader \<Rightarrow> write_event \<Rightarrow> xml_event list" where
  "read_back xr (WStart n kvs) = [EvStart n (xr_attrs xr kvs)]"
| "read_back xr (WText t) = xr_text xr t"
| "read_back xr (WEnd n) = [EvEnd n]"
| "read_back xr (WEmpty n) = [EvEmpty n []]"

definition read_events :: "xml_reader \<Rightarrow> write_event list \<Rightarrow> xml_event list" where
  "read_events xr ws = concat (map (read_back xr) ws)"

text \<open>The reader, given what the writer wrote for a record, delivers its events one by one.\<close>

definition reads_written :: "(string \<Rightarrow> read_result list) \<Rightarrow> xml_reader \<Rightarrow> parser_config \<Rightarrow> json \<Rightarrow> bool" where
  "reads_written xml xr cfg v \<longleftrightarrow>
     xml (reconstruct_xml cfg v) = map Event (read_events xr (write_element (target_element (px_data_type cfg)) v))"

lemma read_events_concat: "read_events xr (concat xss) = concat (map (read_events xr) xss)"
  by (induction xss) (simp_all add: read_events_def)

lemma read_events_simps [simp]:
  "read_events xr [] = []" "read_events xr (w # ws) = read_back xr w @ read_events xr ws"
  "read_events xr (ws @ vs) = read_events xr ws @ read_events xr vs"
  by (simp_all add: read_events_def)

definition leaves :: "xml_reader \<Rightarrow> string \<Rightarrow> xnode list" where
  "leaves xr t = map Leaf (xr_text xr t)"

lemma leaves_ok:
  "faithful_reader xr \<Longrightarrow> list_all node_ok (leaves xr t)"
  by (simp add: faithful_reader_def leaves_def list_all_iff)

lemma leaves_events [simp]: "nodes_events (leaves xr t) = xr_text xr t" "concat (map node_events (leaves xr t)) = xr_text xr t"
  by (simp_all add: leaves_def nodes_events_def comp_def)

lemma leaves_push: "faithful_reader xr \<Longrightarrow> fold node_child (leaves xr t) c = push_text t c"
proof -
  have "fold node_child (map Leaf evs) c = push_text (concat (map event_text evs)) c" for evs
    by (induction evs arbitrary: c) (simp_all add: push_text_def)
  then show "faithful_reader xr \<Longrightarrow> fold node_child (leaves xr t) c = push_text t c"
    by (simp add: leaves_def faithful_reader_def)
qed

section \<open>The tree that is written\<close>

definition tree_attrs :: "xml_reader \<Rightarrow> jobject \<Rightarrow> attribute option list" where
  "tree_attrs xr m = xr_attrs xr (written_attrs m)"

definition tree_text :: "xml_reader \<Rightarrow> jobject \<Rightarrow> xnode list" where
  "tree_text xr m = (case map_of m ''#text'' of Some (JStr t) \<Rightarrow> leaves xr t | _ \<Rightarrow> [])"

function node_of :: "xml_reader \<Rightarrow> string \<Rightarrow> json \<Rightarrow> xnode" where
  "node_of xr name (JObj m) =
     Element name (tree_attrs xr m)
       (tree_text xr m @ concat (map (\<lambda>(k, v).
          if written_child m k then
            (case v of JArr arr \<Rightarrow> map (\<lambda>x. node_of xr k x) arr | _ \<Rightarrow> [node_of xr k v])
          else []) m))"
| "node_of xr name (JStr s) = Element name (xr_attrs xr []) (leaves xr s)"
| "node_of xr name JNull = SelfClosed name []"
| "node_of xr name (JNum n) = Leaf EvOther"
| "node_of xr name (JBool b) = Leaf EvOther"
| "node_of xr name (JArr xs) = Leaf EvOther"
  by pat_completeness auto
termination
  by (relation "measure (\<lambda>(_, _, v). size v)") (auto dest: size_json_mem intro: size_json_arr_mem)

text \<open>The nodes of one entry of an object.\<close>

definition entry_nodes :: "xml_reader \<Rightarrow> string \<Rightarrow> json \<Rightarrow> xnode list" where
  "entry_nodes xr k v = (case v of JArr arr \<Rightarrow> map (node_of xr k) arr | _ \<Rightarrow> [node_of xr k v])"

definition child_nodes :: "xml_reader \<Rightarrow> jobject \<Rightarrow> jobject \<Rightarrow> xnode list" where
  "child_nodes xr m n = concat (map (\<lambda>(k, v). if written_child m k then entry_nodes xr k v else []) n)"

lemma node_of_JObj: "node_of xr name (JObj m) = Element name (tree_attrs xr m) (tree_text xr m @ child_nodes xr m m)"
  unfolding child_nodes_def entry_nodes_def by simp

text \<open>Induction over a value and the values its entries hold.\<close>

lemma child_induct:
  assumes "\<And>m. (\<And>k v x. (k, v) \<in> set m \<Longrightarrow> x = v \<or> (\<exists>arr. v = JArr arr \<and> x \<in> set arr) \<Longrightarrow> P x) \<Longrightarrow> P (JObj m)"
    and "\<And>s. P (JStr s)" "P JNull" "\<And>n. P (JNum n)" "\<And>b. P (JBool b)" "\<And>xs. P (JArr xs)"
  shows "P v"
proof (induction v rule: measure_induct_rule [where f = size])
  case (less v)
  show ?case
  proof (cases v)
    case (JObj m)
    have "P x" if "(k, w) \<in> set m" "x = w \<or> (\<exists>arr. w = JArr arr \<and> x \<in> set arr)" for k w x
      using that less size_json_mem [of k w m] size_json_arr_mem [of k _ m x] by (auto simp: JObj)
    then show ?thesis unfolding JObj by (rule assms(1))
  qed (use assms in auto)
qed

lemma node_of_events:
  "faithful_reader xr \<Longrightarrow> xml_shaped v \<Longrightarrow> node_ok (node_of xr name v) \<and> node_events (node_of xr name v) = read_events xr (write_element name v)"
proof (induction v arbitrary: name rule: child_induct)
  case (1 m)
  have entry: "list_all node_ok (entry_nodes xr k v) \<and> nodes_events (entry_nodes xr k v) =
      read_events xr (case v of JArr arr \<Rightarrow> concat (map (\<lambda>x. write_element k x) arr) | _ \<Rightarrow> write_element k v)"
    if kv: "(k, v) \<in> set m" "written_child m k" for k v
  proof (cases "\<exists>arr. v = JArr arr")
    case True
    then obtain arr where arr: "v = JArr arr" by blast
    have "node_ok (node_of xr k x) \<and> node_events (node_of xr k x) = read_events xr (write_element k x)" if "x \<in> set arr" for x
      using that kv 1(1) [of k v x] 1(2) xml_shaped_child [OF 1(3) kv] by (auto simp: arr child_shaped_def list_all_iff)
    then show ?thesis
      by (auto simp: arr entry_nodes_def nodes_events_def list_all_iff read_events_concat comp_def intro!: arg_cong [where f = concat])
  next
    case False
    then have "xml_shaped v" using xml_shaped_child [OF 1(3) kv] by (auto simp: child_shaped_def split: json.splits)
    with 1(1) [of k v v] 1(2) kv False show ?thesis
      by (auto simp: entry_nodes_def nodes_events_def split: json.splits)
  qed
  have children: "list_all node_ok (child_nodes xr m n) \<and> nodes_events (child_nodes xr m n) =
      read_events xr (concat (map (\<lambda>(k, v).
         if written_child m k then
           (case v of JArr arr \<Rightarrow> concat (map (\<lambda>x. write_element k x) arr) | _ \<Rightarrow> write_element k v)
         else []) n))" if "set n \<subseteq> set m" for n
    using that
  proof (induction n)
    case (Cons p n)
    obtain k v where p: "p = (k, v)" by force
    show ?case
      using Cons entry [of k v] by (auto simp: p child_nodes_def nodes_events_def)
  qed (simp add: child_nodes_def nodes_events_def)
  have tx: "list_all node_ok (tree_text xr m)" "nodes_events (tree_text xr m) = read_events xr (written_text m)"
    using leaves_ok [OF 1(2)] by (auto simp: tree_text_def written_text_def nodes_events_def split: option.splits json.splits)
  show ?case
    using children [of m] tx
    by (simp add: node_of_JObj tree_attrs_def nodes_events_def del: node_of.simps(1))
qed (auto simp: leaves_ok)

section \<open>Reading it back\<close>

lemma fold_add_children:
  assumes "map_of (ec_children c) k = None" "2 \<le> length arr" "list_all xml_shaped arr"
  shows "fold (add_child k) arr c = c\<lparr>ec_children := oinsert k (JArr arr) (ec_children c)\<rparr>"
proof -
  obtain x y rest where arr: "arr = x # y # rest"
    using assms(2) by (cases arr; cases "tl arr") auto
  have x: "as_array x = None" using assms(3) by (cases x) (auto simp: arr)
  have more: "fold (add_child k) zs (c\<lparr>ec_children := oinsert k (JArr ws) (ec_children c)\<rparr>)
      = c\<lparr>ec_children := oinsert k (JArr (ws @ zs)) (ec_children c)\<rparr>" for zs ws
  proof (induction zs arbitrary: ws)
    case (Cons z zs)
    show ?case using Cons.IH [of "ws @ [z]"] by (simp add: add_child_def)
  qed simp
  have "add_child k y (add_child k x c) = c\<lparr>ec_children := oinsert k (JArr [x, y]) (ec_children c)\<rparr>"
    using assms(1) x by (simp add: add_child_def)
  with more [of rest "[x, y]"] show ?thesis by (simp add: arr)
qed

lemma add_child_new: "map_of (ec_children c) k = None \<Longrightarrow> add_child k v c = c\<lparr>ec_children := oinsert k v (ec_children c)\<rparr>"
  by (simp add: add_child_def)

text \<open>The children that reading adds.\<close>

definition read_children :: "jobject \<Rightarrow> jobject \<Rightarrow> jobject \<Rightarrow> jobject" where
  "read_children m n r = fold (\<lambda>(k, v). if written_child m k then oinsert k v else id) n r"

lemma map_of_read_children:
  "owf n \<Longrightarrow> map_of (read_children m n r) k =
     (case map_of n k of Some v \<Rightarrow> (if written_child m k then Some v else map_of r k) | None \<Rightarrow> map_of r k)"
proof (induction n arbitrary: r)
  case (Cons p n)
  obtain j v where p: "p = (j, v)" by force
  have "map_of n j = None" using Cons.prems by (force simp: p owf_Cons map_of_eq_None_iff)
  with Cons show ?case by (auto simp: p owf_Cons read_children_def split: option.splits)
qed (simp add: read_children_def)

text \<open>The attributes that reading finds.\<close>

lemma written_attrs_plain:
  assumes "xml_shaped (JObj m)"
  shows "plain_attributes (written_attrs m)"
proof -
  have "distinct (map fst (written_attrs n))" if "owf n" for n
    using that
  proof (induction n)
    case (Cons p n)
    obtain j v where p: "p = (j, v)" by force
    have "(CHR ''@'' # k, w) \<in> set n" if "(k, u) \<in> set (written_attrs n)" "w = JStr u" for k u w
      using that by (auto simp: written_attrs_def strip_at_Some as_str_Some set_filter_map split: option.splits)
    with Cons show ?case
      by (force simp: p owf_Cons written_attrs_def strip_at_Some split: option.splits)
  qed (simp add: written_attrs_def)
  moreover have "name_token k \<and> attribute_text v" if "(k, v) \<in> set (written_attrs m)" for k v
  proof -
    have "(CHR ''@'' # k, JStr v) \<in> set m"
      using that by (auto simp: written_attrs_def strip_at_Some as_str_Some set_filter_map split: option.splits)
    from xml_shaped_entry [OF assms this] show ?thesis by simp
  qed
  ultimately show ?thesis
    using xml_shaped_JObj(1) [OF assms] by (auto simp: plain_attributes_def list_all_iff)
qed

lemma read_back_attributes:
  assumes "faithful_reader xr" "plain_attributes kvs"
  shows "with_attributes (xr_attrs xr kvs) = context_new\<lparr>ec_attributes := fold (\<lambda>(k, v). oinsert k (JStr v)) kvs []\<rparr>"
proof -
  have "map (\<lambda>a. (at_key a, at_normalized a)) as' = map (\<lambda>(k, v). (k, Some v)) kvs' \<Longrightarrow>
      fold (\<lambda>a. oinsert (at_key a) (JStr (attribute_value a))) as' m = fold (\<lambda>(k, v). oinsert k (JStr v)) kvs' m"
    for as' kvs' m
  proof (induction kvs' arbitrary: as' m)
    case (Cons p kvs')
    then show ?case by (cases as'; cases p) (auto simp: attribute_value_def)
  qed simp
  with assms show ?thesis by (simp add: faithful_reader_def with_attributes_def)
qed

lemma read_no_attributes: "faithful_reader xr \<Longrightarrow> with_attributes (xr_attrs xr []) = context_new"
  using read_back_attributes [of xr "[]"] by (simp add: plain_attributes_def context_new_def)

lemma read_attributes:
  assumes "faithful_reader xr" "xml_shaped (JObj m)"
  shows "map_of (ec_attributes (with_attributes (tree_attrs xr m))) s =
    (case map_of m (CHR ''@'' # s) of Some (JStr t) \<Rightarrow> Some (JStr t) | _ \<Rightarrow> None)"
proof -
  have "owf n \<Longrightarrow> map_of (fold (\<lambda>(k, v). oinsert k (JStr v)) (written_attrs n) r) s =
      (case map_of n (CHR ''@'' # s) of Some (JStr t) \<Rightarrow> Some (JStr t) | _ \<Rightarrow> map_of r s)" for n r
  proof (induction n arbitrary: r)
    case (Cons p n)
    obtain j v where p: "p = (j, v)" by force
    have "map_of n j = None" using Cons.prems by (force simp: p owf_Cons map_of_eq_None_iff)
    with Cons show ?case
      by (cases "strip_at j"; cases v)
        (auto simp: p owf_Cons written_attrs_def strip_at_Some split: option.splits json.splits)
  qed (simp add: written_attrs_def)
  from this [OF xml_shaped_JObj(1) [OF assms(2)], of "[]"] show ?thesis
    by (simp add: tree_attrs_def read_back_attributes [OF assms(1) written_attrs_plain [OF assms(2)]] context_new_def
        split: option.split json.split)
qed

lemma with_attributes_fields:
  "ec_children (with_attributes a) = []" "ec_text_content (with_attributes a) = []"
  "owf (ec_attributes (with_attributes a))"
proof -
  have "owf m \<Longrightarrow> owf (fold (\<lambda>a. oinsert (at_key a) (JStr (attribute_value a))) as' m)" for m as'
    by (induction as' arbitrary: m) (auto simp: owf_oinsert)
  then show "owf (ec_attributes (with_attributes a))" by (simp add: with_attributes_def context_new_def)
qed (simp_all add: with_attributes_def context_new_def)

lemma fold_push_fields:
  "faithful_reader xr \<Longrightarrow> fold node_child (tree_text xr m) c =
     push_text (case map_of m ''#text'' of Some (JStr t) \<Rightarrow> t | _ \<Rightarrow> []) c"
  by (auto simp: tree_text_def leaves_push split: option.splits json.splits) (simp_all add: push_text_def)

lemma owf_read_children: "owf r \<Longrightarrow> owf (read_children m n r)"
  unfolding read_children_def by (induction n arbitrary: r) (auto simp: owf_oinsert)

lemma context_lookup:
  assumes "owf (ec_attributes c)" "owf (ec_children c)"
  shows "map_of (context_object c) k =
    (case map_of (ec_children c) k of
       Some v \<Rightarrow> Some v
     | None \<Rightarrow>
         if k = ''#text'' \<and> trim (ec_text_content c) \<noteq> [] then Some (JStr (ec_text_content c))
         else (case strip_at k of Some s \<Rightarrow> map_of (ec_attributes c) s | None \<Rightarrow> None))"
  using assms by (auto simp: context_object_def map_of_fold_oinsert map_of_prefixed split: option.splits)

lemma node_of_value:
  "faithful_reader xr \<Longrightarrow> xml_shaped v \<Longrightarrow> node_child (node_of xr name v) c = add_child name v c"
proof (induction v arbitrary: name c rule: child_induct)
  case (1 m)
  note m = xml_shaped_JObj [OF 1(3)]
  have attr: "xml_name s \<and> (\<exists>t. v = JStr t)" if "map_of m (CHR ''@'' # s) = Some v" for s v
    using xml_shaped_entry [OF 1(3) map_of_SomeD [OF that]] by auto
  have tx: "\<exists>t. v = JStr t \<and> trim t \<noteq> []" if "map_of m ''#text'' = Some v" for v
    using xml_shaped_entry [OF 1(3) map_of_SomeD [OF that]] by auto
  have entry: "fold node_child (entry_nodes xr k v) d = d\<lparr>ec_children := oinsert k v (ec_children d)\<rparr>"
    if kv: "(k, v) \<in> set m" "written_child m k" "map_of (ec_children d) k = None" for k v d
  proof (cases "\<exists>arr. v = JArr arr")
    case True
    then obtain arr where arr: "v = JArr arr" by blast
    have "node_child (node_of xr k x) e = add_child k x e" if "x \<in> set arr" for x e
      using that kv 1(1) [of k v x] 1(2) xml_shaped_child [OF 1(3) kv(1,2)] by (auto simp: arr child_shaped_def list_all_iff)
    then have "fold node_child (map (node_of xr k) arr) d = fold (add_child k) arr d"
      by (auto simp: fold_map comp_def intro: fold_cong)
    then show ?thesis
      using fold_add_children kv(3) xml_shaped_child [OF 1(3) kv(1,2)] by (simp add: arr entry_nodes_def child_shaped_def)
  next
    case False
    then have "xml_shaped v" using xml_shaped_child [OF 1(3) kv(1,2)] by (auto simp: child_shaped_def split: json.splits)
    then have "node_child (node_of xr k v) d = add_child k v d"
      using 1(1) 1(2) kv(1) by blast
    moreover have "entry_nodes xr k v = [node_of xr k v]"
      using False by (cases v) (simp_all add: entry_nodes_def del: node_of.simps)
    ultimately show ?thesis using kv(3) by (simp add: add_child_new)
  qed
  have children: "fold node_child (child_nodes xr m n) d = d\<lparr>ec_children := read_children m n (ec_children d)\<rparr>"
    if "owf n" "set n \<subseteq> set m" "\<forall>k \<in> fst ` set n. map_of (ec_children d) k = None" for n d
    using that
  proof (induction n arbitrary: d)
    case (Cons p n)
    obtain k v where p: "p = (k, v)" by force
    let ?d = "if written_child m k then d\<lparr>ec_children := oinsert k v (ec_children d)\<rparr> else d"
    have "fold node_child (if written_child m k then entry_nodes xr k v else []) d = ?d"
      using Cons.prems entry [of k v d] by (auto simp: p)
    moreover have "\<forall>j \<in> fst ` set n. map_of (ec_children ?d) j = None"
      using Cons.prems by (fastforce simp: p owf_Cons)
    ultimately show ?case
      using Cons.IH [of ?d] Cons.prems by (auto simp: p owf_Cons child_nodes_def read_children_def)
  qed (simp add: child_nodes_def read_children_def)
  define t where "t = (case map_of m ''#text'' of Some (JStr t) \<Rightarrow> t | _ \<Rightarrow> [])"
  define e where "e = with_attributes (tree_attrs xr m)"
  let ?c = "fold node_child (tree_text xr m @ child_nodes xr m m) e"
  have c: "?c = (push_text t e)\<lparr>ec_children := read_children m m []\<rparr>"
    using children [of m "push_text t e"] m(1) with_attributes_fields
    by (simp add: fold_push_fields [OF 1(2)] t_def [symmetric] push_text_def e_def)
  have fields: "ec_attributes ?c = ec_attributes e" "ec_children ?c = read_children m m []" "ec_text_content ?c = t"
    unfolding c by (simp_all add: push_text_def e_def with_attributes_fields)
  have attrs: "map_of (ec_attributes e) s = map_of m (CHR ''@'' # s)" for s
    using attr [of s] by (auto simp: e_def read_attributes [OF 1(2,3)] split: option.splits)
  have kids: "map_of (read_children m m []) k = (if written_child m k then map_of m k else None)" for k
    by (simp add: map_of_read_children [OF m(1)] split: option.split)
  have owf: "owf (read_children m m [])" "owf (ec_attributes e)"
    by (simp_all add: owf_read_children e_def with_attributes_fields)
  have tmap: "map_of m ''#text'' = (if trim t \<noteq> [] then Some (JStr t) else None)"
  proof (cases "map_of m ''#text''")
    case None
    then show ?thesis by (simp add: t_def trim_def)
  next
    case (Some v)
    with tx [OF Some] show ?thesis by (auto simp: t_def)
  qed
  have "context_object ?c = m"
  proof (rule omap_ext)
    show "map_of (context_object ?c) = map_of m"
    proof
      fix k
      show "map_of (context_object ?c) k = map_of m k"
        unfolding context_lookup [of ?c, unfolded fields, OF owf(2,1)] kids attrs
        using tmap m(3) by (auto simp: written_child_def strip_at_Some split: option.splits if_splits)
    qed
  qed (use m(1) in \<open>simp_all add: owf_context_object\<close>)
  moreover have "read_children m m [] \<noteq> [] \<or> prefixed (ec_attributes e) \<noteq> []"
  proof -
    obtain k v where kv: "map_of m k = Some v" "k \<noteq> ''#text''"
      using m(1,2) by (force simp: okeys_def owf_map_of_iff)
    show ?thesis
    proof (cases "written_child m k")
      case True
      then show ?thesis using kids [of k] kv by auto
    next
      case False
      then obtain j w where "map_of m (CHR ''@'' # j) = Some w"
        using kv by (auto simp: written_child_def strip_at_Some)
      then have "map_of (prefixed (ec_attributes e)) (CHR ''@'' # j) = Some w"
        by (simp add: map_of_prefixed owf attrs)
      then show ?thesis by auto
    qed
  qed
  moreover have "m \<noteq> []" using m(2) by (auto simp: okeys_def)
  ultimately have "into_value ?c = JObj m"
    unfolding into_value_object fields by auto
  then show ?case
    by (simp add: node_of_JObj e_def del: node_of.simps(1) fold_append)
next
  case (2 s)
  then have "into_value (push_text s context_new) = JStr s"
    by (simp add: into_value_def context_new_def push_text_def)
  with 2 show ?case by (simp add: leaves_push read_no_attributes)
next
  case 3
  have "into_value (with_attributes []) = JNull"
    by (simp add: into_value_def with_attributes_def context_new_def trim_def Let_def)
  then show ?case by simp
qed auto

lemma element_value_back:
  assumes "faithful_reader xr" "xml_shaped (JObj m)"
  shows "element_value (tree_attrs xr m) (tree_text xr m @ child_nodes xr m m) = JObj m"
proof -
  let ?v = "element_value (tree_attrs xr m) (tree_text xr m @ child_nodes xr m m)"
  have "add_child [] ?v context_new = add_child [] (JObj m) context_new"
    using node_of_value [OF assms, of "[]" context_new]
    by (simp add: node_of_JObj element_value_def del: node_of.simps(1) fold_append)
  then have "map_of (ec_children (add_child [] ?v context_new)) [] = map_of (ec_children (add_child [] (JObj m) context_new)) []"
    by simp
  then show ?thesis by (simp add: add_child_def context_new_def)
qed

lemma written_record_parsed:
  assumes "faithful_reader xr" "xml_shaped (JObj m)" "all_accepted cfg"
  shows "parse_file cfg (doc_open rt a @ map Event (read_events xr
      (write_element (target_element (px_data_type cfg)) (JObj m))) @ doc_close rt) =
    ([record_message cfg (record_id m) m], Ok 1)"
proof -
  let ?n = "node_of xr (target_element (px_data_type cfg)) (JObj m)"
  have n: "node_ok ?n" "node_events ?n = read_events xr (write_element (target_element (px_data_type cfg)) (JObj m))"
    using node_of_events [OF assms(1,2)] by blast+
  have "final_obj m = m"
    using xml_shaped_JObj(3) [OF assms(2)] by (auto simp: final_obj_def oremove_absent)
  then have rec: "record_of cfg ?n = Some (record_message cfg (record_id m) m)"
    by (simp add: node_of_JObj element_value_back [OF assms(1,2)] del: node_of.simps(1))
  have "node_events ?n = nodes_events [?n]"
    by (simp add: nodes_events_def del: node_of.simps node_events.simps)
  with document_parsed [of "[?n]" cfg rt a] n assms(3) rec show ?thesis
    by (simp add: document_def del: node_of.simps write_element.simps node_ok.simps node_events.simps record_of.simps)
qed

text \<open>
  C24: the XML written back for a flagged record loses nothing: for every record the parser sent,
  from any file, that is restorable (proper names, attributes without tabs and line breaks, no
  element with both an \<open>id\<close> attribute and an \<open>id\<close> child), a faithful reader that is given the
  written XML inside a document makes the parser send that very message again, and nothing else.
\<close>

theorem reconstruct_round_trip:
  assumes "list_all read_ok rs" "msg \<in> set (fst (parse_file cfg rs))" "restorable (dm_data msg)"
    and "faithful_reader xr" "reads_written xml xr cfg (dm_data msg)" "all_accepted cfg"
  shows "parse_file cfg (doc_open rt a @ xml (reconstruct_xml cfg (dm_data msg)) @ doc_close rt) = ([msg], Ok 1)"
proof -
  have "state_ok cfg parser_init" by (simp add: state_ok_def parser_init_def)
  with assms(1,2) have "message_ok cfg msg"
    using parse_events_ok [of cfg parser_init rs] by (simp add: parse_file_def case_prod_beta list_all_iff)
  then obtain m where m: "dm_data msg = JObj m" "parsed_value (JObj m)" "msg = record_message cfg (record_id m) m"
    by (auto simp: message_ok_def record_message_def intro!: data_message.equality)
  then have "xml_shaped (JObj m)" using assms(3) by (simp add: xml_shaped_def)
  from written_record_parsed [OF assms(4) this assms(6), of rt a] show ?thesis
    using assms(5) m(1,3) by (simp add: reads_written_def)
qed

text \<open>
  A reader for the witness: attributes as they are, a text as its runs of plain characters and its
  ampersands; and a label with both a name that needs escaping and nested elements.
\<close>

definition sample_reader :: xml_reader where
  "sample_reader =
     \<lparr>xr_attrs = map (\<lambda>(k, v). Some \<lparr>at_key = k, at_normalized = Some v, at_raw = v\<rparr>),
      xr_text = map (\<lambda>c. if c = CHR ''&'' then EvGeneralRef (EntityRef ''amp'') else EvText [c])\<rparr>"

lemma sample_reader_faithful: "faithful_reader sample_reader"
proof -
  have "map (\<lambda>a. (at_key a, at_normalized a)) (filter_map id (xr_attrs sample_reader kvs)) = map (\<lambda>(k, v). (k, Some v)) kvs" for kvs
    by (induction kvs) (auto simp: sample_reader_def)
  moreover have "list_all content_event (xr_text sample_reader t)" "concat (map event_text (xr_text sample_reader t)) = t" for t
    by (induction t) (auto simp: sample_reader_def entity_text_def)
  ultimately show ?thesis by (simp add: faithful_reader_def)
qed

definition nested_label :: xnode where
  "nested_label =
     Element ''label'' []
       [Element ''id'' [] [Leaf (EvText ''7'')],
        Element ''name'' [] [Leaf (EvText ''A ''), Leaf (EvGeneralRef (EntityRef ''amp'')), Leaf (EvText '' B'')],
        Element ''sublabels'' [] [Element ''label'' (id_attribute ''9'') [Leaf (EvText ''Sub'')]],
        SelfClosed ''profile'' []]"

definition nested_label_object :: jobject where
  "nested_label_object =
     [(''id'', JStr ''7''), (''name'', JStr ''A & B''), (''profile'', JNull),
      (''sublabels'', JObj [(''label'', JObj [(''#text'', JStr ''Sub''), (''@id'', JStr ''9'')])])]"

definition nested_label_message :: data_message where
  "nested_label_message = record_message capture_config ''7'' nested_label_object"

definition nested_label_file :: "read_result list" where
  "nested_label_file = doc_open ''labels'' [] @ map Event (node_events nested_label) @ doc_close ''labels''"

text \<open>What the reader makes of the XML of this record.\<close>

definition nested_label_xml :: "string \<Rightarrow> read_result list" where
  "nested_label_xml s =
     (if s = ''<label><id>7</id><name>A & B</name><profile/><sublabels><label>Sub</label></sublabels></label>''
      then map Event (read_events sample_reader (write_element ''label'' (JObj nested_label_object))) else [])"

lemma nested_label_sent: "nested_label_message \<in> set (fst (parse_file capture_config nested_label_file))"
proof -
  have "nested_label_file = document ''labels'' [] [nested_label]"
    by (simp add: nested_label_file_def document_def nodes_events_def)
  moreover have "list_all node_ok [nested_label]" "all_accepted capture_config"
    by (simp_all add: nested_label_def all_accepted_def capture_config_def sample_config_def)
  moreover have "record_of capture_config nested_label = Some nested_label_message" by code_simp
  ultimately show ?thesis
    using document_parsed [of "[nested_label]" capture_config "''labels''" "[]"] by simp
qed

theorem reconstruct_round_trip_witness:
  "parse_file capture_config
     (doc_open ''labels'' [] @ nested_label_xml (reconstruct_xml capture_config (JObj nested_label_object)) @ doc_close ''labels'')
   = ([nested_label_message], Ok 1)"
proof -
  have reads_ok: "list_all read_ok nested_label_file" by code_simp
  have data: "dm_data nested_label_message = JObj nested_label_object" by (simp add: nested_label_message_def record_message_def)
  have restorable: "restorable (JObj nested_label_object)" by code_simp
  have "reconstruct_xml capture_config (JObj nested_label_object) =
      ''<label><id>7</id><name>A & B</name><profile/><sublabels><label>Sub</label></sublabels></label>''" by code_simp
  then have reads: "reads_written nested_label_xml sample_reader capture_config (JObj nested_label_object)"
    by (simp add: reads_written_def nested_label_xml_def capture_config_def sample_config_def)
  have "all_accepted capture_config" by (simp add: all_accepted_def capture_config_def sample_config_def)
  with reconstruct_round_trip [OF reads_ok nested_label_sent _ sample_reader_faithful, of nested_label_xml "''labels''" "[]"]
  show ?thesis using restorable reads by (simp add: data)
qed

end
