(* ===== verification/State_Marker.thy ===== *)
theory State_Marker
  imports Data_Types
begin

text \<open>
  \<open>src/state_marker.rs\<close>: the persisted progress of an extraction, as explicit state passing.  Time
  is a number of nanoseconds, one clock reading per operation; counters are naturals (the sums
  stay far below \<open>2 ^ 64\<close>); a \<open>HashMap\<close> is an ordered map.  Reading and writing the file is in
  \<open>Marker_Store\<close>.
\<close>

section \<open>The records\<close>

datatype phase_status = Pending | InProgress | Completed | Failed

record file_download_status =
  fd_status :: phase_status
  fd_bytes_downloaded :: nat
  fd_started_at :: "time option"
  fd_completed_at :: "time option"
  fd_checksum :: "string option"

definition fd_default :: file_download_status where
  "fd_default = \<lparr>fd_status = Pending, fd_bytes_downloaded = 0, fd_started_at = None,
     fd_completed_at = None, fd_checksum = None\<rparr>"

record download_phase =
  dp_status :: phase_status
  dp_started_at :: "time option"
  dp_completed_at :: "time option"
  dp_files_downloaded :: nat
  dp_files_total :: nat
  dp_bytes_downloaded :: nat
  dp_downloads_by_file :: "(string, file_download_status) omap"
  dp_errors :: "string list"

definition dp_default :: download_phase where
  "dp_default = \<lparr>dp_status = Pending, dp_started_at = None, dp_completed_at = None,
     dp_files_downloaded = 0, dp_files_total = 0, dp_bytes_downloaded = 0,
     dp_downloads_by_file = [], dp_errors = []\<rparr>"

record file_processing_status =
  fp_status :: phase_status
  fp_records_extracted :: nat
  fp_messages_published :: nat
  fp_batches_sent :: nat
  fp_started_at :: "time option"
  fp_completed_at :: "time option"
  fp_source_checksum :: "string option"

definition fp_default :: file_processing_status where
  "fp_default = \<lparr>fp_status = Pending, fp_records_extracted = 0, fp_messages_published = 0,
     fp_batches_sent = 0, fp_started_at = None, fp_completed_at = None, fp_source_checksum = None\<rparr>"

record processing_phase =
  pp_status :: phase_status
  pp_started_at :: "time option"
  pp_completed_at :: "time option"
  pp_files_processed :: nat
  pp_files_total :: nat
  pp_records_extracted :: nat
  pp_current_file :: "string option"
  pp_progress_by_file :: "(string, file_processing_status) omap"
  pp_errors :: "string list"

definition pp_default :: processing_phase where
  "pp_default = \<lparr>pp_status = Pending, pp_started_at = None, pp_completed_at = None,
     pp_files_processed = 0, pp_files_total = 0, pp_records_extracted = 0, pp_current_file = None,
     pp_progress_by_file = [], pp_errors = []\<rparr>"

record publishing_phase =
  pub_status :: phase_status
  pub_messages_published :: nat
  pub_batches_sent :: nat
  pub_errors :: "string list"
  pub_last_amqp_heartbeat :: "time option"

definition pub_default :: publishing_phase where
  "pub_default = \<lparr>pub_status = Pending, pub_messages_published = 0, pub_batches_sent = 0,
     pub_errors = [], pub_last_amqp_heartbeat = None\<rparr>"

record extraction_summary =
  su_overall_status :: phase_status
  su_total_duration_seconds :: "int option"
  su_files_by_type :: "(string, phase_status) omap"

definition su_default :: extraction_summary where
  "su_default = \<lparr>su_overall_status = Pending, su_total_duration_seconds = None, su_files_by_type = []\<rparr>"

record state_marker =
  sm_metadata_version :: string
  sm_last_updated :: time
  sm_current_version :: string
  sm_download_phase :: download_phase
  sm_processing_phase :: processing_phase
  sm_publishing_phase :: publishing_phase
  sm_summary :: extraction_summary

definition sm_new :: "time \<Rightarrow> string \<Rightarrow> state_marker" where
  "sm_new now version =
     \<lparr>sm_metadata_version = ''1.0'', sm_last_updated = now, sm_current_version = version,
      sm_download_phase = dp_default, sm_processing_phase = pp_default,
      sm_publishing_phase = pub_default, sm_summary = su_default\<rparr>"

text \<open>Updates of one part.\<close>

definition on_download :: "(download_phase \<Rightarrow> download_phase) \<Rightarrow> state_marker \<Rightarrow> state_marker" where
  "on_download f m = m\<lparr>sm_download_phase := f (sm_download_phase m)\<rparr>"

definition on_processing :: "(processing_phase \<Rightarrow> processing_phase) \<Rightarrow> state_marker \<Rightarrow> state_marker" where
  "on_processing f m = m\<lparr>sm_processing_phase := f (sm_processing_phase m)\<rparr>"

definition on_publishing :: "(publishing_phase \<Rightarrow> publishing_phase) \<Rightarrow> state_marker \<Rightarrow> state_marker" where
  "on_publishing f m = m\<lparr>sm_publishing_phase := f (sm_publishing_phase m)\<rparr>"

definition on_summary :: "(extraction_summary \<Rightarrow> extraction_summary) \<Rightarrow> state_marker \<Rightarrow> state_marker" where
  "on_summary f m = m\<lparr>sm_summary := f (sm_summary m)\<rparr>"

text \<open>The two per-file maps.\<close>

abbreviation downloads :: "state_marker \<Rightarrow> (string, file_download_status) omap" where
  "downloads m \<equiv> dp_downloads_by_file (sm_download_phase m)"

abbreviation progress_of :: "state_marker \<Rightarrow> (string, file_processing_status) omap" where
  "progress_of m \<equiv> pp_progress_by_file (sm_processing_phase m)"

abbreviation overall :: "state_marker \<Rightarrow> phase_status" where
  "overall m \<equiv> su_overall_status (sm_summary m)"

definition fp_completed :: "file_processing_status \<Rightarrow> bool" where
  "fp_completed s \<longleftrightarrow> fp_status s = Completed"

definition fd_completed :: "file_download_status \<Rightarrow> bool" where
  "fd_completed s \<longleftrightarrow> fd_status s = Completed"

text \<open>Where the marker of a version is kept; a path is the list of its components.\<close>

definition file_path :: "string list \<Rightarrow> string \<Rightarrow> string list" where
  "file_path discogs_root version = discogs_root @ [''.extraction_status_'' @ version @ ''.json'']"

section \<open>Decisions\<close>

definition completed_file_count :: "state_marker \<Rightarrow> nat" where
  "completed_file_count m = ocount fp_completed (progress_of m)"

datatype processing_decision = Reprocess | ContinueRun | Skip

definition should_process :: "state_marker \<Rightarrow> processing_decision" where
  "should_process m =
     (let d = dp_status (sm_download_phase m); p = pp_status (sm_processing_phase m) in
      if d = Failed \<or> d = InProgress then
        (if completed_file_count m > 0 then ContinueRun else Reprocess)
      else if p = Failed then ContinueRun
      else if p = InProgress then ContinueRun
      else if overall m = Completed then Skip
      else ContinueRun)"

definition pending_files :: "state_marker \<Rightarrow> string list \<Rightarrow> string list" where
  "pending_files m all_files =
     filter (\<lambda>f. case map_of (progress_of m) f of Some s \<Rightarrow> fp_status s \<noteq> Completed | None \<Rightarrow> True) all_files"

section \<open>Download phase\<close>

definition start_download :: "time \<Rightarrow> nat \<Rightarrow> state_marker \<Rightarrow> state_marker" where
  "start_download now files_total =
     on_download (\<lambda>d. d\<lparr>dp_status := InProgress, dp_started_at := Some now, dp_files_total := files_total,
       dp_files_downloaded := 0, dp_bytes_downloaded := 0, dp_downloads_by_file := []\<rparr>)"

definition start_file_download :: "time \<Rightarrow> string \<Rightarrow> state_marker \<Rightarrow> state_marker" where
  "start_file_download now filename =
     on_download (\<lambda>d. d\<lparr>dp_downloads_by_file :=
       oinsert filename (fd_default\<lparr>fd_status := InProgress, fd_started_at := Some now\<rparr>) (dp_downloads_by_file d)\<rparr>)"

definition file_downloaded :: "time \<Rightarrow> string \<Rightarrow> nat \<Rightarrow> state_marker \<Rightarrow> state_marker" where
  "file_downloaded now filename bytes =
     on_download (\<lambda>d.
       let already_completed =
             (case map_of (dp_downloads_by_file d) filename of Some s \<Rightarrow> fd_status s = Completed | None \<Rightarrow> False);
           by_file =
             (case map_of (dp_downloads_by_file d) filename of
                Some s \<Rightarrow> oinsert filename
                  (s\<lparr>fd_status := Completed, fd_bytes_downloaded := bytes, fd_completed_at := Some now\<rparr>)
                  (dp_downloads_by_file d)
              | None \<Rightarrow> oinsert filename
                  \<lparr>fd_status = Completed, fd_bytes_downloaded = bytes, fd_started_at = Some now,
                   fd_completed_at = Some now, fd_checksum = None\<rparr> (dp_downloads_by_file d));
           files = (if already_completed then dp_files_downloaded d else dp_files_downloaded d + 1)
       in d\<lparr>dp_downloads_by_file := by_file, dp_files_downloaded := files,
            dp_bytes_downloaded := osum fd_bytes_downloaded by_file\<rparr>)"

definition complete_download :: "time \<Rightarrow> state_marker \<Rightarrow> state_marker" where
  "complete_download now = on_download (\<lambda>d. d\<lparr>dp_status := Completed, dp_completed_at := Some now\<rparr>)"

section \<open>Processing phase\<close>

definition sync_phase_totals :: "state_marker \<Rightarrow> state_marker" where
  "sync_phase_totals m =
     (let p = progress_of m in
      on_publishing (\<lambda>u. u\<lparr>pub_messages_published := osum fp_messages_published p, pub_batches_sent := osum fp_batches_sent p\<rparr>)
        (on_processing (\<lambda>q. q\<lparr>pp_records_extracted := osum fp_records_extracted p\<rparr>) m))"

definition set_file_type :: "string \<Rightarrow> phase_status \<Rightarrow> state_marker \<Rightarrow> state_marker" where
  "set_file_type filename s m =
     (case marker_data_type filename of
        Some t \<Rightarrow> on_summary (\<lambda>u. u\<lparr>su_files_by_type := oinsert t s (su_files_by_type u)\<rparr>) m
      | None \<Rightarrow> m)"

text \<open>The checksum of the bytes now on disk; whether a completed status was invalidated.\<close>

definition stale_status :: "string \<Rightarrow> string \<Rightarrow> state_marker \<Rightarrow> bool" where
  "stale_status filename checksum m =
     (case map_of (progress_of m) filename of
        Some s \<Rightarrow> fp_status s = Completed \<and> fp_source_checksum s \<noteq> None \<and> fp_source_checksum s \<noteq> Some checksum
      | None \<Rightarrow> False)"

definition reopen_version :: "state_marker \<Rightarrow> state_marker" where
  "reopen_version m =
     (let m1 = (if overall m = Completed then on_summary (\<lambda>u. u\<lparr>su_overall_status := InProgress\<rparr>) m else m)
      in if pp_status (sm_processing_phase m1) = Completed
         then on_processing (\<lambda>p. p\<lparr>pp_status := InProgress, pp_completed_at := None\<rparr>) m1
         else m1)"

definition file_bytes_verified :: "string \<Rightarrow> string \<Rightarrow> state_marker \<Rightarrow> state_marker \<times> bool" where
  "file_bytes_verified filename checksum m =
     (let m1 = on_download (\<lambda>d. d\<lparr>dp_downloads_by_file :=
                 omodify filename (\<lambda>s. s\<lparr>fd_checksum := Some checksum\<rparr>) (dp_downloads_by_file d)\<rparr>) m
      in if \<not> stale_status filename checksum m then (m1, False)
         else
           (let m2 = on_processing (\<lambda>p. p\<lparr>pp_progress_by_file := oremove filename (pp_progress_by_file p),
                       pp_files_processed := pp_files_processed p - 1\<rparr>) m1;
                m3 = set_file_type filename Pending m2;
                m4 = sync_phase_totals m3
            in (reopen_version m4, True)))"

definition start_processing :: "time \<Rightarrow> nat \<Rightarrow> state_marker \<Rightarrow> state_marker" where
  "start_processing now files_total m =
     on_summary (\<lambda>u. u\<lparr>su_overall_status := InProgress\<rparr>)
       (on_processing (\<lambda>p. p\<lparr>pp_status := InProgress, pp_started_at := Some now, pp_files_total := files_total,
          pp_files_processed := 0, pp_records_extracted := 0\<rparr>) m)"

definition start_file_processing :: "time \<Rightarrow> string \<Rightarrow> state_marker \<Rightarrow> state_marker" where
  "start_file_processing now filename m =
     (let source = Option.bind (map_of (downloads m) filename) fd_checksum;
          status = fp_default\<lparr>fp_status := InProgress, fp_started_at := Some now, fp_source_checksum := source\<rparr>
      in set_file_type filename InProgress
           (on_processing (\<lambda>p. p\<lparr>pp_current_file := Some filename,
              pp_progress_by_file := oinsert filename status (pp_progress_by_file p)\<rparr>) m))"

definition update_file_progress :: "time \<Rightarrow> string \<Rightarrow> nat \<Rightarrow> nat \<Rightarrow> nat \<Rightarrow> state_marker \<Rightarrow> state_marker" where
  "update_file_progress now filename records messages batches m =
     (let m1 = on_processing (\<lambda>p. p\<lparr>pp_progress_by_file :=
            omodify filename (\<lambda>s. s\<lparr>fp_records_extracted := records, fp_messages_published := messages,
              fp_batches_sent := batches\<rparr>) (pp_progress_by_file p)\<rparr>) m;
          m2 = sync_phase_totals m1
      in if pub_messages_published (sm_publishing_phase m2) > 0
         then on_publishing (\<lambda>u. u\<lparr>pub_status := InProgress, pub_last_amqp_heartbeat := Some now\<rparr>) m2
         else m2)"

definition complete_file_processing :: "time \<Rightarrow> string \<Rightarrow> nat \<Rightarrow> state_marker \<Rightarrow> state_marker" where
  "complete_file_processing now filename records m =
     (let m1 = on_processing (\<lambda>p. p\<lparr>pp_progress_by_file :=
            omodify filename (\<lambda>s.
              let s1 = s\<lparr>fp_status := Completed, fp_completed_at := Some now, fp_records_extracted := records\<rparr>
              in if fp_messages_published s1 = 0 then s1\<lparr>fp_messages_published := records\<rparr> else s1)
              (pp_progress_by_file p),
            pp_files_processed := pp_files_processed p + 1\<rparr>) m
      in set_file_type filename Completed (sync_phase_totals m1))"

definition complete_processing :: "time \<Rightarrow> state_marker \<Rightarrow> state_marker" where
  "complete_processing now =
     on_processing (\<lambda>p. p\<lparr>pp_status := Completed, pp_completed_at := Some now, pp_current_file := None\<rparr>)"

text \<open>Whole seconds between two instants, rounded towards zero.\<close>

definition num_seconds :: "time \<Rightarrow> time \<Rightarrow> int" where
  "num_seconds start stop = (let d = int stop - int start in sgn d * (\<bar>d\<bar> div 1000000000))"

definition complete_extraction :: "state_marker \<Rightarrow> state_marker" where
  "complete_extraction m =
     (let m1 = on_summary (\<lambda>u. u\<lparr>su_overall_status := Completed\<rparr>) (on_publishing (\<lambda>u. u\<lparr>pub_status := Completed\<rparr>) m)
      in case (dp_started_at (sm_download_phase m1), pp_completed_at (sm_processing_phase m1)) of
           (Some start, Some stop) \<Rightarrow> on_summary (\<lambda>u. u\<lparr>su_total_duration_seconds := Some (num_seconds start stop)\<rparr>) m1
         | _ \<Rightarrow> m1)"

end
