(* ===== verification/Marker_Lifecycle.thy ===== *)
theory Marker_Lifecycle
  imports State_Marker
begin

text \<open>
  The life of a state marker: the operations of \<open>src/state_marker.rs\<close> in the orders in which
  the downloader (\<open>src/discogs/downloader.rs\<close>) and the pipeline (\<open>src/discogs/mod.rs\<close>) call
  them, with crashes and restarts at any point.
\<close>

section \<open>Lookups after each operation\<close>

lemmas marker_updates =
  on_download_def on_processing_def on_publishing_def on_summary_def

lemma set_file_type_parts [simp]:
  "sm_download_phase (set_file_type f s m) = sm_download_phase m"
  "sm_processing_phase (set_file_type f s m) = sm_processing_phase m"
  "sm_publishing_phase (set_file_type f s m) = sm_publishing_phase m"
  "overall (set_file_type f s m) = overall m"
  by (auto simp: set_file_type_def marker_updates split: option.split)

lemma sync_phase_totals_parts [simp]:
  "sm_download_phase (sync_phase_totals m) = sm_download_phase m"
  "sm_summary (sync_phase_totals m) = sm_summary m"
  "progress_of (sync_phase_totals m) = progress_of m"
  "pp_status (sm_processing_phase (sync_phase_totals m)) = pp_status (sm_processing_phase m)"
  "pp_files_processed (sm_processing_phase (sync_phase_totals m)) = pp_files_processed (sm_processing_phase m)"
  by (auto simp: sync_phase_totals_def marker_updates Let_def)

lemma reopen_version_parts [simp]:
  "sm_download_phase (reopen_version m) = sm_download_phase m"
  "progress_of (reopen_version m) = progress_of m"
  "pp_files_processed (sm_processing_phase (reopen_version m)) = pp_files_processed (sm_processing_phase m)"
  "pp_status (sm_processing_phase (reopen_version m)) \<noteq> Completed"
  "overall (reopen_version m) \<noteq> Completed"
  "pp_status (sm_processing_phase (reopen_version m)) = Pending \<longleftrightarrow> pp_status (sm_processing_phase m) = Pending"
  by (auto simp: reopen_version_def marker_updates Let_def)

section \<open>Steps\<close>

datatype mode = Idle | Downloading | Processing

text \<open>
  The marker, the files being processed, and, for the record, the checksum of the bytes the last
  processing of a file started from, as far as it was known then.  The program keeps no such
  record: \<open>lc_bytes\<close> is what the marker is compared with.  In a run on the downloader it is known for
  every file once the download has succeeded (\<open>downloads_recorded\<close> in \<open>Download_Results\<close>).
\<close>

record lifecycle =
  lc_mode :: mode
  lc_active :: "string set"
  lc_marker :: state_marker
  lc_bytes :: "string \<Rightarrow> string option"

text \<open>A file of which a task may be started: not completed.\<close>

definition file_pending :: "state_marker \<Rightarrow> string \<Rightarrow> bool" where
  "file_pending m f = (case map_of (progress_of m) f of Some s \<Rightarrow> fp_status s \<noteq> Completed | None \<Rightarrow> True)"

lemma pending_files_filter: "pending_files m fs = filter (file_pending m) fs"
  by (simp add: pending_files_def file_pending_def [abs_def])

text \<open>The start of the processing phase in \<open>process_discogs_data\<close>.\<close>

definition begin_processing :: "time \<Rightarrow> nat \<Rightarrow> state_marker \<Rightarrow> state_marker" where
  "begin_processing now files_total m =
     (case pp_status (sm_processing_phase m) of
        Pending \<Rightarrow> start_processing now files_total m
      | InProgress \<Rightarrow> on_processing (\<lambda>p. p\<lparr>pp_files_total := files_total\<rparr>) m
      | _ \<Rightarrow> m)"

text \<open>The checksum of the bytes now on disk, when it is known.\<close>

definition checksum_on_disk :: "state_marker \<Rightarrow> string \<Rightarrow> string option" where
  "checksum_on_disk m f = Option.bind (map_of (downloads m) f) fd_checksum"

inductive life_step :: "string list \<Rightarrow> lifecycle \<Rightarrow> lifecycle \<Rightarrow> bool" for files where
  Restart: "life_step files \<lparr>lc_mode = md, lc_active = A, lc_marker = m, lc_bytes = B\<rparr> \<lparr>lc_mode = Idle, lc_active = {}, lc_marker = m, lc_bytes = B\<rparr>"
| Saved: "life_step files \<lparr>lc_mode = md, lc_active = A, lc_marker = m, lc_bytes = B\<rparr>
    \<lparr>lc_mode = md, lc_active = A, lc_marker = m\<lparr>sm_last_updated := now\<rparr>, lc_bytes = B\<rparr>"
| Resume: "should_process m = ContinueRun \<Longrightarrow>
    life_step files \<lparr>lc_mode = Idle, lc_active = {}, lc_marker = m, lc_bytes = B\<rparr> \<lparr>lc_mode = Downloading, lc_active = {}, lc_marker = m, lc_bytes = B\<rparr>"
| Afresh: "should_process m = Reprocess \<or> forced \<Longrightarrow>
    life_step files \<lparr>lc_mode = Idle, lc_active = {}, lc_marker = m, lc_bytes = B\<rparr>
      \<lparr>lc_mode = Downloading, lc_active = {}, lc_marker = sm_new now v, lc_bytes = B\<rparr>"
| StartDownload: "life_step files \<lparr>lc_mode = Downloading, lc_active = {}, lc_marker = m, lc_bytes = B\<rparr>
    \<lparr>lc_mode = Downloading, lc_active = {}, lc_marker = start_download now n m, lc_bytes = B\<rparr>"
| StartFileDownload: "(case map_of (downloads m) f of Some s \<Rightarrow> fd_status s \<noteq> Completed | None \<Rightarrow> True) \<Longrightarrow>
    life_step files \<lparr>lc_mode = Downloading, lc_active = {}, lc_marker = m, lc_bytes = B\<rparr>
      \<lparr>lc_mode = Downloading, lc_active = {}, lc_marker = start_file_download now f m, lc_bytes = B\<rparr>"
| FileDownloaded: "life_step files \<lparr>lc_mode = Downloading, lc_active = {}, lc_marker = m, lc_bytes = B\<rparr>
    \<lparr>lc_mode = Downloading, lc_active = {}, lc_marker = file_downloaded now f bytes m, lc_bytes = B\<rparr>"
| FileVerified: "life_step files \<lparr>lc_mode = Downloading, lc_active = {}, lc_marker = m, lc_bytes = B\<rparr>
    \<lparr>lc_mode = Downloading, lc_active = {}, lc_marker = fst (file_bytes_verified f checksum m), lc_bytes = B\<rparr>"
| CompleteDownload: "life_step files \<lparr>lc_mode = Downloading, lc_active = {}, lc_marker = m, lc_bytes = B\<rparr>
    \<lparr>lc_mode = Downloading, lc_active = {}, lc_marker = complete_download now m, lc_bytes = B\<rparr>"
| BeginProcessing: "dp_status (sm_download_phase m) = Completed \<Longrightarrow>
    life_step files \<lparr>lc_mode = Downloading, lc_active = {}, lc_marker = m, lc_bytes = B\<rparr>
      \<lparr>lc_mode = Processing, lc_active = {}, lc_marker = begin_processing now (length files) m, lc_bytes = B\<rparr>"
| StartFile: "f \<in> set files \<Longrightarrow> f \<notin> A \<Longrightarrow> file_pending m f \<Longrightarrow>
    life_step files \<lparr>lc_mode = Processing, lc_active = A, lc_marker = m, lc_bytes = B\<rparr>
      \<lparr>lc_mode = Processing, lc_active = insert f A, lc_marker = start_file_processing now f m,
        lc_bytes = B(f := checksum_on_disk m f)\<rparr>"
| UpdateFile: "f \<in> A \<Longrightarrow>
    life_step files \<lparr>lc_mode = Processing, lc_active = A, lc_marker = m, lc_bytes = B\<rparr>
      \<lparr>lc_mode = Processing, lc_active = A, lc_marker = update_file_progress now f records messages batches m, lc_bytes = B\<rparr>"
| CompleteFile: "f \<in> A \<Longrightarrow>
    life_step files \<lparr>lc_mode = Processing, lc_active = A, lc_marker = m, lc_bytes = B\<rparr>
      \<lparr>lc_mode = Processing, lc_active = A - {f}, lc_marker = complete_file_processing now f records m, lc_bytes = B\<rparr>"
| CompleteProcessing: "pending_files m files = [] \<Longrightarrow>
    life_step files \<lparr>lc_mode = Processing, lc_active = {}, lc_marker = m, lc_bytes = B\<rparr>
      \<lparr>lc_mode = Processing, lc_active = {}, lc_marker = complete_processing now m, lc_bytes = B\<rparr>"
| CompleteExtraction: "pending_files m files = [] \<Longrightarrow> pp_status (sm_processing_phase m) = Completed \<Longrightarrow>
    life_step files \<lparr>lc_mode = Processing, lc_active = {}, lc_marker = m, lc_bytes = B\<rparr>
      \<lparr>lc_mode = Idle, lc_active = {}, lc_marker = complete_extraction m, lc_bytes = B\<rparr>"

inductive marker_reachable :: "string list \<Rightarrow> lifecycle \<Rightarrow> bool" for files where
  Fresh: "marker_reachable files \<lparr>lc_mode = Downloading, lc_active = {}, lc_marker = sm_new now v, lc_bytes = B\<rparr>"
| Step: "marker_reachable files s \<Longrightarrow> life_step files s s' \<Longrightarrow> marker_reachable files s'"

section \<open>The invariant\<close>

definition counts_ok :: "state_marker \<Rightarrow> bool" where
  "counts_ok m \<longleftrightarrow>
     owf (downloads m) \<and> owf (progress_of m)
     \<and> dp_files_downloaded (sm_download_phase m) = ocount fd_completed (downloads m)
     \<and> dp_bytes_downloaded (sm_download_phase m) = osum fd_bytes_downloaded (downloads m)
     \<and> list_all (\<lambda>s. fd_completed s \<or> fd_bytes_downloaded s = 0) (ovalues (downloads m))
     \<and> pp_files_processed (sm_processing_phase m) = completed_file_count m"

text \<open>The checksum a status was computed from, and the one now on disk.\<close>

definition linked :: "state_marker \<Rightarrow> string \<Rightarrow> bool" where
  "linked m f \<longleftrightarrow>
     (\<forall>s c d. map_of (progress_of m) f = Some s \<longrightarrow> fp_status s = Completed \<longrightarrow>
        fp_source_checksum s = Some c \<longrightarrow> checksum_on_disk m f = Some d \<longrightarrow> c = d)"

text \<open>Every status carries the checksum its processing started from.\<close>

definition sourced :: "(string \<Rightarrow> string option) \<Rightarrow> state_marker \<Rightarrow> bool" where
  "sourced B m \<longleftrightarrow> (\<forall>f s. map_of (progress_of m) f = Some s \<longrightarrow> fp_source_checksum s = B f)"

text \<open>The totals of the phases cover the sums over the files.\<close>

definition totals_ok :: "state_marker \<Rightarrow> bool" where
  "totals_ok m \<longleftrightarrow>
     osum fp_records_extracted (progress_of m) \<le> pp_records_extracted (sm_processing_phase m)
     \<and> osum fp_messages_published (progress_of m) \<le> pub_messages_published (sm_publishing_phase m)
     \<and> osum fp_batches_sent (progress_of m) \<le> pub_batches_sent (sm_publishing_phase m)"

definition bound_now :: "state_marker \<Rightarrow> string \<Rightarrow> bool" where
  "bound_now m f \<longleftrightarrow>
     (\<exists>s. map_of (progress_of m) f = Some s \<and> fp_status s = InProgress \<and> fp_source_checksum s = checksum_on_disk m f)"

definition phases_ok :: "string list \<Rightarrow> state_marker \<Rightarrow> bool" where
  "phases_ok files m \<longleftrightarrow>
     (pp_status (sm_processing_phase m) = Pending \<longrightarrow> progress_of m = [])
     \<and> (overall m = Completed \<longrightarrow>
          dp_status (sm_download_phase m) = Completed \<and> pp_status (sm_processing_phase m) = Completed
          \<and> pending_files m files = [])"

definition life_inv :: "string list \<Rightarrow> lifecycle \<Rightarrow> bool" where
  "life_inv files s \<longleftrightarrow>
     counts_ok (lc_marker s) \<and> sourced (lc_bytes s) (lc_marker s) \<and> totals_ok (lc_marker s) \<and> (\<forall>f. linked (lc_marker s) f) \<and> phases_ok files (lc_marker s)
     \<and> (\<forall>f \<in> lc_active s. bound_now (lc_marker s) f)
     \<and> (lc_mode s = Processing \<longrightarrow>
          dp_status (sm_download_phase (lc_marker s)) = Completed
          \<and> pp_status (sm_processing_phase (lc_marker s)) \<noteq> Pending)
     \<and> (lc_mode s \<noteq> Idle \<longrightarrow> overall (lc_marker s) \<noteq> Completed)"

section \<open>Preservation\<close>

lemma ocount_oinsert:
  "owf m \<Longrightarrow> ocount P (oinsert k v m) + (case map_of m k of Some w \<Rightarrow> if P w then 1 else 0 | None \<Rightarrow> 0)
     = ocount P m + (if P v then 1 else 0)"
  using osum_oinsert [of m "\<lambda>v. if P v then 1 else 0" k v]
  by (simp add: ocount_osum split: option.splits)

lemma ocount_oremove:
  "owf m \<Longrightarrow> ocount P (oremove k m) + (case map_of m k of Some w \<Rightarrow> if P w then 1 else 0 | None \<Rightarrow> 0) = ocount P m"
  using osum_oremove [of m "\<lambda>v. if P v then 1 else 0" k]
  by (simp add: ocount_osum split: option.splits)

lemma osum_replace:
  "owf m \<Longrightarrow> map_of m k = Some w \<Longrightarrow> f v = f w \<Longrightarrow> osum f (oinsert k v m) = osum f m"
  using osum_oinsert [of m f k v] by simp

lemma ocount_replace:
  "owf m \<Longrightarrow> map_of m k = Some w \<Longrightarrow> P v = P w \<Longrightarrow> ocount P (oinsert k v m) = ocount P m"
  using ocount_oinsert [of m P k v] by (auto split: if_splits)

lemma ovalues_oinsert:
  assumes "list_all P (ovalues m)" "P v"
  shows "list_all P (ovalues (oinsert k v m))"
proof -
  have "set (ovalues (oinsert k v m)) \<subseteq> insert v (set (ovalues m))"
    using ran_oinsert_subset [of k v m] by (auto simp: ovalues_def)
  with assms show ?thesis unfolding list_all_iff by blast
qed

lemma ovalues_map_of: "map_of m k = Some v \<Longrightarrow> v \<in> set (ovalues m)"
  by (force simp: ovalues_def dest: map_of_SomeD)

text \<open>An update of the downloads that keeps the processing side.\<close>

lemma counts_download:
  assumes "counts_ok m" "sm_processing_phase m' = sm_processing_phase m"
    and "owf (downloads m')" "dp_files_downloaded (sm_download_phase m') = ocount fd_completed (downloads m')"
    and "dp_bytes_downloaded (sm_download_phase m') = osum fd_bytes_downloaded (downloads m')"
    and "list_all (\<lambda>s. fd_completed s \<or> fd_bytes_downloaded s = 0) (ovalues (downloads m'))"
  shows "counts_ok m'"
  using assms by (simp add: counts_ok_def completed_file_count_def)

lemma counts_start_download: "counts_ok m \<Longrightarrow> counts_ok (start_download now n m)"
  by (rule counts_download [of m]) (auto simp: start_download_def marker_updates ocount_def ovalues_def)

lemma counts_complete_download: "counts_ok m \<Longrightarrow> counts_ok (complete_download now m)"
  by (auto simp: counts_ok_def complete_download_def marker_updates completed_file_count_def)

lemma counts_start_file_download:
  assumes "counts_ok m" "case map_of (downloads m) f of Some s \<Rightarrow> fd_status s \<noteq> Completed | None \<Rightarrow> True"
  shows "counts_ok (start_file_download now f m)"
proof (rule counts_download [OF assms(1)])
  let ?s = "fd_default\<lparr>fd_status := InProgress, fd_started_at := Some now\<rparr>"
  have d: "downloads (start_file_download now f m) = oinsert f ?s (downloads m)"
    by (simp add: start_file_download_def marker_updates)
  have wf: "owf (downloads m)" and zero: "\<And>s. s \<in> set (ovalues (downloads m)) \<Longrightarrow> fd_completed s \<or> fd_bytes_downloaded s = 0"
    using assms(1) by (auto simp: counts_ok_def list_all_iff)
  have old: "fd_bytes_downloaded s = 0 \<and> \<not> fd_completed s" if "map_of (downloads m) f = Some s" for s
    using assms(2) zero ovalues_map_of [OF that] that by (auto simp: fd_completed_def)
  have new: "fd_bytes_downloaded ?s = 0" "\<not> fd_completed ?s" by (simp_all add: fd_default_def fd_completed_def)
  show "owf (downloads (start_file_download now f m))" by (simp add: d wf owf_oinsert)
  have "ocount fd_completed (oinsert f ?s (downloads m)) = ocount fd_completed (downloads m)"
    using ocount_oinsert [OF wf, of fd_completed f ?s] old new by (auto split: option.splits)
  then show "dp_files_downloaded (sm_download_phase (start_file_download now f m)) = ocount fd_completed (downloads (start_file_download now f m))"
    using assms(1) by (simp add: d) (simp add: start_file_download_def marker_updates counts_ok_def)
  have "osum fd_bytes_downloaded (oinsert f ?s (downloads m)) = osum fd_bytes_downloaded (downloads m)"
    using osum_oinsert [OF wf, of fd_bytes_downloaded f ?s] old new by (auto split: option.splits)
  then show "dp_bytes_downloaded (sm_download_phase (start_file_download now f m)) = osum fd_bytes_downloaded (downloads (start_file_download now f m))"
    using assms(1) by (simp add: d) (simp add: start_file_download_def marker_updates counts_ok_def)
  show "list_all (\<lambda>s. fd_completed s \<or> fd_bytes_downloaded s = 0) (ovalues (downloads (start_file_download now f m)))"
    using assms(1) new by (auto simp: d counts_ok_def intro!: ovalues_oinsert)
qed (simp add: start_file_download_def marker_updates)

lemma counts_file_downloaded:
  assumes "counts_ok m"
  shows "counts_ok (file_downloaded now f n m)"
proof (rule counts_download [OF assms])
  let ?d = "downloads m"
  obtain s where s: "downloads (file_downloaded now f n m) = oinsert f s ?d" "fd_completed s"
    by (cases "map_of ?d f") (auto simp: file_downloaded_def marker_updates Let_def fd_completed_def)
  have wf: "owf ?d" using assms by (simp add: counts_ok_def)
  show "owf (downloads (file_downloaded now f n m))" by (simp add: s wf owf_oinsert)
  show "dp_files_downloaded (sm_download_phase (file_downloaded now f n m)) = ocount fd_completed (downloads (file_downloaded now f n m))"
    using ocount_oinsert [OF wf, of fd_completed f s] s(2) assms unfolding s(1)
    by (auto simp: file_downloaded_def marker_updates Let_def counts_ok_def fd_completed_def split: option.splits)
  show "dp_bytes_downloaded (sm_download_phase (file_downloaded now f n m)) = osum fd_bytes_downloaded (downloads (file_downloaded now f n m))"
    by (simp add: file_downloaded_def marker_updates Let_def)
  show "list_all (\<lambda>s. fd_completed s \<or> fd_bytes_downloaded s = 0) (ovalues (downloads (file_downloaded now f n m)))"
    using s assms by (auto simp: counts_ok_def intro!: ovalues_oinsert)
qed (simp add: file_downloaded_def marker_updates Let_def)

text \<open>The checksum check: the downloads change in checksums only.\<close>

lemma downloads_verified:
  "downloads (fst (file_bytes_verified f c m)) = omodify f (\<lambda>s. s\<lparr>fd_checksum := Some c\<rparr>) (downloads m)"
  "dp_files_downloaded (sm_download_phase (fst (file_bytes_verified f c m))) = dp_files_downloaded (sm_download_phase m)"
  "dp_bytes_downloaded (sm_download_phase (fst (file_bytes_verified f c m))) = dp_bytes_downloaded (sm_download_phase m)"
  "dp_status (sm_download_phase (fst (file_bytes_verified f c m))) = dp_status (sm_download_phase m)"
  by (simp_all add: file_bytes_verified_def Let_def) (simp_all add: marker_updates)

lemma progress_verified:
  "progress_of (fst (file_bytes_verified f c m)) =
     (if stale_status f c m then oremove f (progress_of m) else progress_of m)"
  "pp_files_processed (sm_processing_phase (fst (file_bytes_verified f c m))) =
     (if stale_status f c m then pp_files_processed (sm_processing_phase m) - 1
      else pp_files_processed (sm_processing_phase m))"
  by (simp_all add: file_bytes_verified_def Let_def) (simp_all add: marker_updates)

lemma stale_completed:
  "stale_status f c m \<Longrightarrow> \<exists>s. map_of (progress_of m) f = Some s \<and> fp_completed s"
  by (auto simp: stale_status_def fp_completed_def split: option.splits)

lemma counts_verified:
  assumes "counts_ok m"
  shows "counts_ok (fst (file_bytes_verified f c m))"
proof -
  let ?g = "\<lambda>s. s\<lparr>fd_checksum := Some c\<rparr>"
  have wf: "owf (downloads m)" "owf (progress_of m)" using assms by (auto simp: counts_ok_def)
  have same: "ocount fd_completed (omodify f ?g (downloads m)) = ocount fd_completed (downloads m)"
    "osum fd_bytes_downloaded (omodify f ?g (downloads m)) = osum fd_bytes_downloaded (downloads m)"
    using wf by (auto simp: omodify_def fd_completed_def split: option.split intro!: ocount_replace osum_replace)
  have zero: "list_all (\<lambda>s. fd_completed s \<or> fd_bytes_downloaded s = 0) (ovalues (omodify f ?g (downloads m)))"
  proof (cases "map_of (downloads m) f")
    case (Some s)
    have all: "list_all (\<lambda>s. fd_completed s \<or> fd_bytes_downloaded s = 0) (ovalues (downloads m))"
      using assms by (simp add: counts_ok_def)
    moreover have "fd_completed (?g s) \<or> fd_bytes_downloaded (?g s) = 0"
      using all ovalues_map_of [OF Some] by (auto simp: list_all_iff fd_completed_def)
    ultimately show ?thesis by (simp add: omodify_def Some ovalues_oinsert)
  qed (use assms in \<open>simp add: omodify_def counts_ok_def\<close>)
  have processed: "pp_files_processed (sm_processing_phase (fst (file_bytes_verified f c m))) =
      ocount fp_completed (progress_of (fst (file_bytes_verified f c m)))"
    using assms ocount_oremove [OF wf(2), of fp_completed f] stale_completed [of f c m]
    by (auto simp: progress_verified counts_ok_def completed_file_count_def)
  show ?thesis
    using assms wf same zero processed unfolding counts_ok_def completed_file_count_def downloads_verified
    by (auto simp: owf_omodify progress_verified owf_oremove)
qed

text \<open>An update of the processing side that keeps the downloads.\<close>

lemma counts_processing:
  assumes "counts_ok m" "sm_download_phase m' = sm_download_phase m"
    and "owf (progress_of m')" "pp_files_processed (sm_processing_phase m') = ocount fp_completed (progress_of m')"
  shows "counts_ok m'"
  using assms by (simp add: counts_ok_def completed_file_count_def)

lemma progress_start_file:
  "sm_download_phase (start_file_processing now f m) = sm_download_phase m"
  "progress_of (start_file_processing now f m) =
     oinsert f (fp_default\<lparr>fp_status := InProgress, fp_started_at := Some now, fp_source_checksum := checksum_on_disk m f\<rparr>)
       (progress_of m)"
  "pp_files_processed (sm_processing_phase (start_file_processing now f m)) = pp_files_processed (sm_processing_phase m)"
  "pp_status (sm_processing_phase (start_file_processing now f m)) = pp_status (sm_processing_phase m)"
  "overall (start_file_processing now f m) = overall m"
  by (simp_all add: start_file_processing_def Let_def checksum_on_disk_def marker_updates)

lemma progress_update:
  "sm_download_phase (update_file_progress now f r g b m) = sm_download_phase m"
  "progress_of (update_file_progress now f r g b m) =
     omodify f (\<lambda>s. s\<lparr>fp_records_extracted := r, fp_messages_published := g, fp_batches_sent := b\<rparr>) (progress_of m)"
  "pp_files_processed (sm_processing_phase (update_file_progress now f r g b m)) = pp_files_processed (sm_processing_phase m)"
  "pp_status (sm_processing_phase (update_file_progress now f r g b m)) = pp_status (sm_processing_phase m)"
  "overall (update_file_progress now f r g b m) = overall m"
  by (simp_all add: update_file_progress_def sync_phase_totals_def Let_def marker_updates)

text \<open>The completed status of a file.\<close>

definition completed_status :: "time \<Rightarrow> nat \<Rightarrow> file_processing_status \<Rightarrow> file_processing_status" where
  "completed_status now records s =
     (let s1 = s\<lparr>fp_status := Completed, fp_completed_at := Some now, fp_records_extracted := records\<rparr>
      in if fp_messages_published s1 = 0 then s1\<lparr>fp_messages_published := records\<rparr> else s1)"

lemma completed_status_parts [simp]:
  "fp_status (completed_status now r s) = Completed"
  "fp_source_checksum (completed_status now r s) = fp_source_checksum s"
  "fp_records_extracted (completed_status now r s) = r"
  by (simp_all add: completed_status_def Let_def)

lemma progress_complete:
  "sm_download_phase (complete_file_processing now f r m) = sm_download_phase m"
  "progress_of (complete_file_processing now f r m) = omodify f (completed_status now r) (progress_of m)"
  "pp_files_processed (sm_processing_phase (complete_file_processing now f r m)) = pp_files_processed (sm_processing_phase m) + 1"
  "pp_status (sm_processing_phase (complete_file_processing now f r m)) = pp_status (sm_processing_phase m)"
  "overall (complete_file_processing now f r m) = overall m"
  by (simp_all add: complete_file_processing_def completed_status_def [abs_def] Let_def) (simp_all add: marker_updates)

lemma counts_start_file:
  assumes "counts_ok m" "file_pending m f"
  shows "counts_ok (start_file_processing now f m)"
proof (rule counts_processing [OF assms(1)])
  have wf: "owf (progress_of m)" using assms(1) by (simp add: counts_ok_def)
  then show "owf (progress_of (start_file_processing now f m))" by (simp add: progress_start_file owf_oinsert)
  let ?s = "fp_default\<lparr>fp_status := InProgress, fp_started_at := Some now, fp_source_checksum := checksum_on_disk m f\<rparr>"
  have "\<not> fp_completed ?s" by (simp add: fp_completed_def)
  then show "pp_files_processed (sm_processing_phase (start_file_processing now f m)) =
      ocount fp_completed (progress_of (start_file_processing now f m))"
    using ocount_oinsert [OF wf, of fp_completed f ?s] assms
    by (auto simp: progress_start_file counts_ok_def completed_file_count_def file_pending_def fp_completed_def split: option.splits)
qed (simp add: progress_start_file)

lemma counts_update:
  assumes "counts_ok m"
  shows "counts_ok (update_file_progress now f r g b m)"
proof (rule counts_processing [OF assms])
  have wf: "owf (progress_of m)" using assms(1) by (simp add: counts_ok_def)
  then show "owf (progress_of (update_file_progress now f r g b m))" by (simp add: progress_update owf_omodify)
  show "pp_files_processed (sm_processing_phase (update_file_progress now f r g b m)) =
      ocount fp_completed (progress_of (update_file_progress now f r g b m))"
    using assms wf
    by (auto simp: progress_update counts_ok_def completed_file_count_def omodify_def fp_completed_def ocount_replace
        split: option.splits)
qed (simp add: progress_update)

lemma counts_complete_file:
  assumes "counts_ok m" "bound_now m f"
  shows "counts_ok (complete_file_processing now f r m)"
proof (rule counts_processing [OF assms(1)])
  have wf: "owf (progress_of m)" using assms(1) by (simp add: counts_ok_def)
  then show "owf (progress_of (complete_file_processing now f r m))" by (simp add: progress_complete owf_omodify)
  obtain s where s: "map_of (progress_of m) f = Some s" "fp_status s = InProgress"
    using assms(2) by (auto simp: bound_now_def)
  then show "pp_files_processed (sm_processing_phase (complete_file_processing now f r m)) =
      ocount fp_completed (progress_of (complete_file_processing now f r m))"
    using ocount_oinsert [OF wf, of fp_completed f "completed_status now r s"] assms(1)
    by (auto simp: progress_complete counts_ok_def completed_file_count_def omodify_def fp_completed_def)
qed (simp add: progress_complete)

section \<open>Checksums after each operation\<close>

lemma checksum_download_ops:
  "checksum_on_disk (start_download now n m) f = None"
  "checksum_on_disk (start_file_download now g m) f = (if f = g then None else checksum_on_disk m f)"
  "checksum_on_disk (file_downloaded now g b m) f = checksum_on_disk m f"
  "checksum_on_disk (complete_download now m) f = checksum_on_disk m f"
  "checksum_on_disk (fst (file_bytes_verified g c m)) f =
     (if f = g \<and> map_of (downloads m) g \<noteq> None then Some c else checksum_on_disk m f)"
proof -
  show "checksum_on_disk (fst (file_bytes_verified g c m)) f =
      (if f = g \<and> map_of (downloads m) g \<noteq> None then Some c else checksum_on_disk m f)"
    by (auto simp: checksum_on_disk_def downloads_verified map_of_omodify)
qed (auto simp: checksum_on_disk_def start_download_def start_file_download_def file_downloaded_def complete_download_def
    marker_updates Let_def fd_default_def split: option.split)

lemma progress_download_ops [simp]:
  "sm_processing_phase (start_download now n m) = sm_processing_phase m"
  "sm_processing_phase (start_file_download now g m) = sm_processing_phase m"
  "sm_processing_phase (file_downloaded now g b m) = sm_processing_phase m"
  "sm_processing_phase (complete_download now m) = sm_processing_phase m"
  "sm_summary (start_download now n m) = sm_summary m"
  "sm_summary (start_file_download now g m) = sm_summary m"
  "sm_summary (file_downloaded now g b m) = sm_summary m"
  "sm_summary (complete_download now m) = sm_summary m"
  by (simp_all add: start_download_def start_file_download_def file_downloaded_def complete_download_def marker_updates)

lemma linked_verified:
  assumes "linked m f"
  shows "linked (fst (file_bytes_verified g c m)) f"
proof (cases "f = g")
  case True
  have "c' = d" if "map_of (progress_of (fst (file_bytes_verified g c m))) f = Some s" "fp_status s = Completed"
    "fp_source_checksum s = Some c'" "checksum_on_disk (fst (file_bytes_verified g c m)) f = Some d" for s c' d
  proof -
    have fresh: "\<not> stale_status g c m" "map_of (progress_of m) f = Some s"
      using that(1) True by (auto simp: progress_verified split: if_splits)
    then have "c' = c" using that True by (auto simp: stale_status_def)
    with that fresh assms True show ?thesis
      by (auto simp: checksum_download_ops linked_def split: if_splits)
  qed
  then show ?thesis unfolding linked_def by blast
next
  case False
  with assms show ?thesis
    by (auto simp: linked_def progress_verified checksum_download_ops split: if_splits)
qed

lemma linked_download_ops:
  "linked (start_download now n m) f"
  "linked m f \<Longrightarrow> linked (start_file_download now g m) f"
  "linked m f \<Longrightarrow> linked (file_downloaded now g b m) f"
  "linked m f \<Longrightarrow> linked (complete_download now m) f"
  by (auto simp: linked_def checksum_download_ops)

lemma checksum_same: "sm_download_phase m' = sm_download_phase m \<Longrightarrow> checksum_on_disk m' f = checksum_on_disk m f"
  by (simp add: checksum_on_disk_def)

lemma linked_processing:
  assumes "linked m f" "sm_download_phase m' = sm_download_phase m"
    and "\<And>s. map_of (progress_of m') f = Some s \<Longrightarrow> fp_status s = Completed \<Longrightarrow>
      (\<exists>s'. map_of (progress_of m) f = Some s' \<and> fp_status s' = Completed \<and> fp_source_checksum s' = fp_source_checksum s)
      \<or> fp_source_checksum s = checksum_on_disk m f"
  shows "linked m' f"
  using assms unfolding linked_def checksum_same [OF assms(2)] by fastforce

lemma linked_start_file: "linked m f \<Longrightarrow> linked (start_file_processing now g m) f"
  by (rule linked_processing [of m]) (auto simp: progress_start_file split: if_splits)

lemma linked_update: "linked m f \<Longrightarrow> linked (update_file_progress now g r p b m) f"
  by (rule linked_processing [of m]) (auto simp: progress_update map_of_omodify split: if_splits)

lemma linked_complete_file: "linked m f \<Longrightarrow> bound_now m g \<Longrightarrow> linked (complete_file_processing now g r m) f"
  by (rule linked_processing [of m]) (auto simp: progress_complete map_of_omodify bound_now_def split: if_splits)

lemma bound_start_file:
  "bound_now (start_file_processing now g m) g"
  "bound_now m f \<Longrightarrow> bound_now (start_file_processing now g m) f"
  by (auto simp: bound_now_def progress_start_file checksum_same [OF progress_start_file(1)])

lemma bound_update: "bound_now m f \<Longrightarrow> bound_now (update_file_progress now g r p b m) f"
  by (auto simp: bound_now_def progress_update map_of_omodify checksum_same [OF progress_update(1)])

lemma bound_complete_file: "bound_now m f \<Longrightarrow> f \<noteq> g \<Longrightarrow> bound_now (complete_file_processing now g r m) f"
  by (auto simp: bound_now_def progress_complete map_of_omodify checksum_same [OF progress_complete(1)])

section \<open>Sources and totals after each operation\<close>

lemma sourced_same: "sourced B m \<Longrightarrow> progress_of m' = progress_of m \<Longrightarrow> sourced B m'"
  by (simp add: sourced_def)

lemma sourced_verified: "sourced B m \<Longrightarrow> sourced B (fst (file_bytes_verified f c m))"
  by (auto simp: sourced_def progress_verified)

lemma sourced_start_file: "sourced B m \<Longrightarrow> sourced (B(f := checksum_on_disk m f)) (start_file_processing now f m)"
  by (auto simp: sourced_def progress_start_file)

lemma sourced_update: "sourced B m \<Longrightarrow> sourced B (update_file_progress now f r p b m)"
  by (auto simp: sourced_def progress_update map_of_omodify)

lemma sourced_complete_file: "sourced B m \<Longrightarrow> sourced B (complete_file_processing now f r m)"
  by (auto simp: sourced_def progress_complete map_of_omodify)

lemma download_ops_ok [simp]:
  "sourced B (start_download now n m) = sourced B m" "totals_ok (start_download now n m) = totals_ok m"
  "sourced B (start_file_download now g m) = sourced B m" "totals_ok (start_file_download now g m) = totals_ok m"
  "sourced B (file_downloaded now g b m) = sourced B m" "totals_ok (file_downloaded now g b m) = totals_ok m"
  "sourced B (complete_download now m) = sourced B m" "totals_ok (complete_download now m) = totals_ok m"
proof -
  have "sm_publishing_phase (start_download now n m) = sm_publishing_phase m"
    "sm_publishing_phase (start_file_download now g m) = sm_publishing_phase m"
    "sm_publishing_phase (file_downloaded now g b m) = sm_publishing_phase m"
    "sm_publishing_phase (complete_download now m) = sm_publishing_phase m"
    by (simp_all add: start_download_def start_file_download_def file_downloaded_def complete_download_def marker_updates)
  then show "sourced B (start_download now n m) = sourced B m" "totals_ok (start_download now n m) = totals_ok m"
    "sourced B (start_file_download now g m) = sourced B m" "totals_ok (start_file_download now g m) = totals_ok m"
    "sourced B (file_downloaded now g b m) = sourced B m" "totals_ok (file_downloaded now g b m) = totals_ok m"
    "sourced B (complete_download now m) = sourced B m" "totals_ok (complete_download now m) = totals_ok m"
    by (simp_all add: sourced_def totals_ok_def)
qed

lemma totals_synced: "totals_ok (set_file_type f s (sync_phase_totals m))"
  by (simp add: totals_ok_def) (simp add: sync_phase_totals_def marker_updates Let_def)

lemma totals_update: "totals_ok (update_file_progress now f r p b m)"
  by (simp add: totals_ok_def update_file_progress_def sync_phase_totals_def marker_updates Let_def)

lemma totals_complete_file: "totals_ok (complete_file_processing now f r m)"
  by (simp add: complete_file_processing_def Let_def totals_synced)

lemma totals_verified: "totals_ok m \<Longrightarrow> totals_ok (fst (file_bytes_verified f c m))"
  by (auto simp: file_bytes_verified_def totals_ok_def reopen_version_def Let_def)
    (simp_all add: sync_phase_totals_def marker_updates Let_def)

lemma totals_start_file:
  assumes "counts_ok m" "totals_ok m"
  shows "totals_ok (start_file_processing now f m)"
proof -
  have wf: "owf (progress_of m)" using assms(1) by (simp add: counts_ok_def)
  have le: "osum g (progress_of (start_file_processing now f m)) \<le> osum g (progress_of m)"
    if "g (fp_default\<lparr>fp_status := InProgress, fp_started_at := Some now, fp_source_checksum := checksum_on_disk m f\<rparr>) = 0" for g
    using osum_oinsert [OF wf, of g f
        "fp_default\<lparr>fp_status := InProgress, fp_started_at := Some now, fp_source_checksum := checksum_on_disk m f\<rparr>"] that
    by (simp add: progress_start_file)
  have "sm_publishing_phase (start_file_processing now f m) = sm_publishing_phase m"
    "pp_records_extracted (sm_processing_phase (start_file_processing now f m)) = pp_records_extracted (sm_processing_phase m)"
    by (simp_all add: start_file_processing_def Let_def marker_updates)
  then show ?thesis
    using assms(2) le [of fp_records_extracted] le [of fp_messages_published] le [of fp_batches_sent]
    by (auto simp: totals_ok_def fp_default_def)
qed

section \<open>The invariant holds\<close>

lemma life_inv_new:
  "life_inv files \<lparr>lc_mode = Downloading, lc_active = {}, lc_marker = sm_new now v, lc_bytes = B\<rparr>"
  by (simp add: life_inv_def sourced_def totals_ok_def osum_def pub_default_def counts_ok_def linked_def phases_ok_def sm_new_def dp_default_def pp_default_def
      su_default_def completed_file_count_def ocount_def ovalues_def)

lemma processing_parts [simp]:
  "sm_download_phase (start_processing now n m) = sm_download_phase m"
  "progress_of (start_processing now n m) = progress_of m"
  "pp_status (sm_processing_phase (start_processing now n m)) = InProgress"
  "pp_files_processed (sm_processing_phase (start_processing now n m)) = 0"
  "overall (start_processing now n m) = InProgress"
  "sm_download_phase (complete_processing now m) = sm_download_phase m"
  "progress_of (complete_processing now m) = progress_of m"
  "pp_status (sm_processing_phase (complete_processing now m)) = Completed"
  "pp_files_processed (sm_processing_phase (complete_processing now m)) = pp_files_processed (sm_processing_phase m)"
  "overall (complete_processing now m) = overall m"
  "sm_download_phase (complete_extraction m) = sm_download_phase m"
  "sm_processing_phase (complete_extraction m) = sm_processing_phase m"
  "overall (complete_extraction m) = Completed"
  by (auto simp: start_processing_def complete_processing_def complete_extraction_def marker_updates Let_def
      split: option.split)

lemma counts_same:
  "counts_ok m \<Longrightarrow> sm_download_phase m' = sm_download_phase m \<Longrightarrow> progress_of m' = progress_of m \<Longrightarrow>
   pp_files_processed (sm_processing_phase m') = pp_files_processed (sm_processing_phase m) \<Longrightarrow> counts_ok m'"
  by (simp add: counts_ok_def completed_file_count_def)

lemma linked_same:
  "linked m f \<Longrightarrow> sm_download_phase m' = sm_download_phase m \<Longrightarrow> progress_of m' = progress_of m \<Longrightarrow> linked m' f"
  by (simp add: linked_def checksum_on_disk_def)

lemma pending_same: "progress_of m' = progress_of m \<Longrightarrow> pending_files m' files = pending_files m files"
  by (simp add: pending_files_def)

lemma begin_processing_inv:
  assumes "life_inv files \<lparr>lc_mode = Downloading, lc_active = {}, lc_marker = m, lc_bytes = B\<rparr>"
    and "dp_status (sm_download_phase m) = Completed"
  shows "life_inv files \<lparr>lc_mode = Processing, lc_active = {}, lc_marker = begin_processing now n m, lc_bytes = B\<rparr>"
proof -
  have *: "counts_ok m" "\<And>f. linked m f" "phases_ok files m" "overall m \<noteq> Completed" "sourced B m" "totals_ok m"
    using assms(1) by (auto simp: life_inv_def)
  show ?thesis
  proof (cases "pp_status (sm_processing_phase m)")
    case Pending
    then have "progress_of m = []" using *(3) by (simp add: phases_ok_def)
    with * assms(2) Pending show ?thesis
      by (simp add: life_inv_def begin_processing_def counts_ok_def completed_file_count_def ocount_def ovalues_def
          linked_def phases_ok_def sourced_def totals_ok_def osum_def)
  next
    case InProgress
    let ?m = "on_processing (\<lambda>p. p\<lparr>pp_files_total := n\<rparr>) m"
    have same: "sm_download_phase ?m = sm_download_phase m" "progress_of ?m = progress_of m"
      "pp_files_processed (sm_processing_phase ?m) = pp_files_processed (sm_processing_phase m)"
      "pp_status (sm_processing_phase ?m) = pp_status (sm_processing_phase m)" "overall ?m = overall m"
      by (simp_all add: on_processing_def)
    have "sourced B ?m" "totals_ok ?m"
      using *(5,6) sourced_same [OF _ same(2)] by (simp_all add: totals_ok_def same(2)) (simp_all add: on_processing_def)
    then show ?thesis
      using * assms(2) InProgress counts_same [OF *(1) same(1-3)] linked_same [OF *(2) same(1,2)]
      by (simp add: life_inv_def begin_processing_def phases_ok_def same)
  qed (use * assms(2) in \<open>simp_all add: life_inv_def begin_processing_def\<close>)
qed

lemma verified_phases:
  assumes "phases_ok files m" "overall m \<noteq> Completed"
  shows "phases_ok files (fst (file_bytes_verified f c m)) \<and> overall (fst (file_bytes_verified f c m)) \<noteq> Completed"
proof (cases "stale_status f c m")
  case True
  then have "progress_of m \<noteq> []" by (auto simp: stale_status_def)
  then have "pp_status (sm_processing_phase m) \<noteq> Pending" using assms by (auto simp: phases_ok_def)
  with True show ?thesis
    by (simp add: file_bytes_verified_def Let_def phases_ok_def) (simp add: marker_updates)
next
  case False
  with assms show ?thesis by (simp add: file_bytes_verified_def Let_def phases_ok_def marker_updates)
qed

lemma phases_open: "overall m \<noteq> Completed \<Longrightarrow> pp_status (sm_processing_phase m) \<noteq> Pending \<Longrightarrow> phases_ok files m"
  by (simp add: phases_ok_def)

lemma resume_open:
  assumes "phases_ok files m" "should_process m = ContinueRun"
  shows "overall m \<noteq> Completed"
  using assms by (auto simp: phases_ok_def should_process_def Let_def split: if_splits)

lemma life_step_inv:
  "life_step files s s' \<Longrightarrow> life_inv files s \<Longrightarrow> life_inv files s'"
proof (induction rule: life_step.induct)
  case (Saved md A m B now)
  then show ?case
    by (simp add: life_inv_def counts_ok_def linked_def bound_now_def checksum_on_disk_def phases_ok_def
        completed_file_count_def pending_files_def sourced_def totals_ok_def)
next
  case (Resume m B)
  then show ?case using resume_open [of files m] by (simp add: life_inv_def)
next
  case (Afresh m forced B now v)
  show ?case by (rule life_inv_new)
next
  case (StartDownload m B now n)
  then show ?case by (simp add: life_inv_def counts_start_download linked_download_ops phases_ok_def)
next
  case (StartFileDownload m f B now)
  then show ?case by (simp add: life_inv_def counts_start_file_download linked_download_ops phases_ok_def)
next
  case (FileDownloaded m B now f bytes)
  then show ?case by (simp add: life_inv_def counts_file_downloaded linked_download_ops phases_ok_def)
next
  case (FileVerified m B f checksum)
  then show ?case using verified_phases [of files m f checksum]
    by (simp add: life_inv_def counts_verified linked_verified sourced_verified totals_verified)
next
  case (CompleteDownload m B now)
  then show ?case by (simp add: life_inv_def counts_complete_download linked_download_ops phases_ok_def)
next
  case (BeginProcessing m B now)
  then show ?case by (simp add: begin_processing_inv)
next
  case (StartFile f A m B now)
  then show ?case
    by (simp add: life_inv_def counts_start_file linked_start_file bound_start_file phases_open progress_start_file
        sourced_start_file totals_start_file)
next
  case (UpdateFile f A m B now records messages batches)
  then show ?case
    by (simp add: life_inv_def counts_update linked_update bound_update phases_open progress_update sourced_update totals_update)
next
  case (CompleteFile f A m B now records)
  then show ?case
    by (simp add: life_inv_def counts_complete_file linked_complete_file bound_complete_file phases_open progress_complete
        sourced_complete_file totals_complete_file)
next
  case (CompleteProcessing m B now)
  let ?m = "complete_processing now m"
  have "counts_ok ?m" "linked ?m f" for f
    using CompleteProcessing(2) counts_same [of m ?m] linked_same [of m f ?m] by (simp_all add: life_inv_def)
  moreover have "totals_ok ?m"
    using CompleteProcessing(2) by (simp add: life_inv_def totals_ok_def) (simp add: complete_processing_def marker_updates)
  ultimately show ?case
    using CompleteProcessing by (simp add: life_inv_def phases_open sourced_same [of B m])
next
  case (CompleteExtraction m B)
  let ?m = "complete_extraction m"
  have "counts_ok ?m" "linked ?m f" for f
    using CompleteExtraction(3) counts_same [of m ?m] linked_same [of m f ?m] by (simp_all add: life_inv_def)
  moreover have "phases_ok files ?m"
    using CompleteExtraction by (simp add: life_inv_def phases_ok_def pending_same [of ?m m])
  moreover have "totals_ok ?m"
    using CompleteExtraction(3)
    by (simp add: life_inv_def totals_ok_def) (simp add: complete_extraction_def marker_updates Let_def split: option.split)
  ultimately show ?case
    using CompleteExtraction(3) by (simp add: life_inv_def sourced_same [of B m])
qed (simp add: life_inv_def)

lemma marker_reachable_inv: "marker_reachable files s \<Longrightarrow> life_inv files s"
  by (induction rule: marker_reachable.induct) (auto intro: life_inv_new life_step_inv)

section \<open>Properties\<close>

text \<open>
  C30: on every marker the program can reach, through any crashes and restarts, the number of files
  downloaded, their bytes and the number of files processed are exactly those of the per-file maps.
  The totals of records, messages and batches are never below the sums over the files; they exceed
  them only from the restart of an interrupted file to its next update.
\<close>

theorem marker_counts:
  assumes "marker_reachable files s"
  shows "dp_files_downloaded (sm_download_phase (lc_marker s)) = ocount fd_completed (downloads (lc_marker s))
    \<and> dp_bytes_downloaded (sm_download_phase (lc_marker s)) = osum fd_bytes_downloaded (downloads (lc_marker s))
    \<and> pp_files_processed (sm_processing_phase (lc_marker s)) = completed_file_count (lc_marker s)
    \<and> osum fp_records_extracted (progress_of (lc_marker s)) \<le> pp_records_extracted (sm_processing_phase (lc_marker s))
    \<and> osum fp_messages_published (progress_of (lc_marker s)) \<le> pub_messages_published (sm_publishing_phase (lc_marker s))
    \<and> osum fp_batches_sent (progress_of (lc_marker s)) \<le> pub_batches_sent (sm_publishing_phase (lc_marker s))"
  using marker_reachable_inv [OF assms] by (simp add: life_inv_def counts_ok_def totals_ok_def)

text \<open>
  C10: on every marker the program can reach, through any crashes, restarts and re-downloads, a file
  marked processed carries the checksum of the bytes its processing started from, as far as that
  checksum was known then; and when it was, and the checksum of the bytes now on disk is known too, the
  two are equal, so no re-download leaves stale work marked as done.
\<close>

theorem completed_from_current_bytes:
  assumes "marker_reachable files s"
    and "map_of (progress_of (lc_marker s)) f = Some p" "fp_status p = Completed"
  shows "fp_source_checksum p = lc_bytes s f
    \<and> (case (lc_bytes s f, checksum_on_disk (lc_marker s) f) of (Some c, Some d) \<Rightarrow> c = d | _ \<Rightarrow> True)"
proof -
  have inv: "sourced (lc_bytes s) (lc_marker s)" "linked (lc_marker s) f"
    using marker_reachable_inv [OF assms(1)] by (simp_all add: life_inv_def)
  then have "fp_source_checksum p = lc_bytes s f" using assms(2) by (simp add: sourced_def)
  with inv(2) assms(2,3) show ?thesis
    by (auto simp: linked_def split: option.split)
qed

text \<open>
  C12: the decision at a restart is safe: a version is skipped only when every one of its files is
  processed and both phases are complete, and everything is started over only when no file has
  been processed.
\<close>

theorem decision_safe:
  assumes "marker_reachable files s"
  shows "(case should_process (lc_marker s) of
      Skip \<Rightarrow> overall (lc_marker s) = Completed \<and> pending_files (lc_marker s) files = []
        \<and> dp_status (sm_download_phase (lc_marker s)) = Completed
        \<and> pp_status (sm_processing_phase (lc_marker s)) = Completed
    | Reprocess \<Rightarrow> completed_file_count (lc_marker s) = 0
        \<and> pending_files (lc_marker s) files = files
        \<and> dp_status (sm_download_phase (lc_marker s)) \<in> {Failed, InProgress}
    | ContinueRun \<Rightarrow> overall (lc_marker s) \<noteq> Completed)"
proof -
  let ?m = "lc_marker s"
  have p: "phases_ok files ?m" using marker_reachable_inv [OF assms] by (simp add: life_inv_def)
  have "pending_files ?m files = files" if "completed_file_count ?m = 0"
  proof -
    have "list_all (\<lambda>s. \<not> fp_completed s) (ovalues (progress_of ?m))"
      using that by (simp add: completed_file_count_def ocount_def filter_empty_conv list_all_iff)
    then have none: "\<not> fp_completed p" if "map_of (progress_of ?m) f = Some p" for f p
      using ovalues_map_of [OF that] unfolding list_all_iff by blast
    have "file_pending ?m f" for f
      by (cases "map_of (progress_of ?m) f") (auto simp: file_pending_def dest: none simp flip: fp_completed_def)
    then show ?thesis by (simp add: pending_files_filter)
  qed
  with p show ?thesis
    by (auto simp: should_process_def Let_def phases_ok_def split: processing_decision.split if_splits)
qed

text \<open>
  The checksum check re-queues exactly the files processed from other bytes: it reports such
  a file and then the file is pending, the version cannot be skipped, the totals are those of the
  remaining files and no other file's status changes; otherwise the processing side is untouched.
\<close>

theorem bytes_verified_requeues:
  "(let (m', stale) = file_bytes_verified f c m in
    (stale \<longleftrightarrow> (\<exists>p c'. map_of (progress_of m) f = Some p \<and> fp_status p = Completed
        \<and> fp_source_checksum p = Some c' \<and> c' \<noteq> c))
    \<and> map_of (progress_of m') = (if stale then (map_of (progress_of m))(f := None) else map_of (progress_of m))
    \<and> (if stale then pending_files m' [f] = [f] \<and> should_process m' \<noteq> Skip \<and> overall m' \<noteq> Completed
          \<and> pp_records_extracted (sm_processing_phase m') = osum fp_records_extracted (oremove f (progress_of m))
          \<and> pub_messages_published (sm_publishing_phase m') = osum fp_messages_published (oremove f (progress_of m))
          \<and> pub_batches_sent (sm_publishing_phase m') = osum fp_batches_sent (oremove f (progress_of m))
        else sm_processing_phase m' = sm_processing_phase m \<and> sm_publishing_phase m' = sm_publishing_phase m
          \<and> sm_summary m' = sm_summary m))"
proof -
  let ?r = "file_bytes_verified f c m"
  have stale: "snd ?r = stale_status f c m"
    by (simp add: file_bytes_verified_def Let_def)
  have exact: "stale_status f c m \<longleftrightarrow> (\<exists>p c'. map_of (progress_of m) f = Some p \<and> fp_status p = Completed
      \<and> fp_source_checksum p = Some c' \<and> c' \<noteq> c)"
    by (auto simp: stale_status_def split: option.splits)
  have requeued: "overall (fst ?r) \<noteq> Completed \<and>
      pp_records_extracted (sm_processing_phase (fst ?r)) = osum fp_records_extracted (oremove f (progress_of m))
      \<and> pub_messages_published (sm_publishing_phase (fst ?r)) = osum fp_messages_published (oremove f (progress_of m))
      \<and> pub_batches_sent (sm_publishing_phase (fst ?r)) = osum fp_batches_sent (oremove f (progress_of m))"
    if "stale_status f c m"
    using that
    by (auto simp: file_bytes_verified_def Let_def reopen_version_def sync_phase_totals_def marker_updates
        set_file_type_def split: option.split)
  then have "should_process (fst ?r) \<noteq> Skip" if "stale_status f c m"
    using that by (auto simp: should_process_def Let_def split: if_splits)
  moreover have "sm_processing_phase (fst ?r) = sm_processing_phase m \<and> sm_publishing_phase (fst ?r) = sm_publishing_phase m
      \<and> sm_summary (fst ?r) = sm_summary m" if "\<not> stale_status f c m"
    using that by (simp add: file_bytes_verified_def Let_def marker_updates)
  ultimately show ?thesis
    using requeued exact stale by (auto simp: case_prod_beta pending_files_def progress_verified)
qed

section \<open>Sample runs\<close>

definition sample_dump :: string where
  "sample_dump = ''discogs_20260101_labels.xml.gz''"

definition sample_fetched :: state_marker where
  "sample_fetched = complete_download 3 (fst (file_bytes_verified sample_dump ''aa'' (file_downloaded 2 sample_dump 10
     (start_download 1 1 (sm_new 0 ''20260101'')))))"

definition sample_parsed :: state_marker where
  "sample_parsed = complete_file_processing 6 sample_dump 5 (start_file_processing 5 sample_dump (begin_processing 4 1 sample_fetched))"

definition sample_done :: state_marker where
  "sample_done = complete_extraction (complete_processing 7 sample_parsed)"

lemmas sample_markers = sample_fetched_def sample_parsed_def sample_done_def sample_dump_def

text \<open>Nothing was processed, or the dump with the checksum \<open>aa\<close>.\<close>

abbreviation in_mode :: "mode \<Rightarrow> state_marker \<Rightarrow> lifecycle" where
  "in_mode md m \<equiv> \<lparr>lc_mode = md, lc_active = {}, lc_marker = m, lc_bytes = (\<lambda>_. None)\<rparr>"

abbreviation parsed_in :: "mode \<Rightarrow> state_marker \<Rightarrow> lifecycle" where
  "parsed_in md m \<equiv> \<lparr>lc_mode = md, lc_active = {}, lc_marker = m, lc_bytes = (\<lambda>_. None)(sample_dump := Some ''aa'')\<rparr>"

lemma sample_fetched_reachable: "marker_reachable [sample_dump] (in_mode Downloading sample_fetched)"
  unfolding sample_fetched_def
  by (rule Step [OF Step [OF Step [OF Step [OF Fresh StartDownload] FileDownloaded] FileVerified] CompleteDownload])

lemma sample_parsed_reachable: "marker_reachable [sample_dump] (parsed_in Processing sample_parsed)"
proof -
  let ?m = "begin_processing 4 1 sample_fetched"
  have c: "dp_status (sm_download_phase sample_fetched) = Completed" "file_pending ?m sample_dump"
    "checksum_on_disk ?m sample_dump = Some ''aa''" by code_simp+
  with Step [OF sample_fetched_reachable BeginProcessing, of 4]
  have "marker_reachable [sample_dump] (in_mode Processing ?m)" by simp
  from Step [OF this StartFile [of sample_dump, where now = 5]]
  have "marker_reachable [sample_dump]
      \<lparr>lc_mode = Processing, lc_active = {sample_dump}, lc_marker = start_file_processing 5 sample_dump ?m,
       lc_bytes = (\<lambda>_. None)(sample_dump := Some ''aa'')\<rparr>"
    using c by simp
  from Step [OF this CompleteFile [of sample_dump, where now = 6 and records = 5]] show ?thesis
    by (simp add: sample_parsed_def)
qed

lemma sample_done_reachable: "marker_reachable [sample_dump] (parsed_in Idle sample_done)"
proof -
  have p: "pending_files sample_parsed [sample_dump] = []" "pending_files (complete_processing 7 sample_parsed) [sample_dump] = []"
    by code_simp+
  have "marker_reachable [sample_dump] (parsed_in Processing (complete_processing 7 sample_parsed))"
    by (rule Step [OF sample_parsed_reachable CompleteProcessing [OF p(1)]])
  then show ?thesis
    unfolding sample_done_def by (rule Step [OF _ CompleteExtraction [OF p(2)]]) simp
qed

theorem marker_counts_witness:
  "pp_files_processed (sm_processing_phase sample_parsed) = completed_file_count sample_parsed
    \<and> completed_file_count sample_parsed = 1 \<and> dp_bytes_downloaded (sm_download_phase sample_parsed) = 10"
proof -
  have "completed_file_count sample_parsed = 1" "dp_bytes_downloaded (sm_download_phase sample_parsed) = 10"
    by code_simp+
  with marker_counts [OF sample_parsed_reachable] show ?thesis by simp
qed

theorem completed_from_current_bytes_witness:
  "fp_source_checksum (the (map_of (progress_of sample_parsed) sample_dump)) = Some ''aa''
    \<and> checksum_on_disk sample_parsed sample_dump = Some ''aa''"
proof -
  have "map_of (progress_of sample_parsed) sample_dump \<noteq> None" by code_simp
  then obtain p where p: "map_of (progress_of sample_parsed) sample_dump = Some p" by blast
  have q: "fp_status (the (map_of (progress_of sample_parsed) sample_dump)) = Completed" by code_simp
  have "checksum_on_disk sample_parsed sample_dump \<noteq> None" by code_simp
  then obtain d where "checksum_on_disk sample_parsed sample_dump = Some d" by blast
  with completed_from_current_bytes [OF sample_parsed_reachable, of sample_dump p] p q show ?thesis by simp
qed

theorem decision_safe_witness:
  "should_process sample_done = Skip \<and> pending_files sample_done [sample_dump] = []"
proof -
  have "should_process sample_done = Skip" by code_simp
  with decision_safe [OF sample_done_reachable] show ?thesis by simp
qed

end
