(* ===== verification/Message_Queue.thy ===== *)
theory Message_Queue
  imports Data_Types Float64
begin

text \<open>
  \<open>src/message_queue.rs\<close>: publishing to the broker.  The AMQP client and the broker are the
  record \<open>broker\<close>, which says what the n-th call of each kind returns; the queue's state carries
  what was written to the wire, what the broker confirmed and how long the publisher slept.
  The pacing bucket is computed exactly, on rationals.
\<close>

section \<open>Pacing\<close>

definition default_publish_rate :: rat where
  "default_publish_rate = 1500"

definition publish_burst_seconds :: rat where
  "publish_burst_seconds = 1 / 10"

definition publish_rate_from :: "string option \<Rightarrow> rat option" where
  "publish_rate_from raw =
     (case raw of
        None \<Rightarrow> Some default_publish_rate
      | Some s \<Rightarrow>
          (if trim s = [] then Some default_publish_rate
           else (case parse_f64 (trim s) of
               Some (Fin rate) \<Rightarrow>
                 (if rate = 0 then None else if rate > 0 then Some rate else Some default_publish_rate)
             | _ \<Rightarrow> Some default_publish_rate)))"

record token_bucket =
  tb_rate :: rat
  tb_capacity :: rat
  tb_tokens :: rat
  tb_last :: rat

definition bucket_new :: "rat \<Rightarrow> rat \<Rightarrow> token_bucket" where
  "bucket_new rate now =
     (let capacity = max (rate * publish_burst_seconds) 1
      in \<lparr>tb_rate = rate, tb_capacity = capacity, tb_tokens = capacity, tb_last = now\<rparr>)"

text \<open>The wait before the reserved token may be used.\<close>

definition bucket_take :: "rat \<Rightarrow> token_bucket \<Rightarrow> token_bucket \<times> rat" where
  "bucket_take now b =
     (let elapsed = max 0 (now - tb_last b);
          tokens = min (tb_tokens b + elapsed * tb_rate b) (tb_capacity b) - 1
      in (b\<lparr>tb_last := now, tb_tokens := tokens\<rparr>, if tokens \<ge> 0 then 0 else - tokens / tb_rate b))"

section \<open>Confirms\<close>

datatype mq_error =
    Unroutable string nat string
  | NotAcked
  | ConfirmFailed
  | ConfirmTimeout
  | SendFailed
  | SendTimeout
  | ConnectFailed
  | NoChannel
  | DeclareFailed data_type
  | CompletionFailed "(data_type \<times> mq_error) list"

definition check_confirmation :: "string \<Rightarrow> bool \<Rightarrow> (nat \<times> string) option \<Rightarrow> mq_error + unit" where
  "check_confirmation exchange acked returned =
     (case returned of
        Some (code, reply) \<Rightarrow> Err (Unroutable exchange code reply)
      | None \<Rightarrow> if \<not> acked then Err NotAcked else Ok ())"

section \<open>The queue\<close>

text \<open>What a publish and its confirm come back with.\<close>

datatype send_outcome = Sent | SendRefused | SendStalled

datatype confirm_outcome = Confirmed bool "(nat \<times> string) option" | ConfirmRefused | ConfirmStalled

record broker =
  br_connects :: "nat \<Rightarrow> bool"
  br_connected :: "nat \<Rightarrow> bool"
  br_declares :: "nat \<Rightarrow> bool"
  br_send :: "nat \<Rightarrow> send_outcome"
  br_confirm :: "nat \<Rightarrow> confirm_outcome"
  br_clock :: "nat \<Rightarrow> rat"

text \<open>The state: \<open>mq_channel\<close> says whether a channel is held; the counters number the calls.\<close>

record message_queue =
  mq_url :: string
  mq_max_retries :: nat
  mq_exchange_prefix :: string
  mq_channel :: bool
  mq_connection :: bool
  mq_pacer :: "token_bucket option"
  mq_connect_calls :: nat
  mq_status_calls :: nat
  mq_declare_calls :: nat
  mq_clock_calls :: nat
  mq_sent :: "(string \<times> message) list"
  mq_confirmed :: "(string \<times> message) list"
  mq_sleeps :: "nat list"
  mq_waits :: "rat list"

definition exchange_name :: "message_queue \<Rightarrow> data_type \<Rightarrow> string" where
  "exchange_name q d = mq_exchange_prefix q @ ''-'' @ dt_str d"

text \<open>
  The URL parser is a parameter: \<open>parsed\<close> gives the part before the path, the path and the rest.
\<close>

definition normalize_amqp_url :: "(string \<Rightarrow> (string \<times> string \<times> string) option) \<Rightarrow> string \<Rightarrow> string option" where
  "normalize_amqp_url parsed url =
     map_option (\<lambda>(before, path, rest). before @ (if path = ''/'' then [] else path) @ rest) (parsed url)"

definition try_connect :: "broker \<Rightarrow> message_queue \<Rightarrow> message_queue \<times> (mq_error + unit)" where
  "try_connect br q =
     (let q1 = q\<lparr>mq_connect_calls := mq_connect_calls q + 1\<rparr> in
      if br_connects br (mq_connect_calls q) then (q1\<lparr>mq_connection := True, mq_channel := True\<rparr>, Ok ())
      else (q1, Err ConnectFailed))"

lemma try_connect_retries [simp]: "mq_max_retries (fst (try_connect br q)) = mq_max_retries q"
  by (simp add: try_connect_def Let_def)

text \<open>The retry loop: exponential backoff, at most 30 seconds.\<close>

function connect_loop :: "broker \<Rightarrow> nat \<Rightarrow> nat \<Rightarrow> message_queue \<Rightarrow> message_queue \<times> (mq_error + unit)" where
  "connect_loop br retry_count backoff q =
     (case try_connect br q of
        (q1, Inr _) \<Rightarrow> (q1, Ok ())
      | (q1, Inl e) \<Rightarrow>
          (if retry_count + 1 \<ge> mq_max_retries q then (q1, Err e)
           else connect_loop br (retry_count + 1) (min (backoff * 2) 30) (q1\<lparr>mq_sleeps := mq_sleeps q1 @ [backoff]\<rparr>)))"
  by pat_completeness auto
termination
  by (relation "measure (\<lambda>(_, n, _, q). mq_max_retries q - n)") (auto simp: try_connect_def Let_def split: if_splits)

declare connect_loop.simps [simp del]

definition connect :: "broker \<Rightarrow> message_queue \<Rightarrow> message_queue \<times> (mq_error + unit)" where
  "connect br = connect_loop br 0 1"

definition mq_new :: "broker \<Rightarrow> (string \<Rightarrow> (string \<times> string \<times> string) option) \<Rightarrow> string \<Rightarrow> nat \<Rightarrow> string
    \<Rightarrow> token_bucket option \<Rightarrow> (message_queue \<times> (mq_error + unit)) option" where
  "mq_new br parsed url max_retries exchange_prefix pacer =
     map_option (\<lambda>u. connect br
       \<lparr>mq_url = u, mq_max_retries = max_retries, mq_exchange_prefix = exchange_prefix, mq_channel = False,
        mq_connection = False, mq_pacer = pacer, mq_connect_calls = 0, mq_status_calls = 0, mq_declare_calls = 0,
        mq_clock_calls = 0, mq_sent = [], mq_confirmed = [], mq_sleeps = [], mq_waits = []\<rparr>)
       (normalize_amqp_url parsed url)"

text \<open>One look at the held channel.\<close>

definition channel_connected :: "broker \<Rightarrow> message_queue \<Rightarrow> message_queue \<times> bool" where
  "channel_connected br q =
     (if mq_channel q then (q\<lparr>mq_status_calls := mq_status_calls q + 1\<rparr>, br_connected br (mq_status_calls q))
      else (q, False))"

definition get_channel :: "broker \<Rightarrow> message_queue \<Rightarrow> message_queue \<times> (mq_error + unit)" where
  "get_channel br q =
     (case channel_connected br q of
        (q1, True) \<Rightarrow> (q1, Ok ())
      | (q1, False) \<Rightarrow>
          (case channel_connected br q1 of
             (q2, True) \<Rightarrow> (q2, Ok ())
           | (q2, False) \<Rightarrow>
               (case connect br q2 of
                  (q3, Inl e) \<Rightarrow> (q3, Err e)
                | (q3, Inr _) \<Rightarrow> (q3, if mq_channel q3 then Ok () else Err NoChannel))))"

definition setup_exchange :: "broker \<Rightarrow> data_type \<Rightarrow> message_queue \<Rightarrow> message_queue \<times> (mq_error + unit)" where
  "setup_exchange br d q =
     (case get_channel br q of
        (q1, Inl e) \<Rightarrow> (q1, Err e)
      | (q1, Inr _) \<Rightarrow>
          (q1\<lparr>mq_declare_calls := mq_declare_calls q1 + 1\<rparr>,
           if br_declares br (mq_declare_calls q1) then Ok () else Err (DeclareFailed d)))"

text \<open>A send: the frame goes out with \<open>mandatory\<close> set; the number of the frame names its confirm.\<close>

definition send_payload :: "broker \<Rightarrow> string \<Rightarrow> message \<Rightarrow> message_queue \<Rightarrow> message_queue \<times> (mq_error + nat)" where
  "send_payload br exchange msg q =
     (let n = length (mq_sent q); q1 = q\<lparr>mq_sent := mq_sent q @ [(exchange, msg)]\<rparr> in
      case br_send br n of
        Sent \<Rightarrow> (q1, Ok n)
      | SendRefused \<Rightarrow> (q1, Err SendFailed)
      | SendStalled \<Rightarrow> (q1, Err SendTimeout))"

definition pace :: "broker \<Rightarrow> message_queue \<Rightarrow> message_queue" where
  "pace br q =
     (case mq_pacer q of
        None \<Rightarrow> q
      | Some b \<Rightarrow>
          (let (b', wait) = bucket_take (br_clock br (mq_clock_calls q)) b
           in q\<lparr>mq_pacer := Some b', mq_clock_calls := mq_clock_calls q + 1, mq_waits := mq_waits q @ [wait]\<rparr>))"

definition await_confirm :: "broker \<Rightarrow> nat \<Rightarrow> mq_error + (bool \<times> (nat \<times> string) option)" where
  "await_confirm br n =
     (case br_confirm br n of
        Confirmed acked returned \<Rightarrow> Ok (acked, returned)
      | ConfirmRefused \<Rightarrow> Err ConfirmFailed
      | ConfirmStalled \<Rightarrow> Err ConfirmTimeout)"

definition confirm_result :: "broker \<Rightarrow> string \<Rightarrow> nat \<Rightarrow> mq_error + unit" where
  "confirm_result br exchange n =
     and_then (await_confirm br n) (\<lambda>(acked, returned). check_confirmation exchange acked returned)"

text \<open>Only a confirmed, routable message counts as sent.\<close>

definition settle_confirm :: "broker \<Rightarrow> string \<Rightarrow> nat \<Rightarrow> message_queue \<Rightarrow> message_queue \<times> (mq_error + unit)" where
  "settle_confirm br exchange n q =
     (case confirm_result br exchange n of
        Inl e \<Rightarrow> (q, Err e)
      | Inr _ \<Rightarrow> (q\<lparr>mq_confirmed := mq_confirmed q @ [mq_sent q ! n]\<rparr>, Ok ()))"

definition publish :: "broker \<Rightarrow> message \<Rightarrow> data_type \<Rightarrow> message_queue \<Rightarrow> message_queue \<times> (mq_error + unit)" where
  "publish br msg d q =
     (case get_channel br q of
        (q1, Inl e) \<Rightarrow> (q1, Err e)
      | (q1, Inr _) \<Rightarrow>
          (case send_payload br (exchange_name q1 d) msg q1 of
             (q2, Inl e) \<Rightarrow> (q2, Err e)
           | (q2, Inr n) \<Rightarrow> settle_confirm br (exchange_name q1 d) n q2))"

text \<open>The batch: every frame first, then the confirms in publish order.\<close>

fun send_all :: "broker \<Rightarrow> string \<Rightarrow> data_message list \<Rightarrow> message_queue \<Rightarrow> message_queue \<times> (mq_error + nat list)" where
  "send_all br exchange [] q = (q, Ok [])"
| "send_all br exchange (m # ms) q =
     (case send_payload br exchange (Data m) (pace br q) of
        (q1, Inl e) \<Rightarrow> (q1, Err e)
      | (q1, Inr n) \<Rightarrow>
          (case send_all br exchange ms q1 of
             (q2, Inl e) \<Rightarrow> (q2, Err e)
           | (q2, Inr ns) \<Rightarrow> (q2, Ok (n # ns))))"

fun settle_all :: "broker \<Rightarrow> string \<Rightarrow> nat list \<Rightarrow> message_queue \<Rightarrow> message_queue \<times> (mq_error + unit)" where
  "settle_all br exchange [] q = (q, Ok ())"
| "settle_all br exchange (n # ns) q =
     (case settle_confirm br exchange n q of
        (q1, Inl e) \<Rightarrow> (q1, Err e)
      | (q1, Inr _) \<Rightarrow> settle_all br exchange ns q1)"

definition publish_batch :: "broker \<Rightarrow> data_message list \<Rightarrow> data_type \<Rightarrow> message_queue \<Rightarrow> message_queue \<times> (mq_error + unit)" where
  "publish_batch br ms d q =
     (case get_channel br q of
        (q1, Inl e) \<Rightarrow> (q1, Err e)
      | (q1, Inr _) \<Rightarrow>
          (case send_all br (exchange_name q1 d) ms q1 of
             (q2, Inl e) \<Rightarrow> (q2, Err e)
           | (q2, Inr ns) \<Rightarrow> settle_all br (exchange_name q1 d) ns q2))"

definition send_file_complete ::
  "broker \<Rightarrow> time \<Rightarrow> data_type \<Rightarrow> string \<Rightarrow> nat \<Rightarrow> message_queue \<Rightarrow> message_queue \<times> (mq_error + unit)" where
  "send_file_complete br now d file_name total_processed =
     publish br (FileComplete \<lparr>fc_data_type = dt_str d, fc_timestamp = now, fc_total_processed = total_processed, fc_file = file_name\<rparr>) d"

text \<open>Every exchange is attempted; the failures are collected.\<close>

definition send_extraction_complete ::
  "broker \<Rightarrow> time \<Rightarrow> string \<Rightarrow> time \<Rightarrow> (string, nat) omap \<Rightarrow> data_type list \<Rightarrow> message_queue
    \<Rightarrow> message_queue \<times> (mq_error + unit)" where
  "send_extraction_complete br now version started_at record_counts data_types q =
     (let msg = ExtractionComplete \<lparr>ec_version = version, ec_timestamp = now, ec_started_at = started_at,
            ec_record_counts = record_counts\<rparr>;
          (q1, errors) = fold (\<lambda>d (q, errors). case publish br msg d q of
              (q', Inl e) \<Rightarrow> (q', errors @ [(d, e)]) | (q', Inr _) \<Rightarrow> (q', errors)) data_types (q, [])
      in (q1, if errors = [] then Ok () else Err (CompletionFailed errors)))"

text \<open>Both halves of closing are best effort: their errors are only logged.\<close>

definition mq_close :: "message_queue \<Rightarrow> message_queue" where
  "mq_close q = q\<lparr>mq_channel := False, mq_connection := False\<rparr>"

end
