(* ===== verification/Publishing.thy ===== *)
theory Publishing
  imports Message_Queue
begin

text \<open>
  What publishing promises: the bound on reconnecting, the meaning of a successful batch, the
  broadcast of the completion signal and the total rate of the pacing bucket.
\<close>

text \<open>The \<open>k\<close> numbers from \<open>n\<close> on.\<close>

definition frame_range :: "nat \<Rightarrow> nat \<Rightarrow> nat list" where
  "frame_range n k = [n..<n + k]"

lemma frame_range_simps [simp]:
  "frame_range n 0 = []" "frame_range n (Suc k) = n # frame_range (Suc n) k"
  by (simp_all add: frame_range_def upt_conv_Cons del: upt_Suc)

section \<open>Reconnecting\<close>

definition backoff_after :: "nat \<Rightarrow> nat" where
  "backoff_after i = min (2 ^ i) 30"

lemma backoff_after_Suc: "min (backoff_after i * 2) 30 = backoff_after (Suc i)"
  by (simp add: backoff_after_def min_def)

lemma connect_loop_spec:
  assumes "rc = 0 \<or> rc < mq_max_retries q" "connect_loop br rc (backoff_after rc) q = (q', r)"
  shows "\<exists>j. rc + Suc j \<le> max 1 (mq_max_retries q)
    \<and> mq_connect_calls q' = mq_connect_calls q + Suc j
    \<and> mq_sleeps q' = mq_sleeps q @ map backoff_after (frame_range rc j)
    \<and> (is_ok r \<longleftrightarrow> br_connects br (mq_connect_calls q + j))
    \<and> list_all (\<lambda>i. \<not> br_connects br i) (frame_range (mq_connect_calls q) j)
    \<and> (is_ok r \<or> rc + Suc j = max 1 (mq_max_retries q))"
  using assms
proof (induction br rc "backoff_after rc" q arbitrary: q' r rule: connect_loop.induct)
  case (1 br rc q)
  let ?c = "mq_connect_calls q"
  show ?case
  proof (cases "br_connects br ?c")
    case True
    then have "q' = q\<lparr>mq_connect_calls := ?c + 1, mq_connection := True, mq_channel := True\<rparr>" "r = Ok ()"
      using "1.prems"(2) by (auto simp: connect_loop.simps [of br rc] try_connect_def)
    with True "1.prems"(1) show ?thesis by (intro exI [of _ 0]) auto
  next
    case False
    let ?q1 = "q\<lparr>mq_connect_calls := ?c + 1\<rparr>"
    have t: "try_connect br q = (?q1, Err ConnectFailed)" using False by (simp add: try_connect_def)
    show ?thesis
    proof (cases "rc + 1 \<ge> mq_max_retries q")
      case True
      then have "q' = ?q1" "r = Err ConnectFailed"
        using "1.prems"(2) by (auto simp: connect_loop.simps [of br rc] t)
      with True False "1.prems"(1) show ?thesis by (intro exI [of _ 0]) auto
    next
      case go: False
      let ?q2 = "?q1\<lparr>mq_sleeps := mq_sleeps ?q1 @ [backoff_after rc]\<rparr>"
      have "connect_loop br (rc + 1) (backoff_after (rc + 1)) ?q2 = (q', r)"
        using "1.prems"(2) go by (simp add: connect_loop.simps [of br rc] t backoff_after_Suc)
      with "1.hyps" [OF t [symmetric] refl go] go backoff_after_Suc [of rc] obtain j where
        "Suc (rc + Suc j) \<le> max 1 (mq_max_retries q)" "mq_connect_calls q' = Suc ?c + Suc j"
        "mq_sleeps q' = mq_sleeps q @ [backoff_after rc] @ map backoff_after (frame_range (Suc rc) j)"
        "is_ok r \<longleftrightarrow> br_connects br (Suc ?c + j)"
        "list_all (\<lambda>i. \<not> br_connects br i) (frame_range (Suc ?c) j)"
        "is_ok r \<or> Suc (rc + Suc j) = max 1 (mq_max_retries q)"
        by auto
      with False show ?thesis by (intro exI [of _ "Suc j"]) auto
    qed
  qed
qed

text \<open>
  C38: connecting terminates within the configured attempts and waits longer each time up to thirty
  seconds: with \<open>k\<close> attempts it slept \<open>1, 2, 4, \<dots>\<close> seconds \<open>k - 1\<close> times, all attempts
  but the last failed, and it gives up only when the attempts are used up.
\<close>

theorem connect_bounded:
  "(let (q', r) = connect br q; c = mq_connect_calls q; k = mq_connect_calls q' - c in
     1 \<le> k \<and> k \<le> max 1 (mq_max_retries q)
     \<and> mq_sleeps q' = mq_sleeps q @ map (\<lambda>i. min (2 ^ i) 30) [0..<k - 1]
     \<and> (is_ok r \<longleftrightarrow> br_connects br (c + (k - 1)))
     \<and> list_all (\<lambda>i. \<not> br_connects br i) [c..<c + (k - 1)]
     \<and> (is_ok r \<or> k = max 1 (mq_max_retries q)))"
proof -
  obtain q' r where c: "connect br q = (q', r)" by force
  then have "connect_loop br 0 (backoff_after 0) q = (q', r)" by (simp add: connect_def backoff_after_def)
  from connect_loop_spec [OF _ this] obtain j where
    "Suc j \<le> max 1 (mq_max_retries q)" "mq_connect_calls q' = mq_connect_calls q + Suc j"
    "mq_sleeps q' = mq_sleeps q @ map backoff_after (frame_range 0 j)"
    "is_ok r \<longleftrightarrow> br_connects br (mq_connect_calls q + j)"
    "list_all (\<lambda>i. \<not> br_connects br i) (frame_range (mq_connect_calls q) j)"
    "is_ok r \<or> Suc j = max 1 (mq_max_retries q)" by auto
  then show ?thesis by (simp add: c frame_range_def backoff_after_def [abs_def])
qed

section \<open>Batches\<close>

text \<open>Operations that touch neither the frames nor the confirms.\<close>

definition wire_same :: "message_queue \<Rightarrow> message_queue \<Rightarrow> bool" where
  "wire_same q q' \<longleftrightarrow>
     mq_sent q' = mq_sent q \<and> mq_confirmed q' = mq_confirmed q \<and> mq_exchange_prefix q' = mq_exchange_prefix q"

lemma wire_same_refl [simp]: "wire_same q q"
  by (simp add: wire_same_def)

lemma wire_same_trans: "wire_same p q \<Longrightarrow> wire_same q r \<Longrightarrow> wire_same p r"
  by (simp add: wire_same_def)

lemma wire_try_connect: "wire_same q (fst (try_connect br q))"
  by (simp add: wire_same_def try_connect_def Let_def)

lemma wire_connect_loop: "wire_same q (fst (connect_loop br rc b q))"
proof (induction br rc b q rule: connect_loop.induct)
  case (1 br rc b q)
  obtain q1 r where t: "try_connect br q = (q1, r)" by force
  then have w: "wire_same q q1" using wire_try_connect [of q br] by simp
  show ?case
  proof (cases r)
    case (Inl e)
    have "wire_same q (fst (connect_loop br (rc + 1) (min (b * 2) 30) (q1\<lparr>mq_sleeps := mq_sleeps q1 @ [b]\<rparr>)))"
      if "\<not> rc + 1 \<ge> mq_max_retries q"
      using 1 [OF t [symmetric] Inl] w that by (auto simp: wire_same_def)
    then show ?thesis using w by (simp add: connect_loop.simps [of br rc] t Inl)
  qed (simp add: connect_loop.simps [of br rc] t w)
qed

lemma wire_channel_connected: "wire_same q (fst (channel_connected br q))"
  by (simp add: wire_same_def channel_connected_def)

lemma wire_get_channel: "wire_same q (fst (get_channel br q))"
  using wire_channel_connected wire_connect_loop
  by (auto simp: get_channel_def connect_def split: prod.split sum.split bool.split intro: wire_same_trans)
    (metis fst_conv wire_same_trans)+

lemma wire_pace: "wire_same q (pace br q)"
  by (simp add: wire_same_def pace_def Let_def split: option.split prod.split)

definition frames :: "string \<Rightarrow> data_message list \<Rightarrow> (string \<times> message) list" where
  "frames exchange ms = map (\<lambda>m. (exchange, Data m)) ms"

definition sends_ok :: "broker \<Rightarrow> nat \<Rightarrow> nat \<Rightarrow> bool" where
  "sends_ok br n k = list_all (\<lambda>i. br_send br i = Sent) (frame_range n k)"

definition confirm_ok :: "broker \<Rightarrow> nat \<Rightarrow> bool" where
  "confirm_ok br i \<longleftrightarrow> br_confirm br i = Confirmed True None"

lemma confirm_result_ok: "is_ok (confirm_result br exchange i) \<longleftrightarrow> confirm_ok br i"
  by (auto simp: confirm_result_def await_confirm_def confirm_ok_def check_confirmation_def
      split: confirm_outcome.split option.split)

lemma send_all_spec:
  assumes "send_all br ex ms q = (q', r)"
  shows "mq_confirmed q' = mq_confirmed q \<and> mq_exchange_prefix q' = mq_exchange_prefix q
    \<and> (is_ok r \<longleftrightarrow> sends_ok br (length (mq_sent q)) (length ms))
    \<and> (case r of Inr ns \<Rightarrow> ns = frame_range (length (mq_sent q)) (length ms)
          \<and> mq_sent q' = mq_sent q @ frames ex ms
        | Inl _ \<Rightarrow> True)"
  using assms
proof (induction ms arbitrary: q q' r)
  case Nil
  then show ?case by (auto simp: sends_ok_def frames_def)
next
  case (Cons m ms)
  let ?n = "length (mq_sent q)"
  let ?q1 = "(pace br q)\<lparr>mq_sent := mq_sent q @ [(ex, Data m)]\<rparr>"
  have p: "mq_sent (pace br q) = mq_sent q" "mq_confirmed (pace br q) = mq_confirmed q"
    "mq_exchange_prefix (pace br q) = mq_exchange_prefix q"
    using wire_pace [of q br] by (auto simp: wire_same_def)
  show ?case
  proof (cases "br_send br ?n = Sent")
    case True
    then have s: "send_payload br ex (Data m) (pace br q) = (?q1, Ok ?n)" by (simp add: send_payload_def p)
    obtain q2 r2 where rest: "send_all br ex ms ?q1 = (q2, r2)" by force
    show ?thesis
      using Cons.IH [OF rest] Cons.prems True
      by (auto simp: s rest p sends_ok_def frames_def upt_conv_Cons split: sum.splits)
  next
    case False
    then obtain e where "send_payload br ex (Data m) (pace br q) = (?q1, Err e)"
      by (cases "br_send br ?n") (auto simp: send_payload_def p)
    with Cons.prems False show ?thesis by (auto simp: p sends_ok_def)
  qed
qed

lemma settle_all_spec:
  assumes "settle_all br ex ns q = (q', r)"
  shows "mq_sent q' = mq_sent q \<and> mq_exchange_prefix q' = mq_exchange_prefix q
    \<and> (is_ok r \<longleftrightarrow> list_all (confirm_ok br) ns)
    \<and> mq_confirmed q' = mq_confirmed q @ map (\<lambda>n. mq_sent q ! n) (takeWhile (confirm_ok br) ns)"
  using assms
proof (induction ns arbitrary: q)
  case (Cons n ns)
  show ?case
  proof (cases "confirm_ok br n")
    case True
    then have "is_ok (confirm_result br ex n)" by (simp add: confirm_result_ok)
    with Cons True show ?thesis by (auto simp: settle_confirm_def is_ok_iff)
  next
    case False
    then have "\<not> is_ok (confirm_result br ex n)" by (simp add: confirm_result_ok)
    with Cons.prems False show ?thesis
      by (cases "confirm_result br ex n") (auto simp: settle_confirm_def)
  qed
qed auto

lemma map_nth_frames: "map (\<lambda>n. (xs @ ys) ! n) (frame_range (length xs) (length ys)) = ys"
  unfolding frame_range_def by (rule nth_equalityI) (simp_all add: nth_append)

lemma takeWhile_map_nth:
  "\<exists>k \<le> length ys. map (\<lambda>n. (xs @ ys) ! n) (takeWhile P (frame_range (length xs) (length ys))) = take k ys"
proof -
  let ?k = "length (takeWhile P (frame_range (length xs) (length ys)))"
  have "takeWhile P (frame_range (length xs) (length ys)) = take ?k (frame_range (length xs) (length ys))"
    by (rule takeWhile_eq_take)
  then have "map (\<lambda>n. (xs @ ys) ! n) (takeWhile P (frame_range (length xs) (length ys))) = take ?k ys"
    by (metis map_nth_frames take_map)
  moreover have "?k \<le> length ys"
    using length_takeWhile_le [of P "frame_range (length xs) (length ys)"] by (simp add: frame_range_def)
  ultimately show ?thesis by blast
qed

text \<open>What a batch does, by cases.\<close>

lemma publish_batch_cases:
  assumes "publish_batch br ms d q = (q', r)" "get_channel br q = (q1, c)"
  shows "(is_ok r \<longleftrightarrow> is_ok c \<and> sends_ok br (length (mq_sent q)) (length ms)
      \<and> list_all (confirm_ok br) (frame_range (length (mq_sent q)) (length ms)))
    \<and> mq_exchange_prefix q' = mq_exchange_prefix q
    \<and> (\<exists>k \<le> length ms. mq_confirmed q' = mq_confirmed q @ take k (frames (exchange_name q d) ms)
        \<and> (is_ok r \<longrightarrow> k = length ms \<and> mq_sent q' = mq_sent q @ frames (exchange_name q d) ms))"
proof -
  let ?ex = "exchange_name q d" and ?n = "length (mq_sent q)"
  have w: "wire_same q q1" using wire_get_channel [of q br] assms(2) by simp
  then have w1: "mq_sent q1 = mq_sent q" "mq_confirmed q1 = mq_confirmed q" "exchange_name q1 d = ?ex"
    "mq_exchange_prefix q1 = mq_exchange_prefix q"
    by (auto simp: wire_same_def exchange_name_def)
  show ?thesis
  proof (cases c)
    case (Inl e)
    with assms w1 show ?thesis by (auto simp: publish_batch_def intro!: exI [of _ 0])
  next
    case (Inr u)
    obtain q2 s where send: "send_all br ?ex ms q1 = (q2, s)" by force
    note sent = send_all_spec [OF send, unfolded w1]
    show ?thesis
    proof (cases s)
      case (Inl e)
      with assms Inr send sent w1 show ?thesis by (auto simp: publish_batch_def intro!: exI [of _ 0])
    next
      case ns: (Inr ns)
      have pb: "settle_all br ?ex ns q2 = (q', r)" using assms Inr send ns w1 by (simp add: publish_batch_def)
      note settled = settle_all_spec [OF pb]
      have q2: "ns = frame_range ?n (length ms)" "mq_sent q2 = mq_sent q @ frames ?ex ms"
        using sent by (auto simp: ns)
      have len: "length (frames ?ex ms) = length ms" by (simp add: frames_def)
      obtain k where k: "k \<le> length ms"
        "map (\<lambda>n. mq_sent q2 ! n) (takeWhile (confirm_ok br) ns) = take k (frames ?ex ms)"
        using takeWhile_map_nth [of "frames ?ex ms" "mq_sent q" "confirm_ok br"] by (auto simp: q2 len)
      have all: "map (\<lambda>n. mq_sent q2 ! n) ns = frames ?ex ms"
        using map_nth_frames [of "mq_sent q" "frames ?ex ms"] by (simp add: q2 len)
      show ?thesis
      proof (cases "is_ok r")
        case True
        then have "takeWhile (confirm_ok br) ns = ns" using settled by (simp add: takeWhile_eq_all_conv list_all_iff)
        have "mq_confirmed q' = mq_confirmed q @ frames ?ex ms"
          using settled sent all by (simp only: \<open>takeWhile _ ns = ns\<close>)
        with settled sent w1 q2 True ns Inr show ?thesis
          by (auto simp: len intro!: exI [of _ "length ms"])
      next
        case False
        with settled sent w1 q2 k ns Inr show ?thesis by (auto intro!: exI [of _ k])
      qed
    qed
  qed
qed

text \<open>
  C21: a batch succeeds exactly when the channel is up and every frame was written, acknowledged by
  the broker and not returned as unroutable; then the whole batch is on the wire and confirmed,
  in order, on the exchange of its entity type.  When it fails, what was confirmed is a prefix.
\<close>

theorem publish_batch_ok_iff:
  "(let (q', r) = publish_batch br ms d q; n = length (mq_sent q); fs = map (\<lambda>m. (exchange_name q d, Data m)) ms in
     (is_ok r \<longleftrightarrow> is_ok (snd (get_channel br q))
        \<and> list_all (\<lambda>i. br_send br i = Sent \<and> br_confirm br i = Confirmed True None) [n..<n + length ms])
     \<and> (if is_ok r then mq_sent q' = mq_sent q @ fs \<and> mq_confirmed q' = mq_confirmed q @ fs
        else \<exists>k \<le> length ms. mq_confirmed q' = mq_confirmed q @ take k fs))"
proof -
  obtain q' r q1 c where p: "publish_batch br ms d q = (q', r)" "get_channel br q = (q1, c)" by (meson surj_pair)
  have "list_all (\<lambda>i. br_send br i = Sent \<and> br_confirm br i = Confirmed True None) [n..<n + k] \<longleftrightarrow>
      sends_ok br n k \<and> list_all (confirm_ok br) (frame_range n k)" for n k
    by (auto simp: sends_ok_def frame_range_def confirm_ok_def list_all_iff)
  note eq = this [of "length (mq_sent q)" "length ms"]
  from publish_batch_cases [OF p] show ?thesis
    by (cases "is_ok r") (auto simp: Let_def p eq frames_def)
qed

section \<open>The completion signal\<close>

definition broadcast_step ::
  "broker \<Rightarrow> message \<Rightarrow> data_type \<Rightarrow> message_queue \<times> (data_type \<times> mq_error) list
    \<Rightarrow> message_queue \<times> (data_type \<times> mq_error) list" where
  "broadcast_step br msg d = (\<lambda>(q, errors). case publish br msg d q of
     (q', Inl e) \<Rightarrow> (q', errors @ [(d, e)]) | (q', Inr _) \<Rightarrow> (q', errors))"

definition channel_up :: "broker \<Rightarrow> message_queue \<Rightarrow> bool" where
  "channel_up br q \<longleftrightarrow> mq_channel q \<and> br_connected br = (\<lambda>_. True)"

lemma get_channel_up: "channel_up br q \<Longrightarrow> get_channel br q = (q\<lparr>mq_status_calls := mq_status_calls q + 1\<rparr>, Ok ())"
  by (simp add: channel_up_def get_channel_def channel_connected_def)

lemma publish_up:
  assumes "channel_up br q" "publish br msg d q = (q', r)"
  shows "channel_up br q' \<and> mq_exchange_prefix q' = mq_exchange_prefix q
    \<and> mq_sent q' = mq_sent q @ [(exchange_name q d, msg)]
    \<and> (is_ok r \<longleftrightarrow> br_send br (length (mq_sent q)) = Sent \<and> confirm_ok br (length (mq_sent q)))"
proof -
  let ?q1 = "q\<lparr>mq_status_calls := mq_status_calls q + 1\<rparr>" and ?n = "length (mq_sent q)"
  have e: "exchange_name (q\<lparr>mq_status_calls := n\<rparr>) d = exchange_name q d" for n by (simp add: exchange_name_def)
  show ?thesis
    using assms confirm_result_ok [of br "exchange_name q d" ?n]
    by (cases "br_send br ?n"; cases "confirm_result br (exchange_name q d) ?n")
      (auto simp: publish_def get_channel_up e send_payload_def settle_confirm_def channel_up_def)
qed

lemma broadcast_up:
  assumes "channel_up br q" "fold (broadcast_step br msg) ds (q, es) = (q', es')"
  shows "mq_exchange_prefix q' = mq_exchange_prefix q
    \<and> mq_sent q' = mq_sent q @ map (\<lambda>d. (exchange_name q d, msg)) ds
    \<and> (es' = [] \<longleftrightarrow> es = [] \<and> sends_ok br (length (mq_sent q)) (length ds)
          \<and> list_all (confirm_ok br) (frame_range (length (mq_sent q)) (length ds)))"
  using assms
proof (induction ds arbitrary: q es)
  case (Cons d ds)
  obtain q1 r where p: "publish br msg d q = (q1, r)" by force
  note up = publish_up [OF Cons.prems(1) p]
  define es1 where "es1 = (case r of Inl e \<Rightarrow> es @ [(d, e)] | Inr _ \<Rightarrow> es)"
  have step: "broadcast_step br msg d (q, es) = (q1, es1)"
    by (cases r) (simp_all add: broadcast_step_def p es1_def)
  have es1: "es1 = [] \<longleftrightarrow> es = [] \<and> is_ok r" by (cases r) (simp_all add: es1_def)
  have "fold (broadcast_step br msg) ds (q1, es1) = (q', es')" using Cons.prems(2) by (simp add: step)
  from Cons.IH [OF _ this] up es1 show ?case
    by (auto simp: exchange_name_def sends_ok_def)
qed (auto simp: sends_ok_def)

text \<open>
  The completion signal goes to every exchange, whatever happens on the others: with the
  channel up there is one frame per entity type, in order, and the broadcast succeeds exactly when
  all of them were written, acknowledged and routed.
\<close>

theorem extraction_complete_attempts_all:
  assumes "mq_channel q" "br_connected br = (\<lambda>_. True)"
  shows "(let (q', r) = send_extraction_complete br now version started counts ds q; n = length (mq_sent q);
      msg = ExtractionComplete \<lparr>ec_version = version, ec_timestamp = now, ec_started_at = started, ec_record_counts = counts\<rparr> in
    mq_sent q' = mq_sent q @ map (\<lambda>d. (mq_exchange_prefix q @ ''-'' @ dt_str d, msg)) ds
    \<and> (is_ok r \<longleftrightarrow> list_all (\<lambda>i. br_send br i = Sent \<and> br_confirm br i = Confirmed True None) [n..<n + length ds]))"
proof -
  let ?msg = "ExtractionComplete \<lparr>ec_version = version, ec_timestamp = now, ec_started_at = started, ec_record_counts = counts\<rparr>"
  obtain q' es where f: "fold (broadcast_step br ?msg) ds (q, []) = (q', es)" by force
  then have "send_extraction_complete br now version started counts ds q =
      (q', if es = [] then Ok () else Err (CompletionFailed es))"
    by (simp add: send_extraction_complete_def Let_def broadcast_step_def [abs_def])
  moreover have "channel_up br q" using assms by (simp add: channel_up_def)
  note broadcast_up [OF this f]
  moreover have "list_all (\<lambda>i. br_send br i = Sent \<and> br_confirm br i = Confirmed True None) [n..<n + k] \<longleftrightarrow>
      sends_ok br n k \<and> list_all (confirm_ok br) (frame_range n k)" for n k
    by (auto simp: sends_ok_def frame_range_def confirm_ok_def list_all_iff)
  ultimately show ?thesis by (auto simp: exchange_name_def)
qed

section \<open>The total rate\<close>

text \<open>The times at which successive records may go out, taking tokens at the given times.\<close>

fun releases :: "rat list \<Rightarrow> token_bucket \<Rightarrow> rat list" where
  "releases [] b = []"
| "releases (t # ts) b = (let (b', wait) = bucket_take t b in (t + wait) # releases ts b')"

lemma releases_bound:
  assumes "tb_rate b > 0" "sorted (tb_last b # ts)" "k < length ts"
    and "of_nat n + tb_tokens b \<le> c + tb_rate b * (tb_last b - t0)"
  shows "of_nat (n + Suc k) \<le> c + tb_rate b * (releases ts b ! k - t0)"
  using assms
proof (induction ts arbitrary: b k n)
  case (Cons t ts)
  obtain b' w where b': "bucket_take t b = (b', w)" by force
  have t: "t \<ge> tb_last b" "sorted (t # ts)" using Cons.prems(2) by auto
  have parts: "tb_rate b' = tb_rate b" "tb_last b' = t"
    "tb_tokens b' \<le> tb_tokens b + (t - tb_last b) * tb_rate b - 1"
    "- tb_tokens b' \<le> tb_rate b * w"
    using b' t(1) Cons.prems(1) by (auto simp: bucket_take_def Let_def max_def min_def split: if_splits)
  have inv: "of_nat (Suc n) + tb_tokens b' \<le> c + tb_rate b' * (tb_last b' - t0)"
    using parts Cons.prems(4) by (simp add: algebra_simps)
  show ?case
  proof (cases k)
    case 0
    have "of_nat (Suc n) \<le> c + tb_rate b * (t - t0) + tb_rate b * w" using inv parts by simp
    then show ?thesis using 0 by (simp add: b' algebra_simps)
  next
    case (Suc j)
    have "of_nat (Suc n + Suc j) \<le> c + tb_rate b' * (releases ts b' ! j - t0)"
      using Cons.prems Suc parts t(2) inv by (intro Cons.IH) auto
    with Suc parts show ?thesis by (simp add: b')
  qed
qed simp

text \<open>The same from one release to a later one, when the bucket never holds more than its capacity.\<close>

lemma releases_gap:
  assumes "tb_rate b > 0" "1 \<le> tb_capacity b" "sorted (tb_last b # ts)" "i \<le> k" "k < length ts"
  shows "of_nat (Suc (k - i)) \<le> tb_capacity b + tb_rate b * (releases ts b ! k - releases ts b ! i)"
  using assms
proof (induction ts arbitrary: b i k)
  case (Cons t ts)
  obtain b' w where b': "bucket_take t b = (b', w)" by force
  have t: "t \<ge> tb_last b" "sorted (t # ts)" using Cons.prems(3) by auto
  have parts: "tb_rate b' = tb_rate b" "tb_last b' = t" "tb_capacity b' = tb_capacity b"
    "1 + tb_tokens b' + tb_rate b * w \<le> tb_capacity b"
    using b' Cons.prems(1,2) by (auto simp: bucket_take_def Let_def split: if_splits)
  show ?case
  proof (cases i)
    case 0
    show ?thesis
    proof (cases k)
      case (Suc j)
      have "of_nat (1 + Suc j) \<le> tb_capacity b + tb_rate b' * (releases ts b' ! j - (t + w))"
        using Cons.prems Suc parts t(2)
        by (intro releases_bound) (auto simp: algebra_simps)
      then show ?thesis using 0 Suc parts(1) by (simp add: b')
    qed (use 0 Cons.prems(2) in simp)
  next
    case (Suc j)
    then obtain l where l: "k = Suc l" using Cons.prems(4) by (cases k) auto
    have "of_nat (Suc (l - j)) \<le> tb_capacity b' + tb_rate b' * (releases ts b' ! l - releases ts b' ! j)"
      using Cons.prems Suc l parts t(2) by (intro Cons.IH) auto
    then show ?thesis using Suc l parts by (simp add: b')
  qed
qed simp

lemma length_releases [simp]: "length (releases ts b) = length ts"
  by (induction ts arbitrary: b) (simp_all split: prod.split)

lemma releases_at_least: "tb_rate b > 0 \<Longrightarrow> list_all2 (\<le>) ts (releases ts b)"
  by (induction ts arbitrary: b) (auto simp: bucket_take_def Let_def divide_nonpos_pos split: prod.split)

text \<open>Between two releases lies the time the rate needs, so that they come in the order of the requests.\<close>

lemma releases_sorted:
  assumes "tb_rate b > 0" "sorted (tb_last b # ts)"
  shows "sorted (releases ts b)"
  using assms
proof (induction ts arbitrary: b)
  case (Cons t ts)
  obtain b' w where b': "bucket_take t b = (b', w)" by force
  have parts: "tb_rate b' = tb_rate b" "tb_last b' = t" "w = 0 \<or> (w > 0 \<and> tb_rate b' * w = - tb_tokens b')"
    using b' Cons.prems(1) by (auto simp: bucket_take_def Let_def divide_neg_pos split: if_splits)
  have srt: "sorted (releases ts b')" using Cons.IH [of b'] Cons.prems parts by simp
  have "t + w \<le> hd (releases ts b')" if nonempty: "ts \<noteq> []"
  proof -
    obtain u us where ts: "ts = u # us" using nonempty by (cases ts) auto
    obtain b2 w2 where b2: "bucket_take u b' = (b2, w2)" by force
    have le: "t \<le> u" using Cons.prems(2) ts by simp
    have next': "- tb_tokens b2 \<le> tb_rate b' * w2" "tb_tokens b2 \<le> tb_tokens b' + (u - t) * tb_rate b' - 1"
      using b2 parts(1,2) le Cons.prems(1)
      by (auto simp: bucket_take_def Let_def max_def split: if_splits)
    have "tb_rate b' * (t + w) \<le> tb_rate b' * (u + w2)" if "w > 0"
      using next' parts(3) that by (auto simp: algebra_simps)
    moreover have "w2 \<ge> 0" using b2 parts Cons.prems(1) by (auto simp: bucket_take_def Let_def divide_nonpos_pos split: if_splits)
    ultimately show ?thesis using le ts b2 parts Cons.prems(1) by (auto simp: mult_le_cancel_left_pos)
  qed
  then show ?case
    using srt by (cases ts; cases "releases ts b'") (auto simp: b' intro: order_trans)
qed simp

lemma window_count:
  fixes rs :: "rat list"
  assumes "sorted rs" "rate > 0" "0 \<le> T" "0 \<le> c"
    and "\<And>i k. i \<le> k \<Longrightarrow> k < length rs \<Longrightarrow> of_nat (Suc (k - i)) \<le> c + rate * (rs ! k - rs ! i)"
  shows "of_nat (length (filter (\<lambda>r. s \<le> r \<and> r \<le> s + T) rs)) \<le> c + rate * T"
  using assms(1,5)
proof (induction rs)
  case (Cons x rs)
  show ?case
  proof (cases "s \<le> x \<and> x \<le> s + T")
    case False
    have "of_nat (length (filter (\<lambda>r. s \<le> r \<and> r \<le> s + T) rs)) \<le> c + rate * T"
    proof (rule Cons.IH)
      show "sorted rs" using Cons.prems(1) by simp
      show "of_nat (Suc (k - i)) \<le> c + rate * (rs ! k - rs ! i)" if "i \<le> k" "k < length rs" for i k
        using Cons.prems(2) [of "Suc i" "Suc k"] that by simp
    qed
    then show ?thesis by (simp only: filter.simps False if_False)
  next
    case True
    let ?early = "takeWhile (\<lambda>r. r \<le> s + T) rs"
    have "filter (\<lambda>r. s \<le> r \<and> r \<le> s + T) rs = ?early"
      using Cons.prems(1) True
    proof (induction rs)
      case (Cons y ys)
      have "filter (\<lambda>r. s \<le> r \<and> r \<le> s + T) ys = []" if "\<not> y \<le> s + T"
        using Cons.prems(1) that by (auto simp: filter_empty_conv)
      with Cons show ?case by auto
    qed simp
    then have n: "length (filter (\<lambda>r. s \<le> r \<and> r \<le> s + T) (x # rs)) = Suc (length ?early)" using True by simp
    have len: "length ?early \<le> length rs" by (rule length_takeWhile_le)
    have "(x # rs) ! length ?early \<le> s + T"
    proof (cases ?early rule: rev_cases)
      case (snoc zs z)
      then have "(x # rs) ! length ?early = z"
        using takeWhile_nth [of "length zs" "\<lambda>r. r \<le> s + T" rs] by simp
      moreover have "z \<le> s + T" using snoc set_takeWhileD [of z "\<lambda>r. r \<le> s + T" rs] by simp
      ultimately show ?thesis by simp
    qed (use True in simp)
    then have "rate * ((x # rs) ! length ?early - (x # rs) ! 0) \<le> rate * T"
      using True assms(2) by (intro mult_left_mono) auto
    then show ?thesis
      using Cons.prems(2) [of 0 "length ?early"] len n by simp
  qed
qed (use assms in simp)

text \<open>
  C39: pacing bounds the rate over every interval: whatever the times at which the publishers ask, and
  however long the bucket has been idle, at most the burst allowance plus the rate times the length of the
  interval many records are released in it, and none before it was asked for.
\<close>

theorem pacing_bounds_rate:
  assumes "rate > 0" "sorted (t0 # ts)" "0 \<le> T"
  shows "of_nat (length (filter (\<lambda>r. s \<le> r \<and> r \<le> s + T) (releases ts (bucket_new rate t0)))) \<le> max (rate / 10) 1 + rate * T
    \<and> list_all2 (\<le>) ts (releases ts (bucket_new rate t0))"
proof
  let ?b = "bucket_new rate t0"
  have b: "tb_rate ?b = rate" "tb_capacity ?b = max (rate / 10) 1" "tb_last ?b = t0"
    by (simp_all add: bucket_new_def Let_def publish_burst_seconds_def)
  show "of_nat (length (filter (\<lambda>r. s \<le> r \<and> r \<le> s + T) (releases ts ?b))) \<le> max (rate / 10) 1 + rate * T"
  proof (rule window_count)
    show "sorted (releases ts ?b)" using releases_sorted [of ?b ts] assms b by simp
    show "of_nat (Suc (k - i)) \<le> max (rate / 10) 1 + rate * (releases ts ?b ! k - releases ts ?b ! i)"
      if "i \<le> k" "k < length (releases ts ?b)" for i k
      using releases_gap [of ?b ts i k] assms b that by simp
  qed (use assms in auto)
  show "list_all2 (\<le>) ts (releases ts ?b)" using releases_at_least [of ?b ts] assms(1) b by simp
qed

section \<open>Samples\<close>

definition fine_broker :: broker where
  "fine_broker = \<lparr>br_connects = (\<lambda>_. True), br_connected = (\<lambda>_. True), br_declares = (\<lambda>_. True),
     br_send = (\<lambda>_. Sent), br_confirm = (\<lambda>_. Confirmed True None), br_clock = (\<lambda>n. of_nat n)\<rparr>"

text \<open>A broker that nacks the second frame.\<close>

definition nacking_broker :: broker where
  "nacking_broker = fine_broker\<lparr>br_confirm := (\<lambda>n. Confirmed (n \<noteq> 1) None)\<rparr>"

definition open_queue :: message_queue where
  "open_queue = \<lparr>mq_url = ''amqp://mq'', mq_max_retries = 3, mq_exchange_prefix = ''groovemap-discogs'', mq_channel = True,
     mq_connection = True, mq_pacer = None, mq_connect_calls = 1, mq_status_calls = 0, mq_declare_calls = 0,
     mq_clock_calls = 0, mq_sent = [], mq_confirmed = [], mq_sleeps = [], mq_waits = []\<rparr>"

theorem extraction_complete_attempts_all_witness:
  "length (mq_sent (fst (send_extraction_complete nacking_broker 5 ''20260101'' 1 [] discogs_types open_queue))) = 4
    \<and> \<not> is_ok (snd (send_extraction_complete nacking_broker 5 ''20260101'' 1 [] discogs_types open_queue))"
proof -
  have "mq_channel open_queue" "br_connected nacking_broker = (\<lambda>_. True)"
    by (simp_all add: open_queue_def nacking_broker_def fine_broker_def)
  from extraction_complete_attempts_all [OF this, of 5 "''20260101''" 1 "[]" discogs_types]
  show ?thesis
    by (auto simp: open_queue_def discogs_types_def nacking_broker_def fine_broker_def case_prod_beta upt_conv_Cons Let_def)
qed

text \<open>A bucket left idle for a hundred seconds: five requests at once, and what goes out in the second that follows.\<close>

theorem pacing_bounds_rate_witness:
  "(of_nat (length (filter (\<lambda>r. 100 \<le> r \<and> r \<le> 100 + 1) (releases [0, 100, 100, 100, 100, 100] (bucket_new 2 0)))) :: rat)
      \<le> max (2 / 10) 1 + 2 * 1
    \<and> length (filter (\<lambda>r. 100 \<le> r \<and> r \<le> 100 + 1) (releases [0, 100, 100, 100, 100, 100] (bucket_new 2 0))) = 3"
  using pacing_bounds_rate [of 2 0 "[0, 100, 100, 100, 100, 100]" 1 100]
  by (simp add: bucket_new_def bucket_take_def Let_def publish_burst_seconds_def)

end
