(* ===== verification/Runtime.thy ===== *)
theory Runtime
  imports Marker_Lifecycle Publishing
begin

text \<open>
  \<open>src/runtime.rs\<close>: the shared state, the batching and publishing stages, the trigger and the
  outcome of the first run.  A stage is the list of what its successive receives return; a bounded
  channel is the function saying which sends find a receiver.  Saving the marker is recorded in a
  log of the markers offered to the disk.
\<close>

section \<open>The shared state\<close>

datatype extraction_status = StatusIdle | StatusRunning | StatusCompleted | StatusWaiting | StatusFailed

fun status_str :: "extraction_status \<Rightarrow> string" where
  "status_str StatusIdle = ''idle''"
| "status_str StatusRunning = ''running''"
| "status_str StatusCompleted = ''completed''"
| "status_str StatusWaiting = ''waiting''"
| "status_str StatusFailed = ''failed''"

record extractor_state =
  es_extraction_progress :: progress
  es_last_extraction_time :: "(data_type, time) omap"
  es_completed_files :: "string set"
  es_active_connections :: "(data_type, string) omap"
  es_error_count :: nat
  es_extraction_status :: extraction_status

definition es_default :: extractor_state where
  "es_default = \<lparr>es_extraction_progress = progress_default, es_last_extraction_time = [],
     es_completed_files = {}, es_active_connections = [], es_error_count = 0,
     es_extraction_status = StatusIdle\<rparr>"

text \<open>\<open>save\<close> stamps the marker in memory, whether or not the write succeeds.\<close>

definition stamp :: "time \<Rightarrow> state_marker \<Rightarrow> state_marker" where
  "stamp now m = m\<lparr>sm_last_updated := now\<rparr>"

section \<open>The batcher\<close>

record batcher_config =
  bc_batch_size :: nat
  bc_data_type :: data_type
  bc_file_name :: string
  bc_state_save_interval :: nat

text \<open>
  What one turn of the loop sees: a message (with the clock), or nothing within 100 ms (and whether
  the last flush was more than a second ago).  The list ends when the channel is closed.
\<close>

datatype batch_input = Received time data_message | TimedOut bool

record batcher_state =
  bs_batch :: "data_message list"
  bs_total_records :: nat
  bs_total_batches :: nat
  bs_last_state_save :: nat
  bs_state :: extractor_state
  bs_marker :: state_marker
  bs_saved :: "state_marker list"
  bs_sent :: "data_message list list"

definition batcher_init :: "extractor_state \<Rightarrow> state_marker \<Rightarrow> batcher_state" where
  "batcher_init s m = \<lparr>bs_batch = [], bs_total_records = 0, bs_total_batches = 0, bs_last_state_save = 0,
     bs_state = s, bs_marker = m, bs_saved = [], bs_sent = []\<rparr>"

datatype stage_error = ReceiverGone

text \<open>Hand the batch on; the receiver may be gone.\<close>

definition flush_batch :: "(nat \<Rightarrow> bool) \<Rightarrow> batcher_state \<Rightarrow> batcher_state \<times> (stage_error + unit)" where
  "flush_batch accepts st =
     (let batch = bs_batch st; st1 = st\<lparr>bs_batch := []\<rparr> in
      if accepts (length (bs_sent st)) then
        (st1\<lparr>bs_sent := bs_sent st @ [batch], bs_total_batches := bs_total_batches st + 1\<rparr>, Ok ())
      else (st1, Err ReceiverGone))"

definition save_progress :: "batcher_config \<Rightarrow> time \<Rightarrow> batcher_state \<Rightarrow> batcher_state" where
  "save_progress cfg now st =
     (let m = stamp now (update_file_progress now (bc_file_name cfg) (bs_total_records st) (bs_total_records st)
            (bs_total_batches st) (bs_marker st))
      in st\<lparr>bs_marker := m, bs_saved := bs_saved st @ [m]\<rparr>)"

text \<open>\<open>is_multiple_of\<close>: of zero, only zero is a multiple.\<close>

definition is_multiple_of :: "nat \<Rightarrow> nat \<Rightarrow> bool" where
  "is_multiple_of n k = (if k = 0 then n = 0 else n mod k = 0)"

definition count_record :: "batcher_config \<Rightarrow> time \<Rightarrow> data_message \<Rightarrow> batcher_state \<Rightarrow> batcher_state" where
  "count_record cfg now msg st =
     (let s = bs_state st in
      st\<lparr>bs_batch := bs_batch st @ [msg], bs_total_records := bs_total_records st + 1,
         bs_state := s\<lparr>es_extraction_progress := pg_increment (es_extraction_progress s) (bc_data_type cfg),
           es_last_extraction_time := oinsert (bc_data_type cfg) now (es_last_extraction_time s)\<rparr>\<rparr>)"

definition on_received ::
  "batcher_config \<Rightarrow> (nat \<Rightarrow> bool) \<Rightarrow> time \<Rightarrow> data_message \<Rightarrow> batcher_state \<Rightarrow> batcher_state \<times> (stage_error + unit)" where
  "on_received cfg accepts now msg st =
     (let st1 = count_record cfg now msg st;
          n = bs_total_records st1;
          st2 = (if is_multiple_of n (bc_state_save_interval cfg) \<and> n \<noteq> bs_last_state_save st1
                 then save_progress cfg now (st1\<lparr>bs_last_state_save := n\<rparr>) else st1)
      in if length (bs_batch st2) \<ge> bc_batch_size cfg then flush_batch accepts st2 else (st2, Ok ()))"

definition on_timeout :: "(nat \<Rightarrow> bool) \<Rightarrow> bool \<Rightarrow> batcher_state \<Rightarrow> batcher_state \<times> (stage_error + unit)" where
  "on_timeout accepts old st =
     (if bs_batch st \<noteq> [] \<and> old then flush_batch accepts st else (st, Ok ()))"

text \<open>The loop, the flush at the end of the channel and the final progress; \<open>now\<close> is the clock then.\<close>

fun message_batcher ::
  "batcher_config \<Rightarrow> (nat \<Rightarrow> bool) \<Rightarrow> time \<Rightarrow> batch_input list \<Rightarrow> batcher_state \<Rightarrow> batcher_state \<times> (stage_error + unit)" where
  "message_batcher cfg accepts now [] st =
     (case (if bs_batch st \<noteq> [] then flush_batch accepts st else (st, Ok ())) of
        (st1, Inl e) \<Rightarrow> (st1, Err e)
      | (st1, Inr _) \<Rightarrow> (save_progress cfg now st1, Ok ()))"
| "message_batcher cfg accepts now (i # is) st =
     (case (case i of Received t msg \<Rightarrow> on_received cfg accepts t msg st | TimedOut old \<Rightarrow> on_timeout accepts old st) of
        (st1, Inl e) \<Rightarrow> (st1, Err e)
      | (st1, Inr _) \<Rightarrow> message_batcher cfg accepts now is st1)"

section \<open>The publisher\<close>

text \<open>Generic in the queue: \<open>pub\<close> is the batch operation of the publisher port.\<close>

fun message_publisher ::
  "(data_message list \<Rightarrow> 'q \<Rightarrow> 'q \<times> ('e + unit)) \<Rightarrow> data_message list list \<Rightarrow> 'q \<Rightarrow> extractor_state
    \<Rightarrow> 'q \<times> extractor_state \<times> ('e + unit)" where
  "message_publisher pub [] q s = (q, s, Ok ())"
| "message_publisher pub (batch # batches) q s =
     (case pub batch q of
        (q1, Inr _) \<Rightarrow> message_publisher pub batches q1 s
      | (q1, Inl e) \<Rightarrow> (q1, s\<lparr>es_error_count := es_error_count s + 1\<rparr>, Err e))"

section \<open>Small services\<close>

text \<open>The trigger cell: one poll takes what is there.\<close>

fun take_trigger :: "bool option \<Rightarrow> bool option \<times> bool option" where
  "take_trigger (Some force) = (None, Some force)"
| "take_trigger None = (None, None)"

text \<open>The polls of \<open>wait_for_trigger\<close>: the cell as each poll finds it.\<close>

fun wait_for_trigger :: "bool option list \<Rightarrow> bool option" where
  "wait_for_trigger [] = None"
| "wait_for_trigger (cell # cells) =
     (case take_trigger cell of (_, Some force) \<Rightarrow> Some force | _ \<Rightarrow> wait_for_trigger cells)"

definition reset_status_after_failed_check :: "extractor_state \<Rightarrow> extractor_state" where
  "reset_status_after_failed_check s = s\<lparr>es_extraction_status := StatusFailed\<rparr>"

datatype run_error = InitialRunFailed string

definition initial_run_outcome :: "bool \<Rightarrow> bool \<Rightarrow> string \<Rightarrow> run_error + unit" where
  "initial_run_outcome success shutdown_requested source_label =
     (if shutdown_requested then Ok ()
      else if \<not> success then Err (InitialRunFailed source_label)
      else Ok ())"

text \<open>The stalled entity types the reporter warns about.\<close>

definition stalled_types :: "time \<Rightarrow> extractor_state \<Rightarrow> string list" where
  "stalled_types now s =
     filter_map (\<lambda>(d, t). if \<not> (\<exists>f \<in> es_completed_files s. contains f (dt_str d)) \<and> now - t > 120 * 1000000000
       then Some (dt_str d) else None) (es_last_extraction_time s)"

section \<open>The batcher's contract\<close>

definition received :: "batch_input list \<Rightarrow> data_message list" where
  "received is = filter_map (\<lambda>i. case i of Received t m \<Rightarrow> Some m | TimedOut b \<Rightarrow> None) is"

lemma received_simps [simp]:
  "received [] = []" "received (Received t m # is) = m # received is" "received (TimedOut b # is) = received is"
  by (simp_all add: received_def)

text \<open>The invariant of the loop, after the messages \<open>ms\<close>.\<close>

definition batcher_inv :: "batcher_config \<Rightarrow> nat \<Rightarrow> data_message list \<Rightarrow> batcher_state \<Rightarrow> bool" where
  "batcher_inv cfg n0 ms st \<longleftrightarrow>
     concat (bs_sent st) @ bs_batch st = ms
     \<and> bs_total_records st = length ms \<and> bs_total_batches st = length (bs_sent st)
     \<and> pg_get (es_extraction_progress (bs_state st)) (bc_data_type cfg) = n0 + length ms
     \<and> list_all (\<lambda>b. b \<noteq> [] \<and> length b \<le> max 1 (bc_batch_size cfg)) (bs_sent st)
     \<and> (bs_batch st = [] \<or> length (bs_batch st) < bc_batch_size cfg)"

lemma flush_inv:
  assumes "flush_batch accepts st = (st', Ok ())" "bs_batch st \<noteq> []" "length (bs_batch st) \<le> max 1 (bc_batch_size cfg)"
    and "concat (bs_sent st) @ bs_batch st = ms" "bs_total_records st = length ms" "bs_total_batches st = length (bs_sent st)"
    and "pg_get (es_extraction_progress (bs_state st)) (bc_data_type cfg) = n0 + length ms"
    and "list_all (\<lambda>b. b \<noteq> [] \<and> length b \<le> max 1 (bc_batch_size cfg)) (bs_sent st)"
  shows "batcher_inv cfg n0 ms st'"
  using assms by (auto simp: flush_batch_def Let_def batcher_inv_def split: if_splits)

lemma save_progress_parts [simp]:
  "bs_batch (save_progress cfg now st) = bs_batch st" "bs_sent (save_progress cfg now st) = bs_sent st"
  "bs_total_records (save_progress cfg now st) = bs_total_records st"
  "bs_total_batches (save_progress cfg now st) = bs_total_batches st"
  "bs_state (save_progress cfg now st) = bs_state st"
  by (simp_all add: save_progress_def Let_def)

lemma on_received_inv:
  assumes "batcher_inv cfg n0 ms st" "on_received cfg accepts now m st = (st', Ok ())"
  shows "batcher_inv cfg n0 (ms @ [m]) st'"
proof -
  let ?st1 = "count_record cfg now m st"
  define st2 where "st2 = (if is_multiple_of (bs_total_records ?st1) (bc_state_save_interval cfg)
      \<and> bs_total_records ?st1 \<noteq> bs_last_state_save ?st1
    then save_progress cfg now (?st1\<lparr>bs_last_state_save := bs_total_records ?st1\<rparr>) else ?st1)"
  have same: "bs_batch st2 = bs_batch st @ [m]" "bs_sent st2 = bs_sent st" "bs_total_records st2 = bs_total_records st + 1"
    "bs_total_batches st2 = bs_total_batches st"
    "pg_get (es_extraction_progress (bs_state st2)) (bc_data_type cfg) = pg_get (es_extraction_progress (bs_state st)) (bc_data_type cfg) + 1"
    by (auto simp: st2_def count_record_def Let_def pg_increment_add)
  have run: "(if length (bs_batch st2) \<ge> bc_batch_size cfg then flush_batch accepts st2 else (st2, Ok ())) = (st', Ok ())"
    using assms(2) unfolding on_received_def Let_def st2_def .
  show ?thesis
  proof (cases "length (bs_batch st2) \<ge> bc_batch_size cfg")
    case True
    with run have "flush_batch accepts st2 = (st', Ok ())" by simp
    then show ?thesis
      by (rule flush_inv) (use assms(1) same in \<open>auto simp: batcher_inv_def\<close>)
  next
    case False
    with run assms(1) same show ?thesis by (auto simp: batcher_inv_def)
  qed
qed

lemma on_timeout_inv:
  assumes "batcher_inv cfg n0 ms st" "on_timeout accepts old st = (st', Ok ())"
  shows "batcher_inv cfg n0 ms st'"
proof (cases "bs_batch st \<noteq> [] \<and> old")
  case True
  with assms(2) have "flush_batch accepts st = (st', Ok ())" by (simp add: on_timeout_def)
  then show ?thesis
    by (rule flush_inv) (use assms(1) True in \<open>auto simp: batcher_inv_def\<close>)
qed (use assms in \<open>auto simp: on_timeout_def\<close>)

lemma message_batcher_inv:
  assumes "batcher_inv cfg n0 ms st" "message_batcher cfg accepts now is st = (st', Ok ())"
  shows "\<exists>st1. batcher_inv cfg n0 (ms @ received is) st1 \<and> bs_batch st1 = [] \<and> st' = save_progress cfg now st1"
  using assms
proof (induction "is" arbitrary: ms st)
  case Nil
  show ?case
  proof (cases "bs_batch st = []")
    case True
    with Nil show ?thesis by auto
  next
    case False
    then obtain st1 where f: "flush_batch accepts st = (st1, Ok ())" "st' = save_progress cfg now st1"
      using Nil.prems(2) by (auto split: prod.splits sum.splits)
    have "batcher_inv cfg n0 ms st1"
      using f(1) by (rule flush_inv) (use Nil.prems(1) False in \<open>auto simp: batcher_inv_def\<close>)
    moreover have "bs_batch st1 = []" using f(1) by (auto simp: flush_batch_def Let_def split: if_splits)
    ultimately show ?thesis using f(2) by auto
  qed
next
  case (Cons i "is")
  show ?case
  proof (cases i)
    case (Received t m)
    then obtain st1 where s: "on_received cfg accepts t m st = (st1, Ok ())"
      "message_batcher cfg accepts now is st1 = (st', Ok ())"
      using Cons.prems(2) by (auto split: prod.splits sum.splits)
    from Cons.IH [OF on_received_inv [OF Cons.prems(1) s(1)] s(2)] show ?thesis by (simp add: Received)
  next
    case (TimedOut old)
    then obtain st1 where s: "on_timeout accepts old st = (st1, Ok ())"
      "message_batcher cfg accepts now is st1 = (st', Ok ())"
      using Cons.prems(2) by (auto split: prod.splits sum.splits)
    from Cons.IH [OF on_timeout_inv [OF Cons.prems(1) s(1)] s(2)] show ?thesis by (simp add: TimedOut)
  qed
qed

lemma message_batcher_ok:
  assumes "accepts = (\<lambda>_. True)"
  shows "snd (message_batcher cfg accepts now is st) = Ok ()"
proof (induction "is" arbitrary: st)
  case Nil
  then show ?case by (simp add: flush_batch_def Let_def assms)
next
  case (Cons i "is")
  have "snd (on_received cfg accepts t m st) = Ok ()" "snd (on_timeout accepts old st) = Ok ()" for t m old
    by (auto simp: on_received_def on_timeout_def flush_batch_def Let_def assms)
  then show ?case
    using Cons by (cases i) (simp_all add: case_prod_beta)
qed

text \<open>
  C22: batching loses, duplicates and reorders nothing: when the batcher finishes, the batches handed
  on are the received messages cut into non-empty pieces of at most the batch size, and the
  progress counter and the saved marker say exactly how many records and batches there were.
\<close>

theorem batches_partition:
  assumes "message_batcher cfg accepts now is (batcher_init s m) = (st, Ok ())"
  shows "concat (bs_sent st) = received is
    \<and> list_all (\<lambda>b. b \<noteq> [] \<and> length b \<le> max 1 (bc_batch_size cfg)) (bs_sent st)
    \<and> pg_get (es_extraction_progress (bs_state st)) (bc_data_type cfg)
        = pg_get (es_extraction_progress s) (bc_data_type cfg) + length (received is)
    \<and> bs_saved st \<noteq> [] \<and> last (bs_saved st) = bs_marker st
    \<and> (case map_of (progress_of (bs_marker st)) (bc_file_name cfg) of
         Some p \<Rightarrow> fp_records_extracted p = length (received is) \<and> fp_messages_published p = length (received is)
           \<and> fp_batches_sent p = length (bs_sent st)
       | None \<Rightarrow> True)"
proof -
  have "batcher_inv cfg (pg_get (es_extraction_progress s) (bc_data_type cfg)) [] (batcher_init s m)"
    by (simp add: batcher_inv_def batcher_init_def)
  from message_batcher_inv [OF this assms] obtain st1 where st1:
    "batcher_inv cfg (pg_get (es_extraction_progress s) (bc_data_type cfg)) (received is) st1" "bs_batch st1 = []"
    "st = save_progress cfg now st1" by auto
  then show ?thesis
    by (auto simp: batcher_inv_def save_progress_def Let_def stamp_def progress_update map_of_omodify split: option.split)
qed

theorem batches_partition_witness:
  "map length (bs_sent (fst (message_batcher \<lparr>bc_batch_size = 2, bc_data_type = Labels, bc_file_name = ''f'', bc_state_save_interval = 0\<rparr>
     (\<lambda>_. True) 9 (replicate 3 (Received 1 \<lparr>dm_id = ''1'', dm_sha256 = [], dm_data = JNull, dm_raw_xml = None\<rparr>))
     (batcher_init es_default (sm_new 0 ''v''))))) = [2, 1]"
proof -
  let ?cfg = "\<lparr>bc_batch_size = 2, bc_data_type = Labels, bc_file_name = ''f'', bc_state_save_interval = 0\<rparr>"
  let ?is = "replicate 3 (Received 1 \<lparr>dm_id = ''1'', dm_sha256 = [], dm_data = JNull, dm_raw_xml = None\<rparr>)"
  let ?r = "message_batcher ?cfg (\<lambda>_. True) 9 ?is (batcher_init es_default (sm_new 0 ''v''))"
  have "?r = (fst ?r, Ok ())"
    using message_batcher_ok [of "\<lambda>_. True" ?cfg 9 ?is "batcher_init es_default (sm_new 0 ''v'')"] by (simp add: prod_eq_iff)
  from batches_partition [OF this] have "concat (bs_sent (fst ?r)) = received ?is" by simp
  moreover have "map length (bs_sent (fst ?r)) = [2, 1]" by code_simp
  ultimately show ?thesis by simp
qed

section \<open>The publisher port\<close>

text \<open>
  What the publishing stage relies on: a successful batch is delivered in full and in order, a
  failed one delivers at most a prefix.
\<close>

locale publisher_port =
  fixes publish_to :: "data_message list \<Rightarrow> 'q \<Rightarrow> 'q \<times> ('e + unit)"
    and delivered :: "'q \<Rightarrow> data_message list"
  assumes delivers: "publish_to ms q = (q', Ok u) \<Longrightarrow> delivered q' = delivered q @ ms"
    and fails: "publish_to ms q = (q', Err e) \<Longrightarrow> \<exists>k \<le> length ms. delivered q' = delivered q @ take k ms"
begin

lemma stage_delivers: "message_publisher publish_to bs q s = (q', s', Ok u) \<Longrightarrow> delivered q' = delivered q @ concat bs \<and> s' = s"
  by (induction bs arbitrary: q) (auto dest: delivers split: prod.splits sum.splits)

lemma stage_fails:
  "message_publisher publish_to bs q s = (q', s', Err e) \<Longrightarrow>
     s' = s\<lparr>es_error_count := es_error_count s + 1\<rparr> \<and> (\<exists>k. delivered q' = delivered q @ take k (concat bs))"
proof (induction bs arbitrary: q)
  case (Cons b bs)
  obtain q1 r where p: "publish_to b q = (q1, r)" by force
  show ?case
  proof (cases r)
    case (Inl e')
    then obtain k where "k \<le> length b" "delivered q1 = delivered q @ take k b" using fails p by blast
    with Cons.prems show ?thesis by (auto simp: p Inl intro!: exI [of _ k])
  next
    case (Inr u)
    then have d: "delivered q1 = delivered q @ b" using delivers p by blast
    have "message_publisher publish_to bs q1 s = (q', s', Err e)" using Cons.prems by (simp add: p Inr)
    from Cons.IH [OF this] obtain k where
      "s' = s\<lparr>es_error_count := es_error_count s + 1\<rparr>" "delivered q' = delivered q1 @ take k (concat bs)" by blast
    with d show ?thesis by (auto intro!: exI [of _ "length b + k"])
  qed
qed simp

end

text \<open>The data messages the broker confirmed.\<close>

definition delivered_data :: "message_queue \<Rightarrow> data_message list" where
  "delivered_data q = filter_map (\<lambda>(_, m). case m of Data d \<Rightarrow> Some d | _ \<Rightarrow> None) (mq_confirmed q)"

lemma delivered_frames: "filter_map (\<lambda>(_, m). case m of Data d \<Rightarrow> Some d | _ \<Rightarrow> None) (frames ex ms) = ms"
  unfolding frames_def by (induction ms) auto

lemma take_frames: "take k (frames ex ms) = frames ex (take k ms)"
  by (simp add: frames_def take_map)

interpretation mq_port: publisher_port "\<lambda>ms. publish_batch br ms d" delivered_data for br d
proof unfold_locales
  fix ms q q' u
  assume p: "publish_batch br ms d q = (q', Ok u)"
  obtain q1 c where g: "get_channel br q = (q1, c)" by force
  from publish_batch_cases [OF p g] show "delivered_data q' = delivered_data q @ ms"
    by (auto simp: delivered_data_def take_frames delivered_frames)
next
  fix ms q q' e
  assume p: "publish_batch br ms d q = (q', Err e)"
  obtain q1 c where g: "get_channel br q = (q1, c)" by force
  from publish_batch_cases [OF p g] show "\<exists>k \<le> length ms. delivered_data q' = delivered_data q @ take k ms"
    by (auto simp: delivered_data_def take_frames delivered_frames)
qed

text \<open>
  Publishing delivers the batches in order: when the stage succeeds the broker has confirmed
  exactly their concatenation, when it fails exactly one error is counted and what was confirmed
  is a prefix of it.
\<close>

theorem publisher_delivers:
  "(let (q', s', r) = message_publisher (\<lambda>ms. publish_batch br ms d) bs q s in
     if is_ok r then delivered_data q' = delivered_data q @ concat bs \<and> s' = s
     else s' = s\<lparr>es_error_count := es_error_count s + 1\<rparr>
       \<and> (\<exists>k. delivered_data q' = delivered_data q @ take k (concat bs)))"
proof -
  obtain q' s' r where p: "message_publisher (\<lambda>ms. publish_batch br ms d) bs q s = (q', s', r)"
    using prod_cases3 by blast
  show ?thesis
    using mq_port.stage_delivers [of br d bs q s q' s'] mq_port.stage_fails [of br d bs q s q' s'] p
    by (cases r) auto
qed

end
