(* ===== verification/Pipeline_Stages.thy ===== *)
theory Pipeline_Stages
  imports Flagged_Writer Media_Taxonomy Identifiers Companies Normalize Data_Types
begin

text \<open>
  The two record stages of \<open>src/discogs/mod.rs\<close>: the optional validator and the normaliser that
  always runs.  A stage maps the records it receives to the records it sends; \<open>accepts n\<close> says
  whether the n-th send finds a receiver.
\<close>

section \<open>The normaliser\<close>

text \<open>Unicode upper-casing, the JSON serialiser and SHA-256.\<close>

record finisher =
  fi_to_upper :: "string \<Rightarrow> string"
  fi_to_text :: "json \<Rightarrow> string"
  fi_sha256 :: "string \<Rightarrow> string"

definition finish_record :: "finisher \<Rightarrow> data_type \<Rightarrow> json \<Rightarrow> json" where
  "finish_record fi dt record =
     (let normalized = normalize_record (dt_str dt) record in
      if dt = Releases then
        attach_companies_block
          (attach_identifiers_block (fi_to_upper fi)
            (attach_media_block discogs_taxonomy normalized))
      else normalized)"

definition normalize_message :: "finisher \<Rightarrow> data_type \<Rightarrow> data_message \<Rightarrow> data_message" where
  "normalize_message fi dt msg =
     (let data = finish_record fi dt (dm_data msg) in
      msg\<lparr>dm_data := data, dm_sha256 := calculate_content_hash (fi_to_text fi) (fi_sha256 fi) data\<rparr>)"

fun message_normalizer ::
  "finisher \<Rightarrow> data_type \<Rightarrow> (nat \<Rightarrow> bool) \<Rightarrow> data_message list \<Rightarrow> data_message list \<Rightarrow> data_message list" where
  "message_normalizer fi dt accepts [] sent = sent"
| "message_normalizer fi dt accepts (msg # msgs) sent =
     (if accepts (length sent) then message_normalizer fi dt accepts msgs (sent @ [normalize_message fi dt msg])
      else sent)"

section \<open>The validator\<close>

text \<open>
  The compiled rules and what the environment answers: \<open>ve_io n\<close> is the answer to the n-th call of
  the flagged-record writer, \<open>ve_report_dir\<close> whether the directory of a report can be made.
\<close>

record 'r validator_env =
  ve_host :: "'r host"
  ve_rules :: "'r compiled_config"
  ve_alnum :: "rchar \<Rightarrow> bool"
  ve_io :: "nat \<Rightarrow> io_results"
  ve_report_dir :: "string \<Rightarrow> bool"

record validator_state =
  vs_report :: quality_report
  vs_writer :: flagged_writer
  vs_calls :: nat
  vs_effects :: "fs_effect list"
  vs_sent :: "data_message list"

definition validator_init :: "path \<Rightarrow> string \<Rightarrow> validator_state" where
  "validator_init discogs_root version =
     \<lparr>vs_report = report_new, vs_writer = writer_new discogs_root version, vs_calls = 0,
      vs_effects = [], vs_sent = []\<rparr>"

definition writer_result :: "flagged_writer \<times> fs_effect list \<Rightarrow> validator_state \<Rightarrow> validator_state" where
  "writer_result r st =
     st\<lparr>vs_writer := fst r, vs_effects := vs_effects st @ snd r, vs_calls := vs_calls st + 1\<rparr>"

definition on_skip :: "'r validator_env \<Rightarrow> string \<Rightarrow> data_message \<Rightarrow> skip_info \<Rightarrow> validator_state \<Rightarrow> validator_state" where
  "on_skip env dt msg info st =
     (let st1 = st\<lparr>vs_report := record_skip dt (dm_id msg) (si_reason info) (vs_report st)\<rparr>
      in writer_result
           (write_skip (ve_alnum env) (ve_io env (vs_calls st1)) dt (dm_id msg) info (dm_raw_xml msg) (dm_data msg) (vs_writer st1))
           st1)"

definition on_violation :: "'r validator_env \<Rightarrow> string \<Rightarrow> data_message \<Rightarrow> violation \<Rightarrow> validator_state \<Rightarrow> validator_state" where
  "on_violation env dt msg v st =
     (let st1 = st\<lparr>vs_report := record_violation dt (vi_rule_name v) (vi_severity v) (vs_report st)\<rparr>;
          capture_files = (vi_severity v = Error \<or> vi_severity v = Warning)
      in writer_result
           (write_violation (ve_alnum env) (ve_io env (vs_calls st1)) dt (dm_id msg) v (dm_raw_xml msg) (dm_data msg)
              capture_files (vs_writer st1))
           st1)"

text \<open>One record: the new state and what is sent on, nothing for a skipped record.\<close>

definition validate_message ::
  "'r validator_env \<Rightarrow> string \<Rightarrow> data_message \<Rightarrow> validator_state \<Rightarrow> (validator_state \<times> data_message option) option" where
  "validate_message env dt msg st =
     (let st1 = st\<lparr>vs_report := increment_total dt (vs_report st)\<rparr> in
      case should_skip_record (ve_host env) (ve_rules env) dt (dm_data msg) of
        Some info \<Rightarrow> Some (on_skip env dt msg info st1, None)
      | None \<Rightarrow>
          (let (data, actions) = apply_filters (ve_host env) (ve_rules env) dt (dm_data msg);
               msg1 = msg\<lparr>dm_data := data\<rparr>;
               st2 = st1\<lparr>vs_report := record_filter_actions dt actions (vs_report st1)\<rparr>
           in map_option (\<lambda>violations. (fold (on_violation env dt msg1) violations st2, Some msg1))
                (evaluate_rules (ve_host env) (ve_rules env) dt data)))"

fun validate_all ::
  "'r validator_env \<Rightarrow> (nat \<Rightarrow> bool) \<Rightarrow> string \<Rightarrow> data_message list \<Rightarrow> validator_state \<Rightarrow> validator_state option" where
  "validate_all env accepts dt [] st = Some st"
| "validate_all env accepts dt (msg # msgs) st =
     (case validate_message env dt msg st of
        None \<Rightarrow> None
      | Some (st1, None) \<Rightarrow> validate_all env accepts dt msgs st1
      | Some (st1, Some msg1) \<Rightarrow>
          (if accepts (length (vs_sent st1)) then
             validate_all env accepts dt msgs (st1\<lparr>vs_sent := vs_sent st1 @ [msg1]\<rparr>)
           else Some st1))"

text \<open>The stage: the report, what is sent and what is written; \<open>None\<close> would be a panic.\<close>

definition message_validator ::
  "'r validator_env \<Rightarrow> (nat \<Rightarrow> bool) \<Rightarrow> data_message list \<Rightarrow> string \<Rightarrow> path \<Rightarrow> string
    \<Rightarrow> (quality_report \<times> data_message list \<times> fs_effect list) option" where
  "message_validator env accepts msgs dt discogs_root version =
     map_option
       (\<lambda>st. (vs_report st, vs_sent st,
          vs_effects st @ write_report (ve_report_dir env) (vs_report st) version (vs_writer st)))
       (validate_all env accepts dt msgs (validator_init discogs_root version))"

section \<open>What the normaliser sends\<close>

lemma normalizer_sends:
  "message_normalizer fi dt (\<lambda>_. True) msgs sent = sent @ map (normalize_message fi dt) msgs"
  by (induction msgs arbitrary: sent) auto

lemma normalizer_prefix:
  "\<exists>k \<le> length msgs. message_normalizer fi dt accepts msgs sent = sent @ map (normalize_message fi dt) (take k msgs)"
proof (induction msgs arbitrary: sent)
  case (Cons m ms)
  show ?case
  proof (cases "accepts (length sent)")
    case True
    obtain k where "k \<le> length ms"
      "message_normalizer fi dt accepts ms (sent @ [normalize_message fi dt m])
        = (sent @ [normalize_message fi dt m]) @ map (normalize_message fi dt) (take k ms)"
      using Cons by blast
    with True show ?thesis by (auto intro!: exI [of _ "Suc k"])
  qed (auto intro!: exI [of _ 0])
qed simp

text \<open>
  Whatever the receiver does, the normaliser sends the normalised forms of a prefix of its
  input in order, of all of it when the receiver stays; each keeps its identifier and its raw XML
  and carries the hash of exactly the data it is sent with.
\<close>

theorem normalizer_output:
  "\<exists>k \<le> length msgs. message_normalizer fi dt accepts msgs [] = map (normalize_message fi dt) (take k msgs)
     \<and> (if accepts = (\<lambda>_. True) then k = length msgs else True)
     \<and> list_all2 (\<lambda>m m'. dm_id m' = dm_id m \<and> dm_raw_xml m' = dm_raw_xml m
          \<and> dm_sha256 m' = fi_sha256 fi (fi_to_text fi (dm_data m'))
          \<and> dm_data m' = finish_record fi dt (dm_data m)) (take k msgs) (message_normalizer fi dt accepts msgs [])"
proof -
  obtain k where k: "k \<le> length msgs"
    "message_normalizer fi dt accepts msgs [] = map (normalize_message fi dt) (take k msgs)"
    "if accepts = (\<lambda>_. True) then k = length msgs else True"
  proof (cases "accepts = (\<lambda>_. True)")
    case True
    then show ?thesis using that [of "length msgs"] by (simp add: normalizer_sends)
  next
    case False
    obtain k where "k \<le> length msgs"
      "message_normalizer fi dt accepts msgs [] = [] @ map (normalize_message fi dt) (take k msgs)"
      using normalizer_prefix by blast
    with False that [of k] show ?thesis by simp
  qed
  then show ?thesis
    by (intro exI [of _ k])
      (simp add: list_all2_map2 list.rel_refl_strong normalize_message_def Let_def calculate_content_hash_def)
qed

section \<open>What the validator does\<close>

text \<open>The events of a record in the report, and the calls of the writer.\<close>

definition record_violations :: "'r validator_env \<Rightarrow> string \<Rightarrow> json \<Rightarrow> violation list" where
  "record_violations env dt data =
     concat (map (\<lambda>r. map (violation_of r) (bad_values (ve_host env) (cr_condition r) (resolve_field data (cr_field r))))
       (rules_for (ve_rules env) dt))"

definition record_events :: "'r validator_env \<Rightarrow> string \<Rightarrow> data_message \<Rightarrow> report_event list" where
  "record_events env dt msg =
     TotalEvent dt #
     (case should_skip_record (ve_host env) (ve_rules env) dt (dm_data msg) of
        Some info \<Rightarrow> [SkipEvent dt (dm_id msg) (si_reason info)]
      | None \<Rightarrow>
          (let (data, actions) = apply_filters (ve_host env) (ve_rules env) dt (dm_data msg)
           in FilterEvent dt actions
             # map (\<lambda>v. ViolationEvent dt (vi_rule_name v) (vi_severity v)) (record_violations env dt data)))"

text \<open>What is sent on for a record.\<close>

definition validated :: "'r validator_env \<Rightarrow> string \<Rightarrow> data_message \<Rightarrow> data_message option" where
  "validated env dt msg =
     (case should_skip_record (ve_host env) (ve_rules env) dt (dm_data msg) of
        Some info \<Rightarrow> None
      | None \<Rightarrow> Some (msg\<lparr>dm_data := fst (apply_filters (ve_host env) (ve_rules env) dt (dm_data msg))\<rparr>))"

lemma on_violations_report:
  "vs_report (fold (on_violation env dt msg) vs st) =
     fold report_step (map (\<lambda>v. ViolationEvent dt (vi_rule_name v) (vi_severity v)) vs) (vs_report st)
   \<and> vs_sent (fold (on_violation env dt msg) vs st) = vs_sent st"
  by (induction vs arbitrary: st) (simp_all add: on_violation_def writer_result_def Let_def)

lemma validate_message_spec:
  "\<exists>st'. validate_message env dt msg st = Some (st', validated env dt msg)
     \<and> vs_report st' = fold report_step (record_events env dt msg) (vs_report st) \<and> vs_sent st' = vs_sent st"
proof (cases "should_skip_record (ve_host env) (ve_rules env) dt (dm_data msg)")
  case None
  obtain data actions where f: "apply_filters (ve_host env) (ve_rules env) dt (dm_data msg) = (data, actions)" by force
  have e: "evaluate_rules (ve_host env) (ve_rules env) dt data = Some (record_violations env dt data)"
    by (simp add: evaluate_rules_def evaluate_all_eq record_violations_def)
  show ?thesis
    by (simp add: validate_message_def Let_def None f e validated_def record_events_def on_violations_report)
qed (simp add: validate_message_def Let_def validated_def record_events_def on_skip_def writer_result_def)

lemma validate_all_spec:
  "\<exists>st'. validate_all env (\<lambda>_. True) dt msgs st = Some st'
     \<and> vs_report st' = fold report_step (concat (map (record_events env dt) msgs)) (vs_report st)
     \<and> vs_sent st' = vs_sent st @ filter_map (validated env dt) msgs"
proof (induction msgs arbitrary: st)
  case (Cons m ms)
  obtain st1 where st1: "validate_message env dt m st = Some (st1, validated env dt m)"
    "vs_report st1 = fold report_step (record_events env dt m) (vs_report st)" "vs_sent st1 = vs_sent st"
    using validate_message_spec by blast
  show ?case
  proof (cases "validated env dt m")
    case None
    with st1 Cons.IH [of st1] show ?thesis by simp
  next
    case (Some m1)
    with st1 Cons.IH [of "st1\<lparr>vs_sent := vs_sent st1 @ [m1]\<rparr>"] show ?thesis by simp
  qed
qed simp

text \<open>
  C25: with a receiver that stays the validator forwards, in order, exactly the records that no skip
  condition matches, each filtered but otherwise unchanged, never panics, and its report is
  exactly that of the record events: every record counted, every skip, repair and violation.
\<close>

theorem validator_exact:
  "\<exists>effects. message_validator env (\<lambda>_. True) msgs dt discogs_root version =
     Some (report_of (concat (map (record_events env dt) msgs)), filter_map (validated env dt) msgs, effects)"
proof -
  obtain st where "validate_all env (\<lambda>_. True) dt msgs (validator_init discogs_root version) = Some st"
    "vs_report st = fold report_step (concat (map (record_events env dt) msgs)) report_new"
    "vs_sent st = filter_map (validated env dt) msgs"
    using validate_all_spec [of env dt msgs "validator_init discogs_root version"] by (auto simp: validator_init_def)
  then show ?thesis by (simp add: message_validator_def report_of_def)
qed

section \<open>The blocks of a release\<close>

text \<open>
  A release is sent with its three canonical blocks, each computed from the normalised lists
  and none disturbing another: media from the formats, identifiers from the identifiers and the
  labels, companies from the companies; every other field is the normalised one.
\<close>

theorem finish_release_blocks:
  assumes "normalize_release record = JObj n"
  shows "\<exists>m. finish_record fi Releases record = JObj m
    \<and> map_of m = (map_of n)(
        ''media'' \<mapsto> media_json (map_discogs_formats discogs_taxonomy (map_of n ''formats'')),
        ''identifiers'' \<mapsto> identifiers_json (map_discogs_identifiers (fi_to_upper fi) (map_of n ''identifiers'') (map_of n ''labels'')),
        ''companies'' \<mapsto> companies_json (map_discogs_companies (map_of n ''companies'')))"
  using assms
  by (simp add: finish_record_def normalize_record_def Let_def attach_media_block_def attach_identifiers_block_def
      attach_companies_block_def)

theorem finish_release_blocks_witness:
  "\<exists>m. finish_record \<lparr>fi_to_upper = id, fi_to_text = (\<lambda>_. []), fi_sha256 = id\<rparr> Releases (JObj [(''@id'', JStr ''1'')]) = JObj m
     \<and> map_of m ''id'' = Some (JStr ''1'')"
proof -
  have "normalize_release (JObj [(''@id'', JStr ''1'')]) = JObj [(''id'', JStr ''1'')]" by code_simp
  from finish_release_blocks [OF this, of "\<lparr>fi_to_upper = id, fi_to_text = (\<lambda>_. []), fi_sha256 = id\<rparr>"]
  show ?thesis by auto
qed

end
