(* ===== verification/Pipeline.thy ===== *)
theory Pipeline
  imports Runtime Pipeline_Stages Xml_Parser
begin

text \<open>
  \<open>src/discogs/mod.rs\<close>: the processing of one dump file and of a whole run, with every failure
  path.  The downloader, the dump files, the disk, the broker and the shutdown signal are the
  environment; what a run leaves behind is the world.  The tasks of a run are taken one after the
  other; \<open>Concurrent_Files\<close> has them interleaved, and \<open>Concurrent_Schedule\<close> shows that this run is one
  of their schedules.
\<close>

section \<open>Environment and world\<close>

datatype pipeline_error =
    InvalidFile string
  | InvalidName
  | NoVersion string
  | SaveFailed
  | OpenFailed string
  | ParseFailed parse_error
  | StagePanicked
  | StageFailed stage_error
  | QueueFailed mq_error
  | NoQueue
  | ListFailed
  | DownloadFailed
  | MarkerMissing

text \<open>Which sends of each stage of a file find a receiver.\<close>

record stage_sends =
  ss_parser :: "nat \<Rightarrow> bool"
  ss_validator :: "nat \<Rightarrow> bool"
  ss_normalizer :: "nat \<Rightarrow> bool"
  ss_batcher :: "nat \<Rightarrow> bool"

text \<open>
  The clock of the run, the configuration, the k-th queue of the run and its broker, the reads of a
  dump (\<open>None\<close> when it cannot be opened), the arrival of records at the batcher, the saves that
  succeed, whether a marker file on disk can be read and parsed, the poll from which the shutdown
  flag is seen, and what the downloader answers: the markers it saved, the marker it gives back and
  its result.
\<close>

record 'r pipeline_env =
  pe_now :: time
  pe_finisher :: finisher
  pe_rules :: "'r validator_env option"
  pe_discogs_root :: path
  pe_render :: "write_event list \<Rightarrow> string"
  pe_batch_size :: nat
  pe_state_save_interval :: nat
  pe_queue :: "nat \<Rightarrow> message_queue option"
  pe_broker :: "nat \<Rightarrow> broker"
  pe_reads :: "string \<Rightarrow> read_result list option"
  pe_sends :: "string \<Rightarrow> stage_sends"
  pe_arrivals :: "string \<Rightarrow> data_message list \<Rightarrow> batch_input list"
  pe_save_ok :: "nat \<Rightarrow> bool"
  pe_marker_readable :: bool
  pe_shutdown_from :: "nat option"
  pe_latest :: "pipeline_error + string list"
  pe_download :: "state_marker \<Rightarrow> state_marker list \<times> state_marker option \<times> (pipeline_error + string list)"

text \<open>What is observable from outside, in order.\<close>

datatype pipeline_event =
    Saved state_marker
  | Delivered "(string \<times> message) list"
  | Closed

text \<open>The marker files are on the disk by path; \<open>w_path\<close> is the path of the marker of the run.\<close>

record world =
  w_state :: extractor_state
  w_marker :: state_marker
  w_path :: path
  w_disk :: "path \<Rightarrow> state_marker option"
  w_saves :: nat
  w_polls :: nat
  w_queues :: nat
  w_log :: "pipeline_event list"

definition on_marker :: "(state_marker \<Rightarrow> state_marker) \<Rightarrow> world \<Rightarrow> world" where
  "on_marker f w = w\<lparr>w_marker := f (w_marker w)\<rparr>"

definition on_state :: "(extractor_state \<Rightarrow> extractor_state) \<Rightarrow> world \<Rightarrow> world" where
  "on_state f w = w\<lparr>w_state := f (w_state w)\<rparr>"

definition note_event :: "pipeline_event \<Rightarrow> world \<Rightarrow> world" where
  "note_event e w = w\<lparr>w_log := w_log w @ [e]\<rparr>"

text \<open>One write of a marker that is already stamped.\<close>

definition write_marker :: "'r pipeline_env \<Rightarrow> state_marker \<Rightarrow> world \<Rightarrow> world \<times> (pipeline_error + unit)" where
  "write_marker env m w =
     (let w1 = w\<lparr>w_saves := w_saves w + 1\<rparr> in
      if pe_save_ok env (w_saves w) then (note_event (Saved m) (w1\<lparr>w_disk := (w_disk w1)(w_path w1 \<mapsto> m)\<rparr>), Ok ())
      else (w1, Err SaveFailed))"

definition save_marker :: "'r pipeline_env \<Rightarrow> world \<Rightarrow> world \<times> (pipeline_error + unit)" where
  "save_marker env w = (let w1 = on_marker (stamp (pe_now env)) w in write_marker env (w_marker w1) w1)"

text \<open>What the broker confirmed between two states of a queue.\<close>

definition deliver :: "message_queue \<Rightarrow> message_queue \<Rightarrow> world \<Rightarrow> world" where
  "deliver q q' w = note_event (Delivered (drop (length (mq_confirmed q)) (mq_confirmed q'))) w"

definition poll_shutdown :: "'r pipeline_env \<Rightarrow> world \<Rightarrow> world \<times> bool" where
  "poll_shutdown env w =
     (w\<lparr>w_polls := w_polls w + 1\<rparr>, case pe_shutdown_from env of Some n \<Rightarrow> n \<le> w_polls w | None \<Rightarrow> False)"

section \<open>One file\<close>

definition file_version :: "string \<Rightarrow> string" where
  "file_version file =
     (case extract_version_from_filename (case path_file_name file of Some base \<Rightarrow> base | None \<Rightarrow> file) of
        Some v \<Rightarrow> v
      | None \<Rightarrow> ''unknown'')"

definition file_parser :: "'r pipeline_env \<Rightarrow> string \<Rightarrow> data_type \<Rightarrow> parser_config" where
  "file_parser env file dt =
     \<lparr>px_data_type = dt, px_capture_raw_xml = (\<not> Option.is_none (pe_rules env)), px_render = pe_render env,
      px_accepts = ss_parser (pe_sends env file)\<rparr>"

text \<open>The records parsed, and the count or the error.\<close>

definition parse_stage :: "'r pipeline_env \<Rightarrow> string \<Rightarrow> data_type \<Rightarrow> data_message list \<times> (pipeline_error + nat)" where
  "parse_stage env file dt =
     (case pe_reads env file of
        None \<Rightarrow> ([], Err (OpenFailed file))
      | Some rs \<Rightarrow>
          (case parse_file (file_parser env file dt) rs of
             (msgs, Inl e) \<Rightarrow> (msgs, Err (ParseFailed e))
           | (msgs, Inr n) \<Rightarrow> (msgs, Ok n)))"

text \<open>The validator runs only when there are rules.\<close>

definition validate_stage :: "'r pipeline_env \<Rightarrow> string \<Rightarrow> data_type \<Rightarrow> data_message list \<Rightarrow> data_message list option" where
  "validate_stage env file dt msgs =
     (case pe_rules env of
        None \<Rightarrow> Some msgs
      | Some venv \<Rightarrow>
          map_option (\<lambda>(report, sent, effects). sent)
            (message_validator venv (ss_validator (pe_sends env file)) msgs (dt_str dt) (pe_discogs_root env)
               (file_version file)))"

definition file_batcher :: "'r pipeline_env \<Rightarrow> string \<Rightarrow> data_type \<Rightarrow> batcher_config" where
  "file_batcher env file dt =
     \<lparr>bc_batch_size = pe_batch_size env, bc_data_type = dt, bc_file_name = file,
      bc_state_save_interval = pe_state_save_interval env\<rparr>"

text \<open>The batcher's saves; a failed one is only logged.\<close>

definition batcher_saves :: "'r pipeline_env \<Rightarrow> state_marker list \<Rightarrow> world \<Rightarrow> world" where
  "batcher_saves env ms w = fold (\<lambda>m w. fst (write_marker env m w)) ms w"

text \<open>The first failing stage decides, in the order the stages are awaited.\<close>

definition stages_result ::
  "(pipeline_error + nat) \<Rightarrow> data_message list option \<Rightarrow> (stage_error + unit) \<Rightarrow> (mq_error + unit) \<Rightarrow> pipeline_error + nat" where
  "stages_result parsed checked batched published =
     and_then parsed (\<lambda>n.
       if checked = None then Err StagePanicked
       else (case batched of
           Inl e \<Rightarrow> Err (StageFailed e)
         | Inr _ \<Rightarrow> (case published of Inl e \<Rightarrow> Err (QueueFailed e) | Inr _ \<Rightarrow> Ok n)))"

text \<open>Parser, validator, normaliser, batcher, publisher.\<close>

definition run_stages ::
  "'r pipeline_env \<Rightarrow> broker \<Rightarrow> string \<Rightarrow> data_type \<Rightarrow> message_queue \<Rightarrow> world
    \<Rightarrow> message_queue \<times> world \<times> (pipeline_error + nat)" where
  "run_stages env br file dt q w =
     (let (msgs, parsed) = parse_stage env file dt;
          checked = validate_stage env file dt msgs;
          normalized = message_normalizer (pe_finisher env) dt (ss_normalizer (pe_sends env file))
            (case checked of Some ms \<Rightarrow> ms | None \<Rightarrow> []) [];
          (st, batched) = message_batcher (file_batcher env file dt) (ss_batcher (pe_sends env file)) (pe_now env)
            (pe_arrivals env file normalized) (batcher_init (w_state w) (w_marker w));
          w1 = batcher_saves env (bs_saved st) (w\<lparr>w_marker := bs_marker st\<rparr>);
          (q1, s1, published) = message_publisher (\<lambda>ms. publish_batch br ms dt) (bs_sent st) q (bs_state st)
      in (q1, deliver q q1 (w1\<lparr>w_state := s1\<rparr>), stages_result parsed checked batched published))"

text \<open>The file is complete for the broker first, and only then in the marker.\<close>

definition complete_file ::
  "'r pipeline_env \<Rightarrow> broker \<Rightarrow> string \<Rightarrow> data_type \<Rightarrow> nat \<Rightarrow> message_queue \<Rightarrow> world
    \<Rightarrow> message_queue \<times> world \<times> (pipeline_error + nat)" where
  "complete_file env br file dt n q w =
     (let (q1, sent) = send_file_complete br (pe_now env) dt file n q; w1 = deliver q q1 w in
      case sent of
        Inl e \<Rightarrow> (q1, w1, Err (QueueFailed e))
      | Inr _ \<Rightarrow>
          (let (w2, saved) = save_marker env (on_marker (complete_file_processing (pe_now env) file n) w1)
           in (q1, w2, and_then saved (\<lambda>_. Ok n))))"

definition file_pipeline ::
  "'r pipeline_env \<Rightarrow> broker \<Rightarrow> string \<Rightarrow> data_type \<Rightarrow> message_queue \<Rightarrow> world
    \<Rightarrow> message_queue \<times> world \<times> (pipeline_error + nat)" where
  "file_pipeline env br file dt q w =
     (case run_stages env br file dt q w of
        (q1, w1, Inl e) \<Rightarrow> (q1, w1, Err e)
      | (q1, w1, Inr n) \<Rightarrow> complete_file env br file dt n q1 w1)"

text \<open>The bookkeeping released on every exit of the pipeline.\<close>

definition release_file :: "string \<Rightarrow> data_type \<Rightarrow> bool \<Rightarrow> world \<Rightarrow> world" where
  "release_file file dt ok =
     on_state (\<lambda>s. s\<lparr>es_completed_files := (if ok then insert file (es_completed_files s) else es_completed_files s),
       es_active_connections := oremove dt (es_active_connections s)\<rparr>)"

definition process_single_file ::
  "'r pipeline_env \<Rightarrow> broker \<Rightarrow> string \<Rightarrow> message_queue \<Rightarrow> world \<Rightarrow> world \<times> (pipeline_error + unit)" where
  "process_single_file env br file q w =
     (case extract_data_type file of
        None \<Rightarrow> (w, Err (InvalidFile file))
      | Some dt \<Rightarrow>
          (case save_marker env (on_marker (start_file_processing (pe_now env) file) w) of
             (w1, Inl e) \<Rightarrow> (w1, Err e)
           | (w1, Inr _) \<Rightarrow>
               (case setup_exchange br dt q of
                  (q1, Inl e) \<Rightarrow> (w1, Err (QueueFailed e))
                | (q1, Inr _) \<Rightarrow>
                    (let w2 = on_state (\<lambda>s. s\<lparr>es_active_connections := oinsert dt file (es_active_connections s)\<rparr>) w1;
                         (q2, w3, r) = file_pipeline env br file dt q1 w2;
                         w4 = note_event Closed (release_file file dt (is_ok r) w3)
                     in (w4, and_then r (\<lambda>_. Ok ()))))))"

section \<open>A run\<close>

definition reset_progress :: "extractor_state \<Rightarrow> extractor_state" where
  "reset_progress s = s\<lparr>es_extraction_progress := progress_default, es_last_extraction_time := [],
     es_completed_files := {}, es_active_connections := [], es_error_count := 0,
     es_extraction_status := StatusRunning\<rparr>"

definition set_status :: "extraction_status \<Rightarrow> world \<Rightarrow> world" where
  "set_status st = on_state (\<lambda>s. s\<lparr>es_extraction_status := st\<rparr>)"

text \<open>The counters of the types finished in an earlier session.\<close>

definition rehydrate :: "state_marker \<Rightarrow> extractor_state \<Rightarrow> extractor_state" where
  "rehydrate m s =
     fold (\<lambda>(file, p) s.
         if fp_status p = Completed then
           (case extract_data_type file of
              Some dt \<Rightarrow> s\<lparr>es_extraction_progress := pg_add (es_extraction_progress s) dt (fp_records_extracted p)\<rparr>
            | None \<Rightarrow> s)
         else s)
       (progress_of m) s"

text \<open>The record counts of the completion signal, from the persisted progress.\<close>

definition record_counts :: "state_marker \<Rightarrow> (string, nat) omap" where
  "record_counts m =
     fold (\<lambda>(file, p) rc. case extract_data_type file of
         Some dt \<Rightarrow> oinsert (dt_str dt) (fp_records_extracted p) rc
       | None \<Rightarrow> rc)
       (progress_of m) []"

text \<open>The start of the processing phase.\<close>

definition begin_phase :: "'r pipeline_env \<Rightarrow> string list \<Rightarrow> world \<Rightarrow> world \<times> (pipeline_error + unit)" where
  "begin_phase env files w =
     (case pp_status (sm_processing_phase (w_marker w)) of
        Pending \<Rightarrow> save_marker env (on_marker (start_processing (pe_now env) (length files)) w)
      | InProgress \<Rightarrow>
          (case save_marker env (on_marker (on_processing (\<lambda>p. p\<lparr>pp_files_total := length files\<rparr>)) w) of
             (w1, Inl e) \<Rightarrow> (w1, Err e)
           | (w1, Inr _) \<Rightarrow> (on_state (rehydrate (w_marker w1)) w1, Ok ()))
      | _ \<Rightarrow> (w, Ok ()))"

text \<open>A queue of the factory: the next one, or an error.\<close>

definition create_queue :: "'r pipeline_env \<Rightarrow> world \<Rightarrow> world \<times> (message_queue \<times> broker) option" where
  "create_queue env w =
     (w\<lparr>w_queues := w_queues w + 1\<rparr>, map_option (\<lambda>q. (q, pe_broker env (w_queues w))) (pe_queue env (w_queues w)))"

text \<open>The broadcast of the completion signal: whether it was sent.\<close>

definition broadcast :: "'r pipeline_env \<Rightarrow> string \<Rightarrow> time \<Rightarrow> world \<Rightarrow> world \<times> bool" where
  "broadcast env version started_at w =
     (case create_queue env w of
        (w1, None) \<Rightarrow> (w1, False)
      | (w1, Some (q, br)) \<Rightarrow>
          (let (q1, r) = send_extraction_complete br (pe_now env) version started_at (record_counts (w_marker w1)) discogs_types q
           in (note_event Closed (deliver q q1 w1), is_ok r)))"

text \<open>One task: a file is not started once the shutdown flag is seen.\<close>

definition file_task :: "'r pipeline_env \<Rightarrow> string \<Rightarrow> world \<Rightarrow> world \<times> (pipeline_error + unit)" where
  "file_task env file w =
     (let (w1, shutdown) = poll_shutdown env w in
      if shutdown then (w1, Ok ())
      else (case create_queue env w1 of
          (w2, None) \<Rightarrow> (w2, Err NoQueue)
        | (w2, Some (q, br)) \<Rightarrow> process_single_file env br file q w2))"

fun run_tasks :: "'r pipeline_env \<Rightarrow> string list \<Rightarrow> world \<Rightarrow> world \<times> bool" where
  "run_tasks env [] w = (w, True)"
| "run_tasks env (file # files) w =
     (let (w1, r) = file_task env file w; (w2, ok) = run_tasks env files w1 in (w2, is_ok r \<and> ok))"

text \<open>All files were already processed: only the signal may be owed.\<close>

definition finish_processed ::
  "'r pipeline_env \<Rightarrow> string \<Rightarrow> time \<Rightarrow> world \<Rightarrow> world \<times> (pipeline_error + bool)" where
  "finish_processed env version started_at w =
     (if overall (w_marker w) = Completed then (set_status StatusCompleted w, Ok True)
      else
        (case save_marker env (on_marker (complete_processing (pe_now env)) w) of
           (w1, Inl e) \<Rightarrow> (w1, Err e)
         | (w1, Inr _) \<Rightarrow>
             (case broadcast env version started_at w1 of
                (w2, True) \<Rightarrow>
                  (case save_marker env (on_marker complete_extraction w2) of
                     (w3, Inl e) \<Rightarrow> (w3, Err e)
                   | (w3, Inr _) \<Rightarrow> (set_status StatusCompleted w3, Ok True))
              | (w2, False) \<Rightarrow> (set_status StatusFailed w2, Ok False))))"

text \<open>The tasks, the decision, the signal and the final commit.\<close>

definition process_pending ::
  "'r pipeline_env \<Rightarrow> string \<Rightarrow> time \<Rightarrow> string list \<Rightarrow> world \<Rightarrow> world \<times> (pipeline_error + bool)" where
  "process_pending env version started_at pending w =
     (let (w1, ok) = run_tasks env pending w;
          (w2, shutdown) = poll_shutdown env w1;
          success = (ok \<and> \<not> shutdown)
      in case save_marker env (if success then on_marker (complete_processing (pe_now env)) w2 else w2) of
           (w3, Inl e) \<Rightarrow> (w3, Err e)
         | (w3, Inr _) \<Rightarrow>
             (let (w4, sent) = (if success then broadcast env version started_at w3 else (w3, False)) in
              if sent then
                (case save_marker env (on_marker complete_extraction w4) of
                   (w5, Inl e) \<Rightarrow> (w5, Err e)
                 | (w5, Inr _) \<Rightarrow> (set_status StatusCompleted w5, Ok True))
              else (set_status StatusFailed w4, Ok False)))"

text \<open>From the downloaded files on.\<close>

definition process_files :: "'r pipeline_env \<Rightarrow> string \<Rightarrow> string list \<Rightarrow> world \<Rightarrow> world \<times> (pipeline_error + bool)" where
  "process_files env version downloaded w =
     (let data_files = filter (\<lambda>f. \<not> contains f ''CHECKSUM'') downloaded in
      if data_files = [] then (set_status StatusCompleted w, Ok True)
      else
        (case begin_phase env data_files w of
           (w1, Inl e) \<Rightarrow> (w1, Err e)
         | (w1, Inr _) \<Rightarrow>
             (let started_at = (case pp_started_at (sm_processing_phase (w_marker w1)) of Some t \<Rightarrow> t | None \<Rightarrow> pe_now env);
                  pending = pending_files (w_marker w1) data_files
              in if pending = [] then finish_processed env version started_at w1
                 else process_pending env version started_at pending w1)))"

text \<open>The markers the downloader saved.\<close>

definition source_saves :: "state_marker list \<Rightarrow> world \<Rightarrow> world" where
  "source_saves ms w = fold (\<lambda>m w. note_event (Saved m) (w\<lparr>w_disk := (w_disk w)(w_path w \<mapsto> m)\<rparr>)) ms w"

text \<open>The download, with the marker handed to the downloader, saved by it and taken back.\<close>

definition download_stage ::
  "'r pipeline_env \<Rightarrow> string \<Rightarrow> state_marker \<Rightarrow> world \<Rightarrow> world \<times> (pipeline_error + bool)" where
  "download_stage env version m w =
     (let (saves, handed_back, r) = pe_download env m;
          w1 = source_saves saves (w\<lparr>w_marker := m\<rparr>)
      in case r of
           Inl e \<Rightarrow> (w1, Err e)
         | Inr files \<Rightarrow>
             (case handed_back of
                None \<Rightarrow> (w1, Err MarkerMissing)
              | Some m1 \<Rightarrow> process_files env version files (w1\<lparr>w_marker := m1\<rparr>)))"

text \<open>A marker that is missing, unreadable or unparsable means a fresh start.\<close>

definition load_marker :: "'r pipeline_env \<Rightarrow> world \<Rightarrow> state_marker option" where
  "load_marker env w = (if pe_marker_readable env then w_disk w (w_path w) else None)"

text \<open>The marker of the version, and what it asks for.\<close>

definition chosen_marker :: "'r pipeline_env \<Rightarrow> bool \<Rightarrow> string \<Rightarrow> world \<Rightarrow> state_marker" where
  "chosen_marker env force_reprocess version w =
     (let fresh = sm_new (pe_now env) version in
      if force_reprocess then fresh else (case load_marker env w of Some d \<Rightarrow> d | None \<Rightarrow> fresh))"

definition process_version ::
  "'r pipeline_env \<Rightarrow> bool \<Rightarrow> string \<Rightarrow> world \<Rightarrow> world \<times> (pipeline_error + bool)" where
  "process_version env force_reprocess version w =
     (let w1 = w\<lparr>w_path := file_path (pe_discogs_root env) version\<rparr>;
          m = chosen_marker env force_reprocess version w1
      in case should_process m of
           Skip \<Rightarrow> (set_status StatusCompleted w1, Ok True)
         | Reprocess \<Rightarrow> download_stage env version (sm_new (pe_now env) version) w1
         | ContinueRun \<Rightarrow> download_stage env version m w1)"

definition process_discogs_data ::
  "'r pipeline_env \<Rightarrow> bool \<Rightarrow> world \<Rightarrow> world \<times> (pipeline_error + bool)" where
  "process_discogs_data env force_reprocess w =
     (case poll_shutdown env w of
        (w1, True) \<Rightarrow> (w1, Ok False)
      | (w1, False) \<Rightarrow>
          (let w2 = on_state reset_progress w1 in
           case pe_latest env of
             Inl e \<Rightarrow> (w2, Err e)
           | Inr [] \<Rightarrow> (set_status StatusCompleted w2, Ok True)
           | Inr (key # keys) \<Rightarrow>
               (case path_file_name key of
                  None \<Rightarrow> (w2, Err InvalidName)
                | Some name \<Rightarrow>
                    (case extract_version_from_filename name of
                       None \<Rightarrow> (w2, Err (NoVersion name))
                     | Some version \<Rightarrow> process_version env force_reprocess version w2))))"

end
