(* ===== verification/Commit_Order.thy ===== *)
theory Commit_Order
  imports Pipeline
begin

text \<open>
  The order of effects in a run: nothing is committed to the marker before the broker has confirmed
  the signal it stands for.  The argument is made once, for a claim a marker can make and the
  evidence for it (\<open>commit_protocol\<close>), and used for files and for the version.
\<close>

section \<open>What the queue operations confirm\<close>

lemma send_settle:
  assumes "send_payload br x msg q = (q1, Ok n)"
  shows "mq_exchange_prefix q1 = mq_exchange_prefix q \<and> mq_confirmed q1 = mq_confirmed q
    \<and> mq_sent q1 ! n = (x, msg)"
  using assms by (auto simp: send_payload_def Let_def split: send_outcome.splits)

lemma send_refused:
  assumes "send_payload br x msg q = (q1, Inl e)"
  shows "mq_exchange_prefix q1 = mq_exchange_prefix q \<and> mq_confirmed q1 = mq_confirmed q"
  using assms by (auto simp: send_payload_def Let_def split: send_outcome.splits)

lemma settle_confirms:
  "settle_confirm br x n q = (q1, r) \<Longrightarrow> mq_exchange_prefix q1 = mq_exchange_prefix q
    \<and> mq_confirmed q1 = mq_confirmed q @ (if is_ok r then [mq_sent q ! n] else [])"
  by (cases "confirm_result br x n"; cases r) (auto simp: settle_confirm_def)

lemma publish_confirms:
  assumes "publish br msg d q = (q', r)"
  shows "mq_exchange_prefix q' = mq_exchange_prefix q
    \<and> mq_confirmed q' = mq_confirmed q @ (if is_ok r then [(exchange_name q d, msg)] else [])"
proof -
  obtain q1 c where g: "get_channel br q = (q1, c)" by force
  then have w: "mq_confirmed q1 = mq_confirmed q" "mq_exchange_prefix q1 = mq_exchange_prefix q"
    "exchange_name q1 d = exchange_name q d"
    using wire_get_channel [of q br] by (simp_all add: wire_same_def exchange_name_def)
  obtain q2 s where p: "send_payload br (exchange_name q1 d) msg q1 = (q2, s)" by force
  show ?thesis
  proof (cases c)
    case (Inl e)
    with assms g w show ?thesis by (auto simp: publish_def)
  next
    case c: (Inr u)
    show ?thesis
    proof (cases s)
      case (Inl e)
      with assms g c p send_refused [of br "exchange_name q1 d" msg q1 q2] w show ?thesis
        by (auto simp: publish_def)
    next
      case (Inr n)
      with assms g c p have "settle_confirm br (exchange_name q1 d) n q2 = (q', r)" by (simp add: publish_def)
      from settle_confirms [OF this] send_settle [of br "exchange_name q1 d" msg q1 q2 n] p Inr w show ?thesis by simp
    qed
  qed
qed

lemma send_file_complete_confirms:
  assumes "send_file_complete br now d file n q = (q', r)"
  shows "mq_confirmed q' = mq_confirmed q @ (if is_ok r then [(exchange_name q d, FileComplete
    \<lparr>fc_data_type = dt_str d, fc_timestamp = now, fc_total_processed = n, fc_file = file\<rparr>)] else [])"
  using publish_confirms [OF assms [unfolded send_file_complete_def]] by simp

lemma broadcast_confirms:
  assumes "fold (broadcast_step br msg) ds (q, es) = (q', es')"
  shows "mq_exchange_prefix q' = mq_exchange_prefix q
    \<and> (\<exists>fs. mq_confirmed q' = mq_confirmed q @ fs \<and> list_all (\<lambda>f. snd f = msg) fs
        \<and> (es' = [] \<longrightarrow> es = [] \<and> fs = map (\<lambda>d. (exchange_name q d, msg)) ds))"
  using assms
proof (induction ds arbitrary: q es)
  case (Cons d ds)
  obtain q1 r where p: "publish br msg d q = (q1, r)" by force
  note c = publish_confirms [OF p]
  define es1 where "es1 = (case r of Inl e \<Rightarrow> es @ [(d, e)] | Inr _ \<Rightarrow> es)"
  have step: "broadcast_step br msg d (q, es) = (q1, es1)" by (cases r) (simp_all add: broadcast_step_def p es1_def)
  have es1: "es1 = [] \<longleftrightarrow> es = [] \<and> is_ok r" by (cases r) (simp_all add: es1_def)
  have "fold (broadcast_step br msg) ds (q1, es1) = (q', es')" using Cons.prems by (simp add: step)
  from Cons.IH [OF this] obtain fs where fs: "mq_exchange_prefix q' = mq_exchange_prefix q1"
    "mq_confirmed q' = mq_confirmed q1 @ fs" "list_all (\<lambda>f. snd f = msg) fs"
    "es' = [] \<longrightarrow> es1 = [] \<and> fs = map (\<lambda>d. (exchange_name q1 d, msg)) ds" by blast
  with c es1 show ?case
    by (intro conjI exI [of _ "(if is_ok r then [(exchange_name q d, msg)] else []) @ fs"])
      (auto simp: exchange_name_def)
qed simp

lemma send_extraction_complete_confirms:
  assumes "send_extraction_complete br now version started counts ds q = (q', r)"
  shows "\<exists>fs. mq_confirmed q' = mq_confirmed q @ fs
    \<and> list_all (\<lambda>f. snd f = ExtractionComplete \<lparr>ec_version = version, ec_timestamp = now, ec_started_at = started, ec_record_counts = counts\<rparr>) fs
    \<and> (is_ok r \<longrightarrow> fs = map (\<lambda>d. (exchange_name q d, ExtractionComplete \<lparr>ec_version = version, ec_timestamp = now,
          ec_started_at = started, ec_record_counts = counts\<rparr>)) ds)"
proof -
  let ?msg = "ExtractionComplete \<lparr>ec_version = version, ec_timestamp = now, ec_started_at = started, ec_record_counts = counts\<rparr>"
  obtain q1 es where f: "fold (broadcast_step br ?msg) ds (q, []) = (q1, es)" by force
  then have "q' = q1" "r = (if es = [] then Ok () else Err (CompletionFailed es))"
    using assms by (simp_all add: send_extraction_complete_def Let_def broadcast_step_def [abs_def])
  with broadcast_confirms [OF f] show ?thesis by (auto split: if_splits)
qed

lemma setup_exchange_confirms: "setup_exchange br d q = (q', r) \<Longrightarrow> mq_confirmed q' = mq_confirmed q"
  using wire_get_channel [of q br] by (auto simp: setup_exchange_def wire_same_def split: prod.splits sum.splits)

lemma publisher_confirms:
  assumes "message_publisher (\<lambda>ms. publish_batch br ms d) bs q s = (q', s', r)"
  shows "\<exists>fs. mq_confirmed q' = mq_confirmed q @ fs \<and> list_all (\<lambda>f. \<exists>m. snd f = Data m) fs"
  using assms
proof (induction bs arbitrary: q)
  case (Cons b bs)
  obtain q1 r1 where p: "publish_batch br b d q = (q1, r1)" by force
  obtain q2 c where g: "get_channel br q = (q2, c)" by force
  from publish_batch_cases [OF p g] obtain k where
    k: "mq_confirmed q1 = mq_confirmed q @ take k (frames (exchange_name q d) b)" by blast
  have data: "list_all (\<lambda>f. \<exists>m. snd f = Data m) (take k (frames (exchange_name q d) b))"
    by (auto simp: frames_def list_all_iff dest!: in_set_takeD)
  show ?case
  proof (cases r1)
    case (Inl e)
    with Cons.prems p k data show ?thesis by auto
  next
    case (Inr u)
    with Cons.prems p have "message_publisher (\<lambda>ms. publish_batch br ms d) bs q1 s = (q', s', r)" by simp
    from Cons.IH [OF this] k data show ?thesis by (auto simp: list_all_iff)
  qed
qed auto

lemma drop_confirmed: "mq_confirmed q' = mq_confirmed q @ fs \<Longrightarrow> deliver q q' w = note_event (Delivered fs) w"
  by (simp add: deliver_def)

section \<open>The parts of a file's processing\<close>

definition normalized_records :: "'r pipeline_env \<Rightarrow> string \<Rightarrow> data_type \<Rightarrow> data_message list" where
  "normalized_records env file dt =
     message_normalizer (pe_finisher env) dt (ss_normalizer (pe_sends env file))
       (case validate_stage env file dt (fst (parse_stage env file dt)) of Some ms \<Rightarrow> ms | None \<Rightarrow> []) []"

lemma run_stages_parts:
  assumes "run_stages env br file dt q w = (q1, w1, r)"
  obtains st batched s1 published where
    "message_batcher (file_batcher env file dt) (ss_batcher (pe_sends env file)) (pe_now env)
       (pe_arrivals env file (normalized_records env file dt)) (batcher_init (w_state w) (w_marker w)) = (st, batched)"
    "message_publisher (\<lambda>ms. publish_batch br ms dt) (bs_sent st) q (bs_state st) = (q1, s1, published)"
    "w1 = deliver q q1 (batcher_saves env (bs_saved st) (w\<lparr>w_marker := bs_marker st\<rparr>)\<lparr>w_state := s1\<rparr>)"
    "r = stages_result (snd (parse_stage env file dt)) (validate_stage env file dt (fst (parse_stage env file dt))) batched published"
proof -
  obtain msgs parsed where 1: "parse_stage env file dt = (msgs, parsed)" by force
  obtain st batched where 2: "message_batcher (file_batcher env file dt) (ss_batcher (pe_sends env file)) (pe_now env)
    (pe_arrivals env file (normalized_records env file dt)) (batcher_init (w_state w) (w_marker w)) = (st, batched)" by force
  obtain q2 s2 published where 3: "message_publisher (\<lambda>ms. publish_batch br ms dt) (bs_sent st) q (bs_state st) = (q2, s2, published)"
    by (metis surj_pair)
  show ?thesis
    using assms 1 2 3 by (intro that [of st batched s2 published])
      (auto simp: run_stages_def normalized_records_def Let_def)
qed

text \<open>A file is refused, or its start is saved; the exchange is declared; the pipeline runs; all is released.\<close>

definition connected :: "string \<Rightarrow> data_type \<Rightarrow> world \<Rightarrow> world" where
  "connected file dt = on_state (\<lambda>s. s\<lparr>es_active_connections := oinsert dt file (es_active_connections s)\<rparr>)"

lemma process_single_file_cases:
  assumes "process_single_file env br file q w = (w', r)"
  obtains (invalid) "extract_data_type file = None" "w' = w" "r = Err (InvalidFile file)"
  | (early) dt s e where "extract_data_type file = Some dt"
      "save_marker env (on_marker (start_file_processing (pe_now env) file) w) = (w', s)" "r = Err e"
      "s = Inl e \<or> (\<exists>m. e = QueueFailed m \<and> snd (setup_exchange br dt q) = Inl m)"
  | (ran) dt u w1 q1 q2 w3 r3 where "extract_data_type file = Some dt"
      "save_marker env (on_marker (start_file_processing (pe_now env) file) w) = (w1, Inr u)"
      "setup_exchange br dt q = (q1, Inr u)"
      "file_pipeline env br file dt q1 (connected file dt w1) = (q2, w3, r3)"
      "w' = note_event Closed (release_file file dt (is_ok r3) w3)" "r = and_then r3 (\<lambda>_. Ok ())"
proof (cases "extract_data_type file")
  case None
  with assms invalid show ?thesis by (simp add: process_single_file_def)
next
  case (Some dt)
  obtain w1 s where s: "save_marker env (on_marker (start_file_processing (pe_now env) file) w) = (w1, s)" by force
  obtain q1 x where x: "setup_exchange br dt q = (q1, x)" by force
  obtain q2 w3 r3 where f: "file_pipeline env br file dt q1 (connected file dt w1) = (q2, w3, r3)" by (metis surj_pair)
  show ?thesis
  proof (cases s)
    case (Inl e)
    with assms Some s show ?thesis by (intro early [of dt s e]) (auto simp: process_single_file_def)
  next
    case u: (Inr u)
    show ?thesis
    proof (cases x)
      case (Inl e)
      with assms Some s u x show ?thesis
        by (intro early [of dt s "QueueFailed e"]) (auto simp: process_single_file_def)
    next
      case (Inr v)
      with assms Some s u x f show ?thesis
        by (intro ran [of dt w1 u q1 q2 w3 r3]) (auto simp: process_single_file_def connected_def [symmetric])
    qed
  qed
qed

section \<open>Claims and evidence\<close>

fun evident :: "((string \<times> message) list \<Rightarrow> bool) \<Rightarrow> pipeline_event \<Rightarrow> bool" where
  "evident evidence (Delivered fs) = evidence fs"
| "evident evidence _ = False"

text \<open>A saved marker makes a claim only when it was granted before or evidence precedes it.\<close>

fun ordered :: "(state_marker \<Rightarrow> bool) \<Rightarrow> ((string \<times> message) list \<Rightarrow> bool) \<Rightarrow> bool \<Rightarrow> pipeline_event list \<Rightarrow> bool" where
  "ordered claim evidence granted [] = True"
| "ordered claim evidence granted (Saved m # es) = ((\<not> claim m \<or> granted) \<and> ordered claim evidence granted es)"
| "ordered claim evidence granted (Delivered fs # es) = ordered claim evidence (granted \<or> evidence fs) es"
| "ordered claim evidence granted (Closed # es) = ordered claim evidence granted es"

lemma ordered_snoc:
  "ordered claim evidence granted (es @ [e]) \<longleftrightarrow> ordered claim evidence granted es
    \<and> (case e of Saved m \<Rightarrow> \<not> claim m \<or> granted \<or> list_ex (evident evidence) es | _ \<Rightarrow> True)"
proof (induction es arbitrary: granted)
  case Nil
  show ?case by (cases e) simp_all
next
  case (Cons e' es)
  then show ?case by (cases e'; cases e) (auto simp del: list_ex_append)
qed

definition licensed :: "((string \<times> message) list \<Rightarrow> bool) \<Rightarrow> bool \<Rightarrow> world \<Rightarrow> bool" where
  "licensed evidence granted w \<longleftrightarrow> granted \<or> list_ex (evident evidence) (w_log w)"

definition commit_inv ::
  "(state_marker \<Rightarrow> bool) \<Rightarrow> ((string \<times> message) list \<Rightarrow> bool) \<Rightarrow> bool \<Rightarrow> world \<Rightarrow> bool" where
  "commit_inv claim evidence granted w \<longleftrightarrow>
     ordered claim evidence granted (w_log w)
     \<and> (claim (w_marker w) \<longrightarrow> licensed evidence granted w)"

definition keeps_claim ::
  "(state_marker \<Rightarrow> bool) \<Rightarrow> (state_marker \<Rightarrow> state_marker list \<times> state_marker option \<times> (pipeline_error + string list)) \<Rightarrow> bool" where
  "keeps_claim claim download \<longleftrightarrow>
     (\<forall>m. case download m of (saves, handed, x) \<Rightarrow>
        list_all (\<lambda>m'. claim m' \<longrightarrow> claim m) saves \<and> (case handed of Some m' \<Rightarrow> claim m' \<longrightarrow> claim m | None \<Rightarrow> True))"

text \<open>
  The version a run is about, and the claim it inherits: that of the marker on disk under this
  version's path, when the run is not forced to start over.
\<close>

definition run_version :: "'r pipeline_env \<Rightarrow> string option" where
  "run_version env =
     (case pe_latest env of
        Inr (key # keys) \<Rightarrow> Option.bind (path_file_name key) extract_version_from_filename
      | _ \<Rightarrow> None)"

definition resumes :: "(state_marker \<Rightarrow> bool) \<Rightarrow> 'r pipeline_env \<Rightarrow> bool \<Rightarrow> world \<Rightarrow> bool" where
  "resumes claim env force w \<longleftrightarrow>
     \<not> force
     \<and> (case run_version env of
           None \<Rightarrow> False
         | Some version \<Rightarrow>
             (case w_disk w (file_path (pe_discogs_root env) version) of Some m \<Rightarrow> claim m | None \<Rightarrow> False))"

locale commit_protocol =
  fixes claim :: "state_marker \<Rightarrow> bool"
    and evidence :: "(string \<times> message) list \<Rightarrow> bool"
  assumes claim_stamp: "claim (stamp t m) = claim m"
    and claim_start_file: "claim (start_file_processing t f m) \<Longrightarrow> claim m"
    and claim_update: "claim (update_file_progress t f r p b m) \<Longrightarrow> claim m"
    and claim_start: "claim (start_processing t n m) \<Longrightarrow> claim m"
    and claim_total: "claim (on_processing (\<lambda>p. p\<lparr>pp_files_total := n\<rparr>) m) \<Longrightarrow> claim m"
    and claim_complete: "claim (complete_processing t m) \<Longrightarrow> claim m"
    and claim_file: "claim (complete_file_processing t f n m) \<Longrightarrow>
      claim m \<or> evidence [(ex, FileComplete \<lparr>fc_data_type = d, fc_timestamp = t', fc_total_processed = n', fc_file = f\<rparr>)]"
    and claim_extraction: "claim (complete_extraction m) \<Longrightarrow>
      claim m \<or> evidence (map (\<lambda>d. (exchange_name q d, ExtractionComplete c)) discogs_types)"
begin

abbreviation cinv :: "bool \<Rightarrow> world \<Rightarrow> bool" where
  "cinv \<equiv> commit_inv claim evidence"

lemma cinv_event:
  assumes "cinv g w" "\<not> (\<exists>m. e = Saved m)"
  shows "cinv g (note_event e w) \<and> (licensed evidence g w \<longrightarrow> licensed evidence g (note_event e w))"
  using assms by (cases e) (auto simp: commit_inv_def licensed_def note_event_def ordered_snoc)

lemma cinv_fields:
  "cinv g w \<Longrightarrow> w_log w' = w_log w \<Longrightarrow> w_marker w' = w_marker w \<Longrightarrow> cinv g w'"
  by (simp add: commit_inv_def licensed_def)

lemma cinv_state [simp]: "cinv g (on_state f w) = cinv g w"
  by (simp add: commit_inv_def licensed_def on_state_def)

lemma cinv_status [simp]: "cinv g (set_status s w) = cinv g w"
  by (simp add: set_status_def)

lemma cinv_marker: "cinv g w \<Longrightarrow> (claim m \<Longrightarrow> licensed evidence g w) \<Longrightarrow> cinv g (w\<lparr>w_marker := m\<rparr>)"
  by (auto simp: commit_inv_def licensed_def)

lemma cinv_licence: "cinv g w \<Longrightarrow> claim (w_marker w) \<Longrightarrow> licensed evidence g w"
  by (simp add: commit_inv_def)

lemma write_licensed:
  assumes "cinv g w" "claim m \<longrightarrow> licensed evidence g w"
  shows "cinv g (fst (write_marker env m w))
    \<and> (licensed evidence g w \<longrightarrow> licensed evidence g (fst (write_marker env m w)))"
  using assms by (auto simp: write_marker_def Let_def commit_inv_def licensed_def note_event_def ordered_snoc)

lemma save_licensed:
  assumes "cinv g w" "claim (f (w_marker w)) \<longrightarrow> licensed evidence g w"
  shows "cinv g (fst (save_marker env (on_marker f w)))"
proof -
  let ?w = "w\<lparr>w_marker := stamp (pe_now env) (f (w_marker w))\<rparr>"
  have "cinv g ?w" by (rule cinv_marker) (use assms in \<open>auto simp: claim_stamp\<close>)
  moreover have "claim (w_marker ?w) \<longrightarrow> licensed evidence g ?w" using assms(2) by (simp add: claim_stamp licensed_def)
  ultimately show ?thesis
    using write_licensed [of g ?w "w_marker ?w" env] by (simp add: save_marker_def Let_def on_marker_def)
qed

text \<open>A step that adds no claim of its own.\<close>

lemma save_quiet:
  "cinv g w \<Longrightarrow> (claim (f (w_marker w)) \<Longrightarrow> claim (w_marker w)) \<Longrightarrow> save_marker env (on_marker f w) = (w', r) \<Longrightarrow> cinv g w'"
  using save_licensed [of g w f env] cinv_licence [of g w] by auto

lemma save_plain: "cinv g w \<Longrightarrow> save_marker env w = (w', r) \<Longrightarrow> cinv g w'"
  using save_quiet [of g w "\<lambda>m. m" env w' r] by (simp add: on_marker_def)

text \<open>The batcher's markers make no new claim.\<close>

definition quiet :: "state_marker \<Rightarrow> batcher_state \<Rightarrow> bool" where
  "quiet m st \<longleftrightarrow> (claim (bs_marker st) \<longrightarrow> claim m) \<and> list_all (\<lambda>m'. claim m' \<longrightarrow> claim m) (bs_saved st)"

lemma quiet_save: "quiet m st \<Longrightarrow> quiet m (save_progress cfg t st)"
  by (auto simp: quiet_def save_progress_def Let_def claim_stamp dest: claim_update)

lemma quiet_flush: "quiet m st \<Longrightarrow> quiet m (fst (flush_batch accepts st))"
  by (simp add: quiet_def flush_batch_def Let_def)

lemma quiet_received: "quiet m st \<Longrightarrow> quiet m (fst (on_received cfg accepts t msg st))"
proof -
  assume q: "quiet m st"
  have c: "quiet m (count_record cfg t msg st)" using q by (simp add: quiet_def count_record_def Let_def)
  then have "quiet m ((count_record cfg t msg st)\<lparr>bs_last_state_save := n\<rparr>)" for n by (simp add: quiet_def)
  with c show ?thesis
    by (auto simp: on_received_def Let_def intro: quiet_flush quiet_save)
qed

lemma quiet_batcher: "quiet m st \<Longrightarrow> quiet m (fst (message_batcher cfg accepts t is st))"
proof (induction "is" arbitrary: st)
  case Nil
  then show ?case
    using quiet_flush [OF Nil, of accepts] by (auto simp: split: prod.split sum.split intro: quiet_save)
next
  case (Cons i "is")
  have "quiet m (fst (case i of Received t msg \<Rightarrow> on_received cfg accepts t msg st | TimedOut old \<Rightarrow> on_timeout accepts old st))"
    using quiet_received [OF Cons.prems] quiet_flush [OF Cons.prems] Cons.prems
    by (auto simp: on_timeout_def split: batch_input.split)
  with Cons.IH show ?case by (auto split: prod.split sum.split)
qed

lemma cinv_saves:
  "cinv g w \<Longrightarrow> list_all (\<lambda>m. claim m \<longrightarrow> licensed evidence g w) ms \<Longrightarrow> cinv g (batcher_saves env ms w)"
proof (induction ms arbitrary: w)
  case (Cons m ms)
  let ?w = "fst (write_marker env m w)"
  have "list_all (\<lambda>m. claim m \<longrightarrow> licensed evidence g ?w) ms"
    using Cons.prems write_licensed [of g w m env] by (auto simp: list_all_iff)
  with Cons write_licensed [of g w m env] show ?case by (simp add: batcher_saves_def)
qed (simp add: batcher_saves_def)

lemma run_stages_inv:
  assumes inv: "cinv g w" and run: "run_stages env br file dt q w = (q1, w1, r)"
  shows "cinv g w1"
  using run
proof (rule run_stages_parts)
  fix st batched s1 published
  assume 1: "message_batcher (file_batcher env file dt) (ss_batcher (pe_sends env file)) (pe_now env)
      (pe_arrivals env file (normalized_records env file dt)) (batcher_init (w_state w) (w_marker w)) = (st, batched)"
    and w1: "w1 = deliver q q1 (batcher_saves env (bs_saved st) (w\<lparr>w_marker := bs_marker st\<rparr>)\<lparr>w_state := s1\<rparr>)"
  let ?w = "batcher_saves env (bs_saved st) (w\<lparr>w_marker := bs_marker st\<rparr>)"
  have "quiet (w_marker w) (batcher_init (w_state w) (w_marker w))" by (simp add: quiet_def batcher_init_def)
  from quiet_batcher [OF this] 1 have "quiet (w_marker w) st" by (metis fst_conv)
  then have q: "claim (bs_marker st) \<Longrightarrow> licensed evidence g w"
    "list_all (\<lambda>m. claim m \<longrightarrow> licensed evidence g w) (bs_saved st)"
    using cinv_licence [OF inv] by (auto simp: quiet_def list_all_iff)
  have "cinv g (w\<lparr>w_marker := bs_marker st\<rparr>)" by (rule cinv_marker [OF inv q(1)])
  then have "cinv g ?w" by (rule cinv_saves) (use q(2) in \<open>simp add: licensed_def\<close>)
  then have "cinv g (?w\<lparr>w_state := s1\<rparr>)" by (rule cinv_fields) simp_all
  from cinv_event [OF this] show ?thesis by (simp add: w1 deliver_def)
qed

lemma complete_file_inv:
  assumes inv: "cinv g w" and run: "complete_file env br file dt n q w = (q', w', r)"
  shows "cinv g w'"
proof -
  obtain q1 sent where s: "send_file_complete br (pe_now env) dt file n q = (q1, sent)" by force
  define fs where "fs = drop (length (mq_confirmed q)) (mq_confirmed q1)"
  let ?w1 = "note_event (Delivered fs) w"
  have w1: "cinv g ?w1" "licensed evidence g w \<Longrightarrow> licensed evidence g ?w1" using cinv_event [OF inv, of "Delivered fs"] by auto
  show ?thesis
  proof (cases sent)
    case (Inl e)
    with run s have "w' = ?w1" by (auto simp: complete_file_def deliver_def fs_def)
    with w1(1) show ?thesis by simp
  next
    case (Inr u)
    have fs: "fs = [(exchange_name q dt, FileComplete
        \<lparr>fc_data_type = dt_str dt, fc_timestamp = pe_now env, fc_total_processed = n, fc_file = file\<rparr>)]"
      using send_file_complete_confirms [OF s] Inr by (simp add: fs_def)
    have "claim (complete_file_processing (pe_now env) file n (w_marker ?w1)) \<longrightarrow> licensed evidence g ?w1"
      using claim_file [of "pe_now env" "file" n "w_marker w"] cinv_licence [OF inv] w1(2)
      by (auto simp: fs note_event_def licensed_def)
    from save_licensed [of g ?w1 "complete_file_processing (pe_now env) file n", OF w1(1) this, of env] run s Inr show ?thesis
      by (auto simp: complete_file_def deliver_def fs_def [symmetric] split: prod.splits)
  qed
qed

lemma file_pipeline_inv:
  assumes "cinv g w" "file_pipeline env br file dt q w = (q', w', r)"
  shows "cinv g w'"
proof -
  obtain q1 w1 r1 where r: "run_stages env br file dt q w = (q1, w1, r1)" by (metis surj_pair)
  from run_stages_inv [OF assms(1) r] complete_file_inv [of g w1 env br "file" dt _ q1 q' w' r] assms(2) r show ?thesis
    by (cases r1) (auto simp: file_pipeline_def)
qed

lemma process_single_file_inv:
  assumes inv: "cinv g w" and run: "process_single_file env br file q w = (w', r)"
  shows "cinv g w'"
  using run
proof (cases rule: process_single_file_cases)
  case (ran dt u w1 q1 q2 w3 r3)
  have "cinv g w1" by (rule save_quiet [OF inv _ ran(2)]) (rule claim_start_file)
  then have "cinv g (connected file dt w1)" by (simp add: connected_def)
  from file_pipeline_inv [OF this ran(4)] have "cinv g (release_file file dt (is_ok r3) w3)"
    by (simp add: release_file_def)
  from cinv_event [OF this, of Closed] show ?thesis by (simp add: ran(5))
qed (use inv save_quiet [OF inv claim_start_file] in auto)

lemma file_task_inv:
  assumes inv: "cinv g w" and run: "file_task env file w = (w', r)"
  shows "cinv g w'"
proof -
  have "cinv g (w\<lparr>w_polls := k\<rparr>)" "cinv g (w\<lparr>w_polls := k, w_queues := j\<rparr>)" for k j
    using inv by (auto intro: cinv_fields)
  with run process_single_file_inv show ?thesis
    by (fastforce simp: file_task_def poll_shutdown_def create_queue_def Let_def
        split: if_splits option.splits prod.splits)
qed

lemma run_tasks_inv: "cinv g w \<Longrightarrow> run_tasks env files w = (w', ok) \<Longrightarrow> cinv g w'"
proof (induction files arbitrary: w ok)
  case (Cons x xs)
  obtain w1 r where t: "file_task env x w = (w1, r)" by force
  obtain w2 ok2 where f: "run_tasks env xs w1 = (w2, ok2)" by force
  have "w' = w2" using Cons.prems(2) t f by simp
  with Cons.IH [OF file_task_inv [OF Cons.prems(1) t]] f show ?case by simp
qed simp

lemma broadcast_inv:
  assumes inv: "cinv g w" and run: "broadcast env version started_at w = (w', sent)"
  shows "cinv g w' \<and> w_marker w' = w_marker w
    \<and> (sent \<longrightarrow> claim (complete_extraction (w_marker w')) \<longrightarrow> licensed evidence g w')"
proof (cases "pe_queue env (w_queues w)")
  case None
  with run have "w' = w\<lparr>w_queues := w_queues w + 1\<rparr>" "\<not> sent" by (auto simp: broadcast_def create_queue_def)
  with inv show ?thesis by (simp add: cinv_fields [OF inv])
next
  case (Some q)
  define c where "c = \<lparr>ec_version = version, ec_timestamp = pe_now env, ec_started_at = started_at, ec_record_counts = record_counts (w_marker w)\<rparr>"
  obtain q1 r where s: "send_extraction_complete (pe_broker env (w_queues w)) (pe_now env) version started_at
      (record_counts (w_marker w)) discogs_types q = (q1, r)" by force
  define fs where "fs = drop (length (mq_confirmed q)) (mq_confirmed q1)"
  let ?w = "w\<lparr>w_queues := w_queues w + 1\<rparr>"
  let ?w1 = "note_event (Delivered fs) ?w"
  have w': "w' = note_event Closed ?w1" "sent = is_ok r"
    using run Some s by (simp_all add: broadcast_def create_queue_def deliver_def fs_def)
  have w: "cinv g ?w" by (rule cinv_fields [OF inv]) simp_all
  have w1: "cinv g ?w1" using cinv_event [OF w, of "Delivered fs"] by simp
  then have inv': "cinv g w'" using cinv_event [OF w1, of Closed] by (simp add: w')
  have mk: "w_marker w' = w_marker w" by (simp add: w' note_event_def)
  have "licensed evidence g w'" if "sent" "claim (complete_extraction (w_marker w'))"
  proof -
    have "fs = map (\<lambda>d. (exchange_name q d, ExtractionComplete c)) discogs_types"
      using send_extraction_complete_confirms [OF s] that(1) w'(2) by (auto simp: fs_def c_def)
    then have "claim (w_marker w) \<or> evidence fs" using claim_extraction that(2) mk by metis
    then show ?thesis
      using cinv_licence [OF inv] by (auto simp: w' note_event_def licensed_def)
  qed
  with inv' mk show ?thesis by simp
qed

lemma commit_after_broadcast:
  assumes "cinv g w" "broadcast env version started_at w = (w1, True)"
    and "save_marker env (on_marker complete_extraction w1) = (w2, r)"
  shows "cinv g w2"
  using broadcast_inv [OF assms(1,2)] save_licensed [of g w1 complete_extraction env] assms(3) by simp

lemma finish_processed_inv:
  assumes inv: "cinv g w" and run: "finish_processed env version started_at w = (w', r)"
  shows "cinv g w'"
proof (cases "overall (w_marker w) = Completed")
  case True
  with inv run show ?thesis by (auto simp: finish_processed_def)
next
  case False
  obtain w1 s where s: "save_marker env (on_marker (complete_processing (pe_now env)) w) = (w1, s)" by force
  have w1: "cinv g w1" by (rule save_quiet [OF inv _ s]) (rule claim_complete)
  obtain w2 sent where b: "broadcast env version started_at w1 = (w2, sent)" by force
  obtain w3 s3 where c: "save_marker env (on_marker complete_extraction w2) = (w3, s3)" by force
  have w2: "cinv g w2" using broadcast_inv [OF w1 b] by simp
  have w3: "sent \<Longrightarrow> cinv g w3" using commit_after_broadcast [OF w1 _ c] b by simp
  from False run s b c w1 w2 w3 show ?thesis
    by (cases s; cases sent; cases s3) (auto simp: finish_processed_def)
qed

lemma process_pending_inv:
  assumes inv: "cinv g w" and run: "process_pending env version started_at pending w = (w', r)"
  shows "cinv g w'"
proof -
  obtain w1 ok where t: "run_tasks env pending w = (w1, ok)" by force
  have w1: "cinv g w1" by (rule run_tasks_inv [OF inv t])
  obtain w2 sd where p: "poll_shutdown env w1 = (w2, sd)" by force
  have w2: "cinv g w2" using p by (auto simp: poll_shutdown_def intro: cinv_fields [OF w1])
  define success where "success = (ok \<and> \<not> sd)"
  obtain w3 s where s: "save_marker env (if success then on_marker (complete_processing (pe_now env)) w2 else w2) = (w3, s)" by force
  have w3: "cinv g w3"
    using s save_quiet [OF w2 claim_complete] save_plain [OF w2] by (cases success) auto
  obtain w4 sent where b: "(if success then broadcast env version started_at w3 else (w3, False)) = (w4, sent)" by force
  have w4: "cinv g w4"
    using b w3 broadcast_inv [OF w3, of env version started_at w4 sent] by (cases success) auto
  obtain w5 s5 where c: "save_marker env (on_marker complete_extraction w4) = (w5, s5)" by force
  have w5: "sent \<Longrightarrow> cinv g w5" using b commit_after_broadcast [OF w3 _ c] by (cases success) auto
  from run w3 w4 w5 show ?thesis
    by (cases s; cases sent; cases s5)
      (auto simp: process_pending_def t p success_def [symmetric] s b c)
qed

lemma begin_phase_inv:
  assumes inv: "cinv g w" and run: "begin_phase env files w = (w', r)"
  shows "cinv g w'"
proof (cases "pp_status (sm_processing_phase (w_marker w))")
  case Pending
  with run save_quiet [OF inv claim_start] show ?thesis by (auto simp: begin_phase_def)
next
  case InProgress
  obtain w1 s where s: "save_marker env (on_marker (on_processing (\<lambda>p. p\<lparr>pp_files_total := length files\<rparr>)) w) = (w1, s)" by force
  have "cinv g w1" by (rule save_quiet [OF inv _ s]) (rule claim_total)
  with InProgress run s show ?thesis by (cases s) (auto simp: begin_phase_def)
qed (use inv run in \<open>auto simp: begin_phase_def\<close>)

lemma process_files_inv:
  assumes inv: "cinv g w" and run: "process_files env version downloaded w = (w', r)"
  shows "cinv g w'"
proof -
  define data where "data = filter (\<lambda>f. \<not> contains f ''CHECKSUM'') downloaded"
  obtain w1 b where b: "begin_phase env data w = (w1, b)" by force
  have w1: "cinv g w1" by (rule begin_phase_inv [OF inv b])
  from run inv w1 finish_processed_inv [OF w1] process_pending_inv [OF w1] show ?thesis
    by (cases b) (auto simp: process_files_def data_def [symmetric] b Let_def split: if_splits)
qed

text \<open>A source of dumps that makes no claim of its own.\<close>

lemma source_saves_inv:
  assumes "ordered claim evidence g (w_log w)" "list_all (\<lambda>m. claim m \<longrightarrow> licensed evidence g w) ms"
  shows "ordered claim evidence g (w_log (source_saves ms w))"
  using assms
proof (induction ms arbitrary: w)
  case (Cons m ms)
  define w1 where "w1 = note_event (Saved m) (w\<lparr>w_disk := (w_disk w)(w_path w \<mapsto> m)\<rparr>)"
  have "ordered claim evidence g (w_log w1)" "list_all (\<lambda>m. claim m \<longrightarrow> licensed evidence g w1) ms"
    using Cons.prems by (auto simp: w1_def note_event_def licensed_def ordered_snoc list_all_iff)
  from Cons.IH [OF this] show ?case by (simp add: source_saves_def w1_def)
qed (simp add: source_saves_def)

lemma download_stage_inv:
  assumes keeps: "keeps_claim claim (pe_download env)"
    and inv: "ordered claim evidence g (w_log w)" "claim m \<longrightarrow> g"
    and run: "download_stage env version m w = (w', r)"
  shows "ordered claim evidence g (w_log w')"
proof -
  obtain saves handed x where d: "pe_download env m = (saves, handed, x)" by (metis surj_pair)
  define w1 where "w1 = source_saves saves (w\<lparr>w_marker := m\<rparr>)"
  have k: "list_all (\<lambda>m'. claim m' \<longrightarrow> claim m) saves" "\<And>m'. handed = Some m' \<Longrightarrow> claim m' \<Longrightarrow> claim m"
    using keeps d by (auto simp: keeps_claim_def dest!: spec [of _ m] split: option.splits)
  have "list_all (\<lambda>m'. claim m' \<longrightarrow> licensed evidence g (w\<lparr>w_marker := m\<rparr>)) saves"
    using k(1) inv(2) by (auto simp: licensed_def list_all_iff)
  from source_saves_inv [OF _ this] inv(1) have o: "ordered claim evidence g (w_log w1)"
    by (simp add: w1_def)
  show ?thesis
  proof (cases x)
    case (Inl e)
    with run d o show ?thesis by (auto simp: download_stage_def w1_def)
  next
    case files: (Inr fs)
    show ?thesis
    proof (cases handed)
      case None
      with run d files o show ?thesis by (auto simp: download_stage_def w1_def)
    next
      case (Some m1)
      have "cinv g (w1\<lparr>w_marker := m1\<rparr>)"
        using o k(2) [OF Some] inv(2) by (auto simp: commit_inv_def licensed_def)
      from process_files_inv [OF this, of env version fs w' r] run d files Some show ?thesis
        by (simp add: download_stage_def w1_def commit_inv_def)
    qed
  qed
qed

lemma process_version_ordered:
  assumes keeps: "keeps_claim claim (pe_download env)"
    and new: "\<And>t v. \<not> claim (sm_new t v)"
    and disk: "\<And>m. \<not> force \<Longrightarrow> w_disk w (file_path (pe_discogs_root env) version) = Some m \<Longrightarrow> claim m \<Longrightarrow> g"
    and log: "w_log w = []"
    and run: "process_version env force version w = (w', r)"
  shows "ordered claim evidence g (w_log w')"
proof -
  let ?w = "w\<lparr>w_path := file_path (pe_discogs_root env) version\<rparr>"
  have m: "claim (chosen_marker env force version ?w) \<longrightarrow> g"
    using new disk by (auto simp: chosen_marker_def load_marker_def Let_def split: option.splits if_splits)
  have o: "ordered claim evidence g (w_log ?w)" using log by simp
  from run log new m download_stage_inv [OF keeps o _, of _ version w' r] show ?thesis
    by (auto simp: process_version_def Let_def set_status_def on_state_def split: processing_decision.splits)
qed

lemma run_ordered:
  assumes keeps: "keeps_claim claim (pe_download env)"
    and new: "\<And>t v. \<not> claim (sm_new t v)"
    and log: "w_log w = []"
    and run: "process_discogs_data env force w = (w', r)"
  shows "ordered claim evidence (resumes claim env force w) (w_log w')"
proof -
  let ?g = "resumes claim env force w"
  obtain w1 sd where p: "poll_shutdown env w = (w1, sd)" by force
  define w2 where "w2 = on_state reset_progress w1"
  have w2: "w_log w1 = []" "w_log w2 = []" "w_disk w2 = w_disk w" "w_log (set_status s w2) = []" for s
    using p log by (auto simp: poll_shutdown_def w2_def on_state_def set_status_def)
  have v: "ordered claim evidence ?g (w_log w')"
    if "process_version env force version w2 = (w', r)" "run_version env = Some version" for version
    using that by (intro process_version_ordered [OF keeps new _ w2(2)]) (auto simp: resumes_def w2(3))
  show ?thesis
  proof (cases "\<exists>version. run_version env = Some version \<and> process_version env force version w2 = (w', r)")
    case True
    with v show ?thesis by blast
  next
    case False
    then have "w_log w' = []"
      using run p w2
      by (auto simp: process_discogs_data_def run_version_def w2_def [symmetric]
          split: bool.splits sum.splits list.splits option.splits)
    then show ?thesis by simp
  qed
qed

end

section \<open>The version\<close>

text \<open>One confirmed completion signal per exchange, with the same contents.\<close>

definition completion_signal :: "(string \<times> message) list \<Rightarrow> bool" where
  "completion_signal fs \<longleftrightarrow>
     list_all2 (\<lambda>d (ex, m). suffix (''-'' @ dt_str d) ex \<and> m = snd (hd fs)) discogs_types fs
     \<and> (case snd (hd fs) of ExtractionComplete c \<Rightarrow> True | _ \<Rightarrow> False)"

definition version_complete :: "state_marker \<Rightarrow> bool" where
  "version_complete m \<longleftrightarrow> overall m = Completed"

lemma version_complete_simps [simp]:
  "version_complete (stamp t m) = version_complete m"
  "version_complete (start_file_processing t f m) = version_complete m"
  "version_complete (update_file_progress t f r p b m) = version_complete m"
  "\<not> version_complete (start_processing t n m)"
  "version_complete (on_processing h m) = version_complete m"
  "version_complete (on_download k m) = version_complete m"
  "version_complete (complete_processing t m) = version_complete m"
  "version_complete (complete_file_processing t f n m) = version_complete m"
  "\<not> version_complete (sm_new t v)"
  by (auto simp: version_complete_def stamp_def start_file_processing_def update_file_progress_def
      start_processing_def on_processing_def on_summary_def on_publishing_def on_download_def complete_processing_def
      complete_file_processing_def sync_phase_totals_def set_file_type_def sm_new_def su_default_def Let_def
      split: option.split)

interpretation version_commit: commit_protocol version_complete completion_signal
  by unfold_locales (simp_all add: completion_signal_def discogs_types_def exchange_name_def suffix_def)

section \<open>A file\<close>

definition file_signal :: "string \<Rightarrow> (string \<times> message) list \<Rightarrow> bool" where
  "file_signal f fs \<longleftrightarrow> list_ex (\<lambda>(ex, m). case m of FileComplete c \<Rightarrow> fc_file c = f | _ \<Rightarrow> False) fs"

definition file_complete :: "string \<Rightarrow> state_marker \<Rightarrow> bool" where
  "file_complete f m \<longleftrightarrow> (case map_of (progress_of m) f of Some s \<Rightarrow> fp_status s = Completed | None \<Rightarrow> False)"

lemma file_complete_parts [simp]:
  "file_complete f (on_summary h m) = file_complete f m"
  "file_complete f (on_publishing u m) = file_complete f m"
  "file_complete f (on_download k m) = file_complete f m"
  "file_complete f (set_file_type g s m) = file_complete f m"
  "file_complete f (sync_phase_totals m) = file_complete f m"
  "file_complete f (stamp t m) = file_complete f m"
  "file_complete f (start_processing t n m) = file_complete f m"
  "file_complete f (complete_processing t m) = file_complete f m"
  "file_complete f (complete_extraction m) = file_complete f m"
  "\<not> file_complete f (sm_new t v)"
  by (auto simp: file_complete_def stamp_def start_processing_def on_processing_def on_summary_def on_publishing_def
      on_download_def complete_processing_def complete_extraction_def sync_phase_totals_def set_file_type_def
      sm_new_def pp_default_def Let_def split: option.split)

lemma file_complete_processing:
  "file_complete f (on_processing h m) =
     (case map_of (pp_progress_by_file (h (sm_processing_phase m))) f of Some s \<Rightarrow> fp_status s = Completed | None \<Rightarrow> False)"
  by (simp add: file_complete_def on_processing_def)

lemma file_complete_start: "file_complete f (start_file_processing t g m) \<longleftrightarrow> f \<noteq> g \<and> file_complete f m"
  by (simp add: start_file_processing_def Let_def file_complete_processing)
    (simp add: file_complete_def)

lemma file_complete_update [simp]: "file_complete f (update_file_progress t g r p b m) = file_complete f m"
  by (simp add: update_file_progress_def Let_def file_complete_processing map_of_omodify)
    (auto simp: file_complete_def split: option.split)

lemma file_complete_other: "f \<noteq> g \<Longrightarrow> file_complete f (complete_file_processing t g n m) = file_complete f m"
  by (simp add: complete_file_processing_def Let_def file_complete_processing map_of_omodify)
    (simp add: file_complete_def)

interpretation file_commit: commit_protocol "file_complete f" "file_signal f" for f
proof
  show "file_complete f (complete_file_processing t g n m) \<Longrightarrow>
      file_complete f m \<or> file_signal f [(ex, FileComplete \<lparr>fc_data_type = d, fc_timestamp = t', fc_total_processed = n', fc_file = g\<rparr>)]"
    for t g n m ex d t' n'
    using file_complete_other [of f g] by (cases "f = g") (auto simp: file_signal_def)
  show "file_complete f (on_processing (\<lambda>p. p\<lparr>pp_files_total := n\<rparr>) m) \<Longrightarrow> file_complete f m" for n m
    by (simp add: file_complete_processing) (simp add: file_complete_def)
qed (simp_all add: file_complete_start)

end
