(* ===== verification/Run_Guarantees.thy ===== *)
theory Run_Guarantees
  imports Commit_Order
begin

text \<open>
  What a run guarantees from outside: the order of its commits and signals, what its result says, and
  what a resumed run announces.
\<close>

section \<open>A small run\<close>

definition sample_finisher :: finisher where
  "sample_finisher = \<lparr>fi_to_upper = (\<lambda>s. s), fi_to_text = (\<lambda>_. ''t''), fi_sha256 = (\<lambda>s. ''h'')\<rparr>"

definition artists_file :: string where
  "artists_file = ''d_1_artists''"

definition one_artist :: "read_result list" where
  "one_artist = map Event
     [EvStart ''artists'' [], EvStart ''artist'' [], EvStart ''id'' [], EvText ''7'', EvEnd ''id'', EvEnd ''artist'', EvEnd ''artists'']"

definition sample_run :: "(nat \<Rightarrow> broker) \<Rightarrow> unit pipeline_env" where
  "sample_run br = \<lparr>pe_now = 9, pe_finisher = sample_finisher, pe_rules = None, pe_discogs_root = [''r''],
     pe_render = (\<lambda>_. []), pe_batch_size = 2, pe_state_save_interval = 10,
     pe_queue = (\<lambda>_. Some open_queue), pe_broker = br, pe_reads = (\<lambda>_. Some one_artist),
     pe_sends = (\<lambda>_. \<lparr>ss_parser = (\<lambda>_. True), ss_validator = (\<lambda>_. True), ss_normalizer = (\<lambda>_. True), ss_batcher = (\<lambda>_. True)\<rparr>),
     pe_arrivals = (\<lambda>_ ms. map (Received 9) ms), pe_save_ok = (\<lambda>_. True), pe_marker_readable = True,
     pe_shutdown_from = None, pe_latest = Ok [artists_file],
     pe_download = (\<lambda>m. ([m], Some m, Ok [artists_file]))\<rparr>"

definition fresh_world :: world where
  "fresh_world = \<lparr>w_state = es_default, w_marker = sm_new 0 [], w_path = [], w_disk = (\<lambda>_. None), w_saves = 0,
     w_polls = 0, w_queues = 0, w_log = []\<rparr>"

text \<open>The files of the version were processed in an earlier session.\<close>

definition resumed_marker :: state_marker where
  "resumed_marker = complete_file_processing 6 artists_file 40 (start_file_processing 5 artists_file
     (start_processing 4 1 (complete_download 3 (sm_new 2 ''1''))))"

definition resumed_world :: world where
  "resumed_world = fresh_world\<lparr>w_disk := [file_path [''r''] ''1'' \<mapsto> resumed_marker]\<rparr>"

section \<open>What processing a file leaves alone\<close>

definition ordinary :: "pipeline_event \<Rightarrow> bool" where
  "ordinary e = (case e of Delivered fs \<Rightarrow> list_all (\<lambda>(x, m). case m of ExtractionComplete c \<Rightarrow> False | _ \<Rightarrow> True) fs
     | _ \<Rightarrow> True)"

text \<open>Events of the world are added, none of them a completion signal; the status is not touched.\<close>

definition file_frame :: "world \<Rightarrow> world \<Rightarrow> bool" where
  "file_frame w w' \<longleftrightarrow>
     (\<exists>es. w_log w' = w_log w @ es \<and> list_all ordinary es)
     \<and> es_extraction_status (w_state w') = es_extraction_status (w_state w) \<and> w_path w' = w_path w"

lemma frame_refl: "file_frame w w"
  by (simp add: file_frame_def)

lemma frame_trans:
  assumes "file_frame w w'" "file_frame w' w''"
  shows "file_frame w w''"
proof -
  obtain es es' where "w_log w' = w_log w @ es" "w_log w'' = w_log w' @ es'" "list_all ordinary es" "list_all ordinary es'"
    using assms by (auto simp: file_frame_def)
  then have "w_log w'' = w_log w @ (es @ es')" "list_all ordinary (es @ es')" by simp_all
  then show ?thesis using assms by (auto simp: file_frame_def)
qed

lemma frame_event: "ordinary e \<Longrightarrow> file_frame w (note_event e w)"
  by (simp add: file_frame_def note_event_def)

lemma frame_marker: "file_frame w (on_marker f w)"
  by (simp add: file_frame_def on_marker_def)

lemma frame_write: "file_frame w (fst (write_marker env m w))"
  by (simp add: file_frame_def write_marker_def Let_def note_event_def ordinary_def)

lemma frame_save: "save_marker env (on_marker f w) = (w', r) \<Longrightarrow> file_frame w w'"
  using frame_trans [OF frame_trans [OF frame_marker frame_marker] frame_write]
  by (metis fst_conv save_marker_def)

lemma frame_save_plain: "save_marker env w = (w', r) \<Longrightarrow> file_frame w w'"
  using frame_trans [OF frame_marker frame_write] by (metis fst_conv save_marker_def)

lemma frame_saves: "file_frame w (batcher_saves env ms w)"
proof (induction ms arbitrary: w)
  case (Cons m ms)
  from frame_trans [OF frame_write [of w env m] Cons [of "fst (write_marker env m w)"]]
  show ?case by (simp add: batcher_saves_def)
qed (simp add: batcher_saves_def frame_refl)

lemma batcher_status:
  "es_extraction_status (bs_state (fst (message_batcher cfg accepts t is st))) = es_extraction_status (bs_state st)"
proof (induction "is" arbitrary: st)
  case Nil
  show ?case by (auto simp: flush_batch_def save_progress_def Let_def split: prod.split sum.split)
next
  case (Cons i "is")
  have "es_extraction_status (bs_state (fst (case i of Received t msg \<Rightarrow> on_received cfg accepts t msg st | TimedOut old \<Rightarrow> on_timeout accepts old st)))
    = es_extraction_status (bs_state st)"
    by (auto simp: on_received_def on_timeout_def flush_batch_def save_progress_def count_record_def Let_def
        split: batch_input.split)
  with Cons show ?case by (auto split: prod.split sum.split)
qed

lemma publisher_status:
  "message_publisher pub bs q s = (q', s', r) \<Longrightarrow> es_extraction_status s' = es_extraction_status s"
  by (induction bs arbitrary: q) (auto split: prod.splits sum.splits)

lemma frame_stages:
  assumes run: "run_stages env br file dt q w = (q1, w1, r)"
  shows "file_frame w w1"
  using run
proof (rule run_stages_parts)
  fix st batched s1 published
  assume 1: "message_batcher (file_batcher env file dt) (ss_batcher (pe_sends env file)) (pe_now env)
      (pe_arrivals env file (normalized_records env file dt)) (batcher_init (w_state w) (w_marker w)) = (st, batched)"
    and 2: "message_publisher (\<lambda>ms. publish_batch br ms dt) (bs_sent st) q (bs_state st) = (q1, s1, published)"
    and w1: "w1 = deliver q q1 (batcher_saves env (bs_saved st) (w\<lparr>w_marker := bs_marker st\<rparr>)\<lparr>w_state := s1\<rparr>)"
  let ?w = "batcher_saves env (bs_saved st) (w\<lparr>w_marker := bs_marker st\<rparr>)"
  have s1: "es_extraction_status s1 = es_extraction_status (w_state w)"
    using publisher_status [OF 2] batcher_status [of "file_batcher env file dt"] 1
    by (metis batcher_init_def batcher_state.select_convs(5) fst_conv)
  have "file_frame (w\<lparr>w_marker := bs_marker st\<rparr>) ?w" by (rule frame_saves)
  with s1 have f: "file_frame w (?w\<lparr>w_state := s1\<rparr>)" by (simp add: file_frame_def)
  from publisher_confirms [OF 2] obtain fs where
    "drop (length (mq_confirmed q)) (mq_confirmed q1) = fs" "list_all (\<lambda>f. \<exists>m. snd f = Data m) fs" by force
  then have "ordinary (Delivered (drop (length (mq_confirmed q)) (mq_confirmed q1)))"
    by (auto simp: ordinary_def list_all_iff)
  from frame_trans [OF f frame_event [OF this]] show ?thesis by (simp add: w1 deliver_def)
qed

lemma frame_complete_file:
  assumes run: "complete_file env br file dt n q w = (q', w', r)"
  shows "file_frame w w'"
proof -
  obtain q1 sent where s: "send_file_complete br (pe_now env) dt file n q = (q1, sent)" by force
  have "ordinary (Delivered (drop (length (mq_confirmed q)) (mq_confirmed q1)))"
    using send_file_complete_confirms [OF s] by (simp add: ordinary_def)
  from frame_event [OF this] have w1: "file_frame w (deliver q q1 w)" by (simp add: deliver_def)
  obtain w2 x where x: "save_marker env (on_marker (complete_file_processing (pe_now env) file n) (deliver q q1 w)) = (w2, x)"
    by force
  from frame_trans [OF w1 frame_save [OF x]] w1 run s x show ?thesis
    by (cases sent) (auto simp: complete_file_def)
qed

lemma frame_pipeline:
  assumes "file_pipeline env br file dt q w = (q', w', r)"
  shows "file_frame w w'"
proof -
  obtain q1 w1 r1 where r: "run_stages env br file dt q w = (q1, w1, r1)" by (metis surj_pair)
  show ?thesis
  proof (cases r1)
    case (Inl e)
    with assms r frame_stages [OF r] show ?thesis by (auto simp: file_pipeline_def)
  next
    case (Inr n)
    with assms r have "complete_file env br file dt n q1 w1 = (q', w', r)" by (simp add: file_pipeline_def)
    from frame_trans [OF frame_stages [OF r] frame_complete_file [OF this]] show ?thesis .
  qed
qed

lemma frame_single_file:
  assumes run: "process_single_file env br file q w = (w', r)"
  shows "file_frame w w'"
  using run
proof (cases rule: process_single_file_cases)
  case (ran dt u w1 q1 q2 w3 r3)
  define w4 where "w4 = release_file file dt (is_ok r3) w3"
  have "file_frame w1 (connected file dt w1)" "file_frame w3 w4"
    by (simp_all add: connected_def w4_def file_frame_def on_state_def release_file_def)
  moreover have "file_frame w4 (note_event Closed w4)" by (rule frame_event) (simp add: ordinary_def)
  ultimately have "file_frame w1 w'" using frame_pipeline [OF ran(4)] frame_trans ran(5) w4_def by blast
  with frame_save [OF ran(2)] frame_trans show ?thesis by blast
qed (use frame_save in \<open>auto intro: frame_refl\<close>)

lemma frame_counters: "file_frame (w\<lparr>w_polls := k, w_queues := j\<rparr>) w' = file_frame w w'"
  "file_frame w (w'\<lparr>w_polls := k, w_queues := j\<rparr>) = file_frame w w'"
  "file_frame w (w'\<lparr>w_polls := k\<rparr>) = file_frame w w'"
  "file_frame w (w'\<lparr>w_queues := k\<rparr>) = file_frame w w'"
  by (simp_all add: file_frame_def)

lemma frame_task: "file_task env file w = (w', r) \<Longrightarrow> file_frame w w'"
  using frame_single_file [of env _ "file" _ _ w' r] frame_refl [of w]
  by (auto simp: file_task_def poll_shutdown_def create_queue_def Let_def frame_counters
      split: if_splits option.splits prod.splits dest!: frame_single_file)

lemma frame_tasks: "run_tasks env files w = (w', ok) \<Longrightarrow> file_frame w w'"
proof (induction files arbitrary: w ok)
  case (Cons x xs)
  obtain w1 r where t: "file_task env x w = (w1, r)" by force
  obtain w2 ok2 where f: "run_tasks env xs w1 = (w2, ok2)" by force
  have "w' = w2" using Cons.prems t f by simp
  with Cons.IH frame_task [OF t] f frame_trans show ?case by blast
qed (simp add: frame_refl)

section \<open>The status says what happened\<close>

abbreviation status :: "world \<Rightarrow> extraction_status" where
  "status w \<equiv> es_extraction_status (w_state w)"

definition status_for :: "extraction_status \<Rightarrow> (pipeline_error + bool) \<Rightarrow> extraction_status" where
  "status_for before r =
     (case r of Inl e \<Rightarrow> before | Inr done \<Rightarrow> if done then StatusCompleted else StatusFailed)"

lemma save_status: "save_marker env (on_marker f w) = (w', r) \<Longrightarrow> status w' = status w"
  using frame_save [of env f w w' r] by (simp add: file_frame_def)

lemma broadcast_keeps:
  "broadcast env version t w = (w', sent) \<Longrightarrow> w_state w' = w_state w \<and> w_marker w' = w_marker w \<and> w_path w' = w_path w"
  by (auto simp: broadcast_def create_queue_def deliver_def note_event_def Let_def split: option.splits prod.splits)

lemma set_status_simps [simp]: "status (set_status s w) = s" "w_marker (set_status s w) = w_marker w"
  "w_path (set_status s w) = w_path w" "w_disk (set_status s w) = w_disk w" "w_log (set_status s w) = w_log w"
  by (simp_all add: set_status_def on_state_def)

lemma finish_processed_status:
  assumes run: "finish_processed env version t w = (w', r)"
  shows "status w' = status_for (status w) r"
proof -
  obtain w1 s where s: "save_marker env (on_marker (complete_processing (pe_now env)) w) = (w1, s)" by force
  obtain w2 sent where b: "broadcast env version t w1 = (w2, sent)" by force
  obtain w3 s3 where c: "save_marker env (on_marker complete_extraction w2) = (w3, s3)" by force
  note st = save_status [OF s] broadcast_keeps [OF b] save_status [OF c]
  from run s b c st show ?thesis
    by (cases "overall (w_marker w) = Completed"; cases s; cases sent; cases s3)
      (auto simp: finish_processed_def status_for_def)
qed

lemma process_pending_status:
  assumes run: "process_pending env version t pending w = (w', r)"
  shows "status w' = status_for (status w) r"
proof -
  obtain w1 ok where t: "run_tasks env pending w = (w1, ok)" by force
  obtain w2 sd where p: "poll_shutdown env w1 = (w2, sd)" by force
  define success where "success = (ok \<and> \<not> sd)"
  obtain w3 s where s: "save_marker env (if success then on_marker (complete_processing (pe_now env)) w2 else w2) = (w3, s)" by force
  obtain w4 sent where b: "(if success then broadcast env version t w3 else (w3, False)) = (w4, sent)" by force
  obtain w5 s5 where c: "save_marker env (on_marker complete_extraction w4) = (w5, s5)" by force
  have st: "status w1 = status w" "status w2 = status w1" "status w3 = status w2"
    "status w4 = status w3" "status w5 = status w4"
    using frame_tasks [OF t] p s frame_save_plain [of env w2 w3 s] save_status [of env _ w2 w3 s] b broadcast_keeps [of env version t w3 w4 sent] save_status [OF c]
    by (auto simp: file_frame_def poll_shutdown_def split: if_splits)
  from run st show ?thesis
    by (cases s; cases sent; cases s5)
      (auto simp: process_pending_def t p success_def [symmetric] s b c status_for_def)
qed

lemma begin_phase_status: "begin_phase env files w = (w', r) \<Longrightarrow> status w' = status w"
proof -
  assume run: "begin_phase env files w = (w', r)"
  have rh: "es_extraction_status (rehydrate m s) = es_extraction_status s" for m s
  proof -
    have "es_extraction_status (fold (\<lambda>(f, p) s. if fp_status p = Completed then
           (case extract_data_type f of
              Some dt \<Rightarrow> s\<lparr>es_extraction_progress := pg_add (es_extraction_progress s) dt (fp_records_extracted p)\<rparr>
            | None \<Rightarrow> s)
         else s) ps s) = es_extraction_status s" for ps
      by (induction ps arbitrary: s) (auto split: option.split)
    then show ?thesis by (simp add: rehydrate_def)
  qed
  obtain w1 s where s: "save_marker env (on_marker (on_processing (\<lambda>p. p\<lparr>pp_files_total := length files\<rparr>)) w) = (w1, s)" by force
  show ?thesis
  proof (cases "pp_status (sm_processing_phase (w_marker w))")
    case Pending
    with run have "save_marker env (on_marker (start_processing (pe_now env) (length files)) w) = (w', r)"
      by (simp add: begin_phase_def)
    from save_status [OF this] show ?thesis .
  next
    case InProgress
    with run s save_status [OF s] show ?thesis by (cases s) (auto simp: begin_phase_def on_state_def rh)
  qed (use run in \<open>simp_all add: begin_phase_def\<close>)
qed

lemma process_files_status:
  assumes run: "process_files env version downloaded w = (w', r)"
  shows "status w' = status_for (status w) r"
proof -
  define data where "data = filter (\<lambda>f. \<not> contains f ''CHECKSUM'') downloaded"
  obtain w1 b where b: "begin_phase env data w = (w1, b)" by force
  note st = begin_phase_status [OF b] finish_processed_status [of env version _ w1 w' r]
    process_pending_status [of env version _ _ w1 w' r]
  from run st show ?thesis
    by (cases b) (auto simp: process_files_def data_def [symmetric] b Let_def status_for_def split: if_splits)
qed

lemma source_saves_status: "w_state (source_saves ms w) = w_state w"
proof (induction ms arbitrary: w)
  case (Cons m ms)
  from Cons [of "note_event (Saved m) (w\<lparr>w_disk := (w_disk w)(w_path w \<mapsto> m)\<rparr>)"]
  show ?case by (simp add: source_saves_def note_event_def)
qed (simp add: source_saves_def)

lemma download_stage_status:
  assumes run: "download_stage env version m w = (w', r)"
  shows "status w' = status_for (status w) r"
proof -
  obtain saves handed x where d: "pe_download env m = (saves, handed, x)" by (metis surj_pair)
  have "status (source_saves saves (w\<lparr>w_marker := m\<rparr>)\<lparr>w_marker := m1\<rparr>) = status w" for m1
    by (simp add: source_saves_status)
  then have f: "status w' = status_for (status w) r"
    if "process_files env version fs (source_saves saves (w\<lparr>w_marker := m\<rparr>)\<lparr>w_marker := m1\<rparr>) = (w', r)" for fs m1
    using process_files_status [OF that] by simp
  have "status (source_saves saves (w\<lparr>w_marker := m\<rparr>)) = status w" by (simp add: source_saves_status)
  with run d f show ?thesis
    by (cases x; cases handed) (auto simp: download_stage_def status_for_def)
qed

text \<open>
  The status shown to operators is the result of the run, on every path: completed when the run
  returns true, failed when it returns false, still running when it returns an error (the caller
  decides about it), and untouched when a shutdown kept the run from starting.
\<close>

theorem run_status:
  "case process_discogs_data env force w of (w', r) \<Rightarrow>
     es_extraction_status (w_state w') =
       (if snd (poll_shutdown env w) then es_extraction_status (w_state w)
        else case r of Inl e \<Rightarrow> StatusRunning | Inr done \<Rightarrow> if done then StatusCompleted else StatusFailed)"
proof -
  obtain w1 sd where p: "poll_shutdown env w = (w1, sd)" by force
  define w2 where "w2 = on_state reset_progress w1"
  have w1: "w_state w1 = w_state w" using p by (auto simp: poll_shutdown_def)
  have w2: "status w2 = StatusRunning" by (simp add: w2_def on_state_def reset_progress_def)
  have v: "status w' = status_for StatusRunning r" if "process_version env force version w2 = (w', r)" for version w' r
    using that w2
    by (auto simp: process_version_def Let_def status_for_def dest!: download_stage_status
        split: processing_decision.splits)
  obtain w' r where run: "process_discogs_data env force w = (w', r)" by force
  then show ?thesis
    using p w1 w2 v
    by (auto simp: process_discogs_data_def w2_def [symmetric] status_for_def
        split: bool.splits sum.splits list.splits option.splits)
qed

section \<open>What a run announces\<close>

text \<open>An event whose completion signals carry this version, this start and these counts.\<close>

definition announces :: "string \<Rightarrow> time \<Rightarrow> (string, nat) omap \<Rightarrow> pipeline_event \<Rightarrow> bool" where
  "announces version t counts e =
     (case e of
        Delivered fs \<Rightarrow> list_all (\<lambda>(x, m). case m of
          ExtractionComplete c \<Rightarrow> ec_version c = version \<and> ec_started_at c = t \<and> ec_record_counts c = counts
        | _ \<Rightarrow> True) fs
      | _ \<Rightarrow> True)"

lemma ordinary_announces: "ordinary e \<Longrightarrow> announces version t counts e"
  by (auto simp: ordinary_def announces_def list_all_iff split: pipeline_event.splits message.splits)

definition log_ext :: "(pipeline_event \<Rightarrow> bool) \<Rightarrow> world \<Rightarrow> world \<Rightarrow> bool" where
  "log_ext P w w' \<longleftrightarrow> (\<exists>es. w_log w' = w_log w @ es \<and> list_all P es)"

lemma log_ext_trans [trans]: "log_ext P w w' \<Longrightarrow> log_ext P w' w'' \<Longrightarrow> log_ext P w w''"
  unfolding log_ext_def by (metis append.assoc list_all_append)

lemma log_ext_same: "w_log w' = w_log w \<Longrightarrow> log_ext P w w'"
  by (simp add: log_ext_def)

lemma frame_announces: "file_frame w w' \<Longrightarrow> log_ext (announces version t counts) w w'"
  by (auto simp: file_frame_def log_ext_def list_all_iff intro: ordinary_announces)

lemma broadcast_announces:
  assumes run: "broadcast env version t w = (w', sent)"
  shows "log_ext (announces version t (record_counts (w_marker w))) w w'"
proof (cases "pe_queue env (w_queues w)")
  case None
  with run show ?thesis by (auto simp: broadcast_def create_queue_def log_ext_def)
next
  case (Some q)
  obtain q1 r where s: "send_extraction_complete (pe_broker env (w_queues w)) (pe_now env) version t
      (record_counts (w_marker w)) discogs_types q = (q1, r)" by force
  define fs where "fs = drop (length (mq_confirmed q)) (mq_confirmed q1)"
  have "list_all (\<lambda>f. snd f = ExtractionComplete \<lparr>ec_version = version, ec_timestamp = pe_now env, ec_started_at = t,
      ec_record_counts = record_counts (w_marker w)\<rparr>) fs"
    using send_extraction_complete_confirms [OF s] by (auto simp: fs_def)
  then have "announces version t (record_counts (w_marker w)) (Delivered fs)"
    by (auto simp: announces_def list_all_iff)
  moreover have "w_log w' = w_log w @ [Delivered fs, Closed]"
    using run Some s by (auto simp: broadcast_def create_queue_def deliver_def note_event_def fs_def)
  ultimately show ?thesis by (simp add: log_ext_def announces_def)
qed

lemma save_marker_value:
  "save_marker env (on_marker f w) = (w', r) \<Longrightarrow> w_marker w' = stamp (pe_now env) (f (w_marker w))
    \<and> w_path w' = w_path w \<and> (is_ok r \<longrightarrow> w_disk w' (w_path w) = Some (stamp (pe_now env) (f (w_marker w))))"
  by (auto simp: save_marker_def write_marker_def on_marker_def note_event_def Let_def split: if_splits)

lemma save_announces: "save_marker env (on_marker f w) = (w', r) \<Longrightarrow> log_ext (announces version t counts) w w'"
  by (rule frame_announces [OF frame_save])

lemma record_counts_complete [simp]:
  "record_counts (stamp now (complete_extraction m)) = record_counts m"
  by (simp add: record_counts_def stamp_def complete_extraction_def on_summary_def on_publishing_def Let_def split: option.split)

lemma commit_announces:
  assumes b: "broadcast env version t w = (w1, sent)" and c: "save_marker env (on_marker complete_extraction w1) = (w2, r)"
  shows "log_ext (announces version t (record_counts (w_marker w2))) w w2"
proof -
  have m: "record_counts (w_marker w2) = record_counts (w_marker w)"
    using save_marker_value [OF c] broadcast_keeps [OF b] by simp
  show ?thesis
    unfolding m by (rule log_ext_trans [OF broadcast_announces [OF b] save_announces [OF c]])
qed

lemma finish_processed_announces:
  assumes run: "finish_processed env version t w = (w', r)"
  shows "log_ext (announces version t (record_counts (w_marker w'))) w w'"
proof (cases "overall (w_marker w) = Completed")
  case True
  with run show ?thesis by (auto simp: finish_processed_def log_ext_def)
next
  case False
  obtain w1 s where s: "save_marker env (on_marker (complete_processing (pe_now env)) w) = (w1, s)" by force
  obtain w2 sent where b: "broadcast env version t w1 = (w2, sent)" by force
  obtain w3 s3 where c: "save_marker env (on_marker complete_extraction w2) = (w3, s3)" by force
  have w1: "log_ext (announces version t counts) w w1" for counts by (rule save_announces [OF s])
  have w2: "log_ext (announces version t (record_counts (w_marker w2))) w w2"
    using log_ext_trans [OF w1 broadcast_announces [OF b]] broadcast_keeps [OF b] by simp
  have w3: "log_ext (announces version t (record_counts (w_marker w3))) w w3"
    by (rule log_ext_trans [OF w1 commit_announces [OF b c]])
  from False run s b c w1 w2 w3 show ?thesis
    by (cases s; cases sent; cases s3) (auto simp: finish_processed_def log_ext_def)
qed

lemma process_pending_announces:
  assumes run: "process_pending env version t pending w = (w', r)"
  shows "log_ext (announces version t (record_counts (w_marker w'))) w w'"
proof -
  obtain w1 ok where t: "run_tasks env pending w = (w1, ok)" by force
  obtain w2 sd where p: "poll_shutdown env w1 = (w2, sd)" by force
  define success where "success = (ok \<and> \<not> sd)"
  obtain w3 s where s: "save_marker env (if success then on_marker (complete_processing (pe_now env)) w2 else w2) = (w3, s)" by force
  obtain w4 sent where b: "(if success then broadcast env version t w3 else (w3, False)) = (w4, sent)" by force
  obtain w5 s5 where c: "save_marker env (on_marker complete_extraction w4) = (w5, s5)" by force
  let ?ext = "\<lambda>counts. log_ext (announces version t counts)"
  have "file_frame w2 w3"
    using s frame_save_plain [of env w2 w3 s] frame_save [of env _ w2 w3 s] by (cases success) auto
  moreover have "w_log w2 = w_log w1" using p by (auto simp: poll_shutdown_def)
  ultimately have w3: "?ext counts w w3" for counts
    by (rule log_ext_trans [OF frame_announces [OF frame_tasks [OF t]] log_ext_trans [OF log_ext_same frame_announces], rotated])
  have w4: "?ext (record_counts (w_marker w4)) w w4"
  proof (cases success)
    case True
    with b have b: "broadcast env version t w3 = (w4, sent)" by simp
    from log_ext_trans [OF w3 broadcast_announces [OF b]] broadcast_keeps [OF b] show ?thesis by simp
  qed (use b w3 in auto)
  have w5: "?ext (record_counts (w_marker w5)) w w5" if sent
  proof -
    have b: "broadcast env version t w3 = (w4, sent)" using b that by (cases success) auto
    show ?thesis by (rule log_ext_trans [OF w3 commit_announces [OF b c]])
  qed
  from run w3 w4 w5 show ?thesis
    by (cases s; cases sent; cases s5)
      (auto simp: process_pending_def t p success_def [symmetric] s b c log_ext_def)
qed

text \<open>The start that a run announces: the one persisted by the session that started processing.\<close>

definition announced_start :: "'r pipeline_env \<Rightarrow> state_marker \<Rightarrow> time" where
  "announced_start env m =
     (if pp_status (sm_processing_phase m) = Pending then pe_now env
      else case pp_started_at (sm_processing_phase m) of Some t \<Rightarrow> t | None \<Rightarrow> pe_now env)"

lemma begin_phase_announces:
  assumes run: "begin_phase env files w = (w', Inr u)"
  shows "log_ext (announces version t counts) w w'
    \<and> (case pp_started_at (sm_processing_phase (w_marker w')) of Some t \<Rightarrow> t | None \<Rightarrow> pe_now env) = announced_start env (w_marker w)"
proof (cases "pp_status (sm_processing_phase (w_marker w))")
  case Pending
  with run have s: "save_marker env (on_marker (start_processing (pe_now env) (length files)) w) = (w', Inr u)"
    by (simp add: begin_phase_def)
  with Pending save_marker_value [OF s] save_announces [OF s] show ?thesis
    by (simp add: announced_start_def start_processing_def on_processing_def on_summary_def stamp_def)
next
  case InProgress
  obtain w1 s where s: "save_marker env (on_marker (on_processing (\<lambda>p. p\<lparr>pp_files_total := length files\<rparr>)) w) = (w1, s)" by force
  with InProgress run have "w_log w' = w_log w1" "w_marker w' = w_marker w1"
    by (cases s; auto simp: begin_phase_def on_state_def)+
  with InProgress save_marker_value [OF s] save_announces [OF s, of version t counts] show ?thesis
    by (simp add: announced_start_def on_processing_def stamp_def log_ext_def)
qed (use run in \<open>auto simp: begin_phase_def announced_start_def log_ext_def split: option.split\<close>)

text \<open>
  C18: every completion signal a run sends announces the version, the start persisted when the
  processing of the version began (not the start of a resumed process, which would make consumers
  purge rows written before the restart) and the record counts persisted for all files (not only those
  of this session).
\<close>

theorem signal_contents:
  "case process_files env version downloaded w of (w', r) \<Rightarrow>
     \<exists>es. w_log w' = w_log w @ es
       \<and> list_all (announces version (announced_start env (w_marker w)) (record_counts (w_marker w'))) es"
proof -
  define data where "data = filter (\<lambda>f. \<not> contains f ''CHECKSUM'') downloaded"
  obtain w1 b where b: "begin_phase env data w = (w1, b)" by force
  obtain w' r where run: "process_files env version downloaded w = (w', r)" by force
  let ?P = "\<lambda>w'. announces version (announced_start env (w_marker w)) (record_counts (w_marker w'))"
  have "log_ext (?P w') w w'"
  proof (cases b)
    case (Inl e)
    then have "file_frame w w1"
      using b frame_save [of env "start_processing (pe_now env) (length data)" w w1]
        frame_save [of env "on_processing (\<lambda>p. p\<lparr>pp_files_total := length data\<rparr>)" w w1]
      by (cases "pp_status (sm_processing_phase (w_marker w))")
        (auto simp: begin_phase_def split: prod.splits sum.splits)
    with run Inl show ?thesis
      by (auto simp: process_files_def data_def [symmetric] b log_ext_same frame_announces split: if_splits)
  next
    case (Inr u)
    note start = begin_phase_announces [OF b [unfolded Inr], of version "announced_start env (w_marker w)" "record_counts (w_marker w')"]
    have "log_ext (?P w') w1 w'" if "data \<noteq> []"
      using run Inr that start finish_processed_announces process_pending_announces
      by (auto simp: process_files_def data_def [symmetric] b Let_def split: if_splits)
    with start log_ext_trans have "log_ext (?P w') w w'" if "data \<noteq> []" using that by blast
    with run show ?thesis
      by (cases "data = []") (auto simp: process_files_def data_def [symmetric] log_ext_same)
  qed
  with run show ?thesis by (simp add: log_ext_def)
qed

end
