(* ===== verification/Run_Outcome.thy ===== *)
theory Run_Outcome
  imports Run_Guarantees "HOL-Library.Code_Target_Nat"
begin

text \<open>
  The commits of a run: in which order they happen, what a successful run has committed, that a lost
  completion signal is owed until it is confirmed, and which records a file delivers.
\<close>

section \<open>Commit order\<close>

text \<open>
  The marker of a version is never saved as complete before every exchange has confirmed the
  completion signal: in the log of a run, a saved marker with overall status completed is preceded
  by a confirmed signal for each entity type, unless the run resumes a version whose marker was
  complete already.  The source of the dumps must not complete versions itself.
\<close>

theorem version_committed_after_signal:
  assumes "keeps_claim version_complete (pe_download env)"
    and "w_log w = []"
    and "process_discogs_data env force w = (w', r)"
  shows "ordered version_complete completion_signal (resumes version_complete env force w) (w_log w')"
  using assms(1) _ assms(2,3) by (rule version_commit.run_ordered) simp

theorem version_committed_after_signal_witness:
  "ordered version_complete completion_signal False
      (w_log (fst (process_discogs_data (sample_run (\<lambda>_. fine_broker)) False resumed_world)))
    \<and> list_ex (\<lambda>e. case e of Saved m \<Rightarrow> version_complete m | _ \<Rightarrow> False)
      (w_log (fst (process_discogs_data (sample_run (\<lambda>_. fine_broker)) False resumed_world)))"
proof -
  let ?env = "sample_run (\<lambda>_. fine_broker)"
  have k: "keeps_claim version_complete (pe_download ?env)" by (simp add: keeps_claim_def sample_run_def)
  have "w_disk resumed_world p = Some m \<Longrightarrow> version_complete m \<Longrightarrow> False" for p m
    by (auto simp: resumed_world_def fresh_world_def resumed_marker_def complete_download_def split: if_splits)
  then have d: "resumes version_complete ?env False resumed_world = False"
    by (auto simp: resumes_def split: option.splits)
  have l: "w_log resumed_world = []" by (simp add: resumed_world_def fresh_world_def)
  have "list_ex (\<lambda>e. case e of Saved m \<Rightarrow> version_complete m | _ \<Rightarrow> False)
      (w_log (fst (process_discogs_data ?env False resumed_world)))"
    by code_simp
  with version_committed_after_signal [OF k l surjective_pairing, of False] show ?thesis by (simp add: d)
qed

text \<open>
  The marker never says that a file is done before the broker has confirmed the file's completion
  message: a failure of that message leaves the file pending, and it is processed again.
\<close>

theorem file_committed_after_signal:
  assumes "keeps_claim (file_complete f) (pe_download env)"
    and "w_log w = []"
    and "process_discogs_data env force w = (w', r)"
  shows "ordered (file_complete f) (file_signal f) (resumes (file_complete f) env force w) (w_log w')"
  using assms(1) _ assms(2,3) by (rule file_commit.run_ordered) simp

theorem file_committed_after_signal_witness:
  "ordered (file_complete artists_file) (file_signal artists_file) False
      (w_log (fst (process_discogs_data (sample_run (\<lambda>_. fine_broker)) True fresh_world)))"
proof -
  let ?env = "sample_run (\<lambda>_. fine_broker)"
  have k: "keeps_claim (file_complete artists_file) (pe_download ?env)" by (simp add: keeps_claim_def sample_run_def)
  have l: "w_log fresh_world = []" by (simp add: fresh_world_def)
  have "resumes (file_complete artists_file) ?env True fresh_world = False" by (simp add: resumes_def)
  with file_committed_after_signal [OF k l surjective_pairing, of True] show ?thesis by simp
qed

section \<open>Success is committed, and a lost signal stays owed\<close>

definition marker_frame :: "state_marker \<Rightarrow> state_marker \<Rightarrow> bool" where
  "marker_frame m m' \<longleftrightarrow> version_complete m' = version_complete m \<and> sm_download_phase m' = sm_download_phase m"

lemma marker_frame_trans: "marker_frame m m' \<Longrightarrow> marker_frame m' m'' \<Longrightarrow> marker_frame m m''"
  by (simp add: marker_frame_def)

lemma download_phase_simps [simp]:
  "sm_download_phase (stamp t m) = sm_download_phase m"
  "sm_download_phase (start_file_processing t f m) = sm_download_phase m"
  "sm_download_phase (update_file_progress t f r p b m) = sm_download_phase m"
  "sm_download_phase (start_processing t n m) = sm_download_phase m"
  "sm_download_phase (on_processing h m) = sm_download_phase m"
  "sm_download_phase (complete_processing t m) = sm_download_phase m"
  "sm_download_phase (complete_file_processing t f n m) = sm_download_phase m"
  "sm_download_phase (complete_extraction m) = sm_download_phase m"
  by (simp_all add: stamp_def start_file_processing_def update_file_progress_def start_processing_def on_processing_def
      on_summary_def on_publishing_def complete_processing_def complete_file_processing_def sync_phase_totals_def
      set_file_type_def complete_extraction_def Let_def split: option.split)

lemma marker_frame_steps [simp]:
  "marker_frame m m"
  "marker_frame m (stamp t m)"
  "marker_frame m (start_file_processing t f m)"
  "marker_frame m (update_file_progress t f r p b m)"
  "marker_frame m (on_processing h m)"
  "marker_frame m (complete_processing t m)"
  "marker_frame m (complete_file_processing t f n m)"
  by (simp_all add: marker_frame_def)

lemma save_frame:
  assumes "save_marker env (on_marker f w) = (w', r)" "marker_frame (w_marker w) (f (w_marker w))"
  shows "marker_frame (w_marker w) (w_marker w')"
  using save_marker_value [OF assms(1)] marker_frame_trans [OF assms(2)] by simp

lemma batcher_marker: "marker_frame (bs_marker st) (bs_marker (fst (message_batcher cfg accepts t is st)))"
proof (induction "is" arbitrary: st)
  case Nil
  show ?case by (auto simp: flush_batch_def save_progress_def marker_frame_def Let_def split: prod.split sum.split)
next
  case (Cons i "is")
  have "marker_frame (bs_marker st)
      (bs_marker (fst (case i of Received t msg \<Rightarrow> on_received cfg accepts t msg st | TimedOut old \<Rightarrow> on_timeout accepts old st)))"
    by (auto simp: on_received_def on_timeout_def flush_batch_def save_progress_def count_record_def marker_frame_def Let_def
        split: batch_input.split)
  with Cons show ?case by (auto split: prod.split sum.split intro: marker_frame_trans)
qed

lemma batcher_saves_marker: "w_marker (batcher_saves env ms w) = w_marker w"
proof (induction ms arbitrary: w)
  case (Cons m ms)
  have "w_marker (fst (write_marker env m w)) = w_marker w" by (simp add: write_marker_def note_event_def Let_def)
  with Cons show ?case by (simp add: batcher_saves_def)
qed (simp add: batcher_saves_def)

lemma stages_marker:
  assumes run: "run_stages env br file dt q w = (q1, w1, r)"
  shows "marker_frame (w_marker w) (w_marker w1)"
  using run
proof (rule run_stages_parts)
  fix st batched s1
  assume 1: "message_batcher (file_batcher env file dt) (ss_batcher (pe_sends env file)) (pe_now env)
      (pe_arrivals env file (normalized_records env file dt)) (batcher_init (w_state w) (w_marker w)) = (st, batched)"
    and "w1 = deliver q q1 (batcher_saves env (bs_saved st) (w\<lparr>w_marker := bs_marker st\<rparr>)\<lparr>w_state := s1\<rparr>)"
  then have "w_marker w1 = bs_marker st" by (simp add: deliver_def note_event_def batcher_saves_marker)
  with batcher_marker [of "batcher_init (w_state w) (w_marker w)"] 1 show ?thesis
    by (metis batcher_init_def batcher_state.select_convs(6) fst_conv)
qed

lemma pipeline_marker:
  assumes "file_pipeline env br file dt q w = (q', w', r)"
  shows "marker_frame (w_marker w) (w_marker w')"
proof -
  obtain q1 w1 r1 where r: "run_stages env br file dt q w = (q1, w1, r1)" by (metis surj_pair)
  note s = stages_marker [OF r]
  show ?thesis
  proof (cases r1)
    case (Inl e)
    with assms r s show ?thesis by (auto simp: file_pipeline_def)
  next
    case (Inr n)
    obtain q2 sent where f: "send_file_complete br (pe_now env) dt file n q1 = (q2, sent)" by force
    obtain w2 x where x: "save_marker env (on_marker (complete_file_processing (pe_now env) file n) (deliver q1 q2 w1)) = (w2, x)"
      by force
    have "marker_frame (w_marker w1) (w_marker w2)" using save_frame [OF x] by (simp add: deliver_def note_event_def)
    with s marker_frame_trans have "marker_frame (w_marker w) (w_marker w2)" by blast
    with assms r s f x Inr show ?thesis
      by (cases sent) (auto simp: file_pipeline_def complete_file_def deliver_def note_event_def)
  qed
qed

lemma single_file_marker:
  assumes run: "process_single_file env br file q w = (w', r)"
  shows "marker_frame (w_marker w) (w_marker w')"
  using run
proof (cases rule: process_single_file_cases)
  case (early dt s e)
  from save_frame [OF early(2)] show ?thesis by simp
next
  case (ran dt u w1 q1 q2 w3 r3)
  have "marker_frame (w_marker w) (w_marker w1)" by (rule save_frame [OF ran(2)]) simp
  with pipeline_marker [OF ran(4)] have "marker_frame (w_marker w) (w_marker w3)"
    by (auto simp: connected_def on_state_def intro: marker_frame_trans)
  then show ?thesis by (simp add: ran(5) release_file_def on_state_def note_event_def)
qed simp

lemma tasks_marker: "run_tasks env files w = (w', ok) \<Longrightarrow> marker_frame (w_marker w) (w_marker w')"
proof (induction files arbitrary: w ok)
  case (Cons x xs)
  obtain w1 r where t: "file_task env x w = (w1, r)" by force
  obtain w2 ok2 where f: "run_tasks env xs w1 = (w2, ok2)" by force
  have "marker_frame (w_marker w) (w_marker w1)"
    using t by (auto simp: file_task_def poll_shutdown_def create_queue_def Let_def split: if_splits option.splits prod.splits
        dest!: single_file_marker)
  moreover have "w' = w2" using Cons.prems t f by simp
  ultimately show ?case using Cons.IH f marker_frame_trans by blast
qed simp

text \<open>The end of a phase: committed, or owed.\<close>

definition settled :: "state_marker \<Rightarrow> world \<Rightarrow> bool \<Rightarrow> bool" where
  "settled m w done \<longleftrightarrow>
     w_disk w (w_path w) = Some (w_marker w)
     \<and> version_complete (w_marker w) = done
     \<and> sm_download_phase (w_marker w) = sm_download_phase m"

lemma version_complete_extraction [simp]: "version_complete (complete_extraction m)"
  by (simp add: version_complete_def complete_extraction_def on_summary_def on_publishing_def Let_def split: option.split)

lemma broadcast_disk: "broadcast env version t w = (w', sent) \<Longrightarrow> w_disk w' = w_disk w"
  by (auto simp: broadcast_def create_queue_def deliver_def note_event_def Let_def split: option.splits prod.splits)

lemma commit_settled:
  assumes "broadcast env version t w = (w1, True)" "save_marker env (on_marker complete_extraction w1) = (w2, Inr u)"
    and "sm_download_phase (w_marker w) = sm_download_phase m"
  shows "settled m w2 True"
  using save_marker_value [OF assms(2)] broadcast_keeps [OF assms(1)] assms(3) by (simp add: settled_def)

lemma owed_settled:
  assumes "broadcast env version t w = (w1, False)" "save_marker env (on_marker f w0) = (w, Inr u)"
    and "marker_frame m (f (w_marker w0))" "\<not> version_complete m"
  shows "settled m w1 False"
  using save_marker_value [OF assms(2)] broadcast_keeps [OF assms(1)] broadcast_disk [OF assms(1)] assms(3,4)
  by (simp add: settled_def marker_frame_def)

lemma settled_status [simp]: "settled m (set_status s w) done = settled m w done"
  by (simp add: settled_def)

lemma finish_processed_settled:
  assumes run: "finish_processed env version t w = (w', Inr done)" and new: "\<not> version_complete (w_marker w)"
  shows "settled (w_marker w) w' done"
proof -
  obtain w1 s where s: "save_marker env (on_marker (complete_processing (pe_now env)) w) = (w1, s)" by force
  obtain w2 sent where b: "broadcast env version t w1 = (w2, sent)" by force
  obtain w3 s3 where c: "save_marker env (on_marker complete_extraction w2) = (w3, s3)" by force
  have d: "sm_download_phase (w_marker w1) = sm_download_phase (w_marker w)" using save_marker_value [OF s] by simp
  show ?thesis
  proof (cases sent)
    case True
    with run new s b c commit_settled [of env version t w1 w2 w3 _ "w_marker w"] d show ?thesis
      by (cases s; cases s3) (auto simp: finish_processed_def version_complete_def)
  next
    case False
    with run new s b owed_settled [of env version t w1 w2 "complete_processing (pe_now env)" w _ "w_marker w"] show ?thesis
      by (cases s) (auto simp: finish_processed_def version_complete_def)
  qed
qed

lemma process_pending_settled:
  assumes run: "process_pending env version t pending w = (w', Inr done)" and new: "\<not> version_complete (w_marker w)"
  shows "settled (w_marker w) w' done"
proof -
  obtain w1 ok where t: "run_tasks env pending w = (w1, ok)" by force
  obtain w2 sd where p: "poll_shutdown env w1 = (w2, sd)" by force
  define success where "success = (ok \<and> \<not> sd)"
  define f where "f = (if success then complete_processing (pe_now env) else (\<lambda>m. m))"
  obtain w3 s where s: "save_marker env (on_marker f w2) = (w3, s)" by force
  obtain w4 sent where b: "(if success then broadcast env version t w3 else (w3, False)) = (w4, sent)" by force
  obtain w5 s5 where c: "save_marker env (on_marker complete_extraction w4) = (w5, s5)" by force
  have same: "on_marker (\<lambda>m. m) w = w" for w :: world by (simp add: on_marker_def)
  have m: "marker_frame (w_marker w) (f (w_marker w2))"
    using tasks_marker [OF t] p by (auto simp: f_def poll_shutdown_def marker_frame_def)
  obtain u where u: "s = Inr u"
    using run same s by (cases s; cases success) (auto simp: process_pending_def t p success_def [symmetric] f_def)
  have d: "sm_download_phase (w_marker w3) = sm_download_phase (w_marker w)"
    using save_marker_value [OF s] m by (simp add: marker_frame_def)
  have run': "(if sent then case (w5, s5) of (w5, Inl e) \<Rightarrow> (w5, Err e) | (w5, Inr _) \<Rightarrow> (set_status StatusCompleted w5, Ok True)
      else (set_status StatusFailed w4, Ok False)) = (w', Inr done)"
    using run s b c same u by (cases success) (auto simp: process_pending_def t p success_def [symmetric] f_def)
  show ?thesis
  proof (cases sent)
    case True
    then have b: "broadcast env version t w3 = (w4, True)" using b by (cases success) auto
    from run' True commit_settled [OF b _ d] c show ?thesis by (cases s5) auto
  next
    case False
    have "settled (w_marker w) w4 False"
    proof (cases success)
      case True
      with b False have "broadcast env version t w3 = (w4, False)" by simp
      from owed_settled [OF this s [unfolded u] m new] show ?thesis .
    next
      case no: False
      with b save_marker_value [OF s] u m new show ?thesis by (simp add: settled_def marker_frame_def)
    qed
    with run' False show ?thesis by auto
  qed
qed

lemma begin_phase_marker: "begin_phase env files w = (w', Inr u) \<Longrightarrow>
    version_complete (w_marker w') \<longrightarrow> version_complete (w_marker w)"
  "begin_phase env files w = (w', Inr u) \<Longrightarrow> sm_download_phase (w_marker w') = sm_download_phase (w_marker w)"
proof -
  assume run: "begin_phase env files w = (w', Inr u)"
  obtain w1 s where s: "save_marker env (on_marker (on_processing (\<lambda>p. p\<lparr>pp_files_total := length files\<rparr>)) w) = (w1, s)" by force
  have "(version_complete (w_marker w') \<longrightarrow> version_complete (w_marker w))
    \<and> sm_download_phase (w_marker w') = sm_download_phase (w_marker w)"
  proof (cases "pp_status (sm_processing_phase (w_marker w))")
    case Pending
    with run save_marker_value [of env "start_processing (pe_now env) (length files)" w w' "Inr u"] show ?thesis
      by (simp add: begin_phase_def)
  next
    case InProgress
    with run s save_marker_value [OF s] show ?thesis by (cases s) (auto simp: begin_phase_def on_state_def)
  qed (use run in \<open>simp_all add: begin_phase_def\<close>)
  then show "version_complete (w_marker w') \<longrightarrow> version_complete (w_marker w)"
    "sm_download_phase (w_marker w') = sm_download_phase (w_marker w)" by simp_all
qed

lemma process_files_settled:
  assumes run: "process_files env version downloaded w = (w', Inr done)"
    and new: "\<not> version_complete (w_marker w)" and data: "\<not> list_all (\<lambda>f. contains f ''CHECKSUM'') downloaded"
  shows "settled (w_marker w) w' done"
proof -
  let ?data = "filter (\<lambda>f. \<not> contains f ''CHECKSUM'') downloaded"
  have ne: "?data \<noteq> []" using data by (auto simp: filter_empty_conv list_all_iff)
  obtain w1 b where b: "begin_phase env ?data w = (w1, b)" by force
  then obtain u where u: "b = Inr u" using run ne by (cases b) (auto simp: process_files_def)
  note m = begin_phase_marker [OF b [unfolded u]]
  have "settled (w_marker w1) w' done"
    using run ne m(1) new finish_processed_settled [of env version _ w1 w' "done"] process_pending_settled [of env version _ _ w1 w' "done"]
    by (auto simp: process_files_def b u Let_def split: if_splits)
  with m(2) show ?thesis by (simp add: settled_def)
qed

text \<open>
  C13: the result of the processing phase is durable.  When it returns true, the marker on disk says
  that the version is complete; when it returns false (a file failed, shutdown, or the completion
  signal was not confirmed), the marker on disk does not, and after a completed download the next run
  continues the version instead of skipping it, so that the signal is sent at last.
\<close>

theorem result_is_durable:
  assumes "process_files env version downloaded w = (w', Inr done)"
    and "overall (w_marker w) \<noteq> Completed"
    and "\<not> list_all (\<lambda>f. contains f ''CHECKSUM'') downloaded"
    and "dp_status (sm_download_phase (w_marker w)) = Completed"
  shows "\<exists>m. w_disk w' (w_path w') = Some m
    \<and> (if done then overall m = Completed else overall m \<noteq> Completed \<and> should_process m = ContinueRun)"
proof (intro exI conjI)
  have s: "settled (w_marker w) w' done"
    using process_files_settled [OF assms(1) _ assms(3)] assms(2) by (simp add: version_complete_def)
  then show "w_disk w' (w_path w') = Some (w_marker w')" by (simp add: settled_def)
  from s assms(4) show "if done then overall (w_marker w') = Completed
      else overall (w_marker w') \<noteq> Completed \<and> should_process (w_marker w') = ContinueRun"
    by (simp add: settled_def version_complete_def should_process_def Let_def)
qed

text \<open>The run starts from a marker whose files are all done; a broker nacks, then another does not.\<close>

definition owed_world :: world where
  "owed_world = resumed_world\<lparr>w_marker := resumed_marker, w_path := file_path [''r''] ''1''\<rparr>"

theorem result_is_durable_witness:
  "\<exists>m. w_disk (fst (process_files (sample_run (\<lambda>_. nacking_broker)) ''1'' [artists_file] owed_world))
      (w_path (fst (process_files (sample_run (\<lambda>_. nacking_broker)) ''1'' [artists_file] owed_world))) = Some m
    \<and> overall m \<noteq> Completed \<and> should_process m = ContinueRun"
proof -
  let ?run = "process_files (sample_run (\<lambda>_. nacking_broker)) ''1'' [artists_file] owed_world"
  have "snd ?run = Inr False" by code_simp
  then have r: "?run = (fst ?run, Inr False)" by (metis prod.collapse)
  have "overall (w_marker owed_world) \<noteq> Completed" "dp_status (sm_download_phase (w_marker owed_world)) = Completed"
    "\<not> list_all (\<lambda>f. contains f ''CHECKSUM'') [artists_file]" by code_simp+
  from result_is_durable [OF r this(1,3,2)] show ?thesis by simp
qed

end
