(* ===== verification/File_Delivery.thy ===== *)
theory File_Delivery
  imports Run_Outcome
begin

text \<open>
  One file, end to end: what reaches the broker, in which order, and what is released afterwards.
\<close>

section \<open>The stages composed\<close>

text \<open>The records the validator lets through.\<close>

definition checked_records :: "'r pipeline_env \<Rightarrow> data_type \<Rightarrow> data_message list \<Rightarrow> data_message list" where
  "checked_records env dt msgs =
     (case pe_rules env of None \<Rightarrow> msgs | Some venv \<Rightarrow> filter_map (validated venv (dt_str dt)) msgs)"

lemma validate_stage_open:
  assumes "ss_validator (pe_sends env file) = (\<lambda>_. True)"
  shows "validate_stage env file dt msgs = Some (checked_records env dt msgs)"
proof (cases "pe_rules env")
  case (Some venv)
  obtain st where "validate_all venv (\<lambda>_. True) (dt_str dt) msgs (validator_init (pe_discogs_root env) (file_version file)) = Some st"
    "vs_sent st = filter_map (validated venv (dt_str dt)) msgs"
    using validate_all_spec [of venv "dt_str dt" msgs "validator_init (pe_discogs_root env) (file_version file)"]
    by (auto simp: validator_init_def)
  with Some assms show ?thesis
    by (simp add: validate_stage_def checked_records_def message_validator_def)
qed (simp add: validate_stage_def checked_records_def)

lemma normalized_records_open:
  assumes "ss_validator (pe_sends env file) = (\<lambda>_. True)" "ss_normalizer (pe_sends env file) = (\<lambda>_. True)"
  shows "normalized_records env file dt =
    map (normalize_message (pe_finisher env) dt) (checked_records env dt (fst (parse_stage env file dt)))"
  using assms by (simp add: normalized_records_def validate_stage_open normalizer_sends)

lemma publisher_frames:
  "message_publisher (\<lambda>ms. publish_batch br ms d) bs q s = (q', s', Ok u) \<Longrightarrow>
     mq_exchange_prefix q' = mq_exchange_prefix q
     \<and> mq_confirmed q' = mq_confirmed q @ frames (exchange_name q d) (concat bs)"
proof (induction bs arbitrary: q)
  case (Cons b bs)
  obtain q1 r where p: "publish_batch br b d q = (q1, r)" by force
  obtain q2 c where g: "get_channel br q = (q2, c)" by force
  obtain v where r: "r = Inr v" using Cons.prems p by (cases r) auto
  with publish_batch_cases [OF p g] have q1: "mq_exchange_prefix q1 = mq_exchange_prefix q"
    "mq_confirmed q1 = mq_confirmed q @ frames (exchange_name q d) b"
    by (auto simp: frames_def)
  have "message_publisher (\<lambda>ms. publish_batch br ms d) bs q1 s = (q', s', Ok u)" using Cons.prems p r by simp
  from Cons.IH [OF this] q1 show ?case by (simp add: exchange_name_def frames_def)
qed (simp add: frames_def)

lemma batcher_concat:
  assumes "message_batcher cfg accepts now is (batcher_init s m) = (st, Ok u)"
  shows "concat (bs_sent st) = received is"
proof -
  have "batcher_inv cfg (pg_get (es_extraction_progress s) (bc_data_type cfg)) [] (batcher_init s m)"
    by (simp add: batcher_inv_def batcher_init_def)
  from message_batcher_inv [OF this, of accepts now "is" st] assms show ?thesis by (auto simp: batcher_inv_def)
qed

definition is_saved :: "pipeline_event \<Rightarrow> bool" where
  "is_saved e = (case e of Saved m \<Rightarrow> True | _ \<Rightarrow> False)"

lemma batcher_saves_log: "\<exists>es. w_log (batcher_saves env ms w) = w_log w @ es \<and> list_all is_saved es"
proof (induction ms arbitrary: w)
  case (Cons m ms)
  let ?w = "fst (write_marker env m w)"
  have "\<exists>es. w_log ?w = w_log w @ es \<and> list_all is_saved es"
    by (simp add: write_marker_def note_event_def is_saved_def Let_def)
  with Cons [of ?w] show ?case by (force simp: batcher_saves_def)
qed (simp add: batcher_saves_def)

lemma stages_result_ok:
  assumes "stages_result parsed checked batched published = Ok n"
  shows "parsed = Ok n \<and> is_ok batched \<and> is_ok published"
  using assms
  by (cases parsed; cases batched; cases published; cases checked) (auto simp: stages_result_def)

lemma setup_exchange_prefix: "setup_exchange br d q = (q', r) \<Longrightarrow> mq_exchange_prefix q' = mq_exchange_prefix q"
  using wire_get_channel [of q br] by (auto simp: setup_exchange_def wire_same_def split: prod.splits sum.splits)

lemma run_stages_ok:
  assumes run: "run_stages env br file dt q w = (q1, w1, Ok n)"
    and arrivals: "\<And>ms. received (pe_arrivals env file ms) = ms"
  shows "snd (parse_stage env file dt) = Ok n
    \<and> (\<exists>es. w_log w1 = w_log w @ es @ [Delivered (frames (exchange_name q dt) (normalized_records env file dt))]
        \<and> list_all is_saved es)
    \<and> mq_exchange_prefix q1 = mq_exchange_prefix q"
  using run
proof (rule run_stages_parts)
  fix st batched s1 published
  assume 1: "message_batcher (file_batcher env file dt) (ss_batcher (pe_sends env file)) (pe_now env)
      (pe_arrivals env file (normalized_records env file dt)) (batcher_init (w_state w) (w_marker w)) = (st, batched)"
    and 2: "message_publisher (\<lambda>ms. publish_batch br ms dt) (bs_sent st) q (bs_state st) = (q1, s1, published)"
    and w1: "w1 = deliver q q1 (batcher_saves env (bs_saved st) (w\<lparr>w_marker := bs_marker st\<rparr>)\<lparr>w_state := s1\<rparr>)"
    and r: "Ok n = stages_result (snd (parse_stage env file dt)) (validate_stage env file dt (fst (parse_stage env file dt))) batched published"
  note ok = stages_result_ok [OF r [symmetric]]
  obtain u v where uv: "batched = Ok u" "published = Ok v" using ok by (cases batched; cases published) auto
  have "concat (bs_sent st) = normalized_records env file dt"
    using batcher_concat [OF 1 [unfolded uv]] arrivals by simp
  with publisher_frames [OF 2 [unfolded uv]] have q1: "mq_exchange_prefix q1 = mq_exchange_prefix q"
    "drop (length (mq_confirmed q)) (mq_confirmed q1) = frames (exchange_name q dt) (normalized_records env file dt)" by simp_all
  obtain es where "w_log (batcher_saves env (bs_saved st) (w\<lparr>w_marker := bs_marker st\<rparr>)) = w_log w @ es" "list_all is_saved es"
    using batcher_saves_log [of env "bs_saved st" "w\<lparr>w_marker := bs_marker st\<rparr>"] by auto
  with w1 q1 have "w_log w1 = w_log w @ es @ [Delivered (frames (exchange_name q dt) (normalized_records env file dt))]"
    by (simp add: deliver_def note_event_def)
  with ok q1 \<open>list_all is_saved es\<close> show ?thesis by auto
qed

lemma complete_file_ok:
  assumes "complete_file env br file dt n q w = (q', w', Ok k)"
  shows "k = n \<and> w_log w' = w_log w @ [Delivered [(exchange_name q dt, FileComplete
      \<lparr>fc_data_type = dt_str dt, fc_timestamp = pe_now env, fc_total_processed = n, fc_file = file\<rparr>)], Saved (w_marker w')]"
proof -
  obtain q1 sent where s: "send_file_complete br (pe_now env) dt file n q = (q1, sent)" by force
  obtain w2 x where x: "save_marker env (on_marker (complete_file_processing (pe_now env) file n) (deliver q q1 w)) = (w2, x)"
    by force
  obtain u v where uv: "sent = Inr u" "x = Inr v" "k = n" "w' = w2"
    using assms s x by (cases sent; cases x) (auto simp: complete_file_def)
  have "w_log w2 = w_log (deliver q q1 w) @ [Saved (w_marker w2)]"
    using x uv by (auto simp: save_marker_def write_marker_def note_event_def on_marker_def Let_def split: if_splits)
  moreover have "w_log (deliver q q1 w) = w_log w @ [Delivered [(exchange_name q dt, FileComplete
      \<lparr>fc_data_type = dt_str dt, fc_timestamp = pe_now env, fc_total_processed = n, fc_file = file\<rparr>)]]"
    using send_file_complete_confirms [OF s] uv by (simp add: deliver_def note_event_def)
  ultimately show ?thesis using uv by simp
qed

text \<open>
  C8: a file that is processed successfully has been delivered in full: the broker confirmed, in
  order, the normalised and hashed form of every parsed record that the validator let through,
  then the completion message with the number of parsed records, and only then was the marker saved;
  last, the connection was closed.  The stages must be connected (no receiver goes away) and the
  channel before the batcher must hand over what is sent.
\<close>

theorem file_delivered:
  assumes "process_single_file env br file q w = (w', Ok ())"
    and "\<And>ms. received (pe_arrivals env file ms) = ms"
    and "ss_validator (pe_sends env file) = (\<lambda>_. True)" "ss_normalizer (pe_sends env file) = (\<lambda>_. True)"
  shows "\<exists>dt msgs n es. extract_data_type file = Some dt \<and> parse_stage env file dt = (msgs, Ok n) \<and> list_all is_saved es
    \<and> (let exchange = mq_exchange_prefix q @ ''-'' @ dt_str dt in
       w_log w' = w_log w @ es @
         [Delivered (map (\<lambda>m. (exchange, Data (normalize_message (pe_finisher env) dt m))) (checked_records env dt msgs)),
          Delivered [(exchange, FileComplete \<lparr>fc_data_type = dt_str dt, fc_timestamp = pe_now env,
            fc_total_processed = n, fc_file = file\<rparr>)],
          Saved (w_marker w'), Closed])"
  using assms(1)
proof (cases rule: process_single_file_cases)
  case (ran dt u w1 q1 q2 w3 r3)
  obtain n0 where "r3 = Ok n0" using ran(6) by (cases r3) auto
  with ran(4) obtain qa wa n where a: "run_stages env br file dt q1 (connected file dt w1) = (qa, wa, Ok n)"
    "complete_file env br file dt n qa wa = (q2, w3, Ok n0)"
    by (auto simp: file_pipeline_def split: prod.splits sum.splits)
  note c = complete_file_ok [OF a(2)]
  from run_stages_ok [OF a(1) assms(2)] obtain es where s: "snd (parse_stage env file dt) = Ok n" "list_all is_saved es"
    "w_log wa = w_log w1 @ es @ [Delivered (frames (exchange_name q1 dt) (normalized_records env file dt))]"
    "mq_exchange_prefix qa = mq_exchange_prefix q1"
    by (auto simp: connected_def on_state_def)
  have x: "exchange_name q1 dt = mq_exchange_prefix q @ ''-'' @ dt_str dt" "exchange_name qa dt = exchange_name q1 dt"
    using setup_exchange_prefix [OF ran(3)] s(4) by (simp_all add: exchange_name_def)
  obtain m where w1: "w_log w1 = w_log w @ [Saved m]"
    using ran(2) by (auto simp: save_marker_def write_marker_def note_event_def on_marker_def Let_def split: if_splits)
  have e: "w_log w' = w_log w3 @ [Closed]" "w_marker w' = w_marker w3"
    by (simp_all add: ran(5) note_event_def release_file_def on_state_def)
  have "w_log w' = w_log w @ (Saved m # es) @
      [Delivered (frames (exchange_name q1 dt) (normalized_records env file dt)),
       Delivered [(exchange_name q1 dt, FileComplete \<lparr>fc_data_type = dt_str dt, fc_timestamp = pe_now env,
            fc_total_processed = n, fc_file = file\<rparr>)], Saved (w_marker w'), Closed]"
    using c s(3) w1 e x(2) by simp
  moreover have "parse_stage env file dt = (fst (parse_stage env file dt), Ok n)" using s(1) by (metis prod.collapse)
  moreover have "list_all is_saved (Saved m # es)" using s(2) by (simp add: is_saved_def)
  ultimately show ?thesis
    using ran(1) normalized_records_open [OF assms(3,4), of dt]
    by (intro exI [of _ dt] exI [of _ "fst (parse_stage env file dt)"] exI [of _ n] exI [of _ "Saved m # es"])
      (simp add: frames_def x(1) Let_def)
qed simp_all

section \<open>What is released\<close>

text \<open>
  Once the exchange is declared, a file's entry in the active connections is removed and its
  connection closed on every outcome; when the exchange cannot be declared (or the start of the
  file cannot be saved) nothing was entered, but the connection is not closed either.
\<close>

theorem connection_released:
  "case process_single_file env br file q w of (w', r) \<Rightarrow>
     (case extract_data_type file of
        None \<Rightarrow> w' = w
      | Some dt \<Rightarrow>
          if is_ok (snd (save_marker env (on_marker (start_file_processing (pe_now env) file) w)))
            \<and> is_ok (snd (setup_exchange br dt q))
          then map_of (es_active_connections (w_state w')) dt = None \<and> last (w_log w') = Closed
          else es_active_connections (w_state w') = es_active_connections (w_state w)
            \<and> \<not> is_ok r \<and> list_all (\<lambda>e. e \<noteq> Closed) (drop (length (w_log w)) (w_log w')))"
proof -
  obtain w' r where run: "process_single_file env br file q w = (w', r)" by force
  have "case extract_data_type file of
        None \<Rightarrow> w' = w
      | Some dt \<Rightarrow>
          if is_ok (snd (save_marker env (on_marker (start_file_processing (pe_now env) file) w)))
            \<and> is_ok (snd (setup_exchange br dt q))
          then map_of (es_active_connections (w_state w')) dt = None \<and> last (w_log w') = Closed
          else es_active_connections (w_state w') = es_active_connections (w_state w)
            \<and> \<not> is_ok r \<and> list_all (\<lambda>e. e \<noteq> Closed) (drop (length (w_log w)) (w_log w'))"
    using run
  proof (cases rule: process_single_file_cases)
    case (early dt s e)
    have "w_state w' = w_state w" "list_all (\<lambda>e. e \<noteq> Closed) (drop (length (w_log w)) (w_log w'))"
      using early(2) by (auto simp: save_marker_def write_marker_def note_event_def on_marker_def Let_def split: if_splits)
    moreover have "\<not> (is_ok s \<and> is_ok (snd (setup_exchange br dt q)))" using early(4) by (cases s) auto
    ultimately show ?thesis using early(1-3) by auto
  qed (simp_all add: note_event_def release_file_def on_state_def)
  with run show ?thesis by simp
qed

end
