(* ===== verification/Run_Liveness.thy ===== *)
theory Run_Liveness
  imports File_Delivery
begin

text \<open>
  A run in a healthy environment completes: with a broker that answers, a disk that takes the marker
  and dumps that parse, every file is delivered and the version is committed.
\<close>

section \<open>A healthy broker\<close>

definition healthy :: "broker \<Rightarrow> message_queue \<Rightarrow> bool" where
  "healthy br q \<longleftrightarrow> mq_channel q \<and> br_connected br = (\<lambda>_. True) \<and> br_declares br = (\<lambda>_. True)
     \<and> br_send br = (\<lambda>_. Sent) \<and> br_confirm br = (\<lambda>_. Confirmed True None)"

lemma healthy_get_channel: "healthy br q \<Longrightarrow> get_channel br q = (q\<lparr>mq_status_calls := mq_status_calls q + 1\<rparr>, Ok ())"
  by (simp add: healthy_def get_channel_def channel_connected_def)

lemma healthy_frame: "healthy br q \<Longrightarrow> mq_channel q' = mq_channel q \<Longrightarrow> healthy br q'"
  by (simp add: healthy_def)

lemma healthy_settle: "healthy br q \<Longrightarrow> settle_confirm br x n q = (q', r) \<Longrightarrow> is_ok r \<and> healthy br q'"
  by (auto simp: healthy_def settle_confirm_def confirm_result_def await_confirm_def check_confirmation_def)

lemma healthy_send: "healthy br q \<Longrightarrow> send_payload br x m q = (q', r) \<Longrightarrow> is_ok r \<and> healthy br q'"
  by (auto simp: healthy_def send_payload_def Let_def)

lemma healthy_pace: "healthy br q \<Longrightarrow> healthy br (pace br q)"
  by (simp add: healthy_def pace_def Let_def split: option.split prod.split)

lemma healthy_send_all: "healthy br q \<Longrightarrow> send_all br x ms q = (q', r) \<Longrightarrow> is_ok r \<and> healthy br q'"
proof (induction ms arbitrary: q r)
  case (Cons m ms)
  obtain q1 s where s: "send_payload br x (Data m) (pace br q) = (q1, s)" by force
  obtain q2 t where t: "send_all br x ms q1 = (q2, t)" by force
  have "is_ok s \<and> healthy br q1" using healthy_send [OF healthy_pace [OF Cons.prems(1)] s] .
  with Cons.IH t Cons.prems(2) s show ?case by (cases s; cases t) auto
qed simp

lemma healthy_settle_all: "healthy br q \<Longrightarrow> settle_all br x ns q = (q', r) \<Longrightarrow> is_ok r \<and> healthy br q'"
proof (induction ns arbitrary: q)
  case (Cons n ns)
  obtain q1 s where s: "settle_confirm br x n q = (q1, s)" by force
  with healthy_settle [OF Cons.prems(1) s] Cons show ?case by (cases s) auto
qed auto

lemma healthy_batch: "healthy br q \<Longrightarrow> publish_batch br ms d q = (q', r) \<Longrightarrow> is_ok r \<and> healthy br q'"
proof -
  assume h: "healthy br q" and p: "publish_batch br ms d q = (q', r)"
  define q1 where "q1 = q\<lparr>mq_status_calls := mq_status_calls q + 1\<rparr>"
  have h1: "healthy br q1" by (rule healthy_frame [OF h]) (simp add: q1_def)
  have g: "get_channel br q = (q1, Ok ())" by (simp add: healthy_get_channel [OF h] q1_def)
  obtain q2 s where s: "send_all br (exchange_name q1 d) ms q1 = (q2, s)" by force
  with healthy_send_all [OF h1 s] healthy_settle_all [of br q2 "exchange_name q1 d" _ q' r] p show ?thesis
    by (cases s) (auto simp: publish_batch_def g)
qed

lemma healthy_publish: "healthy br q \<Longrightarrow> publish br msg d q = (q', r) \<Longrightarrow> is_ok r \<and> healthy br q'"
proof -
  assume h: "healthy br q" and p: "publish br msg d q = (q', r)"
  define q1 where "q1 = q\<lparr>mq_status_calls := mq_status_calls q + 1\<rparr>"
  have h1: "healthy br q1" by (rule healthy_frame [OF h]) (simp add: q1_def)
  have g: "get_channel br q = (q1, Ok ())" by (simp add: healthy_get_channel [OF h] q1_def)
  obtain q2 s where s: "send_payload br (exchange_name q1 d) msg q1 = (q2, s)" by force
  with healthy_send [OF h1 s] healthy_settle [of br q2 "exchange_name q1 d" _ q' r] p show ?thesis
    by (cases s) (auto simp: publish_def g)
qed

lemma healthy_broadcast:
  "healthy br q \<Longrightarrow> fold (broadcast_step br msg) ds (q, []) = (q', es) \<Longrightarrow> es = []"
proof (induction ds arbitrary: q)
  case (Cons d ds)
  obtain q1 r where p: "publish br msg d q = (q1, r)" by force
  with healthy_publish [OF Cons.prems(1) p] Cons show ?case by (cases r) (auto simp: broadcast_step_def)
qed simp

lemma healthy_publisher:
  "healthy br q \<Longrightarrow> message_publisher (\<lambda>ms. publish_batch br ms d) bs q s = (q', s', r) \<Longrightarrow> is_ok r \<and> healthy br q'"
proof (induction bs arbitrary: q)
  case (Cons b bs)
  obtain q1 x where p: "publish_batch br b d q = (q1, x)" by force
  with healthy_batch [OF Cons.prems(1) p] Cons show ?case by (cases x) auto
qed auto

section \<open>A healthy file\<close>

lemma save_ok: "pe_save_ok env = (\<lambda>_. True) \<Longrightarrow> save_marker env w = (w', r) \<Longrightarrow> r = Ok ()"
  by (auto simp: save_marker_def write_marker_def Let_def)

text \<open>The dump of a file parses and its stages stay connected.\<close>

definition healthy_file :: "'r pipeline_env \<Rightarrow> string \<Rightarrow> bool" where
  "healthy_file env file \<longleftrightarrow>
     (case extract_data_type file of None \<Rightarrow> False | Some dt \<Rightarrow> is_ok (snd (parse_stage env file dt)))
     \<and> ss_validator (pe_sends env file) = (\<lambda>_. True) \<and> ss_batcher (pe_sends env file) = (\<lambda>_. True)"

lemma healthy_stages:
  assumes "run_stages env br file dt q w = (q1, w1, r)"
    and "healthy br q" "is_ok (snd (parse_stage env file dt))"
    and "ss_validator (pe_sends env file) = (\<lambda>_. True)" "ss_batcher (pe_sends env file) = (\<lambda>_. True)"
  shows "is_ok r \<and> healthy br q1"
  using assms(1)
proof (rule run_stages_parts)
  fix st batched s1 published
  assume 1: "message_batcher (file_batcher env file dt) (ss_batcher (pe_sends env file)) (pe_now env)
      (pe_arrivals env file (normalized_records env file dt)) (batcher_init (w_state w) (w_marker w)) = (st, batched)"
    and 2: "message_publisher (\<lambda>ms. publish_batch br ms dt) (bs_sent st) q (bs_state st) = (q1, s1, published)"
    and r: "r = stages_result (snd (parse_stage env file dt)) (validate_stage env file dt (fst (parse_stage env file dt))) batched published"
  have "batched = Ok ()" using message_batcher_ok [OF assms(5)] 1 by (metis snd_conv)
  moreover have "is_ok published \<and> healthy br q1" using healthy_publisher [OF assms(2) 2] .
  ultimately show ?thesis
    using assms(3,4) r
    by (cases published; cases "snd (parse_stage env file dt)") (auto simp: stages_result_def validate_stage_open)
qed

lemma healthy_single_file:
  assumes "healthy br q" "healthy_file env file" "pe_save_ok env = (\<lambda>_. True)"
    and run: "process_single_file env br file q w = (w', r)"
  shows "r = Ok ()"
proof -
  obtain dt where dt: "extract_data_type file = Some dt" "is_ok (snd (parse_stage env file dt))"
    "ss_validator (pe_sends env file) = (\<lambda>_. True)" "ss_batcher (pe_sends env file) = (\<lambda>_. True)"
    using assms(2) by (auto simp: healthy_file_def split: option.splits)
  define q1 where "q1 = q\<lparr>mq_status_calls := mq_status_calls q + 1, mq_declare_calls := mq_declare_calls q + 1\<rparr>"
  have x: "setup_exchange br dt q = (q1, Ok ())" "healthy br q1"
    using assms(1) by (simp_all add: setup_exchange_def healthy_get_channel q1_def) (simp_all add: healthy_def)
  from run show ?thesis
  proof (cases rule: process_single_file_cases)
    case (early dt' s e)
    with dt x save_ok [OF assms(3) early(2)] show ?thesis by auto
  next
    case (ran dt' u w1 q1' q2 w3 r3)
    with dt x have eq: "dt' = dt" "q1' = q1" by auto
    obtain qa wa ra where a: "run_stages env br file dt q1 (connected file dt w1) = (qa, wa, ra)" by (metis surj_pair)
    from healthy_stages [OF a x(2) dt(2-4)] obtain n where n: "ra = Ok n" "healthy br qa" by (cases ra) auto
    obtain qb s where b: "send_file_complete br (pe_now env) dt file n qa = (qb, s)" by force
    obtain wc y where c: "save_marker env (on_marker (complete_file_processing (pe_now env) file n) (deliver qa qb wa)) = (wc, y)"
      by force
    have "is_ok s" using healthy_publish [OF n(2) b [unfolded send_file_complete_def]] by simp
    then have "r3 = Ok n"
      using ran(4) a n b c save_ok [OF assms(3) c] eq
      by (cases s) (auto simp: file_pipeline_def complete_file_def)
    with ran(6) show ?thesis by simp
  qed (use dt in simp)
qed

section \<open>A healthy run\<close>

definition healthy_env :: "'r pipeline_env \<Rightarrow> bool" where
  "healthy_env env \<longleftrightarrow> pe_save_ok env = (\<lambda>_. True) \<and> pe_shutdown_from env = None
     \<and> (\<forall>k. case pe_queue env k of None \<Rightarrow> False | Some q \<Rightarrow> healthy (pe_broker env k) q)"

lemma healthy_queue: "healthy_env env \<Longrightarrow> \<exists>q. pe_queue env k = Some q \<and> healthy (pe_broker env k) q"
  unfolding healthy_env_def by (metis option.case_eq_if option.collapse)

lemma healthy_task: "healthy_env env \<Longrightarrow> healthy_file env file \<Longrightarrow> snd (file_task env file w) = Ok ()"
  using healthy_queue [of env "w_queues w"]
  by (auto simp: file_task_def poll_shutdown_def create_queue_def healthy_env_def
      intro: healthy_single_file [OF _ _ _ surjective_pairing])

lemma healthy_tasks: "healthy_env env \<Longrightarrow> list_all (healthy_file env) files \<Longrightarrow> snd (run_tasks env files w)"
proof (induction files arbitrary: w)
  case (Cons f fs)
  have "snd (file_task env f w) = Ok ()" by (rule healthy_task) (use Cons.prems in simp_all)
  with Cons show ?case by (simp add: case_prod_beta)
qed simp

lemma healthy_signal: "healthy_env env \<Longrightarrow> snd (broadcast env version t w)"
proof -
  assume h: "healthy_env env"
  obtain q where q: "pe_queue env (w_queues w) = Some q" "healthy (pe_broker env (w_queues w)) q"
    using healthy_queue [OF h] by blast
  let ?msg = "ExtractionComplete \<lparr>ec_version = version, ec_timestamp = pe_now env, ec_started_at = t, ec_record_counts = record_counts (w_marker w)\<rparr>"
  obtain q1 es where f: "fold (broadcast_step (pe_broker env (w_queues w)) ?msg) discogs_types (q, []) = (q1, es)" by force
  from healthy_broadcast [OF q(2) f] f q(1) show ?thesis
    by (simp add: broadcast_def create_queue_def send_extraction_complete_def Let_def broadcast_step_def [abs_def] split: prod.split)
qed

lemma healthy_save: "healthy_env env \<Longrightarrow> snd (save_marker env w) = Ok ()"
  using save_ok [of env w] by (metis healthy_env_def prod.collapse)

lemma healthy_finish:
  assumes h: "healthy_env env"
  shows "snd (finish_processed env version t w) = Ok True"
  using healthy_save [OF h] healthy_signal [OF h]
  by (auto simp: finish_processed_def split: prod.split sum.split bool.split) (metis snd_conv Inl_Inr_False)+

lemma healthy_pending:
  assumes h: "healthy_env env" and f: "list_all (healthy_file env) pending"
  shows "snd (process_pending env version t pending w) = Ok True"
proof -
  obtain w1 where t: "run_tasks env pending w = (w1, True)"
    using healthy_tasks [OF h f, of w] by (metis (full_types) prod.collapse)
  define w2 where "w2 = w1\<lparr>w_polls := w_polls w1 + 1\<rparr>"
  have p: "poll_shutdown env w1 = (w2, False)" using h by (simp add: poll_shutdown_def healthy_env_def w2_def)
  obtain w3 where s: "save_marker env (on_marker (complete_processing (pe_now env)) w2) = (w3, Ok ())"
    using healthy_save [OF h] by (metis prod.collapse)
  obtain w4 where b: "broadcast env version t w3 = (w4, True)"
    using healthy_signal [OF h, of version t w3] by (metis (full_types) prod.collapse)
  obtain w5 where c: "save_marker env (on_marker complete_extraction w4) = (w5, Ok ())"
    using healthy_save [OF h] by (metis prod.collapse)
  show ?thesis by (simp add: process_pending_def t p s b c)
qed

lemma healthy_process_files:
  assumes "healthy_env env" "list_all (\<lambda>f. contains f ''CHECKSUM'' \<or> healthy_file env f) downloaded"
  shows "snd (process_files env version downloaded w) = Ok True"
proof -
  let ?data = "filter (\<lambda>f. \<not> contains f ''CHECKSUM'') downloaded"
  have data: "list_all (healthy_file env) (pending_files m ?data)" for m
    using assms(2) by (auto simp: pending_files_def list_all_iff)
  obtain w1 b where b: "begin_phase env ?data w = (w1, b)" by force
  have "b = Ok ()"
    using b healthy_save [OF assms(1)]
    by (cases "pp_status (sm_processing_phase (w_marker w))")
      (auto simp: begin_phase_def split: prod.splits sum.splits; metis snd_conv Inl_Inr_False)+
  then show ?thesis
    using healthy_finish [OF assms(1)] healthy_pending [OF assms(1) data]
    by (simp add: process_files_def b Let_def)
qed

text \<open>
  Progress.  In a healthy environment (queues that can be opened and confirm, a disk that takes
  the marker, no shutdown, dumps that parse) the processing phase ends with true, whatever the state an
  earlier session left: nothing that a crash or a failed run can leave in the marker keeps a later run
  from completing the version.
\<close>

theorem healthy_run_completes:
  assumes "healthy_env env" "list_all (\<lambda>f. contains f ''CHECKSUM'' \<or> healthy_file env f) downloaded"
  shows "snd (process_files env version downloaded w) = Ok True"
  using assms by (rule healthy_process_files)

section \<open>The small run\<close>

lemma sample_broker: "healthy fine_broker open_queue"
  by (simp add: healthy_def fine_broker_def open_queue_def)

lemma sample_parsed: "extract_data_type artists_file = Some Artists"
  "snd (parse_stage (sample_run (\<lambda>_. fine_broker)) artists_file Artists) = Ok 1" by code_simp+

lemma sample_file: "healthy_file (sample_run (\<lambda>_. fine_broker)) artists_file"
  by (simp add: healthy_file_def sample_parsed) (simp add: sample_run_def)

theorem healthy_run_completes_witness:
  "snd (process_files (sample_run (\<lambda>_. fine_broker)) ''1'' [artists_file, ''d_1_CHECKSUM''] fresh_world) = Ok True"
proof -
  have "contains ''d_1_CHECKSUM'' ''CHECKSUM''" by code_simp
  then have f: "list_all (\<lambda>f. contains f ''CHECKSUM'' \<or> healthy_file (sample_run (\<lambda>_. fine_broker)) f) [artists_file, ''d_1_CHECKSUM'']"
    by (simp add: sample_file)
  have "healthy_env (sample_run (\<lambda>_. fine_broker))"
    by (simp add: healthy_env_def sample_run_def sample_broker)
  from healthy_run_completes [OF this f] show ?thesis .
qed

theorem file_delivered_witness:
  "\<exists>es. list_all is_saved es \<and> map dm_sha256 (normalized_records (sample_run (\<lambda>_. fine_broker)) artists_file Artists) = [''h'']
    \<and> last (butlast (butlast (w_log (fst (process_single_file (sample_run (\<lambda>_. fine_broker)) fine_broker artists_file open_queue fresh_world)))))
      = Delivered [(''groovemap-discogs-artists'', FileComplete \<lparr>fc_data_type = ''artists'', fc_timestamp = 9,
          fc_total_processed = 1, fc_file = artists_file\<rparr>)]"
proof -
  let ?env = "sample_run (\<lambda>_. fine_broker)"
  let ?run = "process_single_file ?env fine_broker artists_file open_queue fresh_world"
  have "pe_save_ok ?env = (\<lambda>_. True)" by (simp add: sample_run_def)
  from healthy_single_file [OF sample_broker sample_file this surjective_pairing] have "snd ?run = Ok ()" .
  then have run: "?run = (fst ?run, Ok ())" by (metis prod.collapse)
  have arrivals: "received (pe_arrivals ?env f ms) = ms" for f ms
    by (induction ms) (simp_all add: sample_run_def)
  have sends: "ss_validator (pe_sends ?env f) = (\<lambda>_. True)" "ss_normalizer (pe_sends ?env f) = (\<lambda>_. True)" for f
    by (simp_all add: sample_run_def)
  have t: "extract_data_type artists_file = Some Artists" "snd (parse_stage ?env artists_file Artists) = Ok 1"
    "map dm_sha256 (normalized_records ?env artists_file Artists) = [''h'']" by code_simp+
  from file_delivered [OF run arrivals sends] obtain msgs n es where
    "parse_stage ?env artists_file Artists = (msgs, Ok n)" "list_all is_saved es"
    "last (butlast (butlast (w_log (fst ?run)))) = Delivered [(mq_exchange_prefix open_queue @ ''-'' @ dt_str Artists,
       FileComplete \<lparr>fc_data_type = dt_str Artists, fc_timestamp = pe_now ?env, fc_total_processed = n, fc_file = artists_file\<rparr>)]"
    using t(1) by (auto simp: Let_def butlast_append)
  with t show ?thesis by (auto simp: open_queue_def sample_run_def)
qed

end
