(* ===== verification/Polite_Http.thy ===== *)
theory Polite_Http
  imports Data_Types "HOL-Library.Code_Target_Nat"
begin

text \<open>
  \<open>src/polite_http.rs\<close>: the HTTP client that keeps a gap between requests and obeys
  \<open>Retry-After\<close>.  The n-th request of a client gets the n-th answer and takes the n-th latency;
  times and durations are in nanoseconds.  The back-off doubles in unbounded numbers: it is the code's
  for up to 64 retries, the width of its shift (the only client is configured for five).
\<close>

section \<open>Configuration\<close>

definition secs :: "nat \<Rightarrow> nat" where
  "secs n = n * 1000000000"

record polite_config =
  pc_min_gap :: nat
  pc_max_retry_after :: nat
  pc_max_throttle_retries :: nat
  pc_request_timeout :: nat
  pc_read_timeout :: nat

definition polite_discogs :: polite_config where
  "polite_discogs = \<lparr>pc_min_gap = secs 5, pc_max_retry_after = secs (2 * 60 * 60), pc_max_throttle_retries = 5,
     pc_request_timeout = secs 120, pc_read_timeout = secs 120\<rparr>"

section \<open>The client\<close>

text \<open>No answer, or a status, the \<open>Retry-After\<close> header when it is readable text, and a body.\<close>

datatype 'b http_answer = NoAnswer | Answer (answer_status: nat) (answer_retry: "string option") (answer_body: 'b)

record 'b web =
  web_answer :: "nat \<Rightarrow> 'b http_answer"
  web_latency :: "nat \<Rightarrow> nat"

record polite_state =
  po_last :: "time option"
  po_clock :: time
  po_requests :: "time list"
  po_sleeps :: "nat list"

datatype http_error = GetFailed | RateLimited nat nat "nat option"

text \<open>The last request is now.\<close>

definition wait_for_polite_gap :: "polite_config \<Rightarrow> polite_state \<Rightarrow> polite_state" where
  "wait_for_polite_gap cfg st =
     (let now = (case po_last st of
            None \<Rightarrow> po_clock st
          | Some t \<Rightarrow>
              (let elapsed = po_clock st - t in
               if elapsed < pc_min_gap cfg then po_clock st + (pc_min_gap cfg - elapsed) else po_clock st))
      in st\<lparr>po_clock := now, po_last := Some now\<rparr>)"

definition parse_retry_after :: "string option \<Rightarrow> nat option" where
  "parse_retry_after header = Option.bind header (\<lambda>s. map_option secs (parse_u64 (trim s)))"

text \<open>The cooldown before the next retry: what the server asks for, else 30 seconds doubled each time.\<close>

definition chosen_wait :: "polite_config \<Rightarrow> nat \<Rightarrow> nat option \<Rightarrow> nat" where
  "chosen_wait cfg throttled_attempts server_wait =
     (case server_wait of
        Some d \<Rightarrow> min d (pc_max_retry_after cfg)
      | None \<Rightarrow> min (secs (min (30 * 2 ^ (throttled_attempts - 1)) (2 ^ 64 - 1))) (pc_max_retry_after cfg))"

definition throttled :: "nat \<Rightarrow> bool" where
  "throttled status \<longleftrightarrow> status = 429 \<or> status = 503"

text \<open>One request: its time is noted, the clock moves by its latency.\<close>

definition send_request :: "'b web \<Rightarrow> polite_state \<Rightarrow> polite_state \<times> 'b http_answer" where
  "send_request w st =
     (let n = length (po_requests st) in
      (st\<lparr>po_requests := po_requests st @ [po_clock st], po_clock := po_clock st + web_latency w n\<rparr>, web_answer w n))"

function polite_loop :: "polite_config \<Rightarrow> 'b web \<Rightarrow> nat \<Rightarrow> polite_state \<Rightarrow> polite_state \<times> (http_error + 'b http_answer)" where
  "polite_loop cfg w throttled_attempts st =
     (case send_request w (wait_for_polite_gap cfg st) of
        (st1, NoAnswer) \<Rightarrow> (st1, Err GetFailed)
      | (st1, Answer status header body) \<Rightarrow>
          if \<not> throttled status then (st1, Ok (Answer status header body))
          else
            (let attempts = throttled_attempts + 1;
                 server_wait = parse_retry_after header;
                 wait = chosen_wait cfg attempts server_wait
             in if attempts > pc_max_throttle_retries cfg
                then (st1, Err (RateLimited status (pc_max_throttle_retries cfg) server_wait))
                else polite_loop cfg w attempts
                  (st1\<lparr>po_clock := po_clock st1 + wait, po_sleeps := po_sleeps st1 @ [wait]\<rparr>)))"
  by pat_completeness auto
termination
  by (relation "measure (\<lambda>(cfg, w, n, st). pc_max_throttle_retries cfg - n)") auto

declare polite_loop.simps [simp del]

definition polite_get :: "polite_config \<Rightarrow> 'b web \<Rightarrow> polite_state \<Rightarrow> polite_state \<times> (http_error + 'b http_answer)" where
  "polite_get cfg w = polite_loop cfg w 0"

section \<open>Politeness\<close>

definition clock_ok :: "polite_state \<Rightarrow> bool" where
  "clock_ok st \<longleftrightarrow> (case po_last st of None \<Rightarrow> True | Some t \<Rightarrow> t \<le> po_clock st)"

text \<open>Consecutive requests, the last one before included, are at least the gap apart.\<close>

fun gaps :: "nat \<Rightarrow> time option \<Rightarrow> time list \<Rightarrow> bool" where
  "gaps gap prev [] = True"
| "gaps gap prev (t # ts) = ((case prev of None \<Rightarrow> True | Some s \<Rightarrow> s + gap \<le> t) \<and> gaps gap (Some t) ts)"

definition polite_between :: "polite_config \<Rightarrow> nat \<Rightarrow> polite_state \<Rightarrow> polite_state \<Rightarrow> bool" where
  "polite_between cfg bound st st' \<longleftrightarrow>
     (\<exists>ts ws. po_requests st' = po_requests st @ ts \<and> po_sleeps st' = po_sleeps st @ ws
        \<and> ts \<noteq> [] \<and> length ts \<le> bound \<and> length ws = length ts - 1
        \<and> gaps (pc_min_gap cfg) (po_last st) ts \<and> list_all (\<lambda>d. d \<le> pc_max_retry_after cfg) ws
        \<and> po_last st' = Some (last ts) \<and> last ts \<le> po_clock st')"

lemma chosen_wait_bound: "chosen_wait cfg n d \<le> pc_max_retry_after cfg"
  by (simp add: chosen_wait_def split: option.split)

lemma request_after_gap:
  assumes "send_request w (wait_for_polite_gap cfg st) = (st1, a)" "clock_ok st"
  shows "\<exists>t. po_requests st1 = po_requests st @ [t] \<and> po_last st1 = Some t \<and> t \<le> po_clock st1
    \<and> po_sleeps st1 = po_sleeps st
    \<and> (case po_last st of None \<Rightarrow> True | Some s \<Rightarrow> s + pc_min_gap cfg \<le> t)"
  using assms
  by (auto simp: send_request_def wait_for_polite_gap_def clock_ok_def Let_def split: option.splits)

lemma polite_step:
  assumes "send_request w (wait_for_polite_gap cfg st) = (st1, a)" "clock_ok st"
  shows "polite_between cfg (Suc k) st st1"
  using request_after_gap [OF assms] unfolding polite_between_def by fastforce

lemma polite_trans:
  assumes s: "send_request w (wait_for_polite_gap cfg st) = (st1, a)" "clock_ok st"
    and wait: "d \<le> pc_max_retry_after cfg"
    and rest: "polite_between cfg k (st1\<lparr>po_clock := po_clock st1 + d, po_sleeps := po_sleeps st1 @ [d]\<rparr>) st'"
  shows "polite_between cfg (Suc k) st st'"
proof -
  obtain t where t: "po_requests st1 = po_requests st @ [t]" "po_last st1 = Some t" "po_sleeps st1 = po_sleeps st"
    "case po_last st of None \<Rightarrow> True | Some s \<Rightarrow> s + pc_min_gap cfg \<le> t"
    using request_after_gap [OF s] by blast
  obtain ts ws where r: "po_requests st' = po_requests st1 @ ts" "po_sleeps st' = po_sleeps st1 @ d # ws" "ts \<noteq> []"
    "length ts \<le> k" "length ws = length ts - 1" "gaps (pc_min_gap cfg) (po_last st1) ts"
    "list_all (\<lambda>d. d \<le> pc_max_retry_after cfg) ws" "po_last st' = Some (last ts)" "last ts \<le> po_clock st'"
    using rest by (auto simp: polite_between_def)
  have "po_requests st' = po_requests st @ (t # ts)" "po_sleeps st' = po_sleeps st @ (d # ws)"
    "gaps (pc_min_gap cfg) (po_last st) (t # ts)" "length (t # ts) \<le> Suc k" "length (d # ws) = length (t # ts) - 1"
    using t r by (auto simp: neq_Nil_conv)
  with r wait show ?thesis
    unfolding polite_between_def
    by (intro exI [of _ "t # ts"] exI [of _ "d # ws"]) simp
qed

lemma polite_loop_between:
  "clock_ok st \<Longrightarrow> polite_loop cfg w n st = (st', r) \<Longrightarrow> polite_between cfg (Suc (pc_max_throttle_retries cfg - n)) st st'
    \<and> (case r of Inr a \<Rightarrow> a \<noteq> NoAnswer \<and> \<not> throttled (answer_status a)
       | Inl (RateLimited s k d) \<Rightarrow> throttled s \<and> n \<le> pc_max_throttle_retries cfg
           \<longrightarrow> length (po_requests st') = length (po_requests st) + Suc (pc_max_throttle_retries cfg - n)
       | Inl GetFailed \<Rightarrow> True)"
proof (induction cfg w n st arbitrary: st' r rule: polite_loop.induct)
  case (1 cfg w n st)
  obtain st1 a where s: "send_request w (wait_for_polite_gap cfg st) = (st1, a)" by force
  note step = polite_step [OF s \<open>clock_ok st\<close>, of "pc_max_throttle_retries cfg - n"]
  show ?case
  proof (cases a)
    case NoAnswer
    with "1.prems" step s show ?thesis by (auto simp: polite_loop.simps [of cfg w n])
  next
    case (Answer status header body)
    show ?thesis
    proof (cases "throttled status \<and> n + 1 \<le> pc_max_throttle_retries cfg")
      case False
      have len: "length (po_requests st1) = Suc (length (po_requests st))"
        using request_after_gap [OF s \<open>clock_ok st\<close>] by auto
      from False "1.prems" step s Answer len show ?thesis
        by (auto simp: polite_loop.simps [of cfg w n] Let_def split: if_splits)
    next
      case True
      define d where "d = chosen_wait cfg (n + 1) (parse_retry_after header)"
      let ?st2 = "st1\<lparr>po_clock := po_clock st1 + d, po_sleeps := po_sleeps st1 @ [d]\<rparr>"
      have run: "polite_loop cfg w (n + 1) ?st2 = (st', r)"
        using "1.prems"(2) s Answer True by (simp add: polite_loop.simps [of cfg w n] d_def Let_def)
      have ok: "clock_ok ?st2" using request_after_gap [OF s \<open>clock_ok st\<close>] by (auto simp: clock_ok_def)
      have len: "length (po_requests st1) = Suc (length (po_requests st))"
        using request_after_gap [OF s \<open>clock_ok st\<close>] by auto
      have "\<not> \<not> throttled status" "\<not> n + 1 > pc_max_throttle_retries cfg" using True by auto
      note ih = "1.IH" [OF s [symmetric] Answer this(1) refl refl refl this(2), folded d_def, OF ok run]
      have "Suc (pc_max_throttle_retries cfg - n) = Suc (Suc (pc_max_throttle_retries cfg - (n + 1)))" using True by auto
      with polite_trans [OF s \<open>clock_ok st\<close> _ conjunct1 [OF ih]] chosen_wait_bound [of cfg] ih len True
      show ?thesis by (auto simp: d_def split: sum.splits http_error.splits)
    qed
  qed
qed

text \<open>
  C37: the client is polite and terminates.  A request is repeated at most the configured number of
  times; any two requests of a client are at least the minimum gap apart, the first one also from the
  last of an earlier call; no cooldown exceeds the cap, whatever the server's header says; and what is
  returned is an answer that is neither 429 nor 503, or an error.
\<close>

theorem polite_get_bounded:
  assumes "clock_ok st"
  shows "case polite_get cfg w st of (st', r) \<Rightarrow>
    \<exists>ts ws. po_requests st' = po_requests st @ ts \<and> po_sleeps st' = po_sleeps st @ ws
      \<and> 1 \<le> length ts \<and> length ts \<le> pc_max_throttle_retries cfg + 1
      \<and> gaps (pc_min_gap cfg) (po_last st) ts \<and> list_all (\<lambda>d. d \<le> pc_max_retry_after cfg) ws
      \<and> clock_ok st'
      \<and> (case r of Inr a \<Rightarrow> a \<noteq> NoAnswer \<and> answer_status a \<notin> {429, 503} | Inl e \<Rightarrow> True)"
proof -
  obtain st' r where run: "polite_loop cfg w 0 st = (st', r)" by force
  from polite_loop_between [OF assms run] obtain ts ws where
    "po_requests st' = po_requests st @ ts" "po_sleeps st' = po_sleeps st @ ws" "ts \<noteq> []"
    "length ts \<le> pc_max_throttle_retries cfg + 1" "gaps (pc_min_gap cfg) (po_last st) ts"
    "list_all (\<lambda>d. d \<le> pc_max_retry_after cfg) ws" "po_last st' = Some (last ts)" "last ts \<le> po_clock st'"
    "case r of Inr a \<Rightarrow> a \<noteq> NoAnswer \<and> \<not> throttled (answer_status a) | _ \<Rightarrow> True"
    by (auto simp: polite_between_def split: sum.splits)
  then show ?thesis
    unfolding polite_get_def run prod.case
    by (intro exI [of _ ts] exI [of _ ws])
      (auto simp: clock_ok_def throttled_def Suc_le_eq split: sum.splits)
qed

text \<open>A server that throttles twice: first without a header, then asking for two hours and more.\<close>

definition throttling_web :: "unit web" where
  "throttling_web = \<lparr>web_answer = (\<lambda>n. if n = 0 then Answer 429 None () else if n = 1 then Answer 503 (Some '' 9000 '') ()
     else Answer 200 None ()), web_latency = (\<lambda>_. 1)\<rparr>"

theorem polite_get_bounded_witness:
  "po_sleeps (fst (polite_get polite_discogs throttling_web \<lparr>po_last = Some 0, po_clock = 3, po_requests = [], po_sleeps = []\<rparr>))
     = [secs 30, secs 7200]
   \<and> clock_ok (fst (polite_get polite_discogs throttling_web \<lparr>po_last = Some 0, po_clock = 3, po_requests = [], po_sleeps = []\<rparr>))"
proof -
  let ?st = "\<lparr>po_last = Some 0, po_clock = 3, po_requests = [], po_sleeps = []\<rparr>"
  have ok: "clock_ok ?st" by (simp add: clock_ok_def)
  have "po_sleeps (fst (polite_get polite_discogs throttling_web ?st)) = [secs 30, secs 7200]" by code_simp
  moreover have "clock_ok (fst (polite_get polite_discogs throttling_web ?st))"
    using polite_get_bounded [OF ok, of polite_discogs throttling_web] by (auto split: prod.splits)
  ultimately show ?thesis by simp
qed

end
