(* ===== verification/Data_Source.thy ===== *)
theory Data_Source
  imports Commit_Order Polite_Http
begin

text \<open>
  What a source of dumps owes the pipeline: the trait \<open>DataSource\<close> of
  \<open>src/discogs/downloader.rs\<close> as a locale, with the file system both sources work on.  A source is
  handed the marker, drives its download phase, saves it on the way and gives it back.
\<close>

section \<open>The file system of a source\<close>

datatype source_error =
    ClientFailed
  | HttpFailed http_error
  | BadStatus nat
  | BodyFailed
  | NoYears
  | NotDecodable
  | NoFiles
  | NoChecksums
  | DirFailed
  | CreateFailed
  | WriteFailed
  | ReadFailed
  | MetadataFailed
  | BadChecksum string
  | BadManifest string
  | NoMarker
  | SlicePanicked

text \<open>
  The k-th operation on the file system succeeds or not; a failed write leaves some contents behind.
  The clock, and the hexadecimal SHA-256 of bytes.
\<close>

record source_env =
  se_ok :: "nat \<Rightarrow> bool"
  se_torn :: "nat \<Rightarrow> string"
  se_now :: time
  se_sha256 :: "string \<Rightarrow> string"

text \<open>The files of the output directory by name, the operations so far, the marker and the markers saved.\<close>

record source_state =
  so_files :: "string \<Rightarrow> string option"
  so_ops :: nat
  so_marker :: "state_marker option"
  so_marker_path :: "path option"
  so_saved :: "state_marker list"

definition fs_op :: "'e source_env_scheme \<Rightarrow> 's source_state_scheme \<Rightarrow> 's source_state_scheme \<times> bool" where
  "fs_op env s = (s\<lparr>so_ops := so_ops s + 1\<rparr>, se_ok env (so_ops s))"

definition set_file :: "string \<Rightarrow> string option \<Rightarrow> 's source_state_scheme \<Rightarrow> 's source_state_scheme" where
  "set_file name b s = s\<lparr>so_files := (so_files s)(name := b)\<rparr>"

text \<open>A write of a file's contents: all of it, or what a failure leaves.\<close>

definition write_contents ::
  "'e source_env_scheme \<Rightarrow> string \<Rightarrow> string \<Rightarrow> 's source_state_scheme \<Rightarrow> 's source_state_scheme \<times> bool" where
  "write_contents env name b s =
     (case fs_op env s of (s1, ok) \<Rightarrow> (set_file name (Some (if ok then b else se_torn env (so_ops s))) s1, ok))"

text \<open>\<open>fs::remove_file\<close> of a file that exists; a failure is only logged.\<close>

definition remove_existing :: "'e source_env_scheme \<Rightarrow> string \<Rightarrow> 's source_state_scheme \<Rightarrow> 's source_state_scheme" where
  "remove_existing env name s =
     (if so_files s name = None then s
      else (case fs_op env s of (s1, ok) \<Rightarrow> if ok then set_file name None s1 else s1))"

text \<open>Opening a file and reading it in pieces: the digest of all of it, or an error.\<close>

definition file_digest ::
  "'e source_env_scheme \<Rightarrow> string \<Rightarrow> 's source_state_scheme \<Rightarrow> 's source_state_scheme \<times> (source_error + string)" where
  "file_digest env name s =
     (case fs_op env s of (s1, opened) \<Rightarrow>
        if \<not> opened then (s1, Err ReadFailed)
        else (case fs_op env s1 of (s2, ok) \<Rightarrow>
          (s2, case so_files s name of Some b \<Rightarrow> if ok then Ok (se_sha256 env b) else Err ReadFailed | None \<Rightarrow> Err ReadFailed)))"

section \<open>The marker of a source\<close>

definition set_state_marker ::
  "state_marker \<Rightarrow> path \<Rightarrow> 's source_state_scheme \<Rightarrow> 's source_state_scheme" where
  "set_state_marker m p s = s\<lparr>so_marker := Some m, so_marker_path := Some p\<rparr>"

definition take_state_marker :: "'s source_state_scheme \<Rightarrow> 's source_state_scheme \<times> state_marker option" where
  "take_state_marker s = (s\<lparr>so_marker := None\<rparr>, so_marker s)"

definition on_source_marker ::
  "(state_marker \<Rightarrow> state_marker) \<Rightarrow> 's source_state_scheme \<Rightarrow> 's source_state_scheme" where
  "on_source_marker f s = s\<lparr>so_marker := map_option f (so_marker s)\<rparr>"

text \<open>\<open>marker.save\<close>: stamped first, then written.\<close>

definition write_source_marker ::
  "'e source_env_scheme \<Rightarrow> state_marker \<Rightarrow> 's source_state_scheme \<Rightarrow> 's source_state_scheme \<times> bool" where
  "write_source_marker env m s =
     (let m1 = stamp (se_now env) m in
      case fs_op env (s\<lparr>so_marker := Some m1\<rparr>) of
        (s1, ok) \<Rightarrow> (if ok then s1\<lparr>so_saved := so_saved s1 @ [m1]\<rparr> else s1, ok))"

section \<open>Fetching\<close>

text \<open>What a source may do to the marker: the operations of the download phase.\<close>

inductive fetch_steps :: "state_marker \<Rightarrow> state_marker \<Rightarrow> bool" for m where
  fetch_none: "fetch_steps m m"
| fetch_stamp: "fetch_steps m m' \<Longrightarrow> fetch_steps m (stamp t m')"
| fetch_start: "fetch_steps m m' \<Longrightarrow> fetch_steps m (start_download t n m')"
| fetch_file: "fetch_steps m m' \<Longrightarrow> fetch_steps m (start_file_download t f m')"
| fetch_fetched: "fetch_steps m m' \<Longrightarrow> fetch_steps m (file_downloaded t f n m')"
| fetch_verified: "fetch_steps m m' \<Longrightarrow> fetch_steps m (fst (file_bytes_verified f c m'))"
| fetch_complete: "fetch_steps m m' \<Longrightarrow> fetch_steps m (complete_download t m')"

inductive_cases fetch_stepsE: "fetch_steps m m'"

lemmas fetch_step_intros [intro] = fetch_steps.intros

lemma fetch_steps_trans: "fetch_steps m m' \<Longrightarrow> fetch_steps m' m'' \<Longrightarrow> fetch_steps m m''"
  by (rotate_tac, induction rule: fetch_steps.induct) auto

text \<open>Such a claim about a marker does not appear by fetching.\<close>

definition fetch_stable :: "(state_marker \<Rightarrow> bool) \<Rightarrow> bool" where
  "fetch_stable claim \<longleftrightarrow> (\<forall>m m'. fetch_steps m m' \<longrightarrow> claim m' \<longrightarrow> claim m)"

lemma version_complete_verified: "version_complete (fst (file_bytes_verified f c m)) \<Longrightarrow> version_complete m"
  by (auto simp: version_complete_def file_bytes_verified_def reopen_version_def sync_phase_totals_def set_file_type_def
      on_download_def on_processing_def on_publishing_def on_summary_def Let_def split: if_splits option.splits)

lemma version_fetch_stable: "fetch_stable version_complete"
  unfolding fetch_stable_def
proof (intro allI impI)
  show "version_complete m' \<Longrightarrow> version_complete m" if "fetch_steps m m'" for m m'
    using that by induction
      (auto simp: start_download_def start_file_download_def file_downloaded_def complete_download_def
        dest: version_complete_verified)
qed

lemma file_complete_reopen [simp]: "file_complete f (reopen_version m) = file_complete f m"
  by (auto simp: reopen_version_def Let_def file_complete_processing) (auto simp: file_complete_def on_summary_def)

lemma file_complete_verified: "file_complete f (fst (file_bytes_verified g c m)) \<Longrightarrow> file_complete f m"
  by (auto simp: file_bytes_verified_def Let_def file_complete_processing split: if_splits option.splits)
    (auto simp: file_complete_def on_download_def)

lemma file_fetch_stable: "fetch_stable (file_complete f)"
  unfolding fetch_stable_def
proof (intro allI impI)
  show "file_complete f m' \<Longrightarrow> file_complete f m" if "fetch_steps m m'" for m m'
    using that by induction
      (auto simp: start_download_def start_file_download_def file_downloaded_def complete_download_def
        dest: file_complete_verified)
qed

section \<open>The interface\<close>

text \<open>A download as the pipeline sees it: the markers saved, the one handed back, the result.\<close>

definition source_run ::
  "('s source_state_scheme \<Rightarrow> 's source_state_scheme \<times> (source_error + string list)) \<Rightarrow> path \<Rightarrow> 's source_state_scheme
    \<Rightarrow> state_marker \<Rightarrow> state_marker list \<times> state_marker option \<times> (pipeline_error + string list)" where
  "source_run download p s m =
     (case download (set_state_marker m p (s\<lparr>so_saved := []\<rparr>)) of
        (s1, r) \<Rightarrow> (so_saved s1, snd (take_state_marker s1), case r of Inr fs \<Rightarrow> Ok fs | Inl e \<Rightarrow> Err DownloadFailed))"

text \<open>The marker is driven by download steps only, and is never lost.\<close>

definition drives :: "state_marker \<Rightarrow> 's source_state_scheme \<Rightarrow> bool" where
  "drives m s \<longleftrightarrow> (case so_marker s of Some m' \<Rightarrow> fetch_steps m m' | None \<Rightarrow> False) \<and> list_all (fetch_steps m) (so_saved s)"

locale data_source =
  fixes download :: "'s source_state_scheme \<Rightarrow> 's source_state_scheme \<times> (source_error + string list)"
  assumes download_drives: "drives m s \<Longrightarrow> drives m (fst (download s))"
begin

lemma run_drives:
  "case source_run download p s m of (saves, handed, r) \<Rightarrow>
     list_all (fetch_steps m) saves \<and> (\<exists>m'. handed = Some m' \<and> fetch_steps m m')"
proof -
  have "drives m (set_state_marker m p (s\<lparr>so_saved := []\<rparr>))" by (auto simp: drives_def set_state_marker_def)
  from download_drives [OF this] show ?thesis
    by (auto simp: source_run_def drives_def take_state_marker_def split: prod.splits option.splits)
qed

lemma run_keeps_claim: "fetch_stable claim \<Longrightarrow> keeps_claim claim (source_run download p s)"
  unfolding keeps_claim_def
proof
  fix m
  assume stable: "fetch_stable claim"
  show "case source_run download p s m of (saves, handed, r) \<Rightarrow>
      list_all (\<lambda>m'. claim m' \<longrightarrow> claim m) saves \<and> (case handed of Some m' \<Rightarrow> claim m' \<longrightarrow> claim m | None \<Rightarrow> True)"
    using run_drives [where p = p and s = s and m = m] stable unfolding fetch_stable_def
    by (auto simp: list_all_iff) blast
qed

lemmas keeps_version = run_keeps_claim [OF version_fetch_stable]
lemmas keeps_file = run_keeps_claim [OF file_fetch_stable]

text \<open>The marker comes back, whatever the download met.\<close>

lemma marker_returned: "fst (snd (source_run download p s m)) \<noteq> None"
  using run_drives [where p = p and s = s and m = m] by auto

end

section \<open>Every operation drives the marker\<close>

lemma drives_frame: "so_marker s' = so_marker s \<Longrightarrow> so_saved s' = so_saved s \<Longrightarrow> drives m s' = drives m s"
  by (simp add: drives_def)

lemma drives_op [simp]: "drives m (fst (fs_op env s)) = drives m s"
  by (simp add: fs_op_def drives_def)

lemma drives_set_file [simp]: "drives m (set_file f b s) = drives m s"
  by (simp add: set_file_def drives_def)

lemma drives_write [simp]: "drives m (fst (write_contents env f b s)) = drives m s"
  by (simp add: write_contents_def fs_op_def set_file_def drives_def)

lemma drives_remove [simp]: "drives m (remove_existing env f s) = drives m s"
  by (simp add: remove_existing_def fs_op_def set_file_def drives_def)

lemma drives_digest [simp]: "drives m (fst (file_digest env f s)) = drives m s"
  by (simp add: file_digest_def fs_op_def drives_def split: prod.split)

lemma drives_on_marker:
  "drives m s \<Longrightarrow> (\<And>m'. fetch_steps m m' \<Longrightarrow> fetch_steps m (f m')) \<Longrightarrow> drives m (on_source_marker f s)"
  by (auto simp: drives_def on_source_marker_def split: option.splits)

lemma drives_write_marker: "drives m s \<Longrightarrow> fetch_steps m m' \<Longrightarrow> drives m (fst (write_source_marker env m' s))"
  by (auto simp: drives_def write_source_marker_def fs_op_def Let_def)

end
