(* ===== verification/Downloader.thy ===== *)
theory Downloader
  imports Data_Source
begin

text \<open>
  \<open>src/discogs/downloader.rs\<close>: listing the dumps, choosing the newest complete version, and
  downloading it with retries, checksums and the metadata file.  The web site (through the client of
  \<open>Polite_Http\<close>), the file system, SHA-256, the regular expressions, the URL coding and the JSON codec
  of the metadata are parameters.
\<close>

section \<open>Environment and state\<close>

type_synonym metadata = "(string, local_file_info) omap"

text \<open>A body arrives in chunks, or breaks off.\<close>

datatype chunk = Chunk string | Broken

text \<open>
  The web site by URL and whether a client for it can be built, the decoding of a body to text, the
  captures of the two patterns (a year; a file name and its version), the URL coding, which bytes are
  UTF-8, the codec of the metadata file and the current month.
\<close>

record dl_env = source_env +
  de_web :: "string \<Rightarrow> chunk list web"
  de_client :: bool
  de_text :: "string \<Rightarrow> string"
  de_years :: "string \<Rightarrow> string list"
  de_links :: "string \<Rightarrow> (string \<times> string) list"
  de_encode :: "string \<Rightarrow> string"
  de_decode :: "string \<Rightarrow> string option"
  de_utf8 :: "string \<Rightarrow> bool"
  de_show_metadata :: "metadata \<Rightarrow> string"
  de_read_metadata :: "string \<Rightarrow> metadata option"
  de_month :: string

text \<open>The fields of \<open>Downloader\<close>, the state of its client, and the backoff it slept.\<close>

record downloader = source_state +
  dl_output_directory :: string
  dl_base_url :: string
  dl_config :: polite_config
  dl_metadata :: metadata
  dl_cached :: "s3_file_info list option"
  dl_client :: polite_state
  dl_sleeps :: "nat list"

definition max_download_retries :: nat where
  "max_download_retries = 3"

definition retry_base_delay_ms :: nat where
  "retry_base_delay_ms = 2000"

section \<open>Names\<close>

definition base_name :: "string \<Rightarrow> string" where
  "base_name key = (case path_file_name key of Some name \<Rightarrow> name | None \<Rightarrow> ''unknown_file'')"

text \<open>\<open>PathBuf::join\<close> with a file name.\<close>

definition join_path :: "string \<Rightarrow> string \<Rightarrow> string" where
  "join_path dir name = (if dir = [] \<or> last dir = CHR ''/'' then dir @ name else dir @ ''/'' @ name)"

text \<open>The month in a file name, else the current one; a slice inside a character panics.\<close>

definition extract_month :: "'e dl_env_scheme \<Rightarrow> string \<Rightarrow> source_error + string" where
  "extract_month env filename =
     (case nth_opt (split_on (CHR ''_'') filename) 1 of
        Some date \<Rightarrow>
          if length date \<ge> 6
          then (case nth_opt date 6 of
              Some c \<Rightarrow> if is_cont c then Err SlicePanicked else Ok (take 6 date)
            | None \<Rightarrow> Ok (take 6 date))
          else Ok (de_month env)
      | None \<Rightarrow> Ok (de_month env))"

section \<open>Requests\<close>

text \<open>One polite request: the status and the body.\<close>

definition fetch ::
  "'e dl_env_scheme \<Rightarrow> string \<Rightarrow> downloader \<Rightarrow> downloader \<times> (source_error + nat \<times> chunk list)" where
  "fetch env url d =
     (case polite_get (dl_config d) (de_web env url) (dl_client d) of
        (c, Inr (Answer status header body)) \<Rightarrow> (d\<lparr>dl_client := c\<rparr>, Ok (status, body))
      | (c, Inr NoAnswer) \<Rightarrow> (d\<lparr>dl_client := c\<rparr>, Err (HttpFailed GetFailed))
      | (c, Inl e) \<Rightarrow> (d\<lparr>dl_client := c\<rparr>, Err (HttpFailed e)))"

definition is_success :: "nat \<Rightarrow> bool" where
  "is_success status \<longleftrightarrow> 200 \<le> status \<and> status < 300"

fun body_bytes :: "chunk list \<Rightarrow> source_error + string" where
  "body_bytes [] = Ok []"
| "body_bytes (Broken # cs) = Err BodyFailed"
| "body_bytes (Chunk b # cs) = and_then (body_bytes cs) (\<lambda>bs. Ok (b @ bs))"

text \<open>A successful answer, as text.\<close>

definition fetch_text :: "'e dl_env_scheme \<Rightarrow> string \<Rightarrow> downloader \<Rightarrow> downloader \<times> (source_error + string)" where
  "fetch_text env url d =
     (case fetch env url d of
        (d1, r) \<Rightarrow> (d1, and_then r (\<lambda>(status, body).
           if \<not> is_success status then Err (BadStatus status)
           else and_then (body_bytes body) (\<lambda>bs. Ok (de_text env bs)))))"

section \<open>The list of files\<close>

type_synonym versions = "(string, s3_file_info list) omap"

definition add_file :: "string \<Rightarrow> s3_file_info \<Rightarrow> versions \<Rightarrow> versions" where
  "add_file version f = oentry version [] (\<lambda>fs. fs @ [f])"

text \<open>The links of a year's page; one that cannot be decoded ends the listing.\<close>

fun scan_links :: "'e dl_env_scheme \<Rightarrow> string \<Rightarrow> (string \<times> string) list \<Rightarrow> versions \<Rightarrow> source_error + versions" where
  "scan_links env year [] ids = Ok ids"
| "scan_links env year ((filename, version) # links) ids =
     (case de_decode env filename of
        None \<Rightarrow> Err NotDecodable
      | Some decoded \<Rightarrow>
          scan_links env year links
            (add_file version \<lparr>s3_name = ''data/'' @ year @ ''/'' @ decoded, s3_size = 0\<rparr> ids))"

text \<open>A year whose page fails is left out.\<close>

fun scan_years :: "'e dl_env_scheme \<Rightarrow> string list \<Rightarrow> versions \<Rightarrow> downloader \<Rightarrow> downloader \<times> (source_error + versions)" where
  "scan_years env [] ids d = (d, Ok ids)"
| "scan_years env (year # years) ids d =
     (case fetch_text env (dl_base_url d @ ''?prefix=data%2F'' @ year @ ''%2F'') d of
        (d1, Inl e) \<Rightarrow> scan_years env years ids d1
      | (d1, Inr html) \<Rightarrow>
          (case scan_links env year (de_links env html) ids of
             Inl e \<Rightarrow> (d1, Err e)
           | Inr ids1 \<Rightarrow> scan_years env years ids1 d1))"

text \<open>The two most recent years.\<close>

definition scrape_file_list :: "'e dl_env_scheme \<Rightarrow> downloader \<Rightarrow> downloader \<times> (source_error + versions)" where
  "scrape_file_list env d =
     (case fetch_text env (dl_base_url d) d of
        (d1, Inl e) \<Rightarrow> (d1, Err e)
      | (d1, Inr html) \<Rightarrow>
          (let years = de_years env html in
           if years = [] then (d1, Err NoYears)
           else (case scan_years env (take 2 (rev (sort years))) [] d1 of
                (d2, r) \<Rightarrow> (d2, and_then r (\<lambda>ids. if ids = [] then Err NoFiles else Ok ids)))))"

definition list_s3_files :: "'e dl_env_scheme \<Rightarrow> downloader \<Rightarrow> downloader \<times> (source_error + s3_file_info list)" where
  "list_s3_files env d =
     (case dl_cached d of
        Some files \<Rightarrow> (d, Ok files)
      | None \<Rightarrow>
          (case scrape_file_list env d of
             (d1, Inl e) \<Rightarrow> (d1, Err e)
           | (d1, Inr ids) \<Rightarrow> (let files = concat (ovalues ids) in (d1\<lparr>dl_cached := Some files\<rparr>, Ok files))))"

section \<open>The newest complete version\<close>

definition file_version_id :: "s3_file_info \<Rightarrow> string option" where
  "file_version_id f =
     nth_opt (split_on (CHR ''_'') (case path_file_name (s3_name f) of Some name \<Rightarrow> name | None \<Rightarrow> s3_name f)) 1"

definition group_files :: "s3_file_info list \<Rightarrow> versions" where
  "group_files files =
     fold (\<lambda>f ids. case file_version_id f of Some v \<Rightarrow> add_file v f ids | None \<Rightarrow> ids) files []"

definition is_data_file :: "s3_file_info \<Rightarrow> bool" where
  "is_data_file f \<longleftrightarrow> ends_with (s3_name f) ''.xml.gz''"

text \<open>The first of the versions with five files, four of them data.\<close>

fun first_complete :: "(string \<times> s3_file_info list) list \<Rightarrow> s3_file_info list" where
  "first_complete [] = []"
| "first_complete ((v, fs) # ids) =
     (if length fs \<noteq> 5 then first_complete ids
      else (let data = filter is_data_file fs in
            if length data = 4 then data else first_complete ids))"

definition get_latest_monthly_files :: "s3_file_info list \<Rightarrow> s3_file_info list" where
  "get_latest_monthly_files files = first_complete (rev (group_files files))"

section \<open>Published checksums\<close>

definition find_checksum_entry :: "s3_file_info list \<Rightarrow> s3_file_info list \<Rightarrow> s3_file_info option" where
  "find_checksum_entry files data_files =
     (case data_files of
        [] \<Rightarrow> None
      | sample # _ \<Rightarrow>
          Option.bind (path_file_name (s3_name sample)) (\<lambda>name.
          Option.bind (nth_opt (split_on (CHR ''_'') name) 1) (\<lambda>version.
            find (\<lambda>f.
              let base = (case path_file_name (s3_name f) of Some b \<Rightarrow> b | None \<Rightarrow> '''') in
              contains base ''CHECKSUM'' \<and> nth_opt (split_on (CHR ''_'') base) 1 = Some version) files)))"

definition is_hex_digit :: "char \<Rightarrow> bool" where
  "is_hex_digit c \<longleftrightarrow> is_digit c \<or> 65 \<le> byte c \<and> byte c \<le> 70 \<or> 97 \<le> byte c \<and> byte c \<le> 102"

text \<open>One line: the digest, a white space, and the name, perhaps after an asterisk.\<close>

definition parse_checksum_line :: "string \<Rightarrow> (string \<times> string) option" where
  "parse_checksum_line line =
     (let cs = chars (trim line);
          hash = concat (takeWhile (\<lambda>c. \<not> is_ws c) cs);
          rest = trim (concat (drop 1 (dropWhile (\<lambda>c. \<not> is_ws c) cs)));
          name = (case strip_prefix ''*'' rest of Some n \<Rightarrow> n | None \<Rightarrow> rest)
      in if length hash = 64 \<and> list_all is_hex_digit hash \<and> name \<noteq> []
         then Some (case path_file_name name of Some b \<Rightarrow> b | None \<Rightarrow> name, ascii_lower hash)
         else None)"

definition fetch_checksums ::
  "'e dl_env_scheme \<Rightarrow> s3_file_info \<Rightarrow> downloader \<Rightarrow> downloader \<times> (source_error + (string, string) omap)" where
  "fetch_checksums env checksum_file d =
     (case fetch_text env (dl_base_url d @ ''?download='' @ de_encode env (s3_name checksum_file)) d of
        (d1, r) \<Rightarrow> (d1, and_then r (\<lambda>text.
          let checksums = ocollect (filter_map parse_checksum_line (split_on (char_of (10::nat)) text)) in
          if checksums = [] then Err NoChecksums else Ok checksums)))"

section \<open>The metadata file\<close>

definition metadata_name :: string where
  "metadata_name = ''.discogs_metadata.json''"

definition rename_file :: "'e source_env_scheme \<Rightarrow> string \<Rightarrow> string \<Rightarrow> 's source_state_scheme \<Rightarrow> 's source_state_scheme \<times> bool" where
  "rename_file env from to s =
     (case fs_op env s of (s1, ok) \<Rightarrow>
        (if ok then set_file to (so_files s from) (set_file from None s1) else s1, ok))"

text \<open>Created, written, synced, renamed.\<close>

definition save_metadata :: "'e dl_env_scheme \<Rightarrow> downloader \<Rightarrow> downloader \<times> (source_error + unit)" where
  "save_metadata env d =
     (let tmp = metadata_name @ ''.tmp'' in
      case fs_op env d of (d1, created) \<Rightarrow>
        if \<not> created then (d1, Err MetadataFailed)
        else (case write_contents env tmp (de_show_metadata env (dl_metadata d)) d1 of (d2, written) \<Rightarrow>
          if \<not> written then (d2, Err MetadataFailed)
          else (case fs_op env d2 of (d3, synced) \<Rightarrow>
            if \<not> synced then (d3, Err MetadataFailed)
            else (case rename_file env tmp metadata_name d3 of (d4, renamed) \<Rightarrow>
              (d4, if renamed then Ok () else Err MetadataFailed)))))"

text \<open>
  Missing metadata is empty, and so is metadata that does not parse, which is set aside.  A file that
  cannot be read as a string, because of the disk or because it is not UTF-8, is an error.
\<close>

definition load_metadata :: "'e dl_env_scheme \<Rightarrow> 's source_state_scheme \<Rightarrow> 's source_state_scheme \<times> (source_error + metadata)" where
  "load_metadata env s =
     (case so_files s metadata_name of
        None \<Rightarrow> (s, Ok [])
      | Some json \<Rightarrow>
          (case fs_op env s of (s1, read) \<Rightarrow>
             if \<not> read \<or> \<not> de_utf8 env json then (s1, Err ReadFailed)
             else (case de_read_metadata env json of
                 Some m \<Rightarrow> (s1, Ok m)
               | None \<Rightarrow> (fst (rename_file env metadata_name (metadata_name @ ''.corrupt'') s1), Ok []))))"

section \<open>A new downloader\<close>

text \<open>A client that has sent nothing yet.\<close>

definition new_client :: "time \<Rightarrow> polite_state" where
  "new_client now = \<lparr>po_last = None, po_clock = now, po_requests = [], po_sleeps = []\<rparr>"

text \<open>The metadata on the disk, a new client, and nothing listed yet.\<close>

definition new_with_base_url ::
  "'e dl_env_scheme \<Rightarrow> string \<Rightarrow> string \<Rightarrow> source_state \<Rightarrow> source_state \<times> (source_error + downloader)" where
  "new_with_base_url env output_directory base_url s =
     (case load_metadata env s of
        (s1, Inl e) \<Rightarrow> (s1, Err e)
      | (s1, Inr m) \<Rightarrow>
          (s1, if \<not> de_client env then Err ClientFailed
               else Ok \<lparr>so_files = so_files s1, so_ops = so_ops s1, so_marker = None, so_marker_path = None, so_saved = [],
                 dl_output_directory = output_directory, dl_base_url = base_url, dl_config = polite_discogs, dl_metadata = m,
                 dl_cached = None, dl_client = new_client (se_now env), dl_sleeps = []\<rparr>))"

definition discogs_data_url :: string where
  "discogs_data_url = ''https://data.discogs.com/''"

definition downloader_new :: "'e dl_env_scheme \<Rightarrow> string \<Rightarrow> source_state \<Rightarrow> source_state \<times> (source_error + downloader)" where
  "downloader_new env output_directory = new_with_base_url env output_directory discogs_data_url"

section \<open>Downloading one file\<close>

definition should_download :: "'e dl_env_scheme \<Rightarrow> s3_file_info \<Rightarrow> downloader \<Rightarrow> downloader \<times> (source_error + bool)" where
  "should_download env f d =
     (let name = base_name (s3_name f) in
      if so_files d name = None then (d, Ok True)
      else (case map_of (dl_metadata d) name of
          Some i \<Rightarrow> (case file_digest env name d of (d1, r) \<Rightarrow> (d1, and_then r (\<lambda>c. Ok (c \<noteq> lf_checksum i))))
        | None \<Rightarrow> (d, Ok True)))"

text \<open>What an attempt ends with: the bytes received and their digest, an error to retry on, a fatal one.\<close>

datatype attempt = Fetched string | TryAgain source_error | Fatal source_error

text \<open>The body, chunk by chunk, behind what is already written.\<close>

fun stream_body :: "'e dl_env_scheme \<Rightarrow> string \<Rightarrow> chunk list \<Rightarrow> string \<Rightarrow> downloader \<Rightarrow> downloader \<times> (source_error + string)" where
  "stream_body env name [] written d = (d, Ok written)"
| "stream_body env name (Broken # cs) written d = (d, Err BodyFailed)"
| "stream_body env name (Chunk b # cs) written d =
     (case write_contents env name (written @ b) d of
        (d1, True) \<Rightarrow> stream_body env name cs (written @ b) d1
      | (d1, False) \<Rightarrow> (d1, Err WriteFailed))"

text \<open>Flush or sync: a failure leaves some contents behind.\<close>

definition settle_file :: "'e dl_env_scheme \<Rightarrow> string \<Rightarrow> string \<Rightarrow> downloader \<Rightarrow> downloader \<times> bool" where
  "settle_file env name b d = write_contents env name b d"

definition download_attempt :: "'e dl_env_scheme \<Rightarrow> string \<Rightarrow> string \<Rightarrow> downloader \<Rightarrow> downloader \<times> attempt" where
  "download_attempt env name url d =
     (case fetch env url d of
        (d1, Inl e) \<Rightarrow> (d1, TryAgain e)
      | (d1, Inr (status, body)) \<Rightarrow>
          if \<not> is_success status then (d1, TryAgain (BadStatus status))
          else (case fs_op env d1 of
              (d2, False) \<Rightarrow> (d2, Fatal CreateFailed)
            | (d2, True) \<Rightarrow>
                (case stream_body env name body [] (set_file name (Some []) d2) of
                   (d3, Inl e) \<Rightarrow> (d3, TryAgain e)
                 | (d3, Inr bytes) \<Rightarrow>
                     (case settle_file env name bytes d3 of
                        (d4, False) \<Rightarrow> (d4, TryAgain WriteFailed)
                      | (d4, True) \<Rightarrow>
                          (case settle_file env name bytes d4 of
                             (d5, False) \<Rightarrow> (d5, TryAgain WriteFailed)
                           | (d5, True) \<Rightarrow> (d5, Fetched bytes))))))"

text \<open>Before a retry the partial file is removed, and the delay doubles.\<close>

definition prepare_attempt :: "'e dl_env_scheme \<Rightarrow> string \<Rightarrow> nat \<Rightarrow> downloader \<Rightarrow> downloader" where
  "prepare_attempt env name attempt d =
     (if attempt > 1
      then (let d1 = remove_existing env name d in d1\<lparr>dl_sleeps := dl_sleeps d1 @ [retry_base_delay_ms * 2 ^ (attempt - 2)]\<rparr>)
      else d)"

definition record_download :: "'e dl_env_scheme \<Rightarrow> string \<Rightarrow> string \<Rightarrow> downloader \<Rightarrow> downloader \<times> (source_error + nat)" where
  "record_download env name bytes d =
     (case extract_month env name of
        Inl e \<Rightarrow> (d, Err e)
      | Inr month \<Rightarrow>
          (d\<lparr>dl_metadata := oinsert name
             \<lparr>lf_path = join_path (dl_output_directory d) name, lf_checksum = se_sha256 env bytes, lf_version = month,
              lf_size = length bytes\<rparr> (dl_metadata d)\<rparr>, Ok (length bytes)))"

fun download_attempts ::
  "'e dl_env_scheme \<Rightarrow> string \<Rightarrow> string \<Rightarrow> nat list \<Rightarrow> source_error \<Rightarrow> downloader \<Rightarrow> downloader \<times> (source_error + nat)" where
  "download_attempts env name url [] last_error d = (remove_existing env name d, Err last_error)"
| "download_attempts env name url (n # ns) last_error d =
     (case download_attempt env name url (prepare_attempt env name n d) of
        (d1, Fetched bytes) \<Rightarrow> record_download env name bytes d1
      | (d1, TryAgain e) \<Rightarrow> download_attempts env name url ns e d1
      | (d1, Fatal e) \<Rightarrow> (d1, Err e))"

definition download_file :: "'e dl_env_scheme \<Rightarrow> s3_file_info \<Rightarrow> downloader \<Rightarrow> downloader \<times> (source_error + nat)" where
  "download_file env f d =
     download_attempts env (base_name (s3_name f)) (dl_base_url d @ ''?download='' @ de_encode env (s3_name f))
       [1..<Suc max_download_retries] BodyFailed d"

section \<open>Downloading a dump\<close>

text \<open>The marker is saved when there is one; a failure is only logged.\<close>

definition save_state_marker :: "'e dl_env_scheme \<Rightarrow> downloader \<Rightarrow> downloader" where
  "save_state_marker env d =
     (case (so_marker d, so_marker_path d) of
        (Some m, Some p) \<Rightarrow> fst (write_source_marker env m d)
      | _ \<Rightarrow> d)"

definition track :: "'e dl_env_scheme \<Rightarrow> (state_marker \<Rightarrow> state_marker) \<Rightarrow> downloader \<Rightarrow> downloader" where
  "track env f d = save_state_marker env (on_source_marker f d)"

text \<open>The bytes now on disk, for the marker.\<close>

definition note_fetched :: "'e dl_env_scheme \<Rightarrow> string \<Rightarrow> nat \<Rightarrow> downloader \<Rightarrow> downloader" where
  "note_fetched env name n d =
     track env (\<lambda>m. let m1 = file_downloaded (se_now env) name n m in
         (case map_of (dl_metadata d) name of
            Some i \<Rightarrow> fst (file_bytes_verified name (lf_checksum i) m1)
          | None \<Rightarrow> m1)) d"

text \<open>A file whose published digest is not that of the metadata cannot be trusted.\<close>

definition mismatch :: "(string, string) omap option \<Rightarrow> string \<Rightarrow> downloader \<Rightarrow> bool" where
  "mismatch published name d =
     (case published of
        None \<Rightarrow> False
      | Some ps \<Rightarrow> (case map_of ps name of
            None \<Rightarrow> False
          | Some expected \<Rightarrow> map_option lf_checksum (map_of (dl_metadata d) name) \<noteq> Some expected))"

definition fetch_file ::
  "'e dl_env_scheme \<Rightarrow> (string, string) omap option \<Rightarrow> s3_file_info \<Rightarrow> downloader \<Rightarrow> downloader \<times> (source_error + string)" where
  "fetch_file env published f d =
     (let name = base_name (s3_name f) in
      case download_file env f (track env (start_file_download (se_now env) name) d) of
        (d1, Inl e) \<Rightarrow> (d1, Err e)
      | (d1, Inr n) \<Rightarrow>
          if mismatch published name d1
          then (remove_existing env name (d1\<lparr>dl_metadata := oremove name (dl_metadata d1)\<rparr>), Err (BadChecksum name))
          else (note_fetched env name n (fst (save_metadata env d1)), Ok name))"

text \<open>The size on disk, 0 when it cannot be read.\<close>

definition keep_file :: "'e dl_env_scheme \<Rightarrow> s3_file_info \<Rightarrow> downloader \<Rightarrow> downloader \<times> (source_error + string)" where
  "keep_file env f d =
     (let name = base_name (s3_name f) in
      case fs_op env d of
        (d1, ok) \<Rightarrow>
          (note_fetched env name (case so_files d1 name of Some b \<Rightarrow> if ok then length b else 0 | None \<Rightarrow> 0) d1, Ok name))"

definition acquire_file ::
  "'e dl_env_scheme \<Rightarrow> (string, string) omap option \<Rightarrow> s3_file_info \<Rightarrow> downloader \<Rightarrow> downloader \<times> (source_error + string)" where
  "acquire_file env published f d =
     (case should_download env f d of
        (d1, Inl e) \<Rightarrow> (d1, Err e)
      | (d1, Inr needed) \<Rightarrow>
          if needed \<or> mismatch published (base_name (s3_name f)) d1
          then fetch_file env published f d1
          else keep_file env f d1)"

text \<open>One file after the other, up to the first error.\<close>

fun acquire_files ::
  "'e dl_env_scheme \<Rightarrow> (string, string) omap option \<Rightarrow> s3_file_info list \<Rightarrow> downloader \<Rightarrow> downloader \<times> (source_error + string list)" where
  "acquire_files env published [] d = (d, Ok [])"
| "acquire_files env published (f # fs) d =
     (case acquire_file env published f d of
        (d1, Inl e) \<Rightarrow> (d1, Err e)
      | (d1, Inr name) \<Rightarrow>
          (case acquire_files env published fs d1 of (d2, r) \<Rightarrow> (d2, and_then r (\<lambda>names. Ok (name # names)))))"

text \<open>The published digests, when there are any to be had.\<close>

definition published_checksums ::
  "'e dl_env_scheme \<Rightarrow> s3_file_info list \<Rightarrow> s3_file_info list \<Rightarrow> downloader \<Rightarrow> downloader \<times> (string, string) omap option" where
  "published_checksums env available latest d =
     (case find_checksum_entry available latest of
        None \<Rightarrow> (d, None)
      | Some f \<Rightarrow> (case fetch_checksums env f d of (d1, r) \<Rightarrow> (d1, case r of Inr m \<Rightarrow> Some m | Inl e \<Rightarrow> None)))"

definition download_latest ::
  "'e dl_env_scheme \<Rightarrow> s3_file_info list \<Rightarrow> s3_file_info list \<Rightarrow> downloader \<Rightarrow> downloader \<times> (source_error + string list)" where
  "download_latest env available latest d =
     (case published_checksums env available latest d of
        (d1, published) \<Rightarrow>
          (case acquire_files env published latest (track env (start_download (se_now env) (length latest)) d1) of
             (d2, Inl e) \<Rightarrow> (d2, Err e)
           | (d2, Inr names) \<Rightarrow>
               (case save_metadata env (track env (complete_download (se_now env)) d2) of
                  (d3, r) \<Rightarrow> (d3, and_then r (\<lambda>_. Ok names)))))"

definition download_discogs_data :: "'e dl_env_scheme \<Rightarrow> downloader \<Rightarrow> downloader \<times> (source_error + string list)" where
  "download_discogs_data env d =
     (case fs_op env d of
        (d1, False) \<Rightarrow> (d1, Err DirFailed)
      | (d1, True) \<Rightarrow>
          (case list_s3_files env d1 of
             (d2, Inl e) \<Rightarrow> (d2, Err e)
           | (d2, Inr available) \<Rightarrow>
               (let latest = get_latest_monthly_files available in
                case latest of
                  [] \<Rightarrow> (d2, Ok [])
                | f # _ \<Rightarrow>
                    (case extract_month env (s3_name f) of
                       Inl e \<Rightarrow> (d2, Err e)
                     | Inr month \<Rightarrow> download_latest env available latest d2))))"

end
