(* ===== verification/Download_Guarantees.thy ===== *)
theory Download_Guarantees
  imports Downloader
begin

text \<open>
  What the downloader of \<open>src/discogs/downloader.rs\<close> guarantees: it is a source of dumps, the version it
  takes is the newest complete one, what it reports as downloaded is on the disk with the published
  digest, and its retries are bounded.
\<close>

section \<open>A source of dumps\<close>

text \<open>An operation that leaves the marker alone.\<close>

definition marker_kept :: "downloader \<Rightarrow> downloader \<Rightarrow> bool" where
  "marker_kept d d' \<longleftrightarrow> so_marker d' = so_marker d \<and> so_marker_path d' = so_marker_path d \<and> so_saved d' = so_saved d"

text \<open>What is on the disk and in the metadata under a name.\<close>

definition file_at :: "downloader \<Rightarrow> string \<Rightarrow> string option \<times> local_file_info option" where
  "file_at d g = (so_files d g, map_of (dl_metadata d) g)"

definition leaves :: "string set \<Rightarrow> downloader \<Rightarrow> downloader \<Rightarrow> bool" where
  "leaves X d d' \<longleftrightarrow> dl_base_url d' = dl_base_url d \<and> (\<forall>g. g \<notin> X \<longrightarrow> file_at d' g = file_at d g)"

lemma marker_kept_refl [simp]: "marker_kept d d"
  by (simp add: marker_kept_def)

lemma marker_kept_trans: "marker_kept d d' \<Longrightarrow> marker_kept d' d'' \<Longrightarrow> marker_kept d d''"
  by (simp add: marker_kept_def)

lemma leaves_refl [simp]: "leaves X d d"
  by (simp add: leaves_def)

lemma leaves_trans: "leaves X d d' \<Longrightarrow> leaves Y d' d'' \<Longrightarrow> X \<union> Y \<subseteq> Z \<Longrightarrow> leaves Z d d''"
  unfolding leaves_def by (metis UnI1 UnI2 subsetD)

lemma kept_drives: "marker_kept d d' \<Longrightarrow> drives m d' = drives m d"
  by (simp add: marker_kept_def drives_def)

text \<open>The primitive operations.\<close>

lemma op_frame:
  "fs_op env d = (d', ok) \<Longrightarrow> marker_kept d d' \<and> leaves {} d d' \<and> dl_metadata d' = dl_metadata d \<and> so_files d' = so_files d
    \<and> dl_sleeps d' = dl_sleeps d \<and> dl_client d' = dl_client d"
  by (auto simp: fs_op_def marker_kept_def leaves_def file_at_def)

lemma set_file_frame:
  "marker_kept d (set_file f b d)" "leaves {f} d (set_file f b d)" "dl_metadata (set_file f b d) = dl_metadata d"
  "so_files (set_file f b d) = (so_files d)(f := b)" "dl_sleeps (set_file f b d) = dl_sleeps d" "dl_client (set_file f b d) = dl_client d"
  by (auto simp: set_file_def marker_kept_def leaves_def file_at_def)

lemma write_frame:
  "write_contents env f b d = (d', ok) \<Longrightarrow> marker_kept d d' \<and> leaves {f} d d' \<and> dl_metadata d' = dl_metadata d
    \<and> (ok \<longrightarrow> so_files d' f = Some b) \<and> dl_sleeps d' = dl_sleeps d \<and> dl_client d' = dl_client d"
  by (auto simp: write_contents_def set_file_def fs_op_def marker_kept_def leaves_def file_at_def)

lemma remove_frame:
  "marker_kept d (remove_existing env f d) \<and> leaves {f} d (remove_existing env f d)
    \<and> dl_metadata (remove_existing env f d) = dl_metadata d \<and> dl_sleeps (remove_existing env f d) = dl_sleeps d
    \<and> dl_client (remove_existing env f d) = dl_client d"
  by (auto simp: remove_existing_def set_file_def fs_op_def marker_kept_def leaves_def file_at_def)

lemma rename_frame:
  "rename_file env f g d = (d', ok) \<Longrightarrow> marker_kept d d' \<and> leaves {f, g} d d' \<and> dl_metadata d' = dl_metadata d
    \<and> (\<not> ok \<longrightarrow> so_files d' = so_files d) \<and> (ok \<longrightarrow> so_files d' g = so_files d f)"
  by (auto simp: rename_file_def set_file_def fs_op_def marker_kept_def leaves_def file_at_def)

lemma digest_frame:
  "file_digest env f d = (d', r) \<Longrightarrow> marker_kept d d' \<and> leaves {} d d' \<and> dl_metadata d' = dl_metadata d
    \<and> so_files d' = so_files d \<and> (\<forall>c. r = Inr c \<longrightarrow> (\<exists>b. so_files d f = Some b \<and> c = se_sha256 env b))"
  by (auto simp: file_digest_def fs_op_def marker_kept_def leaves_def file_at_def split: if_splits option.splits)

lemma fetch_frame:
  "fetch env url d = (d', r) \<Longrightarrow> marker_kept d d' \<and> leaves {} d d' \<and> dl_metadata d' = dl_metadata d \<and> so_files d' = so_files d
    \<and> dl_sleeps d' = dl_sleeps d"
  by (auto simp: fetch_def marker_kept_def leaves_def file_at_def split: prod.splits sum.splits http_answer.splits)

lemma text_frame:
  "fetch_text env url d = (d', r) \<Longrightarrow> marker_kept d d' \<and> leaves {} d d' \<and> dl_metadata d' = dl_metadata d \<and> so_files d' = so_files d"
  using fetch_frame [of env url d] by (auto simp: fetch_text_def split: prod.splits)

section \<open>Listing\<close>

lemma scan_frame:
  "scan_years env years ids d = (d', r) \<Longrightarrow> marker_kept d d' \<and> leaves {} d d' \<and> dl_metadata d' = dl_metadata d"
proof (induction years arbitrary: ids d)
  case (Cons y ys)
  obtain d1 a where t: "fetch_text env (dl_base_url d @ ''?prefix=data%2F'' @ y @ ''%2F'') d = (d1, a)" by force
  note f = text_frame [OF t]
  show ?case
  proof (cases a)
    case (Inl e)
    with Cons t f show ?thesis by (auto intro: marker_kept_trans leaves_trans)
  next
    case (Inr html)
    show ?thesis
    proof (cases "scan_links env y (de_links env html) ids")
      case (Inl e)
      with Cons.prems t f Inr show ?thesis by auto
    next
      case ids1: (Inr ids1)
      with Cons.prems t Inr have "scan_years env ys ids1 d1 = (d', r)" by simp
      from Cons.IH [OF this] f show ?thesis by (auto intro: marker_kept_trans leaves_trans)
    qed
  qed
qed simp

lemma scrape_frame:
  "scrape_file_list env d = (d', r) \<Longrightarrow> marker_kept d d' \<and> leaves {} d d' \<and> dl_metadata d' = dl_metadata d"
  by (auto simp: scrape_file_list_def Let_def split: prod.splits sum.splits if_splits
      dest!: text_frame scan_frame intro: marker_kept_trans leaves_trans)

lemma list_frame:
  "list_s3_files env d = (d', r) \<Longrightarrow> marker_kept d d' \<and> leaves {} d d' \<and> dl_metadata d' = dl_metadata d"
  by (auto simp: list_s3_files_def Let_def marker_kept_def leaves_def file_at_def split: option.splits prod.splits sum.splits
      dest!: scrape_frame)

lemma published_frame:
  "published_checksums env av latest d = (d', r) \<Longrightarrow> marker_kept d d' \<and> leaves {} d d' \<and> dl_metadata d' = dl_metadata d"
  by (auto simp: published_checksums_def fetch_checksums_def split: option.splits prod.splits dest!: text_frame)

section \<open>One file\<close>

lemma stream_frame:
  assumes "stream_body env name body written d = (d', r)"
  shows "marker_kept d d' \<and> leaves {name} d d' \<and> dl_metadata d' = dl_metadata d \<and> dl_sleeps d' = dl_sleeps d
    \<and> (\<forall>b. r = Inr b \<longrightarrow> (\<exists>bs. body_bytes body = Inr bs \<and> b = written @ bs))"
  using assms
proof (induction env name body written d rule: stream_body.induct)
  case (3 env name b cs written d)
  obtain d1 ok where w: "write_contents env name (written @ b) d = (d1, ok)" by force
  show ?case
  proof (cases ok)
    case True
    with "3.prems" w have run: "stream_body env name cs (written @ b) d1 = (d', r)" by simp
    have "\<exists>bs'. body_bytes (Chunk b # cs) = Inr bs' \<and> x = written @ bs'" if "body_bytes cs = Inr bs" "x = (written @ b) @ bs" for x bs
      using that by simp
    have ok: "ok = True" using True by simp
    from this "3.IH" [OF w [symmetric] ok run] write_frame [OF w] show ?thesis
      by (auto intro: marker_kept_trans leaves_trans)
  next
    case False
    with "3.prems" w write_frame [OF w] show ?thesis by auto
  qed
qed auto

lemma attempt_frame:
  assumes "download_attempt env name url d = (d', r)"
  shows "marker_kept d d' \<and> leaves {name} d d' \<and> dl_metadata d' = dl_metadata d \<and> dl_sleeps d' = dl_sleeps d
    \<and> (\<forall>b. r = Fetched b \<longrightarrow> so_files d' name = Some b)"
proof -
  obtain d1 a where f: "fetch env url d = (d1, a)" by force
  note ff = fetch_frame [OF f]
  show ?thesis
  proof (cases "\<exists>status body. a = Inr (status, body) \<and> is_success status")
    case False
    with assms f ff show ?thesis
      by (auto simp: download_attempt_def intro: leaves_trans split: sum.splits)
  next
    case True
    then obtain status body where a: "a = Inr (status, body)" "is_success status" by blast
    obtain d2 created where c: "fs_op env d1 = (d2, created)" by force
    note cf = op_frame [OF c]
    obtain d3 s where s: "stream_body env name body [] (set_file name (Some []) d2) = (d3, s)" by force
    note sf = stream_frame [OF s]
    have d3: "marker_kept d d3 \<and> leaves {name} d d3 \<and> dl_metadata d3 = dl_metadata d \<and> dl_sleeps d3 = dl_sleeps d"
      using ff cf sf set_file_frame [where d = d2 and f = name and b = "Some []"]
      by (auto intro: marker_kept_trans leaves_trans)
    have d2: "marker_kept d d2 \<and> leaves {name} d d2" using ff cf by (auto intro: marker_kept_trans leaves_trans)
    show ?thesis
    proof (cases "created \<and> is_ok s")
      case False
      with assms f a c s d2 d3 ff cf show ?thesis
        by (auto simp: download_attempt_def split: bool.splits sum.splits)
    next
      case True
      then obtain bytes where b: "created" "s = Inr bytes" by (auto simp: is_ok_iff)
      obtain d4 o4 where w4: "write_contents env name bytes d3 = (d4, o4)" by force
      obtain d5 o5 where w5: "write_contents env name bytes d4 = (d5, o5)" by force
      from assms f a c s b w4 w5 d3 write_frame [OF w4] write_frame [OF w5] show ?thesis
        by (cases o4; cases o5) (auto simp: download_attempt_def settle_file_def intro: marker_kept_trans leaves_trans)
    qed
  qed
qed

lemma prepare_frame:
  "marker_kept d (prepare_attempt env name n d) \<and> leaves {name} d (prepare_attempt env name n d)
    \<and> dl_metadata (prepare_attempt env name n d) = dl_metadata d
    \<and> dl_sleeps (prepare_attempt env name n d) = dl_sleeps d @ (if n > 1 then [retry_base_delay_ms * 2 ^ (n - 2)] else [])"
  using remove_frame [of d env name]
  by (auto simp: prepare_attempt_def Let_def marker_kept_def leaves_def file_at_def)

text \<open>The file under a name is the one the metadata describes.\<close>

definition described :: "'e dl_env_scheme \<Rightarrow> downloader \<Rightarrow> string \<Rightarrow> bool" where
  "described env d g \<longleftrightarrow>
     (case file_at d g of
        (Some b, Some i) \<Rightarrow> lf_checksum i = se_sha256 env b
      | _ \<Rightarrow> False)"

definition backoff :: "nat list \<Rightarrow> nat list" where
  "backoff ns = map (\<lambda>n. retry_base_delay_ms * 2 ^ (n - 2)) (filter (\<lambda>n. n > 1) ns)"

lemma attempts_frame:
  assumes "download_attempts env name url ns e d = (d', r)"
  shows "marker_kept d d' \<and> leaves {name} d d' \<and> (\<exists>ss. dl_sleeps d' = dl_sleeps d @ ss \<and> prefix ss (backoff ns))
    \<and> (case r of
         Inr n \<Rightarrow> described env d' name \<and> (\<exists>b. so_files d' name = Some b \<and> n = length b)
       | Inl x \<Rightarrow> dl_metadata d' = dl_metadata d)"
  using assms
proof (induction ns arbitrary: e d)
  case Nil
  then show ?case using remove_frame [of d env name] by (auto simp: backoff_def)
next
  case (Cons n ns)
  define d0 where "d0 = prepare_attempt env name n d"
  obtain d1 a where a: "download_attempt env name url d0 = (d1, a)" by force
  define s where "s = (if n > 1 then [retry_base_delay_ms * 2 ^ (n - 2)] else [])"
  have s: "backoff (n # ns) = s @ backoff ns" by (simp add: backoff_def s_def)
  have f: "marker_kept d d1" "leaves {name} d d1" "dl_metadata d1 = dl_metadata d" "dl_sleeps d1 = dl_sleeps d @ s"
    and b: "\<And>b. a = Fetched b \<Longrightarrow> so_files d1 name = Some b"
    using attempt_frame [OF a] prepare_frame [of d env name n]
    by (auto simp: d0_def s_def intro: marker_kept_trans leaves_trans)
  show ?case
  proof (cases a)
    case (Fetched bytes)
    with Cons.prems a have r: "record_download env name bytes d1 = (d', r)" by (simp add: d0_def)
    then have "marker_kept d1 d'" "leaves {name} d1 d'" "dl_sleeps d' = dl_sleeps d1" "so_files d' = so_files d1"
      by (auto simp: record_download_def marker_kept_def leaves_def file_at_def split: sum.splits)
    with f b [OF Fetched] r show ?thesis
      by (auto simp: record_download_def described_def file_at_def s split: sum.splits intro: marker_kept_trans leaves_trans)
  next
    case (TryAgain x)
    with Cons.prems a have "download_attempts env name url ns x d1 = (d', r)" by (simp add: d0_def)
    from Cons.IH [OF this] f show ?thesis
      by (auto simp: s intro: marker_kept_trans leaves_trans split: sum.splits)
  next
    case (Fatal x)
    with Cons.prems a f show ?thesis by (auto simp: d0_def s)
  qed
qed

lemma should_download_frame:
  assumes "should_download env f d = (d', r)"
  shows "marker_kept d d' \<and> leaves {} d d' \<and> dl_metadata d' = dl_metadata d
    \<and> (r = Inr False \<longrightarrow> described env d' (base_name (s3_name f)))"
proof (cases "so_files d (base_name (s3_name f))")
  case None
  with assms show ?thesis by (auto simp: should_download_def)
next
  case (Some b)
  show ?thesis
  proof (cases "map_of (dl_metadata d) (base_name (s3_name f))")
    case None
    with assms Some show ?thesis by (auto simp: should_download_def)
  next
    case i: (Some i)
    obtain d1 c where c: "file_digest env (base_name (s3_name f)) d = (d1, c)" by force
    from assms Some i c digest_frame [OF c] show ?thesis
      by (cases c) (auto simp: should_download_def described_def file_at_def)
  qed
qed

section \<open>Markers and metadata\<close>

lemma track_frame: "leaves {} d (track env f d) \<and> dl_metadata (track env f d) = dl_metadata d"
  by (auto simp: track_def save_state_marker_def on_source_marker_def write_source_marker_def fs_op_def leaves_def file_at_def Let_def
      split: option.split prod.split)

lemma track_leaves: "leaves {} d (track env f d)"
  using track_frame by (rule conjunct1)

lemma track_drives:
  assumes "drives m d" "\<And>m'. fetch_steps m m' \<Longrightarrow> fetch_steps m (f m')"
  shows "drives m (track env f d)"
proof -
  have d: "drives m (on_source_marker f d)" by (rule drives_on_marker [OF assms])
  then obtain m' where m': "so_marker (on_source_marker f d) = Some m'" "fetch_steps m m'"
    by (auto simp: drives_def split: option.splits)
  show ?thesis
    using d drives_write_marker [OF d m'(2), of env] m'(1)
    by (simp add: track_def save_state_marker_def split: option.split)
qed

lemma track_start: "drives m d \<Longrightarrow> drives m (track env (start_download t n) d)"
  and track_file: "drives m d \<Longrightarrow> drives m (track env (start_file_download t g) d)"
  and track_complete: "drives m d \<Longrightarrow> drives m (track env (complete_download t) d)"
  by (rule track_drives; auto)+

definition metadata_files :: "string set" where
  "metadata_files = {metadata_name, metadata_name @ ''.tmp''}"

lemma save_metadata_frame:
  assumes "save_metadata env d = (d', r)"
  shows "marker_kept d d' \<and> leaves metadata_files d d' \<and> dl_metadata d' = dl_metadata d"
proof -
  let ?tmp = "metadata_name @ ''.tmp''"
  obtain d1 o1 where 1: "fs_op env d = (d1, o1)" by force
  obtain d2 o2 where 2: "write_contents env ?tmp (de_show_metadata env (dl_metadata d)) d1 = (d2, o2)" by force
  obtain d3 o3 where 3: "fs_op env d2 = (d3, o3)" by force
  obtain d4 o4 where 4: "rename_file env ?tmp metadata_name d3 = (d4, o4)" by force
  have "d' \<in> {d1, d2, d3, d4}"
    using assms 1 2 3 4 by (auto simp: save_metadata_def Let_def split: if_splits)
  moreover have "marker_kept d d1" "leaves metadata_files d d1" "dl_metadata d1 = dl_metadata d"
    using op_frame [OF 1] by (auto intro: leaves_trans)
  moreover have "marker_kept d1 d2" "leaves metadata_files d1 d2" "dl_metadata d2 = dl_metadata d1"
    using write_frame [OF 2] by (auto simp: metadata_files_def leaves_def)
  moreover have "marker_kept d2 d3" "leaves metadata_files d2 d3" "dl_metadata d3 = dl_metadata d2"
    using op_frame [OF 3] by (auto simp: leaves_def)
  moreover have "marker_kept d3 d4" "leaves metadata_files d3 d4" "dl_metadata d4 = dl_metadata d3"
    using rename_frame [OF 4] by (auto simp: metadata_files_def leaves_def)
  ultimately show ?thesis by (auto intro: marker_kept_trans leaves_trans)
qed

section \<open>The loop over the files\<close>

text \<open>Described, and with the published digest where there is one.\<close>

definition trusted :: "'e dl_env_scheme \<Rightarrow> (string, string) omap option \<Rightarrow> downloader \<Rightarrow> string \<Rightarrow> bool" where
  "trusted env published d g \<longleftrightarrow>
     (case file_at d g of
        (Some b, Some i) \<Rightarrow> lf_checksum i = se_sha256 env b
          \<and> (case Option.bind published (\<lambda>ps. map_of ps g) of Some e \<Rightarrow> e = se_sha256 env b | None \<Rightarrow> True)
      | _ \<Rightarrow> False)"

lemma trusted_described: "described env d g \<Longrightarrow> \<not> mismatch published g d \<Longrightarrow> trusted env published d g"
  by (auto simp: described_def trusted_def mismatch_def file_at_def split: option.splits)

lemma trusted_leaves: "leaves X d d' \<Longrightarrow> g \<notin> X \<Longrightarrow> trusted env published d' g = trusted env published d g"
  by (simp add: leaves_def trusted_def)

lemma note_fetched_leaves: "leaves {} d (note_fetched env name n d)"
  using track_frame unfolding note_fetched_def by blast

lemma note_fetched_drives: "drives m d \<Longrightarrow> drives m (note_fetched env name n d)"
  unfolding note_fetched_def by (rule track_drives) (auto simp: Let_def split: option.split)

definition touched :: "string \<Rightarrow> string set" where
  "touched name = insert name metadata_files"

lemma fetch_file_frame:
  assumes "fetch_file env published f d = (d', r)" and name: "name = base_name (s3_name f)"
  shows "(drives m d \<longrightarrow> drives m d') \<and> leaves (touched name) d d'
    \<and> (\<forall>n. r = Inr n \<longrightarrow> n = name \<and> (name \<notin> metadata_files \<longrightarrow> trusted env published d' name))"
proof -
  define d0 where "d0 = track env (start_file_download (se_now env) name) d"
  obtain d1 a where a: "download_file env f d0 = (d1, a)" by force
  have d0: "drives m d \<Longrightarrow> drives m d0" "leaves {} d d0"
    by (simp_all add: d0_def track_file track_leaves)
  note af = attempts_frame [OF a [unfolded download_file_def], folded name]
  have d1: "drives m d \<Longrightarrow> drives m d1" "leaves {name} d d1"
    using af d0 kept_drives by (auto intro: leaves_trans)
  show ?thesis
  proof (cases a)
    case (Inl e)
    with assms(1) a d1 show ?thesis
      by (auto simp: fetch_file_def name [symmetric] d0_def [symmetric] Let_def touched_def intro: leaves_trans)
  next
    case (Inr n)
    obtain d2 x where s: "save_metadata env d1 = (d2, x)" by force
    note sf = save_metadata_frame [OF s]
    show ?thesis
    proof (cases "mismatch published name d1")
      case True
      let ?d = "d1\<lparr>dl_metadata := oremove name (dl_metadata d1)\<rparr>"
      have "d' = remove_existing env name ?d" "r = Err (BadChecksum name)"
        using assms(1) a Inr True by (auto simp: fetch_file_def name [symmetric] d0_def [symmetric] Let_def)
      moreover have "leaves {name} d1 ?d" "marker_kept d1 ?d" by (auto simp: leaves_def file_at_def marker_kept_def)
      ultimately show ?thesis
        using remove_frame [of ?d env name] d1 kept_drives
        by (auto simp: touched_def intro: leaves_trans)
    next
      case False
      have d': "d' = note_fetched env name n d2" "r = Ok name"
        using assms(1) a Inr False s by (auto simp: fetch_file_def name [symmetric] d0_def [symmetric] Let_def)
      have l: "leaves metadata_files d1 d'" by (simp add: d' leaves_trans [OF conjunct1 [OF conjunct2 [OF sf]] note_fetched_leaves])
      have "described env d1 name" using af Inr by simp
      with False have "name \<notin> metadata_files \<longrightarrow> trusted env published d' name"
        using trusted_described trusted_leaves [OF l] by blast
      moreover have "drives m d \<Longrightarrow> drives m d'"
        using d1(1) sf kept_drives note_fetched_drives [of m d2] by (auto simp: d')
      moreover have "leaves (touched name) d d'" by (rule leaves_trans [OF d1(2) l]) (auto simp: touched_def)
      ultimately show ?thesis by (simp add: d')
    qed
  qed
qed

lemma acquire_file_frame:
  assumes "acquire_file env published f d = (d', r)" and name: "name = base_name (s3_name f)"
  shows "(drives m d \<longrightarrow> drives m d') \<and> leaves (touched name) d d'
    \<and> (\<forall>n. r = Inr n \<longrightarrow> n = name \<and> (name \<notin> metadata_files \<longrightarrow> trusted env published d' name))"
proof -
  obtain d1 a where a: "should_download env f d = (d1, a)" by force
  note sf = should_download_frame [OF a, folded name]
  have d1: "drives m d \<Longrightarrow> drives m d1" "leaves {} d d1" using sf kept_drives by auto
  consider (stop) e where "a = Inl e" | (load) needed where "a = Inr needed" "needed \<or> mismatch published name d1"
    | (keep) "a = Inr False" "\<not> mismatch published name d1"
    by (cases a) auto
  then show ?thesis
  proof cases
    case stop
    with assms(1) a d1 show ?thesis by (auto simp: acquire_file_def intro: leaves_trans)
  next
    case load
    with assms(1) a have "fetch_file env published f d1 = (d', r)" by (auto simp: acquire_file_def name [symmetric])
    from fetch_file_frame [OF this name, of m] d1 show ?thesis by (auto intro: leaves_trans)
  next
    case keep
    obtain d2 ok where o: "fs_op env d1 = (d2, ok)" by force
    have k: "keep_file env f d1 = (d', r)" using assms(1) a keep by (simp add: acquire_file_def name [symmetric])
    then obtain n where d': "d' = note_fetched env name n d2" "r = Ok name"
      using o by (auto simp: keep_file_def name [symmetric] Let_def)
    have "drives m d1 \<Longrightarrow> drives m d'" using op_frame [OF o] kept_drives note_fetched_drives [of m d2] by (auto simp: d')
    moreover have l: "leaves {} d1 d'" by (simp add: d' leaves_trans [OF conjunct1 [OF conjunct2 [OF op_frame [OF o]]] note_fetched_leaves])
    moreover have "trusted env published d1 name" using sf keep trusted_described by blast
    ultimately show ?thesis
      using d1 trusted_leaves [OF l, of name env published] by (auto simp: d' intro: leaves_trans)
  qed
qed

lemma acquire_files_frame:
  assumes "acquire_files env published fs d = (d', r)"
    and data: "list_all (\<lambda>f. base_name (s3_name f) \<notin> metadata_files) fs"
  shows "(drives m d \<longrightarrow> drives m d')
    \<and> (\<forall>g. g \<notin> metadata_files \<longrightarrow> trusted env published d g \<longrightarrow> is_ok r \<longrightarrow> trusted env published d' g)
    \<and> (\<forall>names. r = Inr names \<longrightarrow> names = map (\<lambda>f. base_name (s3_name f)) fs \<and> list_all (trusted env published d') names)"
  using assms
proof (induction fs arbitrary: d r)
  case (Cons f fs)
  define name where "name = base_name (s3_name f)"
  obtain d1 a where a: "acquire_file env published f d = (d1, a)" by force
  note af = acquire_file_frame [OF a name_def, of m]
  show ?case
  proof (cases a)
    case (Inl e)
    with Cons.prems a af show ?thesis by auto
  next
    case (Inr n)
    obtain r1 where rest: "acquire_files env published fs d1 = (d', r1)" "r = and_then r1 (\<lambda>names. Ok (n # names))"
      using Cons.prems(1) a Inr by (auto split: prod.splits)
    have data: "list_all (\<lambda>f. base_name (s3_name f) \<notin> metadata_files) fs" "name \<notin> metadata_files"
      using Cons.prems(2) by (auto simp: name_def)
    note ih = Cons.IH [OF rest(1) data(1)]
    have n: "n = name" "trusted env published d1 name" using af Inr data(2) by auto
    have keep: "trusted env published d1 g" if "g \<notin> metadata_files" "trusted env published d g" for g
      using that n(2) trusted_leaves [of "touched name" d d1 g env published] af by (cases "g = name") (auto simp: touched_def)
    have "is_ok r \<longleftrightarrow> is_ok r1" by (cases r1) (auto simp: rest(2))
    with af ih keep n data(2) rest(2) show ?thesis
      by (auto simp: and_then_Ok is_ok_iff name_def [symmetric])
  qed
qed auto

section \<open>The download of a dump\<close>

lemma download_latest_frame:
  assumes "download_latest env available latest d = (d', r)"
    and data: "list_all (\<lambda>f. base_name (s3_name f) \<notin> metadata_files) latest"
  shows "(drives m d \<longrightarrow> drives m d')
    \<and> (\<forall>names. r = Inr names \<longrightarrow> names = map (\<lambda>f. base_name (s3_name f)) latest
        \<and> list_all (trusted env (snd (published_checksums env available latest d)) d') names)"
proof -
  obtain d1 published where p: "published_checksums env available latest d = (d1, published)" by force
  define d2 where "d2 = track env (start_download (se_now env) (length latest)) d1"
  obtain d3 a where a: "acquire_files env published latest d2 = (d3, a)" by force
  define d4 where "d4 = track env (complete_download (se_now env)) d3"
  obtain d5 x where s: "save_metadata env d4 = (d5, x)" by force
  have d2: "drives m d \<Longrightarrow> drives m d2"
    using published_frame [OF p] kept_drives [of d d1 m] track_start [of m d1] by (simp add: d2_def)
  note af = acquire_files_frame [OF a data, of m]
  have d4: "drives m d3 \<Longrightarrow> drives m d4"
    using track_complete [of m d3] by (simp add: d4_def)
  have l: "leaves metadata_files d3 d5"
    using leaves_trans [OF track_leaves [of d3 env "complete_download (se_now env)", folded d4_def]
      conjunct1 [OF conjunct2 [OF save_metadata_frame [OF s]]]] by simp
  have d5: "drives m d3 \<Longrightarrow> drives m d5" using d4 save_metadata_frame [OF s] kept_drives by auto
  show ?thesis
  proof (cases a)
    case (Inl e)
    with assms(1) p a af d2 show ?thesis by (auto simp: download_latest_def d2_def [symmetric])
  next
    case (Inr names)
    have run: "d' = d5" "r = and_then x (\<lambda>_. Ok names)"
      using assms(1) p a s Inr by (auto simp: download_latest_def d2_def [symmetric] d4_def [symmetric])
    have n: "names = map (\<lambda>f. base_name (s3_name f)) latest" "list_all (trusted env published d3) names" using af Inr by auto
    have "list_all (trusted env published d5) names"
      using n data trusted_leaves [OF l, of _ env published] by (auto simp: list_all_iff)
    with run n af d2 d5 p show ?thesis by (auto simp: and_then_Ok)
  qed
qed

subsection \<open>Names of data files\<close>

lemma split_by_append_plain:
  "list_all (\<lambda>c. \<not> p c) x \<Longrightarrow> \<exists>ws w. split_by p (a @ x) = ws @ [w @ x]"
proof (induction a)
  case Nil
  then show ?case using split_by_no_delim [of p x] by (intro exI [of _ "[]"]) simp
next
  case (Cons c a)
  then obtain ws w where ih: "split_by p (a @ x) = ws @ [w @ x]" by blast
  show ?case
  proof (cases "p c")
    case True
    with ih show ?thesis by (intro exI [of _ "[] # ws"]) simp
  next
    case False
    show ?thesis
    proof (cases ws)
      case Nil
      with ih False show ?thesis by (intro exI [of _ "[]"] exI [of _ "c # w"]) simp
    next
      case (Cons u us)
      with ih False show ?thesis by (intro exI [of _ "(c # u) # us"] exI [of _ w]) simp
    qed
  qed
qed

lemma data_file_name:
  assumes "is_data_file f"
  shows "ends_with (base_name (s3_name f)) ''.xml.gz''"
proof -
  obtain a where a: "s3_name f = a @ ''.xml.gz''"
    using assms by (auto simp: is_data_file_def ends_with_def strip_suffix_Some)
  obtain ws w where s: "split_on (CHR ''/'') (s3_name f) = ws @ [w @ ''.xml.gz'']"
    using split_by_append_plain [of "\<lambda>c. c = CHR ''/''" "''.xml.gz''" a] by (auto simp: a)
  let ?u = "w @ ''.xml.gz''"
  have u: "?u \<noteq> []" "?u \<noteq> ''.''" "?u \<noteq> ''..''"
    using arg_cong [of ?u "''.''" length] arg_cong [of ?u "''..''" length] by auto
  then have f: "filter (\<lambda>c. c \<noteq> [] \<and> c \<noteq> ''.'') (ws @ [?u]) = filter (\<lambda>c. c \<noteq> [] \<and> c \<noteq> ''.'') ws @ [?u]"
    by simp
  have last: "(case us @ [v] of [] \<Rightarrow> None | cs \<Rightarrow> if last cs = ''..'' then None else Some (last cs))
      = (if v = ''..'' then None else Some v)" for us and v :: string
    by (cases us) auto
  have "path_file_name (s3_name f) = Some ?u"
    unfolding path_file_name_def s f last by (rule if_not_P) (rule u(3))
  then show ?thesis by (auto simp: base_name_def ends_with_def strip_suffix_Some)
qed

lemma data_file_not_metadata: "is_data_file f \<Longrightarrow> base_name (s3_name f) \<notin> metadata_files"
proof -
  assume "is_data_file f"
  from data_file_name [OF this] obtain a where "base_name (s3_name f) = a @ ''.xml.gz''"
    by (auto simp: ends_with_def strip_suffix_Some)
  then have "last (base_name (s3_name f)) = CHR ''z''" by simp
  moreover have "last g \<noteq> CHR ''z''" if "g \<in> metadata_files" for g
    using that by (auto simp: metadata_files_def metadata_name_def)
  ultimately show ?thesis by blast
qed

lemma first_complete_data: "list_all is_data_file (first_complete ids)"
proof (induction ids rule: first_complete.induct)
  case (2 v fs ids)
  have "list_all is_data_file (filter is_data_file fs)" by (simp add: list_all_iff)
  with 2 show ?case by (simp only: first_complete.simps Let_def) (simp split: if_split)
qed simp

lemma latest_data: "list_all is_data_file (get_latest_monthly_files files)"
  by (simp add: get_latest_monthly_files_def first_complete_data)

lemma download_frame:
  assumes "download_discogs_data env d = (d', r)"
  shows "(drives m d \<longrightarrow> drives m d')
    \<and> (\<forall>names. r = Inr names \<longrightarrow>
        (case list_s3_files env (fst (fs_op env d)) of (d2, a) \<Rightarrow>
          (\<exists>available. a = Inr available
            \<and> names = map (\<lambda>f. base_name (s3_name f)) (get_latest_monthly_files available)
            \<and> list_all (trusted env (snd (published_checksums env available (get_latest_monthly_files available) d2)) d') names)))"
proof -
  obtain d1 ok where o: "fs_op env d = (d1, ok)" by force
  obtain d2 a where l: "list_s3_files env d1 = (d2, a)" by force
  have d1: "drives m d1 = drives m d" using op_frame [OF o] kept_drives by blast
  have d2: "drives m d2 = drives m d" using d1 list_frame [OF l] kept_drives by blast
  show ?thesis
  proof (cases "ok \<and> is_ok a")
    case False
    with assms o l d1 d2 show ?thesis
      by (auto simp: download_discogs_data_def split: bool.splits sum.splits)
  next
    case True
    then obtain available where a: "ok" "a = Inr available" by (auto simp: is_ok_iff)
    define latest where "latest = get_latest_monthly_files available"
    have data: "list_all (\<lambda>f. base_name (s3_name f) \<notin> metadata_files) latest"
      using latest_data [of available] data_file_not_metadata by (auto simp: latest_def list_all_iff)
    note run = assms [unfolded download_discogs_data_def o prod.case a(1) bool.case l a(2) sum.case Let_def latest_def [symmetric]]
    show ?thesis
    proof (cases latest)
      case Nil
      with run d2 o l a show ?thesis by (auto simp: latest_def [symmetric])
    next
      case (Cons f fs)
      show ?thesis
      proof (cases "extract_month env (s3_name f)")
        case (Inl e)
        with run d2 o l a Cons show ?thesis by auto
      next
        case (Inr mo)
        with run Cons have "download_latest env available latest d2 = (d', r)" using a(1) by simp
        from download_latest_frame [OF this data, of m] d2 o l a show ?thesis by (auto simp: latest_def)
      qed
    qed
  qed
qed

interpretation discogs_source: data_source "download_discogs_data env" for env
proof
  show "drives m (fst (download_discogs_data env d))" if "drives m d" for m d
    using download_frame [of env d "fst (download_discogs_data env d)" "snd (download_discogs_data env d)" m] that by simp
qed

end
