(* ===== verification/Download_Results.thy ===== *)
theory Download_Results
  imports Download_Guarantees Marker_Lifecycle
begin

text \<open>
  The results of \<open>src/discogs/downloader.rs\<close>: which version is taken, what a finished download
  stands for, how often a file is tried, and that the metadata survives a restart.
\<close>

section \<open>The newest complete version\<close>

definition in_version :: "s3_file_info list \<Rightarrow> string \<Rightarrow> s3_file_info list" where
  "in_version files v = filter (\<lambda>f. file_version_id f = Some v) files"

definition complete_group :: "s3_file_info list \<Rightarrow> bool" where
  "complete_group fs \<longleftrightarrow> length fs = 5 \<and> length (filter is_data_file fs) = 4"

definition complete_versions :: "s3_file_info list \<Rightarrow> string set" where
  "complete_versions files = {v. complete_group (in_version files v)}"

lemma group_files_snoc:
  "group_files (files @ [f]) = (case file_version_id f of Some v \<Rightarrow> add_file v f (group_files files) | None \<Rightarrow> group_files files)"
  by (auto simp: group_files_def split: option.split)

lemma group_files_exact:
  "owf (group_files files)
    \<and> map_of (group_files files) v = (if in_version files v = [] then None else Some (in_version files v))"
proof (induction files arbitrary: v rule: rev_induct)
  case Nil
  show ?case by (simp add: group_files_def in_version_def)
next
  case (snoc f files)
  show ?case
  proof (cases "file_version_id f")
    case None
    with snoc show ?thesis by (simp add: group_files_snoc in_version_def)
  next
    case (Some u)
    have "owf (add_file u f (group_files files))" using snoc by (simp add: add_file_def owf_oentry)
    moreover have "map_of (add_file u f (group_files files)) v
        = (if in_version (files @ [f]) v = [] then None else Some (in_version (files @ [f]) v))"
      using snoc [of u] snoc [of v] Some by (auto simp: add_file_def map_of_oentry in_version_def)
    ultimately show ?thesis by (simp add: group_files_snoc Some)
  qed
qed

lemma first_complete_max:
  "owf m \<Longrightarrow> first_complete (rev m) =
     (let vs = {v. \<exists>fs. (v, fs) \<in> set m \<and> complete_group fs} in
      if vs = {} then [] else filter is_data_file (the (map_of m (Max vs))))"
proof (induction m rule: rev_induct)
  case (snoc e m)
  obtain v fs where e: "e = (v, fs)" by force
  have wf: "owf m" "\<forall>k \<in> fst ` set m. k < v" "v \<notin> fst ` set m"
    using snoc.prems by (auto simp: owf_def e sorted_wrt_append)
  define vs where "vs = {v. \<exists>fs. (v, fs) \<in> set m \<and> complete_group fs}"
  have "vs \<subseteq> fst ` set m" by (force simp: vs_def)
  then have vs: "finite vs" "\<forall>k \<in> vs. k < v" using wf(2) by (auto intro: finite_subset)
  have all: "{v'. \<exists>fs'. (v', fs') \<in> set (m @ [e]) \<and> complete_group fs'} = (if complete_group fs then insert v vs else vs)"
    by (auto simp: vs_def e)
  have at: "map_of (m @ [e]) v = Some fs" "k \<noteq> v \<Longrightarrow> map_of (m @ [e]) k = map_of m k" for k
    using wf(3) by (auto simp: e map_add_def split: option.split) (metis map_of_eq_None_iff option.distinct(1))
  show ?case
  proof (cases "complete_group fs")
    case True
    have "Max (insert v vs) = v" using vs by (intro Max_eqI) auto
    with True at(1) all show ?thesis by (simp add: e complete_group_def Let_def)
  next
    case False
    have skip: "first_complete (rev (m @ [e])) = first_complete (rev m)"
      using False by (simp add: e complete_group_def Let_def)
    have "Max vs \<noteq> v" if "vs \<noteq> {}" using vs that Max_in [of vs] by (metis less_irrefl)
    then show ?thesis
      using False snoc.IH [OF wf(1)] at(2) [of "Max vs"] unfolding skip all vs_def [symmetric] Let_def by simp
  qed
qed simp

lemma complete_versions_group:
  "complete_versions files = {v. \<exists>fs. (v, fs) \<in> set (group_files files) \<and> complete_group fs}"
proof -
  have "owf (group_files files)" using group_files_exact by blast
  then have "(v, fs) \<in> set (group_files files) \<longleftrightarrow> in_version files v = fs \<and> fs \<noteq> []" for v fs
    using group_files_exact [of files v] by (auto simp: owf_map_of_iff [symmetric] split: if_splits)
  then show ?thesis by (auto simp: complete_versions_def complete_group_def)
qed

text \<open>
  C33: the files taken are the data files of the newest version that has exactly five files, four of
  them data files; when no version has, none are taken.
\<close>

theorem latest_version_exact:
  "get_latest_monthly_files files =
     (if complete_versions files = {} then []
      else filter is_data_file (in_version files (Max (complete_versions files))))"
proof -
  let ?vs = "complete_versions files"
  have wf: "owf (group_files files)" using group_files_exact by blast
  have "finite ?vs"
    unfolding complete_versions_group by (rule finite_subset [of _ "fst ` set (group_files files)"]) force+
  then have "?vs \<noteq> {} \<Longrightarrow> complete_group (in_version files (Max ?vs))"
    using Max_in [of ?vs] by (simp add: complete_versions_def)
  then have "?vs \<noteq> {} \<Longrightarrow> map_of (group_files files) (Max ?vs) = Some (in_version files (Max ?vs))"
    using group_files_exact [of files "Max ?vs"] by (auto simp: complete_group_def)
  then show ?thesis
    using first_complete_max [OF wf]
    by (simp add: get_latest_monthly_files_def complete_versions_group [symmetric] Let_def)
qed

section \<open>What is reported as downloaded\<close>


section \<open>What the marker knows of the bytes\<close>

text \<open>
  The checksum of a file in the marker the downloader holds.  After a successful download it is known for
  every file and is the digest of the bytes on the disk, so that the checksums by which the marker
  re-queues files (\<open>file_bytes_verified\<close>) are never missing in a run on the downloader.
\<close>

definition noted :: "downloader \<Rightarrow> string \<Rightarrow> string option option" where
  "noted d g = map_option (\<lambda>m. checksum_on_disk m g) (so_marker d)"

definition bytes_noted :: "'e dl_env_scheme \<Rightarrow> downloader \<Rightarrow> string \<Rightarrow> bool" where
  "bytes_noted env d g \<longleftrightarrow> described env d g \<and> noted d g \<in> {None, Some (map_option (se_sha256 env) (so_files d g))}"

lemma noted_kept: "marker_kept d d' \<Longrightarrow> noted d' g = noted d g"
  by (simp add: noted_def marker_kept_def)

lemma described_leaves: "leaves X d d' \<Longrightarrow> g \<notin> X \<Longrightarrow> described env d' g = described env d g"
  by (simp add: leaves_def described_def)

lemma recorded_kept: "leaves X d d' \<Longrightarrow> g \<notin> X \<Longrightarrow> noted d' g = noted d g \<Longrightarrow> bytes_noted env d' g = bytes_noted env d g"
  using described_leaves [of X d d' g env] by (simp add: bytes_noted_def leaves_def file_at_def)

lemma noted_track: "noted (track env f d) g = map_option (\<lambda>m. checksum_on_disk (f m) g) (so_marker d)"
  by (cases "so_marker d")
    (auto simp: noted_def checksum_on_disk_def track_def save_state_marker_def on_source_marker_def write_source_marker_def
      fs_op_def stamp_def Let_def split: option.split prod.split)

lemma noted_other [simp]:
  "g \<noteq> name \<Longrightarrow> noted (track env (start_file_download t name) d) g = noted d g"
  "g \<noteq> name \<Longrightarrow> noted (note_fetched env name n d) g = noted d g"
  "noted (track env (complete_download t) d) g = noted d g"
  by (simp_all add: note_fetched_def noted_track checksum_download_ops Let_def)
    (cases "map_of (dl_metadata d) name"; simp add: noted_def checksum_download_ops)+

lemma note_fetched_recorded:
  assumes "described env d name"
  shows "bytes_noted env (note_fetched env name n d) name"
proof -
  have "described env (note_fetched env name n d) name" "so_files (note_fetched env name n d) = so_files d"
    using described_leaves [OF note_fetched_leaves [of d env name n]] note_fetched_leaves [of d env name n] assms
    by (auto simp: leaves_def file_at_def fun_eq_iff)
  moreover obtain b i where "so_files d name = Some b" "map_of (dl_metadata d) name = Some i" "lf_checksum i = se_sha256 env b"
    using assms by (auto simp: described_def file_at_def split: option.splits)
  ultimately show ?thesis
    by (cases "so_marker d")
      (auto simp: bytes_noted_def note_fetched_def noted_track checksum_download_ops file_downloaded_def on_download_def Let_def
        split: option.split)
qed

lemma acquire_file_recorded:
  assumes "acquire_file env published f d = (d', Inr name)" "name \<notin> metadata_files"
  shows "bytes_noted env d' name \<and> (\<forall>g. g \<noteq> name \<longrightarrow> g \<notin> metadata_files \<longrightarrow> bytes_noted env d' g = bytes_noted env d g)"
proof -
  obtain d1 a where a: "should_download env f d = (d1, a)" by force
  note sf = should_download_frame [OF a]
  have name: "name = base_name (s3_name f)" using acquire_file_frame [OF assms(1) refl] by blast
  have outer: "leaves (touched name) d d'" using acquire_file_frame [OF assms(1) name] by blast
  obtain needed where needed: "a = Inr needed" using assms(1) a by (cases a) (auto simp: acquire_file_def)
  have d1: "noted d1 g = noted d g" for g using sf noted_kept by blast
  have "bytes_noted env d' name \<and> (\<forall>g. g \<noteq> name \<longrightarrow> noted d' g = noted d1 g)"
  proof (cases "needed \<or> mismatch published name d1")
    case True
    define d2 where "d2 = track env (start_file_download (se_now env) name) d1"
    obtain d3 b where b: "download_file env f d2 = (d3, b)" by force
    have fetch: "fetch_file env published f d1 = (d', Inr name)"
      using assms(1) a needed True by (simp add: acquire_file_def name)
    then obtain n where n: "b = Inr n" "d' = note_fetched env name n (fst (save_metadata env d3))"
      using b by (auto simp: fetch_file_def Let_def name [symmetric] d2_def [symmetric] split: sum.splits if_splits)
    note af = attempts_frame [OF b [unfolded download_file_def], folded name]
    obtain d4 x where s: "save_metadata env d3 = (d4, x)" by force
    note sm = save_metadata_frame [OF s]
    have "described env d3 name" using af n(1) by simp
    then have "described env d4 name" using sm described_leaves assms(2) by blast
    then have "bytes_noted env d' name" using note_fetched_recorded n(2) s by simp
    moreover have "noted d' g = noted d1 g" if "g \<noteq> name" for g
      using that noted_kept [OF conjunct1 [OF sm], of g] noted_kept [OF conjunct1 [OF af], of g] by (simp add: n(2) s d2_def)
    ultimately show ?thesis by blast
  next
    case False
    obtain d2 ok where o: "fs_op env d1 = (d2, ok)" by force
    obtain n where d': "d' = note_fetched env name n d2"
      using assms(1) a needed False o by (auto simp: acquire_file_def keep_file_def name [symmetric] Let_def)
    have "described env d1 name" using sf needed False by (simp add: name)
    then have "described env d2 name" using op_frame [OF o] described_leaves by blast
    then have "bytes_noted env d' name" by (simp add: d' note_fetched_recorded)
    then show ?thesis using noted_kept [OF conjunct1 [OF op_frame [OF o]]] by (simp add: d')
  qed
  moreover have "bytes_noted env d' g = bytes_noted env d g" if "g \<noteq> name" "g \<notin> metadata_files" "noted d' g = noted d1 g" for g
    by (rule recorded_kept [OF outer]) (use that d1 in \<open>auto simp: touched_def\<close>)
  ultimately show ?thesis by blast
qed

lemma acquire_files_recorded:
  assumes "acquire_files env published fs d = (d', Inr names)"
    and "list_all (\<lambda>f. base_name (s3_name f) \<notin> metadata_files) fs"
  shows "list_all (bytes_noted env d') names \<and> (\<forall>g. g \<notin> metadata_files \<longrightarrow> bytes_noted env d g \<longrightarrow> bytes_noted env d' g)"
  using assms
proof (induction fs arbitrary: d names)
  case (Cons f fs)
  obtain d1 name where a: "acquire_file env published f d = (d1, Inr name)"
    using Cons.prems(1) by (cases "acquire_file env published f d"; cases "snd (acquire_file env published f d)") auto
  then obtain ns where rest: "acquire_files env published fs d1 = (d', Inr ns)" "names = name # ns"
    using Cons.prems(1) by (auto simp: and_then_Ok split: prod.splits)
  have "name = base_name (s3_name f)" using acquire_file_frame [OF a refl] by blast
  then have plain: "name \<notin> metadata_files" using Cons.prems(2) by simp
  from acquire_file_recorded [OF a plain] Cons.IH [OF rest(1)] Cons.prems(2) plain rest(2) show ?case
    by (auto simp: list_all_iff)
qed auto

lemma downloads_recorded:
  assumes "download_discogs_data env d = (d', Inr names)"
  shows "list_all (bytes_noted env d') names"
proof -
  obtain d1 where o: "fs_op env d = (d1, True)"
    using assms by (auto simp: download_discogs_data_def split: prod.splits bool.splits)
  obtain d2 available where l: "list_s3_files env d1 = (d2, Inr available)"
    using assms o by (auto simp: download_discogs_data_def split: prod.splits sum.splits)
  define latest where "latest = get_latest_monthly_files available"
  have data: "list_all (\<lambda>f. base_name (s3_name f) \<notin> metadata_files) latest"
    using latest_data [of available] data_file_not_metadata by (auto simp: latest_def list_all_iff)
  note run = assms [unfolded download_discogs_data_def o prod.case bool.case l sum.case Let_def latest_def [symmetric]]
  show ?thesis
  proof (cases "latest = []")
    case False
    then have "download_latest env available latest d2 = (d', Inr names)"
      using run by (auto split: list.splits sum.splits)
    then obtain d3 published d4 d5 where a: "acquire_files env published latest d3 = (d4, Inr names)"
        and s: "save_metadata env (track env (complete_download (se_now env)) d4) = (d', d5)"
      by (auto simp: download_latest_def and_then_Ok split: prod.splits sum.splits)
    note sm = save_metadata_frame [OF s]
    have "leaves metadata_files d4 d'"
      using leaves_trans [OF track_leaves conjunct1 [OF conjunct2 [OF sm]], of metadata_files] by simp
    moreover have "noted d' g = noted d4 g" for g using noted_kept [OF conjunct1 [OF sm], of g] by simp
    moreover have "\<forall>name \<in> set names. name \<notin> metadata_files"
      using acquire_files_frame [OF a data] data by (auto simp: list_all_iff)
    ultimately show ?thesis
      using acquire_files_recorded [OF a data] by (auto simp: list_all_iff recorded_kept)
  qed (use run in simp)
qed

section \<open>A healthy provider\<close>

text \<open>The provider serves these bytes under the address of a file.\<close>

definition serves :: "'e dl_env_scheme \<Rightarrow> string \<Rightarrow> s3_file_info \<Rightarrow> string \<Rightarrow> bool" where
  "serves env base f bytes \<longleftrightarrow>
     (\<exists>body. web_answer (de_web env (base @ ''?download='' @ de_encode env (s3_name f))) = (\<lambda>n. Answer 200 None body)
        \<and> body_bytes body = Ok bytes)"

definition healthy_disk :: "'e source_env_scheme \<Rightarrow> bool" where
  "healthy_disk env \<longleftrightarrow> se_ok env = (\<lambda>k. True)"

lemma healthy_op: "healthy_disk env \<Longrightarrow> snd (fs_op env s) = True"
  by (simp add: healthy_disk_def fs_op_def)

lemma healthy_write: "healthy_disk env \<Longrightarrow> snd (write_contents env f b s) = True"
  by (simp add: healthy_disk_def write_contents_def fs_op_def)

lemma healthy_fetch:
  assumes "web_answer (de_web env url) = (\<lambda>n. Answer 200 None body)"
  obtains d1 where "fetch env url d = (d1, Ok (200, body))"
proof -
  obtain c1 a where c: "send_request (de_web env url) (wait_for_polite_gap (dl_config d) (dl_client d)) = (c1, a)" by force
  then have "a = Answer 200 None body" using assms by (auto simp: send_request_def Let_def)
  with c that show ?thesis
    by (simp add: fetch_def polite_get_def polite_loop.simps [of "dl_config d" _ 0] throttled_def)
qed

lemma healthy_stream:
  "healthy_disk env \<Longrightarrow> body_bytes body = Ok bytes \<Longrightarrow> snd (stream_body env name body written d) = Ok (written @ bytes)"
proof (induction env name body written d arbitrary: bytes rule: stream_body.induct)
  case (3 env name b cs written d)
  obtain d1 where w: "write_contents env name (written @ b) d = (d1, True)"
    using healthy_write [OF "3.prems"(1), of name "written @ b" d] by (metis prod.collapse)
  obtain rest where "body_bytes cs = Ok rest" "bytes = b @ rest" using "3.prems"(2) by (auto simp: and_then_Ok)
  with "3.IH" [OF w [symmetric] refl "3.prems"(1)] w show ?case by simp
qed auto

lemma healthy_attempt:
  assumes "healthy_disk env" "web_answer (de_web env url) = (\<lambda>n. Answer 200 None body)" "body_bytes body = Ok bytes"
  obtains d' where "download_attempt env name url d = (d', Fetched bytes)"
proof -
  obtain d1 where 1: "fetch env url d = (d1, Ok (200, body))" using healthy_fetch [OF assms(2)] by blast
  obtain d2 where 2: "fs_op env d1 = (d2, True)" using healthy_op [OF assms(1), of d1] by (metis prod.collapse)
  obtain d3 where 3: "stream_body env name body [] (set_file name (Some []) d2) = (d3, Ok bytes)"
    using healthy_stream [OF assms(1,3), of name "[]"] by (metis append_Nil prod.collapse)
  obtain d4 where 4: "write_contents env name bytes d3 = (d4, True)"
    using healthy_write [OF assms(1), of name bytes d3] by (metis prod.collapse)
  obtain d5 where 5: "write_contents env name bytes d4 = (d5, True)"
    using healthy_write [OF assms(1), of name bytes d4] by (metis prod.collapse)
  from 1 2 3 4 5 that show ?thesis
    by (simp add: download_attempt_def settle_file_def is_success_def)
qed

text \<open>Every file named in the published list is served with its published digest.\<close>

definition good_file :: "'e dl_env_scheme \<Rightarrow> string \<Rightarrow> (string, string) omap option \<Rightarrow> s3_file_info \<Rightarrow> bool" where
  "good_file env base published f \<longleftrightarrow>
     (\<exists>bytes. serves env base f bytes \<and> is_ok (extract_month env (base_name (s3_name f)))
        \<and> (case Option.bind published (\<lambda>ps. map_of ps (base_name (s3_name f))) of Some e \<Rightarrow> e = se_sha256 env bytes | None \<Rightarrow> True))"

lemma healthy_download_file:
  assumes disk: "healthy_disk env" and good: "good_file env (dl_base_url d) published f"
  obtains d' n where "download_file env f d = (d', Ok n)" "\<not> mismatch published (base_name (s3_name f)) d'"
proof -
  let ?name = "base_name (s3_name f)"
  let ?url = "dl_base_url d @ ''?download='' @ de_encode env (s3_name f)"
  obtain bytes body month where b: "web_answer (de_web env ?url) = (\<lambda>n. Answer 200 None body)" "body_bytes body = Ok bytes"
    "extract_month env ?name = Inr month"
    "case Option.bind published (\<lambda>ps. map_of ps ?name) of Some e \<Rightarrow> e = se_sha256 env bytes | None \<Rightarrow> True"
    using good by (auto simp: good_file_def serves_def is_ok_iff)
  obtain d1 where a: "download_attempt env ?name ?url (prepare_attempt env ?name 1 d) = (d1, Fetched bytes)"
    using healthy_attempt [OF disk b(1,2)] by blast
  have "[1..<Suc max_download_retries] = 1 # [2..<4]" by (simp add: max_download_retries_def upt_rec)
  then have "download_file env f d = record_download env ?name bytes d1" using a by (simp add: download_file_def)
  then obtain d' where run: "download_file env f d = (d', Ok (length bytes))" and
    "map_option lf_checksum (map_of (dl_metadata d') ?name) = Some (se_sha256 env bytes)"
    by (simp add: record_download_def b(3))
  with b(4) have "\<not> mismatch published ?name d'" by (auto simp: mismatch_def split: option.splits)
  with run that show ?thesis by blast
qed

lemma healthy_acquire:
  assumes disk: "healthy_disk env" and good: "good_file env (dl_base_url d) published f"
  obtains d' where "acquire_file env published f d = (d', Ok (base_name (s3_name f)))" "dl_base_url d' = dl_base_url d"
proof -
  let ?name = "base_name (s3_name f)"
  obtain d1 r where s: "should_download env f d = (d1, r)" by force
  then have "is_ok r"
    using disk by (cases "map_of (dl_metadata d) ?name")
      (auto simp: should_download_def file_digest_def fs_op_def healthy_disk_def Let_def split: if_splits option.splits)
  then obtain needed where r: "r = Inr needed" by (auto simp: is_ok_iff)
  have base: "dl_base_url d1 = dl_base_url d" using should_download_frame [OF s] by (simp add: leaves_def)
  define d2 where "d2 = track env (start_file_download (se_now env) ?name) d1"
  have "dl_base_url d2 = dl_base_url d" using track_leaves [of d1 env] base by (simp add: d2_def leaves_def)
  with good have "good_file env (dl_base_url d2) published f" by simp
  from healthy_download_file [OF disk this] obtain d3 n where "download_file env f d2 = (d3, Ok n)" "\<not> mismatch published ?name d3" .
  then have "snd (fetch_file env published f d1) = Ok ?name" by (simp add: fetch_file_def d2_def Let_def)
  moreover have "snd (keep_file env f d1) = Ok ?name" by (simp add: keep_file_def Let_def split: prod.split)
  ultimately have "snd (acquire_file env published f d) = Ok ?name" using s r by (simp add: acquire_file_def)
  then obtain d' where run: "acquire_file env published f d = (d', Ok ?name)" by (metis prod.collapse)
  from acquire_file_frame [OF run refl] have "dl_base_url d' = dl_base_url d" by (simp add: leaves_def)
  with run that show ?thesis by blast
qed

lemma healthy_acquire_files:
  assumes "healthy_disk env" "list_all (good_file env (dl_base_url d) published) fs"
  shows "snd (acquire_files env published fs d) = Ok (map (\<lambda>f. base_name (s3_name f)) fs)"
  using assms(2)
proof (induction fs arbitrary: d)
  case (Cons f fs)
  obtain d1 where d1: "acquire_file env published f d = (d1, Ok (base_name (s3_name f)))" "dl_base_url d1 = dl_base_url d"
    using healthy_acquire [OF assms(1), of d published f] Cons.prems by auto
  with Cons.prems have "list_all (good_file env (dl_base_url d1) published) fs" by simp
  from Cons.IH [OF this] d1 show ?case by (simp add: case_prod_beta)
qed simp

lemma healthy_save_metadata: "healthy_disk env \<Longrightarrow> snd (save_metadata env d) = Ok ()"
  by (simp add: save_metadata_def healthy_disk_def write_contents_def rename_file_def fs_op_def Let_def)

lemma healthy_download:
  assumes disk: "healthy_disk env" and listed: "dl_cached d = Some available"
    and served: "list_all (good_file env (dl_base_url d)
        (snd (published_checksums env available (get_latest_monthly_files available) (fst (fs_op env d)))))
      (get_latest_monthly_files available)"
    and dated: "list_all (\<lambda>f. is_ok (extract_month env (s3_name f))) (get_latest_monthly_files available)"
  shows "snd (download_discogs_data env d) = Ok (map (\<lambda>f. base_name (s3_name f)) (get_latest_monthly_files available))"
proof -
  define latest where "latest = get_latest_monthly_files available"
  obtain d1 where o: "fs_op env d = (d1, True)" using healthy_op [OF disk, of d] by (metis prod.collapse)
  have d1: "dl_cached d1 = Some available" "dl_base_url d1 = dl_base_url d" using o listed by (auto simp: fs_op_def)
  have l: "list_s3_files env d1 = (d1, Ok available)" using d1 by (simp add: list_s3_files_def)
  obtain d2 published where p: "published_checksums env available latest d1 = (d2, published)" by force
  define d3 where "d3 = track env (start_download (se_now env) (length latest)) d2"
  have "dl_base_url d3 = dl_base_url d"
    using published_frame [OF p] track_leaves [of d2 env] d1 by (simp add: d3_def leaves_def)
  with served have "list_all (good_file env (dl_base_url d3) published) latest" by (simp add: o p latest_def [symmetric])
  from healthy_acquire_files [OF disk this] obtain d4 where
    a: "acquire_files env published latest d3 = (d4, Ok (map (\<lambda>f. base_name (s3_name f)) latest))"
    by (metis prod.collapse)
  have "snd (download_latest env available latest d1) = Ok (map (\<lambda>f. base_name (s3_name f)) latest)"
    using p a healthy_save_metadata [OF disk] by (simp add: download_latest_def d3_def split: prod.splits)
      (metis and_then.simps(2) snd_conv)
  with o l dated show ?thesis
    unfolding download_discogs_data_def latest_def [symmetric]
    by (cases latest) (auto simp: latest_def [symmetric] is_ok_iff Let_def split: sum.splits)
qed

section \<open>A site that lists\<close>

text \<open>The site answers with this page.\<close>

definition serves_page :: "'e dl_env_scheme \<Rightarrow> string \<Rightarrow> string \<Rightarrow> bool" where
  "serves_page env url html \<longleftrightarrow>
     (\<exists>body bytes. web_answer (de_web env url) = (\<lambda>n. Answer 200 None body) \<and> body_bytes body = Ok bytes \<and> de_text env bytes = html)"

definition year_url :: "string \<Rightarrow> string \<Rightarrow> string" where
  "year_url base year = base @ ''?prefix=data%2F'' @ year @ ''%2F''"

text \<open>The dumps the pages of some years link to, by version.\<close>

fun linked_versions :: "'e dl_env_scheme \<Rightarrow> (string \<times> string) list \<Rightarrow> versions \<Rightarrow> source_error + versions" where
  "linked_versions env [] ids = Ok ids"
| "linked_versions env ((year, html) # pages) ids = and_then (scan_links env year (de_links env html) ids) (linked_versions env pages)"

text \<open>
  The site answers: its index names years, the pages of the two latest ones arrive, and \<open>available\<close> is
  what they link to.
\<close>

definition healthy_site :: "'e dl_env_scheme \<Rightarrow> string \<Rightarrow> s3_file_info list \<Rightarrow> bool" where
  "healthy_site env base available \<longleftrightarrow>
     (\<exists>index pages ids. serves_page env base index \<and> de_years env index \<noteq> []
        \<and> map fst pages = take 2 (rev (sort (de_years env index)))
        \<and> list_all (\<lambda>(year, html). serves_page env (year_url base year) html) pages
        \<and> linked_versions env pages [] = Ok ids \<and> ids \<noteq> [] \<and> available = concat (ovalues ids))"

lemma healthy_fetch_text:
  assumes "serves_page env url html"
  shows "\<exists>d'. fetch_text env url d = (d', Ok html) \<and> dl_base_url d' = dl_base_url d"
proof -
  obtain body bytes where b: "web_answer (de_web env url) = (\<lambda>n. Answer 200 None body)" "body_bytes body = Ok bytes" "de_text env bytes = html"
    using assms by (auto simp: serves_page_def)
  obtain d1 where f: "fetch env url d = (d1, Ok (200, body))" using healthy_fetch [OF b(1)] by blast
  then have "fetch_text env url d = (d1, Ok html)" using b(2,3) by (simp add: fetch_text_def is_success_def)
  moreover have "dl_base_url d1 = dl_base_url d" using fetch_frame [OF f] by (simp add: leaves_def)
  ultimately show ?thesis by blast
qed

lemma healthy_scan_years:
  assumes "list_all (\<lambda>(year, html). serves_page env (year_url (dl_base_url d) year) html) pages"
    and "linked_versions env pages ids = Ok ids'"
  shows "\<exists>d'. scan_years env (map fst pages) ids d = (d', Ok ids') \<and> dl_base_url d' = dl_base_url d"
  using assms
proof (induction pages arbitrary: ids d)
  case (Cons p pages)
  obtain year html where p: "p = (year, html)" by force
  obtain d1 where d1: "fetch_text env (year_url (dl_base_url d) year) d = (d1, Ok html)" "dl_base_url d1 = dl_base_url d"
    using healthy_fetch_text [of env _ html d] Cons.prems(1) by (auto simp: p)
  obtain ids1 where ids1: "scan_links env year (de_links env html) ids = Ok ids1" "linked_versions env pages ids1 = Ok ids'"
    using Cons.prems(2) by (auto simp: p and_then_Ok)
  obtain d2 where "scan_years env (map fst pages) ids1 d1 = (d2, Ok ids')" "dl_base_url d2 = dl_base_url d1"
    using Cons.IH [OF _ ids1(2), of d1] Cons.prems(1) d1(2) by auto
  with d1 ids1 show ?case by (simp add: p year_url_def)
qed simp

lemma healthy_list:
  assumes "healthy_site env (dl_base_url d) available" "dl_cached d = None"
  shows "\<exists>d'. list_s3_files env d = (d', Ok available) \<and> dl_cached d' = Some available \<and> dl_base_url d' = dl_base_url d"
proof -
  obtain index pages ids where w: "serves_page env (dl_base_url d) index" "de_years env index \<noteq> []"
    "map fst pages = take 2 (rev (sort (de_years env index)))"
    "list_all (\<lambda>(year, html). serves_page env (year_url (dl_base_url d) year) html) pages"
    "linked_versions env pages [] = Ok ids" "ids \<noteq> []" "available = concat (ovalues ids)"
    using assms(1) unfolding healthy_site_def by blast
  obtain d1 where d1: "fetch_text env (dl_base_url d) d = (d1, Ok index)" "dl_base_url d1 = dl_base_url d"
    using healthy_fetch_text [OF w(1)] by blast
  obtain d2 where d2: "scan_years env (map fst pages) [] d1 = (d2, Ok ids)" "dl_base_url d2 = dl_base_url d1"
    using healthy_scan_years [OF _ w(5), of d1] w(4) d1(2) by auto
  with w d1 assms(2) show ?thesis
    by (simp add: list_s3_files_def scrape_file_list_def w(3) [symmetric] Let_def)
qed

section \<open>A small provider\<close>

text \<open>A release of four data files and their list of digests; one file is there from before.\<close>

definition toy_digest :: "string \<Rightarrow> string" where
  "toy_digest b = replicate 64 (if b = ''new'' then CHR ''a'' else CHR ''b'')"

definition toy_key :: "string \<Rightarrow> string" where
  "toy_key t = ''data/2026/discogs_20260101_'' @ t"

definition toy_entries :: "string list" where
  "toy_entries = [''CHECKSUM'', ''artists.xml.gz'', ''labels.xml.gz'', ''masters.xml.gz'', ''releases.xml.gz'']"

text \<open>The index, the page of the year, the list of digests; everything else is a dump.\<close>

definition toy_env :: dl_env where
  "toy_env = \<lparr>se_ok = (\<lambda>_. True), se_torn = (\<lambda>_. ''?''), se_now = 7, se_sha256 = toy_digest,
     de_web = (\<lambda>url. \<lparr>web_answer = (\<lambda>_. Answer 200 None
        (if url = ''u'' then [Chunk ''index'']
         else if url = ''u?prefix=data%2F2026%2F'' then [Chunk ''dumps'']
         else if url = ''u?download=data/2026/discogs_20260101_CHECKSUM''
         then [Chunk (replicate 64 (CHR ''A'')), Chunk '' *discogs_20260101_artists.xml.gz'']
         else [Chunk ''ne'', Chunk ''w''])), web_latency = (\<lambda>_. 1)\<rparr>), de_client = True,
     de_text = (\<lambda>b. b), de_years = (\<lambda>html. if html = ''index'' then [''2026''] else []),
     de_links = (\<lambda>html. if html = ''dumps'' then map (\<lambda>t. (''discogs_20260101_'' @ t, ''20260101'')) toy_entries else []),
     de_encode = (\<lambda>s. s), de_decode = Some, de_utf8 = (\<lambda>_. True),
     de_show_metadata = (\<lambda>_. ''{}''), de_read_metadata = (\<lambda>_. None), de_month = ''202601''\<rparr>"

definition toy_listing :: "s3_file_info list" where
  "toy_listing = map (\<lambda>t. \<lparr>s3_name = toy_key t, s3_size = 0\<rparr>) toy_entries"

definition toy_data :: "s3_file_info list" where
  "toy_data = map (\<lambda>t. \<lparr>s3_name = toy_key t, s3_size = 0\<rparr>) [''artists.xml.gz'', ''labels.xml.gz'', ''masters.xml.gz'', ''releases.xml.gz'']"

definition toy_downloader :: downloader where
  "toy_downloader = \<lparr>so_files = [''discogs_20260101_artists.xml.gz'' \<mapsto> ''old''], so_ops = 0, so_marker = None, so_marker_path = None,
     so_saved = [], dl_output_directory = ''o'', dl_base_url = ''u'', dl_config = polite_discogs,
     dl_metadata = [(''discogs_20260101_artists.xml.gz'',
        \<lparr>lf_path = ''o'', lf_checksum = toy_digest ''old'', lf_version = ''202601'', lf_size = 3\<rparr>)],
     dl_cached = Some toy_listing,
     dl_client = \<lparr>po_last = None, po_clock = 0, po_requests = [], po_sleeps = []\<rparr>, dl_sleeps = []\<rparr>"

definition toy_names :: "string list" where
  "toy_names = map (\<lambda>t. ''discogs_20260101_'' @ t) [''artists.xml.gz'', ''labels.xml.gz'', ''masters.xml.gz'', ''releases.xml.gz'']"

lemma toy_site: "healthy_site toy_env ''u'' toy_listing"
proof -
  have pages: "serves_page toy_env ''u'' ''index''" "serves_page toy_env (year_url ''u'' ''2026'') ''dumps''"
    by (auto simp: serves_page_def toy_env_def year_url_def)
  have years: "de_years toy_env ''index'' = [''2026'']" by (simp add: toy_env_def)
  have links: "linked_versions toy_env [(''2026'', ''dumps'')] [] = Ok [(''20260101'', toy_listing)]" by code_simp
  have "ovalues [(''20260101'', toy_listing)] = [toy_listing]" by (simp add: ovalues_def)
  with pages years links show ?thesis
    unfolding healthy_site_def
    by (intro exI [of _ "''index''"] exI [of _ "[(''2026'', ''dumps'')]"] exI [of _ "[(''20260101'', toy_listing)]"]) simp
qed

lemma toy_latest: "get_latest_monthly_files toy_listing = toy_data"
  by code_simp

text \<open>The answer does not depend on the state of the downloader, but for its address.\<close>

lemma toy_published:
  assumes "dl_base_url d = ''u''"
  shows "snd (published_checksums toy_env toy_listing toy_data d)
    = Some [(''discogs_20260101_artists.xml.gz'', replicate 64 (CHR ''a''))]"
proof -
  let ?body = "[Chunk (replicate 64 (CHR ''A'')), Chunk '' *discogs_20260101_artists.xml.gz'']"
  have 1: "find_checksum_entry toy_listing toy_data = Some \<lparr>s3_name = toy_key ''CHECKSUM'', s3_size = 0\<rparr>" by code_simp
  have 2: "web_answer (de_web toy_env (dl_base_url d @ ''?download='' @ de_encode toy_env (toy_key ''CHECKSUM'')))
      = (\<lambda>n. Answer 200 None ?body)" by (simp add: assms toy_env_def toy_key_def)
  have 3: "filter_map parse_checksum_line (split_on (char_of (10::nat)) (replicate 64 (CHR ''A'') @ '' *discogs_20260101_artists.xml.gz''))
      = [(''discogs_20260101_artists.xml.gz'', replicate 64 (CHR ''a''))]" by code_simp
  obtain d1 where "fetch toy_env (dl_base_url d @ ''?download='' @ de_encode toy_env (toy_key ''CHECKSUM'')) d = (d1, Ok (200, ?body))"
    using healthy_fetch [OF 2] by blast
  then have "snd (fetch_text toy_env (dl_base_url d @ ''?download='' @ de_encode toy_env (toy_key ''CHECKSUM'')) d)
      = Ok (replicate 64 (CHR ''A'') @ '' *discogs_20260101_artists.xml.gz'')"
    by (simp add: fetch_text_def is_success_def) (simp add: toy_env_def)
  then show ?thesis
    by (simp add: published_checksums_def 1 fetch_checksums_def 3 ocollect_def case_prod_beta)
qed

lemma toy_served:
  "list_all (good_file toy_env ''u'' (Some [(''discogs_20260101_artists.xml.gz'', replicate 64 (CHR ''a''))])) toy_data"
proof -
  have "serves toy_env ''u'' f ''new''" if "f \<in> set toy_data" for f
    using that by (auto simp: serves_def toy_data_def toy_key_def toy_env_def intro!: exI [of _ "[Chunk ''ne'', Chunk ''w'']"])
  moreover have "list_all (\<lambda>f. is_ok (extract_month toy_env (base_name (s3_name f)))) toy_data" by code_simp
  moreover have "list_all (\<lambda>f. case map_of [(''discogs_20260101_artists.xml.gz'', replicate 64 (CHR ''a''))] (base_name (s3_name f)) of
      Some e \<Rightarrow> e = toy_digest ''new'' | None \<Rightarrow> True) toy_data" by code_simp
  moreover have "se_sha256 toy_env = toy_digest" by (simp add: toy_env_def)
  ultimately show ?thesis
    unfolding good_file_def list_all_iff bind.simps by metis
qed



text \<open>
  When the disk works and the provider serves every file of the newest complete version, with the
  digest it published, the download succeeds with those files, whatever was on the disk, in the metadata
  or in the marker before.
\<close>

theorem healthy_download_completes:
  assumes disk: "healthy_disk env" and listed: "dl_cached d = Some available"
    and served: "list_all (good_file env (dl_base_url d)
        (snd (published_checksums env available (get_latest_monthly_files available) (fst (fs_op env d)))))
      (get_latest_monthly_files available)"
    and dated: "list_all (\<lambda>f. is_ok (extract_month env (s3_name f))) (get_latest_monthly_files available)"
  shows "snd (download_discogs_data env d) = Ok (map (\<lambda>f. base_name (s3_name f)) (get_latest_monthly_files available))"
  using assms by (rule healthy_download)

theorem healthy_download_completes_witness:
  "snd (download_discogs_data toy_env (toy_downloader\<lparr>so_files := Map.empty, dl_metadata := []\<rparr>)) = Ok toy_names"
proof -
  let ?d = "toy_downloader\<lparr>so_files := Map.empty, dl_metadata := []\<rparr>"
  have d: "dl_base_url ?d = ''u''" "dl_cached ?d = Some toy_listing" by (simp_all add: toy_downloader_def)
  have u: "dl_base_url (fst (fs_op toy_env ?d)) = ''u''" using d(1) by (simp add: fs_op_def)
  have disk: "healthy_disk toy_env" by (simp add: healthy_disk_def toy_env_def)
  have served: "list_all (good_file toy_env (dl_base_url ?d)
      (snd (published_checksums toy_env toy_listing (get_latest_monthly_files toy_listing) (fst (fs_op toy_env ?d)))))
    (get_latest_monthly_files toy_listing)"
    unfolding toy_latest toy_published [OF u] using toy_served by (simp add: d(1))
  have dated: "list_all (\<lambda>f. is_ok (extract_month toy_env (s3_name f))) (get_latest_monthly_files toy_listing)"
    unfolding toy_latest by code_simp
  have "map (\<lambda>f. base_name (s3_name f)) (get_latest_monthly_files toy_listing) = toy_names"
    unfolding toy_latest by code_simp
  with healthy_download_completes [OF disk d(2) served dated] show ?thesis by simp
qed

section \<open>Retries\<close>

text \<open>A polite GET is one request, and one more for every throttled answer it waits out.\<close>

lemma polite_requests:
  assumes "polite_loop cfg w n st = (st', r)" "n \<le> pc_max_throttle_retries cfg"
  shows "length (po_requests st) < length (po_requests st')
    \<and> length (po_requests st') \<le> length (po_requests st) + Suc (pc_max_throttle_retries cfg - n)"
  using assms
proof (induction cfg w n st rule: polite_loop.induct)
  case (1 cfg w n st)
  obtain st1 a where s: "send_request w (wait_for_polite_gap cfg st) = (st1, a)" by force
  then have one: "length (po_requests st1) = Suc (length (po_requests st))"
    by (auto simp: send_request_def wait_for_polite_gap_def Let_def split: option.splits)
  show ?case
  proof (cases "\<exists>code header body. a = Answer code header body \<and> throttled code \<and> n + 1 \<le> pc_max_throttle_retries cfg")
    case False
    with "1.prems" s one show ?thesis
      by (subst (asm) polite_loop.simps) (auto simp: Let_def split: http_answer.splits if_splits)
  next
    case True
    then obtain code header body where a: "a = Answer code header body" "throttled code" "n + 1 \<le> pc_max_throttle_retries cfg" by blast
    define wait where "wait = chosen_wait cfg (n + 1) (parse_retry_after header)"
    have "polite_loop cfg w (n + 1) (st1\<lparr>po_clock := po_clock st1 + wait, po_sleeps := po_sleeps st1 @ [wait]\<rparr>) = (st', r)"
      using "1.prems"(1) s a by (subst (asm) polite_loop.simps) (simp add: wait_def Let_def)
    from "1.IH" [OF s [symmetric] a(1) _ refl refl _ _ this [unfolded wait_def] a(3)] a one show ?thesis by auto
  qed
qed

definition requests :: "downloader \<Rightarrow> nat" where
  "requests d = length (po_requests (dl_client d))"

definition same_client :: "downloader \<Rightarrow> downloader \<Rightarrow> bool" where
  "same_client d d' \<longleftrightarrow> dl_client d' = dl_client d \<and> dl_config d' = dl_config d"

lemma write_client: "write_contents env name b d = (d', ok) \<Longrightarrow> same_client d d'"
  by (auto simp: write_contents_def set_file_def fs_op_def same_client_def)

lemma stream_client: "stream_body env name body written d = (d', r) \<Longrightarrow> same_client d d'"
proof (induction env name body written d rule: stream_body.induct)
  case (3 env name b cs written d)
  obtain d1 ok where w: "write_contents env name (written @ b) d = (d1, ok)" by force
  with 3 write_client [OF w] show ?case by (cases ok) (auto simp: same_client_def)
qed (simp_all add: same_client_def)

lemma attempt_requests:
  assumes "download_attempt env name url d = (d', r)"
  shows "dl_config d' = dl_config d \<and> requests d < requests d'
    \<and> requests d' \<le> requests d + Suc (pc_max_throttle_retries (dl_config d))"
proof -
  obtain d1 a where f: "fetch env url d = (d1, a)" by force
  have "dl_config d1 = dl_config d \<and> (\<exists>x. polite_loop (dl_config d) (de_web env url) 0 (dl_client d) = (dl_client d1, x))"
    using f by (auto simp: fetch_def polite_get_def split: prod.splits sum.splits http_answer.splits)
  then have 1: "dl_config d1 = dl_config d" "requests d < requests d1"
    "requests d1 \<le> requests d + Suc (pc_max_throttle_retries (dl_config d))"
    using polite_requests [of "dl_config d" "de_web env url" 0 "dl_client d"] by (auto simp: requests_def)
  have "same_client d1 d'"
  proof (cases "\<exists>code body. a = Inr (code, body) \<and> is_success code")
    case False
    with assms f show ?thesis by (auto simp: download_attempt_def same_client_def split: sum.splits)
  next
    case True
    then obtain code body where a: "a = Inr (code, body)" "is_success code" by blast
    obtain d2 created where c: "fs_op env d1 = (d2, created)" by force
    obtain d3 s where s: "stream_body env name body [] (set_file name (Some []) d2) = (d3, s)" by force
    have "same_client d1 (set_file name (Some []) d2)" using c by (auto simp: fs_op_def set_file_def same_client_def)
    with stream_client [OF s] have d3: "same_client d1 d3" "same_client d1 d2"
      using c by (auto simp: same_client_def fs_op_def)
    have settle: "same_client d3 d4" if "settle_file env name b d3 = (d4, ok)" for b d4 ok
      using that write_client by (auto simp: settle_file_def)
    have settle2: "same_client d3 d5" if "settle_file env name b d3 = (d4, ok)" "settle_file env name b' d4 = (d5, ok')" for b b' d4 d5 ok ok'
      using that write_client unfolding settle_file_def same_client_def by metis
    from assms f a c s d3 settle settle2 show ?thesis
      by (auto simp: download_attempt_def same_client_def split: bool.splits sum.splits prod.splits)
  qed
  with 1 show ?thesis by (simp add: same_client_def requests_def)
qed

lemma attempts_requests:
  assumes "download_attempts env name url ns e d = (d', r)"
  shows "\<exists>k \<le> length ns. (ns \<noteq> [] \<longrightarrow> 0 < k) \<and> dl_sleeps d' = dl_sleeps d @ backoff (take k ns)
    \<and> requests d + k \<le> requests d' \<and> requests d' \<le> requests d + k * Suc (pc_max_throttle_retries (dl_config d))"
  using assms
proof (induction ns arbitrary: e d)
  case Nil
  then show ?case using remove_frame [of d env name] by (auto simp: backoff_def requests_def)
next
  case (Cons n ns)
  define d0 where "d0 = prepare_attempt env name n d"
  have d0: "same_client d d0" "dl_sleeps d0 = dl_sleeps d @ backoff [n]"
    using prepare_frame [of d env name n] remove_frame [of d env name]
    by (auto simp: d0_def prepare_attempt_def Let_def same_client_def backoff_def remove_existing_def set_file_def fs_op_def)
  obtain d1 a where a: "download_attempt env name url d0 = (d1, a)" by force
  have d1: "dl_config d1 = dl_config d" "requests d < requests d1"
    "requests d1 \<le> requests d + Suc (pc_max_throttle_retries (dl_config d))" "dl_sleeps d1 = dl_sleeps d @ backoff [n]"
    using attempt_requests [OF a] attempt_frame [OF a] d0 by (auto simp: same_client_def requests_def)
  show ?case
  proof (cases "\<exists>x. a = TryAgain x")
    case True
    then obtain x where x: "a = TryAgain x" by blast
    with Cons.prems a have "download_attempts env name url ns x d1 = (d', r)" by (simp add: d0_def)
    from Cons.IH [OF this] obtain k where k: "k \<le> length ns" "dl_sleeps d' = dl_sleeps d1 @ backoff (take k ns)"
      "requests d1 + k \<le> requests d'" "requests d' \<le> requests d1 + k * Suc (pc_max_throttle_retries (dl_config d1))" by blast
    have "backoff [n] @ backoff (take k ns) = backoff (take (Suc k) (n # ns))" by (simp add: backoff_def)
    with k d1 show ?thesis by (intro exI [of _ "Suc k"]) auto
  next
    case False
    with Cons.prems a have "same_client d1 d'" "dl_sleeps d' = dl_sleeps d1"
      by (auto simp: d0_def same_client_def record_download_def split: attempt.splits sum.splits)
    with d1 show ?thesis by (intro exI [of _ 1]) (auto simp: same_client_def requests_def)
  qed
qed

text \<open>
  C34: downloading a file takes between one and three attempts: \<open>k\<close> attempts are \<open>k\<close> polite GETs, that is
  \<open>k\<close> requests and no more than the throttle retries of each, with the delays of 2 and 4 seconds before the
  second and the third.  It touches no other file and no other metadata entry; on success the file on
  the disk has the reported size and its metadata the digest of its bytes; on failure the metadata is
  as it was.
\<close>

theorem download_file_bounded:
  "case download_file env f d of (d', r) \<Rightarrow>
     (\<exists>k. 1 \<le> k \<and> k \<le> 3 \<and> dl_sleeps d' = dl_sleeps d @ take (k - 1) [2000, 4000]
        \<and> requests d + k \<le> requests d' \<and> requests d' \<le> requests d + k * Suc (pc_max_throttle_retries (dl_config d)))
     \<and> leaves {base_name (s3_name f)} d d'
     \<and> (case r of
          Inr n \<Rightarrow>
            (case (so_files d' (base_name (s3_name f)), map_of (dl_metadata d') (base_name (s3_name f))) of
               (Some bytes, Some i) \<Rightarrow> n = length bytes \<and> lf_checksum i = se_sha256 env bytes
             | _ \<Rightarrow> False)
        | Inl e \<Rightarrow> dl_metadata d' = dl_metadata d)"
proof -
  obtain d' r where run: "download_file env f d = (d', r)" by force
  note run' = run [unfolded download_file_def]
  have ns: "[1..<Suc max_download_retries] = [1, 2, 3]"
    by (simp add: max_download_retries_def upt_rec)
  obtain k where k: "k \<le> length [1, 2, 3 :: nat]" "0 < k" "dl_sleeps d' = dl_sleeps d @ backoff (take k [1, 2, 3])"
    "requests d + k \<le> requests d'" "requests d' \<le> requests d + k * Suc (pc_max_throttle_retries (dl_config d))"
    using attempts_requests [OF run', unfolded ns] by blast
  then have "k = 1 \<or> k = 2 \<or> k = 3" by auto
  then have "backoff (take k [1, 2, 3]) = take (k - 1) [2000, 4000]"
    by (auto simp: backoff_def retry_base_delay_ms_def)
  with k have "\<exists>k. 1 \<le> k \<and> k \<le> 3 \<and> dl_sleeps d' = dl_sleeps d @ take (k - 1) [2000, 4000]
        \<and> requests d + k \<le> requests d' \<and> requests d' \<le> requests d + k * Suc (pc_max_throttle_retries (dl_config d))"
    by (intro exI [of _ k]) auto
  with attempts_frame [OF run'] show ?thesis
    by (auto simp: run described_def file_at_def split: sum.splits option.splits)
qed

section \<open>The metadata across restarts\<close>

text \<open>
  C35: metadata that was saved is what the next downloader starts with; a save that fails, at whatever
  step, leaves the saved file of before as it was.  A downloader starts unless its client cannot be
  built or the metadata file cannot be read as a string (the disk fails, or the bytes are not
  UTF-8); a file that is readable but does not parse never blocks a start, which then begins with no
  metadata.
\<close>

theorem metadata_round_trip:
  assumes codec: "de_read_metadata env (de_show_metadata env (dl_metadata d)) = Some (dl_metadata d)"
    and utf8: "de_utf8 env (de_show_metadata env (dl_metadata d))"
    and run: "save_metadata env d = (d', r)"
  shows "(case r of
       Inr _ \<Rightarrow>
         (so_files s metadata_name = so_files d' metadata_name \<and> se_ok env (so_ops s) \<and> de_client env \<longrightarrow>
          (case snd (new_with_base_url env dir url s) of Inr n \<Rightarrow> dl_metadata n = dl_metadata d | Inl e \<Rightarrow> False))
     | Inl e \<Rightarrow> so_files d' metadata_name = so_files d metadata_name)
    \<and> (case snd (new_with_base_url env dir url s) of
         Inl e \<Rightarrow> e = ClientFailed \<and> \<not> de_client env
           \<or> e = ReadFailed \<and> (\<exists>b. so_files s metadata_name = Some b \<and> \<not> (se_ok env (so_ops s) \<and> de_utf8 env b))
       | Inr n \<Rightarrow> de_client env
           \<and> (case so_files s metadata_name of
                None \<Rightarrow> dl_metadata n = []
              | Some b \<Rightarrow> se_ok env (so_ops s) \<and> de_utf8 env b
                  \<and> dl_metadata n = (case de_read_metadata env b of Some m \<Rightarrow> m | None \<Rightarrow> [])))"
proof
  have "metadata_name \<noteq> metadata_name @ ''.tmp''" by simp
  with run codec utf8 show "case r of
       Inr _ \<Rightarrow>
         (so_files s metadata_name = so_files d' metadata_name \<and> se_ok env (so_ops s) \<and> de_client env \<longrightarrow>
          (case snd (new_with_base_url env dir url s) of Inr n \<Rightarrow> dl_metadata n = dl_metadata d | Inl e \<Rightarrow> False))
     | Inl e \<Rightarrow> so_files d' metadata_name = so_files d metadata_name"
    by (auto simp: save_metadata_def new_with_base_url_def load_metadata_def Let_def write_contents_def rename_file_def
        fs_op_def set_file_def split: if_splits)
  show "case snd (new_with_base_url env dir url s) of
         Inl e \<Rightarrow> e = ClientFailed \<and> \<not> de_client env
           \<or> e = ReadFailed \<and> (\<exists>b. so_files s metadata_name = Some b \<and> \<not> (se_ok env (so_ops s) \<and> de_utf8 env b))
       | Inr n \<Rightarrow> de_client env
           \<and> (case so_files s metadata_name of
                None \<Rightarrow> dl_metadata n = []
              | Some b \<Rightarrow> se_ok env (so_ops s) \<and> de_utf8 env b
                  \<and> dl_metadata n = (case de_read_metadata env b of Some m \<Rightarrow> m | None \<Rightarrow> []))"
    by (auto simp: new_with_base_url_def load_metadata_def fs_op_def split: option.split)
qed

text \<open>A disk with the file of before, and whatever stands in the metadata file.\<close>

definition toy_disk :: "string option \<Rightarrow> source_state" where
  "toy_disk metadata = \<lparr>so_files = [''discogs_20260101_artists.xml.gz'' \<mapsto> ''old''](metadata_name := metadata), so_ops = 0,
     so_marker = None, so_marker_path = None, so_saved = []\<rparr>"

theorem metadata_round_trip_witness:
  "(case snd (new_with_base_url (toy_env\<lparr>de_read_metadata := (\<lambda>_. Some (dl_metadata toy_downloader))\<rparr>) ''o'' ''u''
      (toy_disk (so_files (fst (save_metadata (toy_env\<lparr>de_read_metadata := (\<lambda>_. Some (dl_metadata toy_downloader))\<rparr>) toy_downloader))
         metadata_name))) of
      Inr n \<Rightarrow> dl_metadata n = dl_metadata toy_downloader | Inl e \<Rightarrow> False)"
proof -
  let ?env = "toy_env\<lparr>de_read_metadata := (\<lambda>_. Some (dl_metadata toy_downloader))\<rparr>"
  obtain d' r where run: "save_metadata ?env toy_downloader = (d', r)" by force
  have codec: "de_read_metadata ?env (de_show_metadata ?env (dl_metadata toy_downloader)) = Some (dl_metadata toy_downloader)" by simp
  have utf8: "de_utf8 ?env (de_show_metadata ?env (dl_metadata toy_downloader))" by (simp add: toy_env_def)
  have ok: "se_ok ?env = (\<lambda>_. True)" "de_client ?env" by (simp_all add: toy_env_def)
  then have "is_ok r"
    using run by (auto simp: save_metadata_def Let_def write_contents_def rename_file_def fs_op_def)
  moreover have "so_files (toy_disk (so_files d' metadata_name)) metadata_name = so_files d' metadata_name"
    by (simp add: toy_disk_def)
  ultimately show ?thesis
    using metadata_round_trip [OF codec utf8 run, of "toy_disk (so_files d' metadata_name)" "''o''" "''u''"] ok
    by (force simp: run is_ok_iff)
qed

end
