(* ===== verification/Local_Manifest.thy ===== *)
theory Local_Manifest
  imports Data_Source
begin

text \<open>
  \<open>src/discogs/local_manifest.rs\<close>: the one-file source an operator selects with a manifest.  The
  manifest is checked, the input is checked against its digest, copied, checked again and installed.
  Resolving paths, the manifest's JSON and the input, which may change under the program, are
  parameters.
\<close>

section \<open>The manifest\<close>

record manifest_input =
  mi_path :: string
  mi_media_type :: string
  mi_sha256 :: string
  mi_data_type :: string
  mi_records :: nat

record smoke_manifest =
  mf_contract :: string
  mf_version :: nat
  mf_scope :: string
  mf_input :: manifest_input

definition contract_name :: string where
  "contract_name = ''groovemap.discogs-extractor-smoke''"

definition contract_version :: nat where
  "contract_version = 1"

text \<open>
  \<open>canonicalize\<close> of the manifest's path and of a name in a directory, the text of a file, the manifest
  in a text, whether a path is a regular file and its length, the input's bytes at the k-th operation,
  and whether the destination is the input itself.
\<close>

record lm_env = source_env +
  le_manifest_path :: "path option"
  le_resolve :: "path \<Rightarrow> string \<Rightarrow> path option"
  le_text :: "path \<Rightarrow> string option"
  le_parse :: "string \<Rightarrow> smoke_manifest option"
  le_metadata :: "path \<Rightarrow> (bool \<times> nat) option"
  le_input :: "path \<Rightarrow> nat \<Rightarrow> string option"
  le_same :: bool

record local_source = source_state +
  ls_source_path :: path
  ls_file_name :: string
  ls_expected_sha256 :: string
  ls_size :: nat

section \<open>Checks\<close>

definition is_lower_hex :: "char \<Rightarrow> bool" where
  "is_lower_hex c \<longleftrightarrow> is_digit c \<or> 97 \<le> byte c \<and> byte c \<le> 102"

definition validate_checksum :: "string \<Rightarrow> source_error + unit" where
  "validate_checksum checksum =
     (if length checksum = 64 \<and> list_all is_lower_hex checksum then Ok () else Err (BadManifest ''sha256''))"

text \<open>\<open>str::split_once\<close> at an underscore.\<close>

definition split_once :: "string \<Rightarrow> (string \<times> string) option" where
  "split_once s = (case split_on (CHR ''_'') s of v # _ # _ \<Rightarrow> Some (v, drop (length v + 1) s) | _ \<Rightarrow> None)"

definition validate_file_name :: "string \<Rightarrow> source_error + data_type" where
  "validate_file_name file_name =
     (case Option.bind (strip_prefix ''discogs_'' file_name) (strip_suffix ''.xml.gz'') of
        None \<Rightarrow> Err (BadManifest ''not a dump'')
      | Some body \<Rightarrow>
          (case split_once body of
             None \<Rightarrow> Err (BadManifest ''no data type'')
           | Some (version, t) \<Rightarrow>
               if length version = 8 \<and> list_all is_digit version
               then (case dt_from_str t of
                   Inl e \<Rightarrow> Err (BadManifest e)
                 | Inr d \<Rightarrow> if d \<in> set discogs_types then Ok d else Err (BadManifest ''data type''))
               else Err (BadManifest ''version'')))"

text \<open>The path has one component, a plain name.\<close>

definition one_name :: "string \<Rightarrow> string option" where
  "one_name p =
     (let pieces = split_on (CHR ''/'') p in
      if hd pieces = [] \<or> hd pieces = ''.'' then None
      else (case filter (\<lambda>c. c \<noteq> [] \<and> c \<noteq> ''.'') pieces of
          [name] \<Rightarrow> if name = ''..'' then None else Some name
        | _ \<Rightarrow> None))"

definition require :: "bool \<Rightarrow> source_error \<Rightarrow> source_error + unit" where
  "require b e = (if b then Ok () else Err e)"

fun get_or :: "source_error \<Rightarrow> 'a option \<Rightarrow> source_error + 'a" where
  "get_or e (Some x) = Ok x"
| "get_or e None = Err e"

lemma get_or_Ok: "get_or e x = Inr y \<longleftrightarrow> x = Some y"
  by (cases x) simp_all

definition validate_manifest :: "smoke_manifest \<Rightarrow> source_error + string" where
  "validate_manifest m =
     and_then (require (mf_contract m = contract_name) (BadManifest ''contract'')) (\<lambda>_.
     and_then (require (mf_version m = contract_version) (BadManifest ''contract version'')) (\<lambda>_.
     and_then (require (mf_scope m = ''single_file'') (BadManifest ''scope'')) (\<lambda>_.
     and_then (require (mi_media_type (mf_input m) = ''application/gzip'') (BadManifest ''media type'')) (\<lambda>_.
     and_then (require (mi_records (mf_input m) > 0) (BadManifest ''records'')) (\<lambda>_.
     and_then (validate_checksum (mi_sha256 (mf_input m))) (\<lambda>_.
     and_then (get_or (BadManifest ''path'') (one_name (mi_path (mf_input m)))) (\<lambda>file_name.
     and_then (validate_file_name file_name) (\<lambda>d.
     and_then (require (dt_str d = mi_data_type (mf_input m)) (BadManifest ''data type'')) (\<lambda>_.
       Ok file_name)))))))))"

section \<open>The source\<close>

text \<open>The digest of the input: opened, then read.\<close>

definition verify_source :: "'e lm_env_scheme \<Rightarrow> local_source \<Rightarrow> local_source \<times> (source_error + unit)" where
  "verify_source env s =
     (case fs_op env s of (s1, opened) \<Rightarrow>
        if \<not> opened then (s1, Err ReadFailed)
        else (case fs_op env s1 of (s2, ok) \<Rightarrow>
          (s2, case le_input env (ls_source_path s) (so_ops s1) of
             Some b \<Rightarrow>
               if \<not> ok then Err ReadFailed
               else if se_sha256 env b = ls_expected_sha256 s then Ok () else Err (BadChecksum (ls_file_name s))
           | None \<Rightarrow> Err ReadFailed)))"

definition new_source :: "source_state \<Rightarrow> path \<Rightarrow> string \<Rightarrow> string \<Rightarrow> nat \<Rightarrow> local_source" where
  "new_source s source_path file_name expected n =
     \<lparr>so_files = so_files s, so_ops = so_ops s, so_marker = None, so_marker_path = None, so_saved = [],
      ls_source_path = source_path, ls_file_name = file_name, ls_expected_sha256 = expected, ls_size = n\<rparr>"

definition from_manifest :: "'e lm_env_scheme \<Rightarrow> source_state \<Rightarrow> source_error + local_source" where
  "from_manifest env s =
     and_then (get_or (BadManifest ''not accessible'') (le_manifest_path env)) (\<lambda>manifest_path.
     and_then (require (manifest_path \<noteq> []) (BadManifest ''no parent'')) (\<lambda>_.
     and_then (get_or (BadManifest ''not readable'') (le_text env manifest_path)) (\<lambda>body.
     and_then (get_or (BadManifest ''not JSON'') (le_parse env body)) (\<lambda>m.
     and_then (validate_manifest m) (\<lambda>file_name.
     and_then (get_or (BadManifest ''no input'') (le_resolve env (butlast manifest_path) (mi_path (mf_input m)))) (\<lambda>source_path.
     and_then (require (source_path \<noteq> [] \<and> butlast source_path = butlast manifest_path) (BadManifest ''outside'')) (\<lambda>_.
     and_then (get_or (BadManifest ''no metadata'') (le_metadata env source_path)) (\<lambda>(is_file, n).
     and_then (require is_file (BadManifest ''not a file'')) (\<lambda>_.
       (case verify_source env (new_source s source_path file_name (mi_sha256 (mf_input m)) n) of
          (s1, r) \<Rightarrow> and_then r (\<lambda>_. Ok s1)))))))))))"

definition temporary_name :: "string \<Rightarrow> string" where
  "temporary_name file_name = ''.'' @ file_name @ ''.local-manifest.tmp''"

text \<open>\<open>fs::copy\<close> of the input as it is then.\<close>

definition copy_source :: "'e lm_env_scheme \<Rightarrow> string \<Rightarrow> local_source \<Rightarrow> local_source \<times> bool" where
  "copy_source env to s =
     (case le_input env (ls_source_path s) (so_ops s) of
        Some b \<Rightarrow> write_contents env to b s
      | None \<Rightarrow> (fst (fs_op env s), False))"

definition install_file :: "'e lm_env_scheme \<Rightarrow> string \<Rightarrow> string \<Rightarrow> local_source \<Rightarrow> local_source \<times> bool" where
  "install_file env from to s =
     (case fs_op env s of (s1, ok) \<Rightarrow> (if ok then set_file to (so_files s from) (set_file from None s1) else s1, ok))"

definition stage_source :: "'e lm_env_scheme \<Rightarrow> local_source \<Rightarrow> local_source \<times> (source_error + unit)" where
  "stage_source env s =
     (let name = ls_file_name s; tmp = temporary_name name in
      case fs_op env s of
        (s1, False) \<Rightarrow> (s1, Err DirFailed)
      | (s1, True) \<Rightarrow>
          (case verify_source env s1 of
             (s2, Inl e) \<Rightarrow> (s2, Err e)
           | (s2, Inr _) \<Rightarrow>
               if le_same env then (s2, Ok ())
               else
                 (case copy_source env tmp s2 of
                    (s3, False) \<Rightarrow> (s3, Err WriteFailed)
                  | (s3, True) \<Rightarrow>
                      (case file_digest env tmp s3 of
                         (s4, Inl e) \<Rightarrow> (s4, Err e)
                       | (s4, Inr staged) \<Rightarrow>
                           if staged \<noteq> ls_expected_sha256 s
                           then (remove_existing env tmp s4, Err (BadChecksum name))
                           else (case install_file env tmp name s4 of
                               (s5, ok) \<Rightarrow> (s5, if ok then Ok () else Err WriteFailed))))))"

section \<open>The interface\<close>

definition local_list :: "'e lm_env_scheme \<Rightarrow> local_source \<Rightarrow> local_source \<times> (source_error + s3_file_info list)" where
  "local_list env s =
     (case verify_source env s of
        (s1, r) \<Rightarrow> (s1, and_then r (\<lambda>_. Ok [\<lparr>s3_name = ls_file_name s, s3_size = ls_size s\<rparr>])))"

definition local_latest :: "local_source \<Rightarrow> s3_file_info list \<Rightarrow> source_error + s3_file_info list" where
  "local_latest s files =
     (case files of
        [f] \<Rightarrow> if s3_name f = ls_file_name s then Ok files else Err (BadManifest ''file list'')
      | _ \<Rightarrow> Err (BadManifest ''file list''))"

text \<open>The whole download phase of the marker at once.\<close>

definition note_staged :: "time \<Rightarrow> local_source \<Rightarrow> state_marker \<Rightarrow> state_marker" where
  "note_staged now s m =
     complete_download now
       (fst (file_bytes_verified (ls_file_name s) (ls_expected_sha256 s)
         (file_downloaded now (ls_file_name s) (ls_size s)
           (start_file_download now (ls_file_name s) (start_download now 1 m)))))"

definition local_download :: "'e lm_env_scheme \<Rightarrow> local_source \<Rightarrow> local_source \<times> (source_error + string list)" where
  "local_download env s =
     (case stage_source env s of
        (s1, Inl e) \<Rightarrow> (s1, Err e)
      | (s1, Inr _) \<Rightarrow>
          (case (so_marker_path s1, so_marker s1) of
             (Some p, Some m) \<Rightarrow>
               (case write_source_marker env (note_staged (se_now env) s1 m) s1 of
                  (s2, ok) \<Rightarrow> (s2, if ok then Ok [ls_file_name s1] else Err WriteFailed))
           | _ \<Rightarrow> (s1, Err NoMarker)))"

section \<open>It is a source of dumps\<close>

definition kept :: "local_source \<Rightarrow> local_source \<Rightarrow> bool" where
  "kept s s' \<longleftrightarrow> so_marker s' = so_marker s \<and> so_marker_path s' = so_marker_path s \<and> so_saved s' = so_saved s
     \<and> ls_file_name s' = ls_file_name s \<and> ls_expected_sha256 s' = ls_expected_sha256 s \<and> ls_source_path s' = ls_source_path s"

lemma kept_trans: "kept s s' \<Longrightarrow> kept s' s'' \<Longrightarrow> kept s s''"
  by (simp add: kept_def)

lemma kept_op: "fs_op env s = (s', ok) \<Longrightarrow> kept s s'"
  by (auto simp: fs_op_def kept_def)

lemma verify_source_ok:
  "verify_source env s = (s', r) \<Longrightarrow> kept s s' \<and> so_files s' = so_files s
    \<and> (r = Ok () \<longrightarrow> (\<exists>k b. le_input env (ls_source_path s) k = Some b \<and> se_sha256 env b = ls_expected_sha256 s))"
  by (auto simp: verify_source_def fs_op_def kept_def split: if_splits option.splits)

lemma copy_source_kept: "copy_source env to s = (s', ok) \<Longrightarrow> kept s s'"
  by (auto simp: copy_source_def write_contents_def set_file_def fs_op_def kept_def split: option.splits)

lemma digest_kept: "file_digest env f s = (s', r) \<Longrightarrow> kept s s' \<and> so_files s' = so_files s
    \<and> (\<forall>c. r = Ok c \<longrightarrow> (\<exists>b. so_files s f = Some b \<and> c = se_sha256 env b))"
  by (auto simp: file_digest_def fs_op_def kept_def split: if_splits option.splits)

lemma remove_kept: "kept s (remove_existing env f s)"
  by (simp add: remove_existing_def set_file_def fs_op_def kept_def)

lemma install_kept: "install_file env f g s = (s', ok) \<Longrightarrow> kept s s' \<and> (ok \<longrightarrow> so_files s' g = so_files s f)"
  by (auto simp: install_file_def set_file_def fs_op_def kept_def)

lemma stage_source_ok:
  assumes "stage_source env s = (s', r)"
  shows "kept s s' \<and> (r = Ok () \<longrightarrow> (if le_same env
      then (\<exists>k b. le_input env (ls_source_path s) k = Some b \<and> se_sha256 env b = ls_expected_sha256 s)
      else (\<exists>b. so_files s' (ls_file_name s) = Some b \<and> se_sha256 env b = ls_expected_sha256 s)))"
proof -
  let ?name = "ls_file_name s" and ?tmp = "temporary_name (ls_file_name s)"
  obtain s1 made where 1: "fs_op env s = (s1, made)" by force
  obtain s2 v where 2: "verify_source env s1 = (s2, v)" by force
  obtain s3 copied where 3: "copy_source env ?tmp s2 = (s3, copied)" by force
  obtain s4 c where 4: "file_digest env ?tmp s3 = (s4, c)" by force
  obtain s5 moved where 5: "install_file env ?tmp ?name s4 = (s5, moved)" by force
  have k: "kept s s1" "kept s s2" "kept s s3" "kept s s4" "kept s s5" "kept s (remove_existing env ?tmp s4)"
    using kept_op [OF 1] verify_source_ok [OF 2] copy_source_kept [OF 3] digest_kept [OF 4] install_kept [OF 5]
      remove_kept [of s4 env ?tmp] by (blast intro: kept_trans)+
  have names: "ls_source_path s1 = ls_source_path s" "ls_expected_sha256 s1 = ls_expected_sha256 s"
    using k(1) by (simp_all add: kept_def)
  note run = assms [unfolded stage_source_def Let_def 1 prod.case 2 3 4 5]
  show ?thesis
  proof (cases "made \<and> v = Ok ()")
    case False
    with run k show ?thesis by (cases made; cases v) auto
  next
    case ok: True
    show ?thesis
    proof (cases "le_same env")
      case True
      with run ok k verify_source_ok [OF 2] names show ?thesis by auto
    next
      case False
      with run ok k digest_kept [OF 4] install_kept [OF 5] show ?thesis
        by (cases copied; cases c; cases moved) (auto split: if_splits)
    qed
  qed
qed

lemma note_staged_steps: "fetch_steps m (note_staged t s m)"
  unfolding note_staged_def by (intro fetch_steps.intros)

lemma local_kept_drives: "kept s s' \<Longrightarrow> drives m s' = drives m s"
  by (simp add: kept_def drives_def)

interpretation local_manifest: data_source "local_download env" for env
proof
  fix m and s :: local_source
  assume d: "drives m s"
  obtain s1 r where st: "stage_source env s = (s1, r)" by force
  then have d1: "drives m s1" using d stage_source_ok [OF st] local_kept_drives by blast
  show "drives m (fst (local_download env s))"
  proof (cases "so_marker s1")
    case None
    with d1 show ?thesis by (simp add: drives_def)
  next
    case (Some m1)
    with d1 have "fetch_steps m (note_staged (se_now env) s1 m1)"
      using note_staged_steps fetch_steps_trans by (fastforce simp: drives_def)
    from drives_write_marker [OF d1 this, of env] d1 st Some show ?thesis
      by (auto simp: local_download_def case_prod_beta split: sum.split option.split)
  qed
qed

section \<open>What is installed\<close>

text \<open>
  C28: when the manifest source reports its file, the bytes in the output directory have the digest of
  the manifest, even when the input was replaced between the check and the copy; with the input already
  in place, it was checked in this call.
\<close>

theorem local_install_exact:
  assumes "local_download env s = (s', Ok names)"
  shows "names = [ls_file_name s]
    \<and> (if le_same env
       then (\<exists>k b. le_input env (ls_source_path s) k = Some b \<and> se_sha256 env b = ls_expected_sha256 s)
       else (\<exists>b. so_files s' (ls_file_name s) = Some b \<and> se_sha256 env b = ls_expected_sha256 s))"
proof -
  obtain s1 r where st: "stage_source env s = (s1, r)" by force
  then obtain m where m: "r = Ok ()" "so_marker s1 = Some m"
    using assms by (cases r) (auto simp: local_download_def split: option.splits)
  then have "names = [ls_file_name s1]" "so_files s' = so_files s1"
    using assms st by (auto simp: local_download_def write_source_marker_def fs_op_def Let_def case_prod_beta split: option.splits if_splits)
  with stage_source_ok [OF st] m show ?thesis by (auto simp: kept_def)
qed

text \<open>The input is replaced after the first check: the copy is refused.  Later it is stable.\<close>

definition swap_env :: "nat \<Rightarrow> lm_env" where
  "swap_env n = \<lparr>se_ok = (\<lambda>_. True), se_torn = (\<lambda>_. []), se_now = 5, se_sha256 = (\<lambda>b. b), le_manifest_path = Some [''m''],
     le_resolve = (\<lambda>_ _. Some [''x'']), le_text = (\<lambda>_. Some []),
     le_parse = (\<lambda>_. Some \<lparr>mf_contract = contract_name, mf_version = 1, mf_scope = ''single_file'',
        mf_input = \<lparr>mi_path = ''discogs_20260101_Labels.xml.gz'', mi_media_type = ''application/gzip'',
          mi_sha256 = replicate 64 (CHR ''a''), mi_data_type = ''labels'', mi_records = 1\<rparr>\<rparr>),
     le_metadata = (\<lambda>_. Some (True, 9)),
     le_input = (\<lambda>_ k. Some (if k < n then replicate 64 (CHR ''a'') else ''other'')), le_same = False\<rparr>"

definition swap_source :: local_source where
  "swap_source = \<lparr>so_files = Map.empty, so_ops = 0, so_marker = Some (sm_new 1 ''v''), so_marker_path = Some [''p''], so_saved = [],
     ls_source_path = [''x''], ls_file_name = ''f'', ls_expected_sha256 = replicate 64 (CHR ''a''), ls_size = 9\<rparr>"

theorem local_install_exact_witness:
  "snd (local_download (swap_env 9) swap_source) = Ok [''f'']
   \<and> so_files (fst (local_download (swap_env 9) swap_source)) ''f'' = Some (replicate 64 (CHR ''a''))
   \<and> snd (local_download (swap_env 3) swap_source) = Err (BadChecksum ''f'')"
proof -
  let ?x = "replicate 64 (CHR ''a'')"
  have "''other'' \<noteq> ?x"
  proof
    assume "''other'' = ?x"
    from arg_cong [OF this, of hd] show False by simp
  qed
  then have ok: "snd (local_download (swap_env 9) swap_source) = Ok [''f'']"
    and bad: "snd (local_download (swap_env 3) swap_source) = Err (BadChecksum ''f'')"
    by (simp_all add: local_download_def stage_source_def verify_source_def copy_source_def write_contents_def file_digest_def
        install_file_def write_source_marker_def remove_existing_def set_file_def fs_op_def swap_env_def swap_source_def temporary_name_def Let_def)
  obtain s' where run: "local_download (swap_env 9) swap_source = (s', Ok [''f''])" using ok by (metis prod.collapse)
  have "\<exists>b. so_files s' ''f'' = Some b \<and> b = ?x"
    using local_install_exact [OF run] by (simp add: swap_env_def swap_source_def)
  with run ok bad show ?thesis by simp
qed

section \<open>What a manifest may name\<close>

lemma not_lowered: "ascii_lower_char c = c \<Longrightarrow> c \<notin> set (ascii_lower t) \<Longrightarrow> c \<notin> set t"
  by (force simp: ascii_lower_def)

lemma validate_file_name_ok:
  assumes "validate_file_name name = Ok d"
  obtains v t where "name = ''discogs_'' @ v @ ''_'' @ t @ ''.xml.gz''" "length v = 8" "list_all is_digit v" "dt_from_str t = Ok d"
proof -
  obtain body where body: "Option.bind (strip_prefix ''discogs_'' name) (strip_suffix ''.xml.gz'') = Some body"
    using assms by (auto simp: validate_file_name_def split: option.splits)
  then have name: "name = ''discogs_'' @ body @ ''.xml.gz''"
    by (auto simp: bind_eq_Some_conv strip_prefix_Some strip_suffix_Some)
  obtain v t where vt: "split_once body = Some (v, t)" "length v = 8" "list_all is_digit v" "dt_from_str t = Ok d"
    using assms by (auto simp: validate_file_name_def body split: option.splits if_splits sum.splits)
  have "body = v @ CHR ''_'' # t" if "split_on (CHR ''_'') body = v # w # ws" "t = drop (length v + 1) body" for w ws
    using that
  proof (induction body arbitrary: v)
    case (Cons c body)
    show ?case
    proof (cases "c = CHR ''_''")
      case True
      with Cons.prems show ?thesis by auto
    next
      case False
      then obtain v' where v': "v = c # v'" "split_on (CHR ''_'') body = v' # w # ws"
        using Cons.prems(1) by (cases "split_on (CHR ''_'') body") auto
      with Cons.IH [of v'] Cons.prems(2) show ?thesis by simp
    qed
  qed simp
  then have "body = v @ CHR ''_'' # t" using vt(1) by (auto simp: split_once_def split: list.splits)
  with name vt(2-4) that show ?thesis by simp
qed

lemma validate_manifest_ok:
  "validate_manifest m = Ok name \<Longrightarrow>
     (\<exists>d. validate_file_name name = Ok d \<and> dt_str d = mi_data_type (mf_input m))
     \<and> validate_checksum (mi_sha256 (mf_input m)) = Ok () \<and> mi_records (mf_input m) > 0"
  by (auto simp: validate_manifest_def require_def and_then_Ok split: if_splits)

lemma digit_plain: "is_digit c \<Longrightarrow> c \<noteq> CHR ''_''"
  by (auto simp: is_digit_def byte_def)

text \<open>
  C36: a manifest that is accepted names one dump file; the readers of the pipeline get from the name the
  eight digits of its version and the data type the manifest declares; the digest is 64 lower-case
  hexadecimal characters, and it was the digest of the input.
\<close>

theorem manifest_accepted:
  assumes "from_manifest env s0 = Ok s"
  shows "\<exists>v d. extract_version_from_filename (ls_file_name s) = Some v \<and> length v = 8 \<and> list_all is_digit v
    \<and> extract_data_type (ls_file_name s) = Some d
    \<and> (\<exists>body manifest. le_parse env body = Some manifest \<and> mi_data_type (mf_input manifest) = dt_str d
        \<and> mi_sha256 (mf_input manifest) = ls_expected_sha256 s)
    \<and> length (ls_expected_sha256 s) = 64 \<and> list_all is_lower_hex (ls_expected_sha256 s)
    \<and> (\<exists>k b. le_input env (ls_source_path s) k = Some b \<and> se_sha256 env b = ls_expected_sha256 s)"
proof -
  obtain body m name path e where 0: "le_parse env body = Some m" "validate_manifest m = Ok name"
    "(case e of (is_file, n) \<Rightarrow> and_then (require is_file (BadManifest ''not a file''))
       (\<lambda>_. case verify_source env (new_source s0 path name (mi_sha256 (mf_input m)) n) of (s1, r) \<Rightarrow> and_then r (\<lambda>_. Ok s1))) = Ok s"
    using assms unfolding from_manifest_def and_then_Ok get_or_Ok by blast
  obtain is_file n where e: "e = (is_file, n)" by force
  obtain s1 r where "verify_source env (new_source s0 path name (mi_sha256 (mf_input m)) n) = (s1, r)" by force
  with 0(3) have 1: "le_parse env body = Some m" "validate_manifest m = Ok name"
    "verify_source env (new_source s0 path name (mi_sha256 (mf_input m)) n) = (s1, Ok ())" "s = s1"
    using 0(1,2) by (auto simp: e and_then_Ok)
  have s: "ls_file_name s = name" "ls_expected_sha256 s = mi_sha256 (mf_input m)"
    "\<exists>k b. le_input env (ls_source_path s) k = Some b \<and> se_sha256 env b = ls_expected_sha256 s"
    using verify_source_ok [OF 1(3)] 1(4) by (auto simp: kept_def new_source_def)
  obtain d where d: "validate_file_name name = Ok d" "dt_str d = mi_data_type (mf_input m)"
    and sum: "validate_checksum (mi_sha256 (mf_input m)) = Ok ()"
    using validate_manifest_ok [OF 1(2)] by blast
  obtain v t where n: "name = ''discogs_'' @ v @ ''_'' @ t @ ''.xml.gz''" "length v = 8" "list_all is_digit v" "dt_from_str t = Ok d"
    using validate_file_name_ok [OF d(1)] by blast
  have "CHR ''_'' \<notin> set (ascii_lower t)" "CHR ''.'' \<notin> set (ascii_lower t)"
    using n(4) unfolding dt_from_str_iff by (cases d; simp)+
  then have t: "list_all (\<lambda>c. c \<noteq> CHR ''_'') t" "list_all (\<lambda>c. c \<noteq> CHR ''.'') t"
    using not_lowered [of "CHR ''_''" t] not_lowered [of "CHR ''.''" t]
    by (auto simp: list_all_iff ascii_lower_char_def byte_def)
  have v: "list_all (\<lambda>c. c \<noteq> CHR ''_'') v" using n(3) digit_plain by (auto simp: list_all_iff)
  have "split_on (CHR ''_'') (''discogs'' @ CHR ''_'' # v @ CHR ''_'' # t @ ''.xml.gz'')
      = ''discogs'' # split_on (CHR ''_'') (v @ CHR ''_'' # t @ ''.xml.gz'')" by (rule split_by_append_delim) auto
  also have "split_on (CHR ''_'') (v @ CHR ''_'' # t @ ''.xml.gz'') = v # split_on (CHR ''_'') (t @ ''.xml.gz'')"
    by (rule split_by_append_delim) (use v in auto)
  also have "split_on (CHR ''_'') (t @ ''.xml.gz'') = [t @ ''.xml.gz'']"
    by (rule split_by_no_delim) (use t(1) in \<open>auto simp: list_all_iff\<close>)
  finally have pieces: "split_on (CHR ''_'') name = [''discogs'', v, t @ ''.xml.gz'']" by (simp add: n(1))
  have "split_on (CHR ''.'') (t @ CHR ''.'' # ''xml.gz'') = t # split_on (CHR ''.'') ''xml.gz''"
    by (rule split_by_append_delim) (use t(2) in auto)
  then have "extract_data_type name = Some d" "extract_version_from_filename name = Some v"
    using n(4) by (simp_all add: extract_data_type_def extract_version_from_filename_def pieces)
  with s n(2,3) d(2) 1(1) sum show ?thesis
    by (auto simp: validate_checksum_def split: if_splits)
qed

text \<open>The spelling of the type in the file name is free.\<close>

theorem manifest_accepted_witness:
  "\<exists>s d. from_manifest (swap_env 9) \<lparr>so_files = Map.empty, so_ops = 0, so_marker = None, so_marker_path = None, so_saved = []\<rparr> = Ok s
    \<and> extract_data_type (ls_file_name s) = Some d \<and> dt_str d = ''labels''"
proof -
  let ?s0 = "\<lparr>so_files = Map.empty, so_ops = 0, so_marker = None, so_marker_path = None, so_saved = []\<rparr>"
  let ?m = "\<lparr>mf_contract = contract_name, mf_version = 1, mf_scope = ''single_file'',
        mf_input = \<lparr>mi_path = ''discogs_20260101_Labels.xml.gz'', mi_media_type = ''application/gzip'',
          mi_sha256 = replicate 64 (CHR ''a''), mi_data_type = ''labels'', mi_records = 1\<rparr>\<rparr>"
  have "validate_manifest ?m = Ok ''discogs_20260101_Labels.xml.gz''" by code_simp
  then have "is_ok (from_manifest (swap_env 9) ?s0)"
    by (simp add: from_manifest_def swap_env_def require_def verify_source_def new_source_def fs_op_def)
  then obtain s where s: "from_manifest (swap_env 9) ?s0 = Ok s" by (auto simp: is_ok_iff)
  have "mi_data_type (mf_input m) = ''labels''" if "le_parse (swap_env 9) body = Some m" for body m
    using that by (auto simp: swap_env_def)
  with manifest_accepted [OF s] s show ?thesis by metis
qed

end
