(* ===== verification/Sourced_Runs.thy ===== *)
theory Sourced_Runs
  imports Run_Liveness Download_Results Local_Manifest
begin

text \<open>
  Whole runs: the pipeline of \<open>src/discogs/mod.rs\<close> on the two sources of dumps, the downloader and the
  local manifest.  What the pipeline's theorems require of a source is proved here of both.
\<close>

section \<open>A run with the downloader\<close>

text \<open>\<open>process_discogs_data\<close> lists with the downloader it then downloads with; \<open>p\<close> is the marker's path.\<close>

definition discogs_env :: "'e dl_env_scheme \<Rightarrow> downloader \<Rightarrow> path \<Rightarrow> 'r pipeline_env \<Rightarrow> 'r pipeline_env" where
  "discogs_env denv d p env =
     (case list_s3_files denv d of
        (d1, listed) \<Rightarrow> env\<lparr>
          pe_latest := (case listed of
              Inl e \<Rightarrow> Err ListFailed
            | Inr files \<Rightarrow> Ok (map s3_name (get_latest_monthly_files files))),
          pe_download := source_run (download_discogs_data denv) p d1\<rparr>)"

definition local_env :: "'e lm_env_scheme \<Rightarrow> local_source \<Rightarrow> path \<Rightarrow> 'r pipeline_env \<Rightarrow> 'r pipeline_env" where
  "local_env lenv s p env =
     (case local_list lenv s of
        (s1, listed) \<Rightarrow> env\<lparr>
          pe_latest := (case and_then listed (local_latest s1) of Inl e \<Rightarrow> Err ListFailed | Inr files \<Rightarrow> Ok (map s3_name files)),
          pe_download := source_run (local_download lenv) p s1\<rparr>)"

lemma discogs_download: "pe_download (discogs_env denv d p env) = source_run (download_discogs_data denv) p (fst (list_s3_files denv d))"
  by (simp add: discogs_env_def case_prod_beta)

lemma local_env_download: "pe_download (local_env lenv s p env) = source_run (local_download lenv) p (fst (local_list lenv s))"
  by (simp add: local_env_def case_prod_beta)

text \<open>
  C3: in a run on the provider's dumps, whatever the web site, the disk, the broker and the shutdown
  signal do, no marker is saved that says the version is complete before every exchange confirmed the
  completion signal, and none that says a file is done before its completion message was confirmed.
  The one exemption is a claim the run inherits (\<open>resumes\<close>): not forced, it resumes this very
  version, and the marker of this version on the disk made the claim already.  Markers of other
  versions, and a forced run's own old marker, exempt nothing.
\<close>

theorem discogs_run_commits:
  assumes "w_log w = []" "process_discogs_data (discogs_env denv d p env) force w = (w', r)"
  shows "ordered version_complete completion_signal
      (resumes version_complete (discogs_env denv d p env) force w) (w_log w')
    \<and> ordered (file_complete f) (file_signal f)
      (resumes (file_complete f) (discogs_env denv d p env) force w) (w_log w')"
proof
  let ?env = "discogs_env denv d p env"
  show "ordered version_complete completion_signal (resumes version_complete ?env force w) (w_log w')"
    by (rule version_commit.run_ordered [OF _ _ assms]) (auto simp: discogs_download discogs_source.keeps_version)
  show "ordered (file_complete f) (file_signal f) (resumes (file_complete f) ?env force w) (w_log w')"
    by (rule file_commit.run_ordered [OF _ _ assms]) (auto simp: discogs_download discogs_source.keeps_file)
qed

text \<open>
  The same of a run on a local manifest.
\<close>

theorem local_run_commits:
  assumes "w_log w = []" "process_discogs_data (local_env lenv s p env) force w = (w', r)"
  shows "ordered version_complete completion_signal (resumes version_complete (local_env lenv s p env) force w) (w_log w')
    \<and> ordered (file_complete f) (file_signal f) (resumes (file_complete f) (local_env lenv s p env) force w) (w_log w')"
proof
  show "ordered version_complete completion_signal (resumes version_complete (local_env lenv s p env) force w) (w_log w')"
    by (rule version_commit.run_ordered [OF _ _ assms]) (auto simp: local_env_download local_manifest.keeps_version)
  show "ordered (file_complete f) (file_signal f) (resumes (file_complete f) (local_env lenv s p env) force w) (w_log w')"
    by (rule file_commit.run_ordered [OF _ _ assms]) (auto simp: local_env_download local_manifest.keeps_file)
qed

section \<open>A healthy run\<close>

lemma healthy_download_stage:
  assumes "healthy_env env" and download: "snd (snd (pe_download env m)) = Ok names" "fst (snd (pe_download env m)) \<noteq> None"
    and files: "list_all (\<lambda>f. contains f ''CHECKSUM'' \<or> healthy_file env f) names"
  shows "snd (download_stage env version m w) = Ok True"
  using assms healthy_process_files [OF assms(1) files]
  by (cases "pe_download env m") (auto simp: download_stage_def Let_def)

text \<open>
  The disk works, a client can be built, the site answers with its listing, and it serves the newest
  version as it published it.
\<close>

definition healthy_provider :: "'e dl_env_scheme \<Rightarrow> string \<Rightarrow> s3_file_info list \<Rightarrow> bool" where
  "healthy_provider denv base available \<longleftrightarrow> healthy_disk denv \<and> de_client denv \<and> healthy_site denv base available
     \<and> list_all (\<lambda>f. is_ok (extract_month denv (s3_name f))) (get_latest_monthly_files available)
     \<and> (\<forall>d. dl_base_url d = base \<longrightarrow>
          list_all (good_file denv base
            (snd (published_checksums denv available (get_latest_monthly_files available) d))) (get_latest_monthly_files available))"

lemma latest_version_id: "f \<in> set (get_latest_monthly_files files) \<Longrightarrow> \<exists>v. file_version_id f = Some v"
proof -
  have sub: "set (first_complete ids) \<subseteq> (\<Union>(v, fs) \<in> set ids. set fs)" for ids
    by (induction ids rule: first_complete.induct) (auto simp: Let_def)
  have wf: "owf (group_files files)" using group_files_exact by blast
  assume "f \<in> set (get_latest_monthly_files files)"
  then obtain v fs where m: "(v, fs) \<in> set (group_files files)" "f \<in> set fs"
    using sub [of "rev (group_files files)"] by (auto simp: get_latest_monthly_files_def)
  then have "map_of (group_files files) v = Some fs" using owf_map_of_iff [OF wf] by blast
  then have "fs = in_version files v" using group_files_exact [of files v] by (auto split: if_splits)
  with m(2) show ?thesis by (auto simp: in_version_def)
qed

lemma latest_name_readable:
  assumes "f \<in> set (get_latest_monthly_files files)"
  shows "\<exists>name v. path_file_name (s3_name f) = Some name \<and> extract_version_from_filename name = Some v"
proof -
  have d: "is_data_file f" using latest_data [of files] assms by (simp add: list_all_iff)
  then have "base_name (s3_name f) \<noteq> ''unknown_file''"
    using data_file_name [OF d] by (auto simp: ends_with_def strip_suffix_Some dest: arg_cong [of _ _ last])
  then obtain name where n: "path_file_name (s3_name f) = Some name" by (auto simp: base_name_def split: option.splits)
  with latest_version_id [OF assms] show ?thesis
    by (auto simp: file_version_id_def extract_version_from_filename_def nth_opt_nth Let_def split: if_splits)
qed

lemma listed_run_completes:
  assumes env: "healthy_env env" and provider: "healthy_provider denv base available"
    and l: "list_s3_files denv d = (d1, Ok available)" "dl_cached d1 = Some available" "dl_base_url d1 = base"
    and files: "list_all (\<lambda>f. healthy_file env (base_name (s3_name f))) (get_latest_monthly_files available)"
  shows "snd (process_discogs_data (discogs_env denv d p env) force w) = Ok True"
proof -
  let ?env = "discogs_env denv d p env"
  define latest where "latest = get_latest_monthly_files available"
  have latest: "pe_latest ?env = Ok (map s3_name latest)" by (simp add: discogs_env_def l(1) latest_def)
  have env': "healthy_env ?env" using env by (auto simp: healthy_env_def discogs_env_def l(1) split: option.splits)
  have "file_parser ?env f dt = file_parser env f dt" "pe_reads ?env = pe_reads env" for f dt
    by (simp_all add: discogs_env_def l(1) file_parser_def)
  then have parse: "parse_stage ?env f dt = parse_stage env f dt" for f dt by (simp add: parse_stage_def split: option.split)
  have "pe_sends ?env = pe_sends env" by (simp add: discogs_env_def l(1))
  then have same: "healthy_file ?env f = healthy_file env f" for f by (simp add: healthy_file_def parse split: option.split)
  have names: "list_all (\<lambda>f. contains f ''CHECKSUM'' \<or> healthy_file ?env f) (map (\<lambda>f. base_name (s3_name f)) latest)"
    using files by (auto simp: same latest_def list_all_iff)
  have stage: "snd (download_stage ?env version m w') = Ok True" for version m w'
  proof (rule healthy_download_stage [OF env' _ _ names])
    let ?d = "set_state_marker m p (d1\<lparr>so_saved := []\<rparr>)"
    have d: "dl_base_url ?d = base" "dl_cached ?d = Some available" "dl_base_url (fst (fs_op denv ?d)) = base"
      using l(2,3) by (simp_all add: set_state_marker_def fs_op_def)
    have "snd (download_discogs_data denv ?d) = Ok (map (\<lambda>f. base_name (s3_name f)) latest)"
      unfolding latest_def
      by (rule healthy_download) (use provider d in \<open>auto simp: healthy_provider_def\<close>)
    then show "snd (snd (pe_download ?env m)) = Ok (map (\<lambda>f. base_name (s3_name f)) latest)"
      by (simp add: discogs_download l(1) source_run_def case_prod_beta)
    show "fst (snd (pe_download ?env m)) \<noteq> None"
      unfolding discogs_download by (rule discogs_source.marker_returned)
  qed
  have version: "snd (process_version ?env force version w') = Ok True" for version w'
    using stage by (simp add: process_version_def Let_def split: processing_decision.split)
  have poll: "poll_shutdown ?env w = (w\<lparr>w_polls := w_polls w + 1\<rparr>, False)"
    using env' by (simp add: poll_shutdown_def healthy_env_def)
  show ?thesis
  proof (cases latest)
    case Nil
    then show ?thesis by (simp add: process_discogs_data_def poll latest Let_def)
  next
    case (Cons f fs)
    then obtain name v where "path_file_name (s3_name f) = Some name" "extract_version_from_filename name = Some v"
      using latest_name_readable [of f available] by (auto simp: latest_def)
    with version show ?thesis by (simp add: process_discogs_data_def poll latest Cons Let_def)
  qed
qed

text \<open>The downloader that starts.\<close>

definition readable_metadata :: "'e dl_env_scheme \<Rightarrow> source_state \<Rightarrow> bool" where
  "readable_metadata denv s \<longleftrightarrow> (case so_files s metadata_name of Some b \<Rightarrow> de_utf8 denv b | None \<Rightarrow> True)"

lemma healthy_new:
  assumes "healthy_provider denv base available" "readable_metadata denv s"
  obtains s1 d where "new_with_base_url denv dir base s = (s1, Ok d)" "dl_base_url d = base" "dl_cached d = None"
proof -
  obtain s1 r where l: "load_metadata denv s = (s1, r)" by force
  then have "is_ok r"
    using assms by (auto simp: load_metadata_def healthy_provider_def healthy_disk_def readable_metadata_def fs_op_def
        split: option.splits if_splits)
  with l assms(1) that show ?thesis
    by (auto simp: new_with_base_url_def is_ok_iff healthy_provider_def)
qed

text \<open>
  C11: end to end, a run completes.  When the disk, the provider and the brokers work, no shutdown is
  requested, a metadata file on the disk is text, and every file of the newest version parses, a
  downloader can be created, and the run with it (listing the site, downloading, parsing, publishing,
  committing) returns true, whatever markers, files and metadata earlier runs left behind.
\<close>

theorem discogs_run_completes:
  assumes env: "healthy_env env" and provider: "healthy_provider denv base available" and readable: "readable_metadata denv s"
    and files: "list_all (\<lambda>f. healthy_file env (base_name (s3_name f))) (get_latest_monthly_files available)"
  shows "case snd (new_with_base_url denv dir base s) of
      Inr d \<Rightarrow> snd (process_discogs_data (discogs_env denv d p env) force w) = Ok True
    | Inl e \<Rightarrow> False"
proof -
  obtain s1 d where d: "new_with_base_url denv dir base s = (s1, Ok d)" "dl_base_url d = base" "dl_cached d = None"
    using healthy_new [OF provider readable] .
  have "healthy_site denv (dl_base_url d) available" using provider d(2) by (simp add: healthy_provider_def)
  from healthy_list [OF this d(3)] d(2) obtain d1 where
    "list_s3_files denv d = (d1, Ok available)" "dl_cached d1 = Some available" "dl_base_url d1 = base" by auto
  from listed_run_completes [OF env provider this files] show ?thesis by (simp add: d(1))
qed

text \<open>The small provider and the small broker.\<close>

lemma toy_provider: "healthy_provider toy_env ''u'' toy_listing"
proof -
  have "list_all (\<lambda>f. is_ok (extract_month toy_env (s3_name f))) toy_data" by code_simp
  with toy_served toy_site show ?thesis
    by (simp add: healthy_provider_def toy_latest toy_published healthy_disk_def) (simp add: toy_env_def)
qed

lemma toy_files: "list_all (\<lambda>f. healthy_file (sample_run (\<lambda>_. fine_broker)) (base_name (s3_name f))) toy_data"
proof -
  let ?env = "sample_run (\<lambda>_. fine_broker)"
  have parse: "list_all (\<lambda>d. is_ok (snd (parse_stage ?env ''f'' d))) discogs_types" by code_simp
  have types: "list_all (\<lambda>f. extract_data_type (base_name (s3_name f)) \<noteq> None) toy_data" by code_simp
  have same: "parse_stage ?env f d = parse_stage ?env ''f'' d" for f d by (simp add: parse_stage_def file_parser_def sample_run_def)
  have ok: "is_ok (snd (parse_stage ?env f d))" for f d
    using parse unfolding same [of f] by (cases d) (simp_all add: discogs_types_def)
  have sends: "ss_validator (pe_sends ?env f) = (\<lambda>_. True)" "ss_batcher (pe_sends ?env f) = (\<lambda>_. True)" for f
    by (simp_all add: sample_run_def)
  show ?thesis
    using types unfolding healthy_file_def list_all_iff by (auto simp: ok sends split: option.split)
qed

lemma toy_brokers: "healthy_env (sample_run (\<lambda>_. fine_broker))"
  by (simp add: healthy_env_def sample_run_def sample_broker)

text \<open>The disk holds a file of before, and metadata that does not parse.\<close>

theorem discogs_run_completes_witness:
  "case snd (new_with_base_url toy_env ''o'' ''u'' (toy_disk (Some ''{''))) of
     Inr d \<Rightarrow> snd (process_discogs_data (discogs_env toy_env d [''m''] (sample_run (\<lambda>_. fine_broker))) False fresh_world) = Ok True
   | Inl e \<Rightarrow> False"
proof -
  have readable: "readable_metadata toy_env (toy_disk (Some ''{''))"
    by (simp add: readable_metadata_def toy_disk_def toy_env_def)
  show ?thesis
    by (rule discogs_run_completes [OF toy_brokers toy_provider readable]) (simp add: toy_latest toy_files)
qed

text \<open>A disk with the complete marker of the month before.\<close>

definition steady_world :: world where
  "steady_world = fresh_world\<lparr>w_disk := [file_path [''r''] ''20251201'' \<mapsto> complete_extraction (sm_new 1 ''20251201'')]\<rparr>"

lemma steady_complete: "map_option version_complete (w_disk steady_world (file_path [''r''] ''20251201'')) = Some True"
  by code_simp

theorem discogs_run_commits_witness:
  "ordered version_complete completion_signal False
     (w_log (fst (process_discogs_data (discogs_env toy_env toy_downloader [''m''] (sample_run (\<lambda>_. fine_broker))) False steady_world)))"
proof -
  let ?env = "discogs_env toy_env toy_downloader [''m''] (sample_run (\<lambda>_. fine_broker))"
  have "list_s3_files toy_env toy_downloader = (toy_downloader, Ok toy_listing)"
    by (simp add: list_s3_files_def toy_downloader_def)
  then have latest: "pe_latest ?env = Ok (map s3_name toy_data)" and root: "pe_discogs_root ?env = pe_discogs_root (sample_run (\<lambda>_. fine_broker))"
    by (simp_all add: discogs_env_def toy_latest)
  have "run_version ?env = Some ''20260101''"
    unfolding run_version_def latest by code_simp
  moreover have "w_disk steady_world (file_path (pe_discogs_root (sample_run (\<lambda>_. fine_broker))) ''20260101'') = None" by code_simp
  ultimately have none: "resumes version_complete ?env False steady_world = False"
    unfolding resumes_def root by simp
  have "w_log steady_world = []" by (simp add: steady_world_def fresh_world_def)
  with discogs_run_commits [OF _ surjective_pairing, of steady_world toy_env toy_downloader "[''m'']" "sample_run (\<lambda>_. fine_broker)" False]
  show ?thesis unfolding none by blast
qed

theorem local_run_commits_witness:
  "ordered (file_complete ''f'') (file_signal ''f'') False
     (w_log (fst (process_discogs_data (local_env (swap_env 30) swap_source [''m''] (sample_run (\<lambda>_. fine_broker))) True fresh_world)))"
proof -
  let ?env = "local_env (swap_env 30) swap_source [''m''] (sample_run (\<lambda>_. fine_broker))"
  have "w_log fresh_world = []" "resumes (file_complete ''f'') ?env True fresh_world = False"
    by (simp_all add: fresh_world_def resumes_def)
  with local_run_commits [OF _ surjective_pairing, of fresh_world "swap_env 30" swap_source "[''m'']" "sample_run (\<lambda>_. fine_broker)" True "''f''"]
  show ?thesis by metis
qed

end
