(* ===== verification/Marker_Store.thy ===== *)
theory Marker_Store
  imports Run_Guarantees
begin

text \<open>
  \<open>src/state_marker.rs\<close>, \<open>load\<close> and \<open>save\<close>, on a file system that can lose power: what processes see,
  and what stable storage may hold.  Contents that were not synced may survive as anything; a
  directory entry that was not synced may survive in any of the forms it had.
\<close>

section \<open>The file system\<close>

text \<open>Names to inodes as processes see them, the entries storage may hold, contents, and which are synced.\<close>

record crash_fs =
  cf_names :: "string \<Rightarrow> nat option"
  cf_disk :: "string \<Rightarrow> nat option set"
  cf_data :: "nat \<Rightarrow> string"
  cf_synced :: "nat \<Rightarrow> bool"
  cf_next :: nat

definition fs_read :: "crash_fs \<Rightarrow> string \<Rightarrow> string option" where
  "fs_read fs p = map_option (cf_data fs) (cf_names fs p)"

text \<open>What a reader may find after a crash.\<close>

definition may_survive :: "crash_fs \<Rightarrow> string \<Rightarrow> string option \<Rightarrow> bool" where
  "may_survive fs p c \<longleftrightarrow>
     (\<exists>e \<in> cf_disk fs p. case e of
        None \<Rightarrow> c = None
      | Some i \<Rightarrow> (case c of None \<Rightarrow> False | Some s \<Rightarrow> cf_synced fs i \<longrightarrow> s = cf_data fs i))"

definition set_entry :: "string \<Rightarrow> nat option \<Rightarrow> crash_fs \<Rightarrow> crash_fs" where
  "set_entry p e fs = fs\<lparr>cf_names := (cf_names fs)(p := e), cf_disk := (cf_disk fs)(p := insert e (cf_disk fs p))\<rparr>"

definition set_data :: "nat \<Rightarrow> string \<Rightarrow> crash_fs \<Rightarrow> crash_fs" where
  "set_data i s fs = fs\<lparr>cf_data := (cf_data fs)(i := s), cf_synced := (cf_synced fs)(i := False)\<rparr>"

text \<open>\<open>File::create\<close>: an existing file is truncated in place.\<close>

definition fs_create :: "string \<Rightarrow> crash_fs \<Rightarrow> crash_fs \<times> nat" where
  "fs_create p fs =
     (case cf_names fs p of
        Some i \<Rightarrow> (set_data i [] fs, i)
      | None \<Rightarrow> (let i = cf_next fs in (set_data i [] (set_entry p (Some i) (fs\<lparr>cf_next := i + 1\<rparr>)), i)))"

definition fs_sync :: "nat \<Rightarrow> crash_fs \<Rightarrow> crash_fs" where
  "fs_sync i fs = fs\<lparr>cf_synced := (cf_synced fs)(i := True)\<rparr>"

definition fs_rename :: "string \<Rightarrow> string \<Rightarrow> crash_fs \<Rightarrow> crash_fs" where
  "fs_rename from to fs = set_entry from None (set_entry to (cf_names fs from) fs)"

definition fs_sync_dir :: "crash_fs \<Rightarrow> crash_fs" where
  "fs_sync_dir fs = fs\<lparr>cf_disk := (\<lambda>p. {cf_names fs p})\<rparr>"

section \<open>Saving and loading\<close>

text \<open>
  Which of the six system calls of a save succeed, what a failed write leaves behind, and the JSON
  codec of the marker.
\<close>

record save_calls =
  sc_create :: bool
  sc_write :: bool
  sc_torn :: string
  sc_sync :: bool
  sc_rename :: bool
  sc_open_dir :: bool
  sc_sync_dir :: bool

record marker_codec =
  mc_show :: "state_marker \<Rightarrow> string"
  mc_read :: "string \<Rightarrow> state_marker option"

text \<open>The extension \<open>json\<close> of the path becomes \<open>json.tmp\<close>.\<close>

definition marker_tmp :: "string \<Rightarrow> string" where
  "marker_tmp p = p @ ''.tmp''"

text \<open>The states a save passes through, and its result; what it found is not among them.\<close>

definition save_states :: "save_calls \<Rightarrow> string \<Rightarrow> string \<Rightarrow> crash_fs \<Rightarrow> crash_fs list \<times> (pipeline_error + unit)" where
  "save_states calls p json fs =
     (if \<not> sc_create calls then ([fs], Err SaveFailed)
      else
        (let (fs1, i) = fs_create (marker_tmp p) fs; torn = set_data i (sc_torn calls) fs1 in
         if \<not> sc_write calls then ([fs1, torn], Err SaveFailed)
         else
           (let fs2 = set_data i json fs1 in
            if \<not> sc_sync calls then ([fs1, torn, fs2], Err SaveFailed)
            else
              (let fs3 = fs_sync i fs2 in
               if \<not> sc_rename calls then ([fs1, torn, fs2, fs3], Err SaveFailed)
               else
                 (let fs4 = fs_rename (marker_tmp p) p fs3 in
                  if sc_open_dir calls \<and> sc_sync_dir calls
                  then ([fs1, torn, fs2, fs3, fs4, fs_sync_dir fs4], Ok ())
                  else ([fs1, torn, fs2, fs3, fs4], Ok ()))))))"

definition store_marker ::
  "marker_codec \<Rightarrow> save_calls \<Rightarrow> time \<Rightarrow> string \<Rightarrow> state_marker \<Rightarrow> crash_fs
    \<Rightarrow> state_marker \<times> crash_fs list \<times> (pipeline_error + unit)" where
  "store_marker codec calls now p m fs = (let m1 = stamp now m in (m1, save_states calls p (mc_show codec m1) fs))"

text \<open>Missing, unreadable or unparsable means no marker.\<close>

definition read_marker :: "marker_codec \<Rightarrow> bool \<Rightarrow> string option \<Rightarrow> state_marker option" where
  "read_marker codec readable contents = (if readable then Option.bind contents (mc_read codec) else None)"

section \<open>One save\<close>

text \<open>Inodes in use are below the next one, and the temporary file is not the marker.\<close>

definition fs_ok :: "string \<Rightarrow> crash_fs \<Rightarrow> bool" where
  "fs_ok p fs \<longleftrightarrow>
     cf_names fs p \<in> cf_disk fs p
     \<and> (\<forall>q i. cf_names fs q = Some i \<or> Some i \<in> cf_disk fs q \<longrightarrow> i < cf_next fs)
     \<and> (\<forall>i. cf_names fs (marker_tmp p) = Some i \<longrightarrow> Some i \<notin> cf_disk fs p)"

lemma marker_tmp_other [simp]: "marker_tmp p \<noteq> p" "p \<noteq> marker_tmp p"
  by (simp_all add: marker_tmp_def)

text \<open>Before the rename nothing about the marker changes; after it the new contents are possible too.\<close>

definition unchanged :: "string \<Rightarrow> crash_fs \<Rightarrow> crash_fs \<Rightarrow> bool" where
  "unchanged p fs fs' \<longleftrightarrow> fs_ok p fs' \<and> (\<forall>c. may_survive fs' p c = may_survive fs p c) \<and> fs_read fs' p = fs_read fs p"

definition renamed :: "string \<Rightarrow> string \<Rightarrow> crash_fs \<Rightarrow> crash_fs \<Rightarrow> bool" where
  "renamed p json fs fs' \<longleftrightarrow> fs_ok p fs' \<and> (\<forall>c. may_survive fs' p c \<longrightarrow> may_survive fs p c \<or> c = Some json)
     \<and> fs_read fs' p = Some json"

text \<open>A new inode behind the temporary name.\<close>

definition staged :: "string \<Rightarrow> nat \<Rightarrow> crash_fs \<Rightarrow> crash_fs \<Rightarrow> bool" where
  "staged p i fs fs' \<longleftrightarrow> fs_ok p fs' \<and> cf_names fs' (marker_tmp p) = Some i \<and> cf_names fs' p = cf_names fs p
     \<and> cf_disk fs' p = cf_disk fs p \<and> Some i \<notin> cf_disk fs p
     \<and> (\<forall>j. Some j \<in> cf_disk fs p \<longrightarrow> cf_data fs' j = cf_data fs j \<and> cf_synced fs' j = cf_synced fs j)"

lemma staged_unchanged:
  assumes "fs_ok p fs" "staged p i fs fs'"
  shows "unchanged p fs fs'"
proof -
  have d: "cf_disk fs' p = cf_disk fs p" "cf_names fs' p = cf_names fs p"
    and k: "Some j \<in> cf_disk fs p \<Longrightarrow> cf_data fs' j = cf_data fs j \<and> cf_synced fs' j = cf_synced fs j" for j
    using assms(2) unfolding staged_def by blast+
  have e: "(case e of None \<Rightarrow> c = None | Some i \<Rightarrow> case c of None \<Rightarrow> False | Some s \<Rightarrow> cf_synced fs' i \<longrightarrow> s = cf_data fs' i)
      = (case e of None \<Rightarrow> c = None | Some i \<Rightarrow> case c of None \<Rightarrow> False | Some s \<Rightarrow> cf_synced fs i \<longrightarrow> s = cf_data fs i)"
    if "e \<in> cf_disk fs p" for e c
    using that k by (cases e; cases c) simp_all
  have "may_survive fs' p c = may_survive fs p c" for c
    unfolding may_survive_def d(1) by (rule bex_cong [OF refl e])
  moreover have "cf_names fs p \<in> cf_disk fs p" using assms(1) by (simp add: fs_ok_def)
  then have "fs_read fs' p = fs_read fs p" using k by (cases "cf_names fs p") (simp_all add: fs_read_def d(2))
  ultimately show ?thesis using assms(2) by (simp add: unchanged_def staged_def)
qed

lemma staged_create:
  assumes "fs_ok p fs" "fs_create (marker_tmp p) fs = (fs1, i)"
  shows "staged p i fs fs1"
proof (cases "cf_names fs (marker_tmp p)")
  case None
  define fs' where "fs' = set_data (cf_next fs) [] (set_entry (marker_tmp p) (Some (cf_next fs)) (fs\<lparr>cf_next := cf_next fs + 1\<rparr>))"
  have r: "fs1 = fs'" "i = cf_next fs" using assms(2) None by (auto simp: fs_create_def fs'_def Let_def)
  have f: "cf_names fs' = (cf_names fs)(marker_tmp p := Some i)" "cf_next fs' = Suc i"
    "cf_disk fs' = (cf_disk fs)(marker_tmp p := insert (Some i) (cf_disk fs (marker_tmp p)))"
    "cf_data fs' = (cf_data fs)(i := [])" "cf_synced fs' = (cf_synced fs)(i := False)"
    by (simp_all add: fs'_def set_data_def set_entry_def r(2))
  have small: "cf_names fs q = Some j \<Longrightarrow> j < i" "Some j \<in> cf_disk fs q \<Longrightarrow> j < i" for q j
    using assms(1) by (auto simp: fs_ok_def r(2))
  then have fresh: "Some i \<notin> cf_disk fs p" by blast
  have "fs_ok p fs'"
    using assms(1) fresh unfolding fs_ok_def f by (auto split: if_splits dest: small intro: less_SucI)
  moreover have "cf_data fs' j = cf_data fs j \<and> cf_synced fs' j = cf_synced fs j" if "Some j \<in> cf_disk fs p" for j
    using small(2) [OF that] by (simp add: f)
  ultimately show ?thesis using fresh unfolding r(1) staged_def by (simp add: f)
next
  case (Some j)
  with assms show ?thesis by (auto simp: fs_create_def staged_def fs_ok_def set_data_def split: if_splits)
qed

lemma staged_data: "staged p i fs fs' \<Longrightarrow> staged p i fs (set_data i s fs')"
  by (auto simp: staged_def fs_ok_def set_data_def)

lemma staged_sync: "staged p i fs fs' \<Longrightarrow> staged p i fs (fs_sync i fs')"
  by (auto simp: staged_def fs_ok_def fs_sync_def)

lemma staged_rename:
  assumes "fs_ok p fs" "staged p i fs fs3" "cf_data fs3 i = json" "cf_synced fs3 i"
  shows "renamed p json fs (fs_rename (marker_tmp p) p fs3)"
proof -
  let ?fs = "fs_rename (marker_tmp p) p fs3"
  have ok: "fs_ok p ?fs" using assms(2) by (auto simp: staged_def fs_ok_def fs_rename_def set_entry_def split: if_splits)
  have "may_survive fs p c \<or> c = Some json" if "may_survive ?fs p c" for c
  proof -
    have "cf_disk ?fs p = insert (Some i) (cf_disk fs p)" "cf_data ?fs = cf_data fs3" "cf_synced ?fs = cf_synced fs3"
      using assms(2) by (auto simp: staged_def fs_rename_def set_entry_def)
    with that assms(2-4) show ?thesis
      by (auto simp: may_survive_def staged_def split: option.splits)
  qed
  moreover have "fs_read ?fs p = Some json" using assms(2,3) by (simp add: fs_read_def fs_rename_def set_entry_def staged_def)
  ultimately show ?thesis using ok by (simp add: renamed_def)
qed

lemma synced_dir:
  assumes "renamed p json fs fs4" "cf_names fs4 p = Some i" "cf_synced fs4 i"
  shows "renamed p json fs (fs_sync_dir fs4)" "may_survive (fs_sync_dir fs4) p c \<Longrightarrow> c = Some json"
  using assms by (auto simp: renamed_def fs_ok_def fs_sync_dir_def may_survive_def fs_read_def split: option.splits)

text \<open>Every state of a save is before or after the rename, and the result says which the last one is.\<close>

lemma save_states_cases:
  assumes ok: "fs_ok p fs" and run: "save_states calls p json fs = (sts, r)"
  shows "sts \<noteq> [] \<and> list_all (\<lambda>st. unchanged p fs st \<or> renamed p json fs st) sts
    \<and> (case r of Inr u \<Rightarrow> renamed p json fs (last sts) | Inl e \<Rightarrow> unchanged p fs (last sts))
    \<and> (is_ok r \<and> sc_open_dir calls \<and> sc_sync_dir calls \<longrightarrow> (\<forall>c. may_survive (last sts) p c \<longrightarrow> c = Some json))
    \<and> (is_ok r \<and> \<not> sc_sync_dir calls \<longrightarrow> cf_disk fs p \<subseteq> cf_disk (last sts) p
        \<and> (\<forall>j. Some j \<in> cf_disk fs p \<longrightarrow> cf_data (last sts) j = cf_data fs j \<and> cf_synced (last sts) j = cf_synced fs j))"
proof -
  obtain fs1 i where c: "fs_create (marker_tmp p) fs = (fs1, i)" by force
  define torn where "torn = set_data i (sc_torn calls) fs1"
  define fs2 where "fs2 = set_data i json fs1"
  define fs3 where "fs3 = fs_sync i fs2"
  define fs4 where "fs4 = fs_rename (marker_tmp p) p fs3"
  have st: "staged p i fs fs1" "staged p i fs torn" "staged p i fs fs2" "staged p i fs fs3"
    using staged_create [OF ok c] by (simp_all add: torn_def fs2_def fs3_def staged_data staged_sync)
  note un = this [THEN staged_unchanged [OF ok]]
  have self: "unchanged p fs fs" using ok by (simp add: unchanged_def)
  have "cf_data fs3 i = json" "cf_synced fs3 i" by (simp_all add: fs3_def fs2_def fs_sync_def set_data_def)
  note re = staged_rename [OF ok st(4) this, folded fs4_def]
  have at: "cf_names fs4 p = Some i" "cf_synced fs4 i"
    using st(4) by (simp_all add: fs4_def fs3_def fs_rename_def set_entry_def fs_sync_def staged_def)
  note dir = synced_dir [OF re at]
  have old: "cf_disk fs p \<subseteq> cf_disk fs4 p"
    "Some j \<in> cf_disk fs p \<Longrightarrow> cf_data fs4 j = cf_data fs j \<and> cf_synced fs4 j = cf_synced fs j" for j
    using st(4) by (auto simp: fs4_def fs_rename_def set_entry_def staged_def)
  note defs = torn_def [symmetric] fs2_def [symmetric] fs3_def [symmetric] fs4_def [symmetric]
  from run show ?thesis
    unfolding save_states_def c Let_def prod.case defs
    using self un re dir old by (auto split: if_splits)
qed

text \<open>
  C29: saving refines the pipeline's view of the disk: to a process, a save that succeeds replaces the
  marker by the stamped one and a save that fails, at whatever call, leaves it as it was; and a save
  whose directory entry was synced survives a crash, as that marker and nothing else.
\<close>

theorem save_refines:
  assumes disk: "fs_ok p fs" and codec: "mc_read codec (mc_show codec (stamp (pe_now env) (w_marker w))) = Some (stamp (pe_now env) (w_marker w))"
    and same: "w_disk w (w_path w) = read_marker codec True (fs_read fs p)"
    and store: "store_marker codec calls (pe_now env) p (w_marker w) fs = (m, sts, r)"
    and save: "save_marker env w = (w', r')" and outcome: "pe_save_ok env (w_saves w) = is_ok r"
  shows "r' = r \<and> w_marker w' = m \<and> w_disk w' (w_path w') = read_marker codec True (fs_read (last sts) p) \<and> fs_ok p (last sts)
    \<and> (if is_ok r \<and> sc_open_dir calls \<and> sc_sync_dir calls
       then {read_marker codec True c | c. may_survive (last sts) p c} \<subseteq> {Some m} else True)"
proof -
  have m: "m = stamp (pe_now env) (w_marker w)"
    and run: "save_states calls p (mc_show codec m) fs = (sts, r)" using store by (auto simp: store_marker_def Let_def)
  have errs: "r = Ok () \<or> r = Err SaveFailed"
    using run by (auto simp: save_states_def Let_def split: if_splits prod.splits)
  note c = save_states_cases [OF disk run]
  have durable: "is_ok r \<and> sc_open_dir calls \<and> sc_sync_dir calls \<Longrightarrow> {read_marker codec True c | c. may_survive (last sts) p c} \<subseteq> {Some m}"
    using c codec by (auto simp: read_marker_def m)
  from errs show ?thesis
  proof
    assume r: "r = Ok ()"
    with c codec have "read_marker codec True (fs_read (last sts) p) = Some m" "fs_ok p (last sts)"
      by (simp_all add: renamed_def read_marker_def m)
    with r save outcome durable show ?thesis
      by (auto simp: save_marker_def write_marker_def on_marker_def note_event_def Let_def m)
  next
    assume r: "r = Err SaveFailed"
    with c have "fs_read (last sts) p = fs_read fs p" "fs_ok p (last sts)" by (simp_all add: unchanged_def)
    with r save outcome same show ?thesis
      by (auto simp: save_marker_def write_marker_def on_marker_def Let_def m)
  qed
qed

section \<open>Any number of saves, and a crash\<close>

text \<open>All the states of a sequence of saves of one marker file, failed ones among them.\<close>

fun save_all :: "marker_codec \<Rightarrow> string \<Rightarrow> (save_calls \<times> time \<times> state_marker) list \<Rightarrow> crash_fs \<Rightarrow> crash_fs list" where
  "save_all codec p [] fs = [fs]"
| "save_all codec p ((calls, t, m) # ss) fs =
     (case store_marker codec calls t p m fs of (m1, sts, r) \<Rightarrow> fs # sts @ save_all codec p ss (last sts))"

lemma save_all_survivors:
  "fs_ok p fs \<Longrightarrow> st \<in> set (save_all codec p ss fs) \<Longrightarrow> may_survive st p c \<Longrightarrow>
     may_survive fs p c \<or> (\<exists>(calls, t, m) \<in> set ss. c = Some (mc_show codec (stamp t m)))"
proof (induction ss arbitrary: fs)
  case (Cons s ss)
  obtain calls t m where s: "s = (calls, t, m)" by (cases s)
  define json where "json = mc_show codec (stamp t m)"
  obtain sts r where run: "save_states calls p json fs = (sts, r)" by force
  note cs = save_states_cases [OF Cons.prems(1) run]
  have step: "may_survive fs p c \<or> c = Some json" if "st' \<in> set sts" "may_survive st' p c" for st' c
    using cs that by (auto simp: list_all_iff unchanged_def renamed_def)
  have "last sts \<in> set sts" "fs_ok p (last sts)"
    using cs by (auto simp: unchanged_def renamed_def split: sum.splits)
  note ih = Cons.IH [OF this(2)]
  consider "st = fs" | "st \<in> set sts" | "st \<in> set (save_all codec p ss (last sts))"
    using Cons.prems(2) run by (auto simp: s store_marker_def Let_def json_def)
  then show ?case
  proof cases
    case 2
    with step Cons.prems(3) show ?thesis by (auto simp: s json_def)
  next
    case 3
    with ih Cons.prems(3) step [OF \<open>last sts \<in> set sts\<close>] show ?thesis by (auto simp: s json_def)
  qed (use Cons.prems(3) in simp)
qed auto

text \<open>
  C7: a marker is never torn by a crash.  Whatever calls of however many saves fail, and wherever among
  them the power is lost, what is loaded afterwards is the marker of before the saves or one of those
  saved, complete; it is never unreadable, which would mean a fresh start.
\<close>

theorem crash_keeps_a_marker:
  assumes "fs_ok p fs"
    and "\<And>c. may_survive fs p c \<Longrightarrow> read_marker codec True c = old"
    and "list_all (\<lambda>(calls, t, m). mc_read codec (mc_show codec (stamp t m)) = Some (stamp t m)) ss"
    and "st \<in> set (save_all codec p ss fs)" "may_survive st p c"
  shows "read_marker codec True c \<in> insert old ((\<lambda>(calls, t, m). Some (stamp t m)) ` set ss)"
proof (cases "may_survive fs p c")
  case True
  with assms(2) show ?thesis by simp
next
  case False
  then obtain calls t m where m: "(calls, t, m) \<in> set ss" "c = Some (mc_show codec (stamp t m))"
    using save_all_survivors [OF assms(1,4,5)] by auto
  with assms(3) have "read_marker codec True c = Some (stamp t m)" by (auto simp: read_marker_def list_all_iff)
  moreover have "(\<lambda>(calls, t, m). Some (stamp t m)) (calls, t, m) \<in> (\<lambda>(calls, t, m). Some (stamp t m)) ` set ss"
    using m(1) by (rule imageI)
  ultimately show ?thesis by simp
qed

text \<open>A fresh disk, a good save, and one whose write is torn.\<close>

definition no_files :: crash_fs where
  "no_files = \<lparr>cf_names = Map.empty, cf_disk = (\<lambda>_. {None}), cf_data = (\<lambda>_. []), cf_synced = (\<lambda>_. False), cf_next = 0\<rparr>"

definition all_calls :: save_calls where
  "all_calls = \<lparr>sc_create = True, sc_write = True, sc_torn = ''{'', sc_sync = True, sc_rename = True, sc_open_dir = True,
     sc_sync_dir = True\<rparr>"

definition small_codec :: marker_codec where
  "small_codec = \<lparr>mc_show = (\<lambda>m. sm_current_version m),
     mc_read = (\<lambda>s. if s = ''1'' then Some (stamp 9 (sm_new 0 ''1'')) else if s = ''2'' then Some (stamp 9 (sm_new 0 ''2'')) else None)\<rparr>"

lemma no_files_ok: "fs_ok p no_files"
  by (simp add: fs_ok_def no_files_def)

lemma small_codec_ok:
  "mc_read small_codec (mc_show small_codec (stamp 9 (sm_new 0 ''1''))) = Some (stamp 9 (sm_new 0 ''1''))"
  "mc_read small_codec (mc_show small_codec (stamp 9 (sm_new 0 ''2''))) = Some (stamp 9 (sm_new 0 ''2''))"
  by (simp_all add: small_codec_def stamp_def sm_new_def)

theorem crash_keeps_a_marker_witness:
  "read_marker small_codec True (fs_read (last (save_all small_codec ''m''
      [(all_calls, 9, sm_new 0 ''1''), (all_calls\<lparr>sc_write := False\<rparr>, 9, sm_new 0 ''2'')] no_files)) ''m'')
    \<in> {None, Some (stamp 9 (sm_new 0 ''1'')), Some (stamp 9 (sm_new 0 ''2''))}"
proof -
  let ?ss = "[(all_calls, 9, sm_new 0 ''1''), (all_calls\<lparr>sc_write := False\<rparr>, 9, sm_new 0 ''2'')]"
  let ?st = "last (save_all small_codec ''m'' ?ss no_files)"
  have st: "?st \<in> set (save_all small_codec ''m'' ?ss no_files)"
    by (rule last_in_set) (simp add: case_prod_beta)
  have old: "may_survive no_files ''m'' c \<Longrightarrow> read_marker small_codec True c = None" for c
    by (simp add: may_survive_def no_files_def read_marker_def)
  have codec: "list_all (\<lambda>(calls, t, m). mc_read small_codec (mc_show small_codec (stamp t m)) = Some (stamp t m)) ?ss"
    by (simp add: small_codec_ok)
  have "may_survive ?st ''m'' (fs_read ?st ''m'')"
    by (simp add: save_all.simps store_marker_def save_states_def all_calls_def fs_create_def fs_sync_def fs_rename_def fs_sync_dir_def
        set_entry_def set_data_def no_files_def marker_tmp_def may_survive_def fs_read_def Let_def)
  from crash_keeps_a_marker [OF no_files_ok old codec st this] show ?thesis by simp
qed

theorem save_refines_witness:
  "(let w = fresh_world\<lparr>w_marker := sm_new 0 ''1'', w_path := [''m'']\<rparr>; env = sample_run (\<lambda>_. fine_broker) in
    w_disk (fst (save_marker env w)) [''m'']
      = read_marker small_codec True (fs_read (last (fst (snd (store_marker small_codec all_calls 9 ''m'' (w_marker w) no_files)))) ''m''))"
proof -
  let ?w = "fresh_world\<lparr>w_marker := sm_new 0 ''1'', w_path := [''m'']\<rparr>" and ?env = "sample_run (\<lambda>_. fine_broker)"
  obtain m sts r where store: "store_marker small_codec all_calls 9 ''m'' (w_marker ?w) no_files = (m, sts, r)" by (metis surj_pair)
  have ok: "r = Ok ()" using store by (auto simp: store_marker_def save_states_def all_calls_def Let_def split: prod.splits)
  obtain w' r' where save: "save_marker ?env ?w = (w', r')" by force
  have 1: "mc_read small_codec (mc_show small_codec (stamp (pe_now ?env) (w_marker ?w))) = Some (stamp (pe_now ?env) (w_marker ?w))"
    using small_codec_ok by (simp add: sample_run_def)
  have 2: "w_disk ?w (w_path ?w) = read_marker small_codec True (fs_read no_files ''m'')"
    by (simp add: fresh_world_def fs_read_def no_files_def read_marker_def)
  have 3: "store_marker small_codec all_calls (pe_now ?env) ''m'' (w_marker ?w) no_files = (m, sts, r)"
    using store by (simp add: sample_run_def)
  have 4: "pe_save_ok ?env (w_saves ?w) = is_ok r" by (simp add: ok) (simp add: sample_run_def)
  have "w_path w' = [''m'']"
    using save by (auto simp: save_marker_def write_marker_def on_marker_def note_event_def Let_def split: if_splits)
  with save_refines [OF no_files_ok 1 2 3 save 4] show ?thesis
    using store by (simp add: Let_def save)
qed

text \<open>Without the sync of the directory the entry of before may come back.\<close>

theorem unsynced_entry_may_return:
  assumes "fs_ok p fs" "save_states calls p json fs = (sts, Ok ())" "\<not> sc_sync_dir calls" "may_survive fs p c"
  shows "may_survive (last sts) p c"
proof -
  have k: "cf_disk fs p \<subseteq> cf_disk (last sts) p"
    "\<And>j. Some j \<in> cf_disk fs p \<Longrightarrow> cf_data (last sts) j = cf_data fs j \<and> cf_synced (last sts) j = cf_synced fs j"
    using save_states_cases [OF assms(1,2)] assms(3) by simp_all
  from assms(4) obtain e where e: "e \<in> cf_disk fs p" "case e of None \<Rightarrow> c = None
      | Some i \<Rightarrow> (case c of None \<Rightarrow> False | Some s \<Rightarrow> cf_synced fs i \<longrightarrow> s = cf_data fs i)"
    by (auto simp: may_survive_def)
  with k show ?thesis
    unfolding may_survive_def by (intro bexI [of _ e]) (auto split: option.splits)
qed

end
