(* ===== verification/Concurrent_Files.thy ===== *)
theory Concurrent_Files
  imports Run_Guarantees
begin

text \<open>
  The file tasks of \<open>process_discogs_data\<close> as they run, interleaved.  A task is a state machine whose steps
  are the sections between two awaits that touch what the tasks share: the marker under its mutex, the
  marker file, the extractor state, the broker.  Batcher and publisher of a file are tasks of their own
  (\<open>streams\<close>); without rules a file does not wait for them when it fails, and they go on (\<open>straggler\<close>).
  \<open>Pipeline\<close> runs the same operations one file after another.
\<close>

section \<open>The stages of one file\<close>

text \<open>
  What the batcher has still to receive, its own variables, how it ended; the batches the publisher has
  taken, and how that ended.
\<close>

record streams =
  sr_inputs :: "batch_input list"
  sr_batcher :: batcher_state
  sr_batched :: "(stage_error + unit) option"
  sr_taken :: nat
  sr_published :: "(mq_error + unit) option"

definition streams_init :: "'r pipeline_env \<Rightarrow> string \<Rightarrow> data_type \<Rightarrow> world \<Rightarrow> streams" where
  "streams_init env file dt w =
     \<lparr>sr_inputs = pe_arrivals env file (normalized_records env file dt), sr_batcher = batcher_init (w_state w) (w_marker w),
      sr_batched = None, sr_taken = 0, sr_published = None\<rparr>"

text \<open>The shared state and marker as the batcher finds them, and what it leaves.\<close>

definition borrow :: "world \<Rightarrow> batcher_state \<Rightarrow> batcher_state" where
  "borrow w st = st\<lparr>bs_state := w_state w, bs_marker := w_marker w, bs_saved := []\<rparr>"

definition give_back :: "'r pipeline_env \<Rightarrow> batcher_state \<Rightarrow> world \<Rightarrow> world" where
  "give_back env st w = batcher_saves env (bs_saved st) (w\<lparr>w_marker := bs_marker st, w_state := bs_state st\<rparr>)"

text \<open>One turn of the batcher's loop, or its end; \<open>ok\<close> says whether a send finds the publisher.\<close>

definition batcher_turn ::
  "'r pipeline_env \<Rightarrow> string \<Rightarrow> data_type \<Rightarrow> bool \<Rightarrow> world \<Rightarrow> streams \<Rightarrow> world \<times> streams" where
  "batcher_turn env file dt ok w s =
     (let cfg = file_batcher env file dt; st0 = borrow w (sr_batcher s) in
      case sr_inputs s of
        [] \<Rightarrow>
          (case message_batcher cfg (\<lambda>_. ok) (pe_now env) [] st0 of
             (st, r) \<Rightarrow> (give_back env st w, s\<lparr>sr_batcher := st, sr_batched := Some r\<rparr>))
      | i # inputs \<Rightarrow>
          (case (case i of Received t msg \<Rightarrow> on_received cfg (\<lambda>_. ok) t msg st0 | TimedOut old \<Rightarrow> on_timeout (\<lambda>_. ok) old st0) of
             (st, r) \<Rightarrow>
               (give_back env st w,
                s\<lparr>sr_inputs := inputs, sr_batcher := st, sr_batched := (if is_ok r then None else Some r)\<rparr>)))"

definition count_error :: "world \<Rightarrow> world" where
  "count_error = on_state (\<lambda>x. x\<lparr>es_error_count := es_error_count x + 1\<rparr>)"

text \<open>One batch published.\<close>

definition publisher_turn ::
  "broker \<Rightarrow> data_type \<Rightarrow> message_queue \<Rightarrow> world \<Rightarrow> streams \<Rightarrow> world \<times> message_queue \<times> streams" where
  "publisher_turn br dt q w s =
     (let (q1, r) = publish_batch br (bs_sent (sr_batcher s) ! sr_taken s) dt q; w1 = deliver q q1 w in
      case r of
        Inr _ \<Rightarrow> (w1, q1, s\<lparr>sr_taken := sr_taken s + 1\<rparr>)
      | Inl e \<Rightarrow> (count_error w1, q1, s\<lparr>sr_published := Some (Err e)\<rparr>))"

text \<open>A send fails only when the publisher has failed; the publisher ends when the channel is closed and drained.\<close>

inductive stream_step ::
  "'r pipeline_env \<Rightarrow> broker \<Rightarrow> string \<Rightarrow> data_type \<Rightarrow> world \<times> message_queue \<times> streams \<Rightarrow> world \<times> message_queue \<times> streams \<Rightarrow> bool"
  for env :: "'r pipeline_env" and br :: broker and "file" :: string and dt :: data_type where
  Batch: "sr_batched s = None \<Longrightarrow> ok \<or> (\<exists>e. sr_published s = Some (Inl e)) \<Longrightarrow> batcher_turn env file dt ok w s = (w', s')
    \<Longrightarrow> stream_step env br file dt (w, q, s) (w', q, s')"
| Publish: "sr_published s = None \<Longrightarrow> sr_taken s < length (bs_sent (sr_batcher s))
    \<Longrightarrow> publisher_turn br dt q w s = (w', q', s') \<Longrightarrow> stream_step env br file dt (w, q, s) (w', q', s')"
| Drained: "sr_published s = None \<Longrightarrow> sr_taken s = length (bs_sent (sr_batcher s)) \<Longrightarrow> sr_batched s \<noteq> None
    \<Longrightarrow> stream_step env br file dt (w, q, s) (w, q, s\<lparr>sr_published := Some (Ok ())\<rparr>)"

text \<open>
  What the file's task has learnt of its stages.  Without rules it awaits them in turn and returns at the
  first failure; with rules it awaits them all.
\<close>

definition awaited :: "'r pipeline_env \<Rightarrow> string \<Rightarrow> data_type \<Rightarrow> streams \<Rightarrow> (pipeline_error + nat) option" where
  "awaited env file dt s =
     (let (msgs, parsed) = parse_stage env file dt; checked = validate_stage env file dt msgs in
      if pe_rules env = None
      then (case parsed of
          Inl e \<Rightarrow> Some (Err e)
        | Inr n \<Rightarrow>
            (case sr_batched s of
               None \<Rightarrow> None
             | Some (Inl e) \<Rightarrow> Some (Err (StageFailed e))
             | Some (Inr _) \<Rightarrow> map_option (\<lambda>p. case p of Inl e \<Rightarrow> Err (QueueFailed e) | Inr _ \<Rightarrow> Ok n) (sr_published s)))
      else if checked = None then Some (Err StagePanicked)
      else (case (sr_batched s, sr_published s) of
          (Some b, Some p) \<Rightarrow> Some (stages_result parsed checked b p)
        | _ \<Rightarrow> None))"

section \<open>One task\<close>

datatype task =
    Spawned
  | Admitted message_queue broker
  | Begun data_type message_queue broker
  | Streaming data_type message_queue broker streams
  | Piped data_type message_queue broker "pipeline_error + nat"
  | Signalled data_type nat
  | Releasing data_type "pipeline_error + nat"
  | Ended "pipeline_error + unit"

text \<open>Stages left behind by their file.\<close>

datatype straggler = Straggler string data_type message_queue broker streams

text \<open>With a permit: the shutdown flag, then a queue.\<close>

definition admit :: "'r pipeline_env \<Rightarrow> world \<Rightarrow> world \<times> task" where
  "admit env w =
     (let (w1, shutdown) = poll_shutdown env w in
      if shutdown then (w1, Ended (Ok ()))
      else (case create_queue env w1 of
          (w2, None) \<Rightarrow> (w2, Ended (Err NoQueue))
        | (w2, Some (q, br)) \<Rightarrow> (w2, Admitted q br)))"

definition begin_file :: "'r pipeline_env \<Rightarrow> string \<Rightarrow> message_queue \<Rightarrow> broker \<Rightarrow> world \<Rightarrow> world \<times> task" where
  "begin_file env file q br w =
     (case extract_data_type file of
        None \<Rightarrow> (w, Ended (Err (InvalidFile file)))
      | Some dt \<Rightarrow>
          (case save_marker env (on_marker (start_file_processing (pe_now env) file) w) of
             (w1, Inl e) \<Rightarrow> (w1, Ended (Err e))
           | (w1, Inr _) \<Rightarrow> (w1, Begun dt q br)))"

definition declare_exchange :: "'r pipeline_env \<Rightarrow> string \<Rightarrow> data_type \<Rightarrow> message_queue \<Rightarrow> broker \<Rightarrow> world \<Rightarrow> world \<times> task" where
  "declare_exchange env file dt q br w =
     (case setup_exchange br dt q of
        (q1, Inl e) \<Rightarrow> (w, Ended (Err (QueueFailed e)))
      | (q1, Inr _) \<Rightarrow> (let w1 = connected file dt w in (w1, Streaming dt q1 br (streams_init env file dt w1))))"

definition signal_file :: "'r pipeline_env \<Rightarrow> string \<Rightarrow> data_type \<Rightarrow> message_queue \<Rightarrow> broker \<Rightarrow> nat \<Rightarrow> world \<Rightarrow> world \<times> task" where
  "signal_file env file dt q br n w =
     (let (q1, sent) = send_file_complete br (pe_now env) dt file n q; w1 = deliver q q1 w in
      case sent of Inl e \<Rightarrow> (w1, Releasing dt (Err (QueueFailed e))) | Inr _ \<Rightarrow> (w1, Signalled dt n))"

definition commit_file :: "'r pipeline_env \<Rightarrow> string \<Rightarrow> data_type \<Rightarrow> nat \<Rightarrow> world \<Rightarrow> world \<times> task" where
  "commit_file env file dt n w =
     (case save_marker env (on_marker (complete_file_processing (pe_now env) file n) w) of
        (w1, saved) \<Rightarrow> (w1, Releasing dt (and_then saved (\<lambda>_. Ok n))))"

definition finish_task :: "string \<Rightarrow> data_type \<Rightarrow> (pipeline_error + nat) \<Rightarrow> world \<Rightarrow> world \<times> task" where
  "finish_task file dt r w = (note_event Closed (release_file file dt (is_ok r) w), Ended (and_then r (\<lambda>_. Ok ())))"

inductive task_step :: "'r pipeline_env \<Rightarrow> string \<Rightarrow> world \<times> task \<Rightarrow> world \<times> task \<times> straggler list \<Rightarrow> bool"
  for env :: "'r pipeline_env" and "file" :: string where
  Begin: "begin_file env file q br w = (w', t) \<Longrightarrow> task_step env file (w, Admitted q br) (w', t, [])"
| Declare: "declare_exchange env file dt q br w = (w', t) \<Longrightarrow> task_step env file (w, Begun dt q br) (w', t, [])"
| Stage: "stream_step env br file dt (w, q, s) (w', q', s') \<Longrightarrow> task_step env file (w, Streaming dt q br s) (w', Streaming dt q' br s', [])"
| Join: "awaited env file dt s = Some r \<Longrightarrow> task_step env file (w, Streaming dt q br s)
    (w, Piped dt q br r, if sr_batched s \<noteq> None \<and> sr_published s \<noteq> None then [] else [Straggler file dt q br s])"
| Signal: "signal_file env file dt q br n w = (w', t) \<Longrightarrow> task_step env file (w, Piped dt q br (Inr n)) (w', t, [])"
| Fail: "task_step env file (w, Piped dt q br (Inl e)) (w, Releasing dt (Err e), [])"
| Commit: "commit_file env file dt n w = (w', t) \<Longrightarrow> task_step env file (w, Signalled dt n) (w', t, [])"
| Release: "finish_task file dt r w = (w', t) \<Longrightarrow> task_step env file (w, Releasing dt r) (w', t, [])"

section \<open>All tasks\<close>

record conc =
  cn_world :: world
  cn_tasks :: "task list"
  cn_stray :: "straggler list"

fun holding :: "task \<Rightarrow> bool" where
  "holding Spawned = False"
| "holding (Ended r) = False"
| "holding _ = True"

text \<open>A file closes its connection for the stages it has left behind, too.\<close>

fun hang_up :: "string \<Rightarrow> task \<Rightarrow> straggler \<Rightarrow> straggler" where
  "hang_up file (Releasing dt r) (Straggler f d q br s) = Straggler f d (if f = file then mq_close q else q) br s"
| "hang_up file t g = g"

text \<open>A step of any task: one more task when there is a permit, one at work, or a straggler.\<close>

inductive conc_step :: "'r pipeline_env \<Rightarrow> nat \<Rightarrow> string list \<Rightarrow> conc \<Rightarrow> conc \<Rightarrow> bool"
  for env :: "'r pipeline_env" and workers :: nat and files :: "string list" where
  Admit: "i < length (cn_tasks c) \<Longrightarrow> cn_tasks c ! i = Spawned \<Longrightarrow> length (filter holding (cn_tasks c)) < workers
    \<Longrightarrow> admit env (cn_world c) = (w', t)
    \<Longrightarrow> conc_step env workers files c (c\<lparr>cn_world := w', cn_tasks := (cn_tasks c)[i := t]\<rparr>)"
| Work: "i < length (cn_tasks c) \<Longrightarrow> task_step env (files ! i) (cn_world c, cn_tasks c ! i) (w', t, left)
    \<Longrightarrow> conc_step env workers files c \<lparr>cn_world = w', cn_tasks = (cn_tasks c)[i := t],
        cn_stray = map (hang_up (files ! i) (cn_tasks c ! i)) (cn_stray c) @ left\<rparr>"
| Stray: "k < length (cn_stray c) \<Longrightarrow> cn_stray c ! k = Straggler f dt q br s
    \<Longrightarrow> stream_step env br f dt (cn_world c, q, s) (w', q', s')
    \<Longrightarrow> conc_step env workers files c (c\<lparr>cn_world := w', cn_stray := (cn_stray c)[k := Straggler f dt q' br s']\<rparr>)"

definition spawn_tasks :: "string list \<Rightarrow> world \<Rightarrow> conc" where
  "spawn_tasks files w = \<lparr>cn_world = w, cn_tasks = map (\<lambda>_. Spawned) files, cn_stray = []\<rparr>"

inductive conc_reach :: "'r pipeline_env \<Rightarrow> nat \<Rightarrow> string list \<Rightarrow> conc \<Rightarrow> conc \<Rightarrow> bool"
  for env :: "'r pipeline_env" and workers :: nat and files :: "string list" and c0 :: conc where
  Start: "conc_reach env workers files c0 c0"
| Next: "conc_reach env workers files c0 c \<Longrightarrow> conc_step env workers files c c' \<Longrightarrow> conc_reach env workers files c0 c'"

inductive_cases stream_stepE: "stream_step env br file dt (w, q, s) (w', q', s')"

section \<open>Permits\<close>

lemma holding_update:
  "i < length ts \<Longrightarrow> length (filter holding (ts[i := t])) + (if holding (ts ! i) then 1 else 0)
    = length (filter holding ts) + (if holding t then 1 else 0)"
proof (induction ts arbitrary: i)
  case (Cons x ts)
  then show ?case by (cases i) auto
qed simp

lemma task_step_holds: "task_step env file (w, t) (w', t', left) \<Longrightarrow> holding t"
  by (auto elim: task_step.cases)

text \<open>At no time do more tasks hold a permit than there are workers.\<close>

lemma permits_step:
  assumes "conc_step env workers files c c'" "length (filter holding (cn_tasks c)) \<le> workers"
  shows "length (filter holding (cn_tasks c')) \<le> workers"
  using assms
proof cases
  case (Admit i w' t)
  then show ?thesis using holding_update [of i "cn_tasks c" t] by (simp split: if_splits)
next
  case (Work i w' t left)
  then show ?thesis
    using holding_update [of i "cn_tasks c" t] task_step_holds [OF Work(3)] assms(2) by (simp split: if_splits)
qed simp

section \<open>The log grows\<close>

definition grows :: "world \<Rightarrow> world \<Rightarrow> bool" where
  "grows w w' \<longleftrightarrow> prefix (w_log w) (w_log w') \<and> w_polls w \<le> w_polls w'"

lemma grows_refl [simp, intro]: "grows w w"
  by (simp add: grows_def)

lemma grows_trans [trans]: "grows w w' \<Longrightarrow> grows w' w'' \<Longrightarrow> grows w w''"
  by (auto simp: grows_def)

lemma grows_fields: "w_log w' = w_log w \<Longrightarrow> w_polls w' = w_polls w \<Longrightarrow> grows w w'"
  by (simp add: grows_def)

lemma grows_simps [simp]:
  "grows w (note_event e w)" "grows w (on_state f w)" "grows w (on_marker h w)" "grows w (deliver q q' w)"
  "grows w (count_error w)"
  by (simp_all add: grows_def note_event_def on_state_def on_marker_def deliver_def count_error_def)

lemma grows_write: "grows w (fst (write_marker env m w))"
  by (simp add: grows_def write_marker_def note_event_def Let_def)

lemma grows_save: "save_marker env w = (w', r) \<Longrightarrow> grows w w'"
  using grows_trans [OF grows_simps(3) grows_write] by (metis fst_conv save_marker_def)

lemma grows_saves: "grows w (batcher_saves env ms w)"
proof (induction ms arbitrary: w)
  case (Cons m ms)
  from grows_trans [OF grows_write Cons] show ?case by (simp add: batcher_saves_def)
qed (simp add: batcher_saves_def)

lemma grows_give_back: "grows w (give_back env st w)"
  unfolding give_back_def by (rule grows_trans [OF grows_fields grows_saves]) simp_all

lemma stream_grows: "stream_step env br file dt (w, q, s) (w', q', s') \<Longrightarrow> grows w w'"
proof (erule stream_stepE)
  fix ok
  assume "batcher_turn env file dt ok w s = (w', s')"
  then show "grows w w'"
    using grows_give_back by (auto simp: batcher_turn_def Let_def split: list.splits prod.splits)
next
  assume "publisher_turn br dt q w s = (w', q', s')"
  then show "grows w w'"
    by (auto simp: publisher_turn_def Let_def split: prod.splits sum.splits intro: grows_trans [OF grows_simps(4) grows_simps(5)])
qed simp

lemma admit_grows: "admit env w = (w', t) \<Longrightarrow> grows w w'"
  by (auto simp: admit_def poll_shutdown_def create_queue_def grows_def Let_def split: if_splits option.splits prod.splits)

lemma task_grows: "task_step env file (w, t) (w', t', left) \<Longrightarrow> grows w w'"
proof (erule task_step.cases, goal_cases)
  case (1 q br w1 w1' t1)
  then show ?case
    using grows_trans [OF grows_simps(3) grows_save] by (auto simp: begin_file_def split: option.splits prod.splits sum.splits)
next
  case (2 dt q br w1 w1' t1)
  then show ?case
    by (auto simp: declare_exchange_def connected_def Let_def split: prod.splits sum.splits)
next
  case (3 br dt w1 q s w1' q' s')
  then show ?case using stream_grows by blast
next
  case (5 dt q br n w1 w1' t1)
  then show ?case by (auto simp: signal_file_def Let_def split: prod.splits sum.splits)
next
  case (7 dt n w1 w1' t1)
  then show ?case
    using grows_trans [OF grows_simps(3) grows_save] by (auto simp: commit_file_def split: prod.splits)
next
  case (8 dt r w1 w1' t1)
  then show ?case
    by (auto simp: finish_task_def release_file_def intro: grows_trans [OF grows_simps(2) grows_simps(1)])
qed auto

section \<open>Commit order under every interleaving\<close>

text \<open>The broker has confirmed the file's completion message.\<close>

definition signalled :: "string \<Rightarrow> world \<Rightarrow> bool" where
  "signalled file w \<longleftrightarrow>
     (\<exists>ex d t n. Delivered [(ex, FileComplete \<lparr>fc_data_type = d, fc_timestamp = t, fc_total_processed = n, fc_file = file\<rparr>)]
       \<in> set (w_log w))"

lemma signalled_grows: "signalled f w \<Longrightarrow> grows w w' \<Longrightarrow> signalled f w'"
  unfolding signalled_def grows_def by (meson set_mono_prefix subsetD)

definition waits_for_commit :: "string \<Rightarrow> task \<Rightarrow> world \<Rightarrow> bool" where
  "waits_for_commit file t w = (case t of Signalled dt n \<Rightarrow> signalled file w | _ \<Rightarrow> True)"

lemma waits_grows: "waits_for_commit f t w \<Longrightarrow> grows w w' \<Longrightarrow> waits_for_commit f t w'"
  by (auto simp: waits_for_commit_def dest: signalled_grows split: task.splits)

lemma task_waits:
  assumes "task_step env file (w, t) (w', t', left)"
  shows "waits_for_commit file t' w'"
  using assms
proof cases
  case (Signal dt q br n)
  obtain q1 sent where s: "send_file_complete br (pe_now env) dt file n q = (q1, sent)" by force
  show ?thesis
  proof (cases sent)
    case (Inr u)
    with send_file_complete_confirms [OF s] have e:
      "deliver q q1 w = note_event (Delivered [(exchange_name q dt, FileComplete \<lparr>fc_data_type = dt_str dt, fc_timestamp = pe_now env,
        fc_total_processed = n, fc_file = file\<rparr>)]) w"
      by (simp add: drop_confirmed)
    from Signal s Inr have "t' = Signalled dt n" "w' = deliver q q1 w" by (auto simp: signal_file_def)
    then show ?thesis by (auto simp: e waits_for_commit_def signalled_def note_event_def)
  qed (use Signal s in \<open>auto simp: signal_file_def waits_for_commit_def\<close>)
qed (auto simp: waits_for_commit_def begin_file_def declare_exchange_def commit_file_def finish_task_def Let_def
    split: option.splits prod.splits sum.splits)

context commit_protocol
begin

lemma licensed_grows: "licensed evidence g w \<Longrightarrow> grows w w' \<Longrightarrow> licensed evidence g w'"
  by (auto simp: licensed_def grows_def prefix_def)

lemma give_back_inv:
  assumes inv: "cinv g w" and q: "quiet (w_marker w) st"
  shows "cinv g (give_back env st w)"
proof -
  have l: "claim (bs_marker st) \<Longrightarrow> licensed evidence g w" "list_all (\<lambda>m. claim m \<longrightarrow> licensed evidence g w) (bs_saved st)"
    using q cinv_licence [OF inv] by (auto simp: quiet_def list_all_iff)
  have "cinv g (w\<lparr>w_marker := bs_marker st\<rparr>)" by (rule cinv_marker [OF inv l(1)])
  then have "cinv g (w\<lparr>w_marker := bs_marker st, w_state := bs_state st\<rparr>)" by (rule cinv_fields) simp_all
  then show ?thesis unfolding give_back_def by (rule cinv_saves) (use l(2) in \<open>simp add: licensed_def\<close>)
qed

text \<open>A turn of the batcher gives back a batcher that claims nothing new.\<close>

lemma turn_quiet:
  assumes "batcher_turn env file dt ok w s = (w', s')"
  shows "\<exists>st. quiet (w_marker w) st \<and> w' = give_back env st w"
proof -
  have q0: "quiet (w_marker w) (borrow w (sr_batcher s))" by (simp add: quiet_def borrow_def)
  have "quiet (w_marker w) (fst (message_batcher cfg acc t [] (borrow w (sr_batcher s))))"
    "quiet (w_marker w) (fst (on_received cfg acc t msg (borrow w (sr_batcher s))))"
    "quiet (w_marker w) (fst (on_timeout acc old (borrow w (sr_batcher s))))" for cfg acc t msg old
    using quiet_batcher [OF q0] quiet_received [OF q0] quiet_flush [OF q0] q0 by (auto simp: on_timeout_def simp del: message_batcher.simps)
  with assms show ?thesis
    by (auto simp: batcher_turn_def Let_def simp del: message_batcher.simps
        split: list.splits prod.splits batch_input.splits; metis fst_conv)
qed

lemma stream_inv:
  assumes inv: "cinv g w" and step: "stream_step env br file dt (w, q, s) (w', q', s')"
  shows "cinv g w'"
  using step
proof (rule stream_stepE)
  fix ok
  assume "batcher_turn env file dt ok w s = (w', s')"
  from turn_quiet [OF this] give_back_inv [OF inv] show ?thesis by blast
next
  assume p: "publisher_turn br dt q w s = (w', q', s')"
  have "cinv g (deliver q q1 w)" for q1 using cinv_event [OF inv] by (simp add: deliver_def)
  with p show ?thesis
    by (auto simp: publisher_turn_def count_error_def Let_def split: prod.splits sum.splits)
qed (use inv in simp)

lemma admit_inv: "cinv g w \<Longrightarrow> admit env w = (w', t) \<Longrightarrow> cinv g w'"
  by (auto simp: admit_def poll_shutdown_def create_queue_def Let_def split: if_splits option.splits prod.splits
      intro: cinv_fields)

lemma task_inv:
  assumes inv: "cinv g w" and w: "waits_for_commit file t w" and step: "task_step env file (w, t) (w', t', left)"
  shows "cinv g w'"
  using step
proof cases
  case (Begin q br)
  with inv save_quiet [OF inv claim_start_file] show ?thesis
    by (auto simp: begin_file_def split: option.splits prod.splits sum.splits)
next
  case (Declare dt q br)
  with inv show ?thesis by (auto simp: declare_exchange_def connected_def Let_def split: prod.splits sum.splits)
next
  case (Stage br dt q s q' s')
  with stream_inv [OF inv] show ?thesis by blast
next
  case (Signal dt q br n)
  have "cinv g (deliver q q1 w)" for q1 using cinv_event [OF inv] by (simp add: deliver_def)
  with Signal show ?thesis by (auto simp: signal_file_def Let_def split: prod.splits sum.splits)
next
  case (Commit dt n)
  have "claim (complete_file_processing (pe_now env) file n (w_marker w)) \<longrightarrow> licensed evidence g w"
  proof
    assume c: "claim (complete_file_processing (pe_now env) file n (w_marker w))"
    from w Commit have "signalled file w" by (simp add: waits_for_commit_def)
    then obtain ex d t n' where e: "Delivered [(ex, FileComplete \<lparr>fc_data_type = d, fc_timestamp = t, fc_total_processed = n',
        fc_file = file\<rparr>)] \<in> set (w_log w)" by (auto simp: signalled_def)
    from claim_file [OF c, of ex d t n'] show "licensed evidence g w"
    proof
      assume "evidence [(ex, FileComplete \<lparr>fc_data_type = d, fc_timestamp = t, fc_total_processed = n', fc_file = file\<rparr>)]"
      with e show ?thesis by (force simp: licensed_def list_ex_iff)
    qed (rule cinv_licence [OF inv])
  qed
  from save_licensed [where f = "complete_file_processing (pe_now env) file n", OF inv this, of env] Commit show ?thesis by (auto simp: commit_file_def split: prod.splits)
next
  case (Release dt r)
  have "cinv g (release_file file dt (is_ok r) w)" using inv by (simp add: release_file_def)
  from cinv_event [OF this, of Closed] Release show ?thesis by (simp add: finish_task_def)
qed (use inv in auto)

definition conc_inv :: "string list \<Rightarrow> bool \<Rightarrow> conc \<Rightarrow> bool" where
  "conc_inv files g c \<longleftrightarrow> cinv g (cn_world c) \<and>
     (\<forall>i < length (cn_tasks c). waits_for_commit (files ! i) (cn_tasks c ! i) (cn_world c))"

lemma conc_step_inv:
  assumes inv: "conc_inv files g c" and step: "conc_step env workers files c c'"
  shows "conc_inv files g c'"
  using step
proof cases
  case (Admit i w' t)
  have w: "cinv g w'" using admit_inv Admit inv by (auto simp: conc_inv_def)
  have "waits_for_commit f t w'" for f using Admit(5)
    by (auto simp: admit_def waits_for_commit_def Let_def split: if_splits option.splits prod.splits)
  with w inv waits_grows [OF _ admit_grows [OF Admit(5)]] show ?thesis
    by (auto simp: conc_inv_def Admit(1,2) nth_list_update)
next
  case (Work i w' t left)
  have w: "cinv g w'" using task_inv [OF _ _ Work(3)] inv Work(2) by (auto simp: conc_inv_def)
  with inv waits_grows [OF _ task_grows [OF Work(3)]] task_waits [OF Work(3)] show ?thesis
    by (auto simp: conc_inv_def Work(1,2) nth_list_update)
next
  case (Stray k f dt q br s w' q' s')
  with inv stream_inv [OF _ Stray(4)] waits_grows [OF _ stream_grows [OF Stray(4)]] show ?thesis
    by (auto simp: conc_inv_def)
qed

lemma conc_reach_keeps: "conc_reach env workers files c0 c \<Longrightarrow> conc_inv files g c0 \<Longrightarrow> conc_inv files g c"
  by (induction rule: conc_reach.induct) (blast intro: conc_step_inv)+

lemma conc_reach_inv: "conc_reach env workers files (spawn_tasks files w) c \<Longrightarrow> cinv g w \<Longrightarrow> conc_inv files g c"
  by (erule conc_reach_keeps) (simp add: conc_inv_def spawn_tasks_def waits_for_commit_def)

end

section \<open>What a finished task stands for\<close>

definition stopped :: "'r pipeline_env \<Rightarrow> world \<Rightarrow> bool" where
  "stopped env w = (case pe_shutdown_from env of Some n \<Rightarrow> n < w_polls w | None \<Rightarrow> False)"

definition known :: "string \<Rightarrow> state_marker \<Rightarrow> bool" where
  "known f m \<longleftrightarrow> map_of (progress_of m) f \<noteq> None"

text \<open>What the phase of a file's task says about the marker.\<close>

definition task_ok :: "'r pipeline_env \<Rightarrow> string \<Rightarrow> world \<Rightarrow> task \<Rightarrow> bool" where
  "task_ok env file w t =
     (case t of
        Begun dt q br \<Rightarrow> known file (w_marker w)
      | Streaming dt q br s \<Rightarrow> known file (w_marker w)
      | Piped dt q br r \<Rightarrow> known file (w_marker w)
      | Signalled dt n \<Rightarrow> known file (w_marker w)
      | Releasing dt (Inr n) \<Rightarrow> file_complete file (w_marker w)
      | Ended (Inr u) \<Rightarrow> file_complete file (w_marker w) \<or> stopped env w
      | _ \<Rightarrow> True)"

text \<open>Everything another task, or a straggler, can do to a marker leaves this alone.\<close>

definition spares :: "string \<Rightarrow> state_marker \<Rightarrow> state_marker \<Rightarrow> bool" where
  "spares f m m' \<longleftrightarrow> (known f m \<longrightarrow> known f m') \<and> (file_complete f m \<longrightarrow> file_complete f m')"

lemma spares_refl [simp, intro]: "spares f m m"
  by (simp add: spares_def)

lemma spares_trans: "spares f m m' \<Longrightarrow> spares f m' m'' \<Longrightarrow> spares f m m''"
  by (auto simp: spares_def)

lemma known_parts [simp]:
  "known f (stamp t m) = known f m"
  "known f (start_file_processing t g m) = (f = g \<or> known f m)"
  "known f (update_file_progress t g r p b m) = known f m"
  "known f (complete_file_processing t g n m) = known f m"
  by (auto simp: known_def stamp_def start_file_processing_def update_file_progress_def complete_file_processing_def
      on_processing_def on_summary_def on_publishing_def sync_phase_totals_def set_file_type_def map_of_omodify Let_def
      split: option.split)

lemma completes_file: "known f m \<Longrightarrow> file_complete f (complete_file_processing t f n m)"
  by (auto simp: known_def complete_file_processing_def Let_def file_complete_processing map_of_omodify)

lemma complete_known: "file_complete f m \<Longrightarrow> known f m"
  by (auto simp: known_def file_complete_def split: option.splits)

lemma spares_steps:
  "spares f m (stamp t m)" "spares f m (update_file_progress t g r p b m)"
  "f \<noteq> g \<Longrightarrow> spares f m (start_file_processing t g m)" "spares f m (complete_file_processing t g n m)"
  using completes_file [of f m t n] file_complete_other [of f g t n m] complete_known [of f m]
  by (cases "f = g"; auto simp: spares_def file_complete_start)+

lemma save_spares:
  "save_marker env (on_marker h w) = (w', r) \<Longrightarrow> spares f (w_marker w) (h (w_marker w)) \<Longrightarrow> spares f (w_marker w) (w_marker w')"
  using save_marker_value [of env h w w' r] spares_trans [OF _ spares_steps(1)] by auto

text \<open>The batcher touches progress only.\<close>

lemma save_progress_spares: "spares f m (bs_marker st) \<Longrightarrow> spares f m (bs_marker (save_progress cfg t st))"
  by (simp add: save_progress_def Let_def spares_def)

lemma batcher_turn_spares:
  assumes "batcher_turn env file dt ok w s = (w', s')"
  shows "spares f (w_marker w) (w_marker w')"
proof -
  have saves: "w_marker (batcher_saves env ms x) = w_marker x" for ms x
    by (induction ms arbitrary: x) (simp_all add: batcher_saves_def write_marker_def note_event_def Let_def)
  have m: "bs_marker (borrow w st) = w_marker w" for st by (simp add: borrow_def)
  have fl: "spares f m (bs_marker (fst (flush_batch acc st)))" if "spares f m (bs_marker st)" for m acc st
    using that by (simp add: flush_batch_def Let_def)
  have "spares f (w_marker w) (bs_marker (fst (on_received cfg acc t msg (borrow w st))))" for cfg acc t msg st
    by (auto simp: on_received_def Let_def count_record_def m intro!: fl save_progress_spares)
  moreover have "spares f (w_marker w) (bs_marker (fst (on_timeout acc old (borrow w st))))" for acc old st
    by (auto simp: on_timeout_def m intro!: fl)
  moreover have "spares f (w_marker w) (bs_marker (fst (message_batcher cfg acc t [] (borrow w st))))" for cfg acc t st
    using fl [of "w_marker w" "borrow w st" acc]
    by (auto simp: m intro!: save_progress_spares split: prod.split sum.split)
  ultimately show ?thesis
    using assms
    by (auto simp: batcher_turn_def Let_def give_back_def saves simp del: message_batcher.simps
        split: list.splits prod.splits batch_input.splits; metis fst_conv)
qed

lemma stream_spares: "stream_step env br file dt (w, q, s) (w', q', s') \<Longrightarrow> spares f (w_marker w) (w_marker w')"
proof (erule stream_stepE)
  assume "publisher_turn br dt q w s = (w', q', s')"
  then have "w_marker w' = w_marker w"
    by (auto simp: publisher_turn_def deliver_def note_event_def count_error_def on_state_def Let_def split: prod.splits sum.splits)
  then show ?thesis by simp
qed (auto intro: batcher_turn_spares)

lemma task_spares:
  assumes "task_step env file (w, t) (w', t', left)" "f \<noteq> file"
  shows "spares f (w_marker w) (w_marker w')"
  using assms(1)
proof cases
  case (Begin q br)
  have "save_marker env (on_marker (start_file_processing (pe_now env) file) w) = (w1, r) \<Longrightarrow> spares f (w_marker w) (w_marker w1)" for w1 r
    by (erule save_spares) (rule spares_steps(3) [OF assms(2)])
  with Begin show ?thesis
    by (auto simp: begin_file_def split: option.splits prod.splits sum.splits)
next
  case (Stage br dt q s q' s')
  with stream_spares show ?thesis by blast
next
  case (Commit dt n)
  have "save_marker env (on_marker (complete_file_processing (pe_now env) file n) w) = (w1, r) \<Longrightarrow> spares f (w_marker w) (w_marker w1)" for w1 r
    by (erule save_spares) (rule spares_steps(4))
  with Commit show ?thesis by (auto simp: commit_file_def split: prod.splits)
qed (auto simp: declare_exchange_def connected_def signal_file_def finish_task_def release_file_def deliver_def
    note_event_def on_state_def Let_def split: prod.splits sum.splits)

lemma task_ok_other:
  "task_ok env f w t \<Longrightarrow> spares f (w_marker w) (w_marker w') \<Longrightarrow> grows w w' \<Longrightarrow> task_ok env f w' t"
  by (auto simp: task_ok_def spares_def stopped_def grows_def split: task.splits sum.splits option.splits)

lemma task_ok_step:
  assumes ok: "task_ok env file w t" and step: "task_step env file (w, t) (w', t', left)"
  shows "task_ok env file w' t'"
  using step
proof cases
  case (Begin q br)
  then show ?thesis
    by (auto simp: begin_file_def task_ok_def dest: save_marker_value split: option.splits prod.splits sum.splits)
next
  case (Declare dt q br)
  with ok show ?thesis
    by (auto simp: declare_exchange_def connected_def task_ok_def on_state_def Let_def split: prod.splits sum.splits)
next
  case (Stage br dt q s q' s')
  from stream_spares [OF Stage(4), of "file"] ok Stage show ?thesis by (auto simp: task_ok_def spares_def)
next
  case (Signal dt q br n)
  with ok show ?thesis
    by (auto simp: signal_file_def task_ok_def deliver_def note_event_def Let_def split: prod.splits sum.splits)
next
  case (Commit dt n)
  obtain w1 saved where s: "save_marker env (on_marker (complete_file_processing (pe_now env) file n) w) = (w1, saved)" by force
  have "file_complete file (w_marker w1)"
    using save_marker_value [OF s] completes_file ok Commit by (simp add: task_ok_def)
  with Commit s show ?thesis by (cases saved) (auto simp: commit_file_def task_ok_def)
next
  case (Release dt r)
  with ok show ?thesis
    by (cases r) (auto simp: finish_task_def release_file_def note_event_def on_state_def task_ok_def)
qed (use ok in \<open>auto simp: task_ok_def split: sum.split\<close>)

lemma admit_ok: "admit env w = (w', t) \<Longrightarrow> task_ok env file w' t \<and> w_marker w' = w_marker w"
  by (auto simp: admit_def poll_shutdown_def create_queue_def task_ok_def stopped_def Let_def
      split: if_splits option.splits prod.splits)

text \<open>A straggler means that a file has failed.\<close>

definition failed :: "task \<Rightarrow> bool" where
  "failed t = (case t of Piped dt q br (Inl e) \<Rightarrow> True | Releasing dt (Inl e) \<Rightarrow> True | Ended (Inl e) \<Rightarrow> True | _ \<Rightarrow> False)"

lemma failed_step: "task_step env file (w, t) (w', t', left) \<Longrightarrow> failed t \<Longrightarrow> failed t'"
  by (erule task_step.cases) (auto simp: failed_def finish_task_def split: sum.splits)

lemma straggler_failed:
  assumes "task_step env file (w, t) (w', t', left)" "left \<noteq> []"
  shows "failed t'"
  using assms
proof cases
  case (Join dt s r q br)
  with assms(2) show ?thesis
    by (auto simp: awaited_def failed_def Let_def split: prod.splits if_splits sum.splits option.splits)
qed auto

definition files_inv :: "'r pipeline_env \<Rightarrow> string list \<Rightarrow> conc \<Rightarrow> bool" where
  "files_inv env files c \<longleftrightarrow> length (cn_tasks c) = length files
     \<and> (\<forall>i < length files. task_ok env (files ! i) (cn_world c) (cn_tasks c ! i))
     \<and> (cn_stray c \<noteq> [] \<longrightarrow> list_ex failed (cn_tasks c))"

lemma list_ex_update: "list_ex P xs \<Longrightarrow> (P (xs ! i) \<Longrightarrow> P x) \<Longrightarrow> list_ex P (xs[i := x])"
  by (induction xs arbitrary: i) (auto split: nat.split)

lemma files_step_inv:
  assumes d: "distinct files" and inv: "files_inv env files c" and step: "conc_step env workers files c c'"
  shows "files_inv env files c'"
  using step
proof cases
  case (Admit i w' t)
  have "task_ok env f w' t'" if "task_ok env f (cn_world c) t'" for f t'
    using task_ok_other [OF that _ admit_grows [OF Admit(5)]] admit_ok [OF Admit(5)] by simp
  moreover have "list_ex failed (cn_tasks c) \<Longrightarrow> list_ex failed ((cn_tasks c)[i := t])"
    by (rule list_ex_update) (auto simp: Admit(3) failed_def)
  ultimately show ?thesis
    using inv admit_ok [OF Admit(5)] Admit(2) by (auto simp: files_inv_def Admit(1) nth_list_update)
next
  case (Work i w' t left)
  note i = Work(2)
  have len: "length (cn_tasks c) = length files" using inv by (simp add: files_inv_def)
  have own: "task_ok env (files ! i) w' t" using inv task_ok_step [OF _ Work(3)] i len by (auto simp: files_inv_def)
  have other: "task_ok env (files ! j) w' (cn_tasks c ! j)" if "j < length files" "j \<noteq> i" for j
  proof -
    have "files ! j \<noteq> files ! i" using d that i len by (simp add: nth_eq_iff_index_eq)
    from task_ok_other [OF _ task_spares [OF Work(3) this] task_grows [OF Work(3)]] inv that show ?thesis
      by (auto simp: files_inv_def)
  qed
  have "list_ex failed (cn_tasks c) \<Longrightarrow> list_ex failed ((cn_tasks c)[i := t])"
    by (rule list_ex_update) (auto intro: failed_step [OF Work(3)])
  moreover have "left \<noteq> [] \<Longrightarrow> list_ex failed ((cn_tasks c)[i := t])"
    using straggler_failed [OF Work(3)] i by (auto simp: list_ex_iff intro!: bexI [of _ t] set_update_memI)
  ultimately show ?thesis
    using inv own other i by (auto simp: files_inv_def Work(1) nth_list_update)
next
  case (Stray k f dt q br s w' q' s')
  with inv task_ok_other [OF _ stream_spares [OF Stray(4)] stream_grows [OF Stray(4)]] show ?thesis
    by (auto simp: files_inv_def)
qed

lemma files_reach_inv: "conc_reach env workers files (spawn_tasks files w) c \<Longrightarrow> distinct files \<Longrightarrow> files_inv env files c"
proof (induction rule: conc_reach.induct)
  case Start
  then show ?case by (simp add: files_inv_def spawn_tasks_def task_ok_def)
qed (blast intro: files_step_inv)

lemma permits_reach:
  "conc_reach env workers files (spawn_tasks files w) c \<Longrightarrow> length (filter holding (cn_tasks c)) \<le> workers"
  by (induction rule: conc_reach.induct) (auto simp: spawn_tasks_def intro: permits_step)

lemma pending_incomplete: "pending_files m fs = filter (\<lambda>f. \<not> file_complete f m) fs"
  by (auto simp: pending_files_def file_complete_def intro!: filter_cong split: option.split)

text \<open>All ended well: all files are processed, and no stage is left at work.\<close>

lemma success_complete:
  assumes "conc_reach env workers files (spawn_tasks files w) c" "distinct files"
    and "list_all (\<lambda>t. t = Ended (Ok ())) (cn_tasks c)" "\<not> snd (poll_shutdown env (cn_world c))"
  shows "pending_files (w_marker (cn_world c)) files = [] \<and> cn_stray c = []"
proof
  have inv: "files_inv env files c" by (rule files_reach_inv [OF assms(1,2)])
  have run: "\<not> stopped env (cn_world c)"
    using assms(4) by (auto simp: stopped_def poll_shutdown_def split: option.splits)
  have "file_complete f (w_marker (cn_world c))" if f: "f \<in> set files" for f
  proof -
    obtain i where "i < length files" "files ! i = f" using f by (auto simp: in_set_conv_nth)
    with inv assms(3) have "task_ok env f (cn_world c) (Ended (Ok ()))" by (auto simp: files_inv_def list_all_length)
    with run show ?thesis by (simp add: task_ok_def)
  qed
  then show "pending_files (w_marker (cn_world c)) files = []"
    by (simp add: pending_incomplete filter_empty_conv)
  have "\<not> list_ex failed (cn_tasks c)" using assms(3) by (auto simp: list_all_iff list_ex_iff failed_def)
  with inv show "cn_stray c = []" by (auto simp: files_inv_def)
qed

section \<open>Properties\<close>

text \<open>
  C6: the order of commits holds under every interleaving of the files and their stages, stragglers
  included: at every moment, no marker has been saved that says a file is done before that file's
  completion message was confirmed, and none that says the version is complete; and at no moment do more files
  than there are workers hold a permit.
\<close>

theorem concurrent_commits:
  assumes "conc_reach env workers files (spawn_tasks files w) c" "w_log w = []"
  shows "ordered (file_complete f) (file_signal f) (file_complete f (w_marker w)) (w_log (cn_world c))
    \<and> ordered version_complete completion_signal (version_complete (w_marker w)) (w_log (cn_world c))
    \<and> length (filter holding (cn_tasks c)) \<le> workers"
proof -
  have "commit_inv (file_complete f) (file_signal f) (file_complete f (w_marker w)) w"
    "commit_inv version_complete completion_signal (version_complete (w_marker w)) w"
    using assms(2) by (simp_all add: commit_inv_def licensed_def)
  from file_commit.conc_reach_inv [OF assms(1) this(1)] version_commit.conc_reach_inv [OF assms(1) this(2)] show ?thesis
    using permits_reach [OF assms(1)] by (simp add: file_commit.conc_inv_def version_commit.conc_inv_def commit_inv_def)
qed

text \<open>
  When all tasks have ended well and no shutdown is seen, every file is processed, in whatever order the
  steps were taken, and no stage of any file is still at work: nothing can disturb the commit that follows.
\<close>

theorem concurrent_success_complete:
  assumes "conc_reach env workers files (spawn_tasks files w) c" "distinct files"
    and "list_all (\<lambda>t. t = Ended (Ok ())) (cn_tasks c)" "\<not> snd (poll_shutdown env (cn_world c))"
  shows "pending_files (w_marker (cn_world c)) files = [] \<and> cn_stray c = []"
  by (rule success_complete [OF assms])

end
