(* ===== verification/Concurrent_Schedule.thy ===== *)
theory Concurrent_Schedule
  imports Concurrent_Files File_Delivery
begin

text \<open>
  The run of \<open>Pipeline\<close>, one file after another, is one of the schedules of \<open>Concurrent_Files\<close>: the same marker,
  disk, state and results, and the same events but for the cutting of deliveries into batches.
\<close>

section \<open>Worlds that differ in the cutting of deliveries\<close>

fun atoms :: "pipeline_event \<Rightarrow> pipeline_event list" where
  "atoms (Delivered fs) = map (\<lambda>f. Delivered [f]) fs"
| "atoms e = [e]"

definition flat :: "pipeline_event list \<Rightarrow> pipeline_event list" where
  "flat es = concat (map atoms es)"

lemma flat_append [simp]: "flat (a @ b) = flat a @ flat b"
  by (simp add: flat_def)

definition same :: "world \<Rightarrow> world \<Rightarrow> bool" where
  "same w v \<longleftrightarrow> w_state v = w_state w \<and> w_marker v = w_marker w \<and> w_path v = w_path w \<and> w_disk v = w_disk w
     \<and> w_saves v = w_saves w \<and> w_polls v = w_polls w \<and> w_queues v = w_queues w \<and> flat (w_log v) = flat (w_log w)"

lemma same_refl [simp, intro]: "same w w"
  by (simp add: same_def)

lemma same_trans [trans]: "same w v \<Longrightarrow> same v u \<Longrightarrow> same w u"
  by (simp add: same_def)

lemma same_steps:
  "same w v \<Longrightarrow> same (on_state f w) (on_state f v)"
  "same w v \<Longrightarrow> same (on_marker h w) (on_marker h v)"
  "same w v \<Longrightarrow> same (note_event e w) (note_event e v)"
  "same w v \<Longrightarrow> same (deliver q q' w) (deliver q q' v)"
  by (simp_all add: same_def on_state_def on_marker_def note_event_def deliver_def)

lemma same_write: "same w v \<Longrightarrow> snd (write_marker env m v) = snd (write_marker env m w)
    \<and> same (fst (write_marker env m w)) (fst (write_marker env m v))"
  by (simp add: write_marker_def note_event_def Let_def same_def)

lemma same_save:
  assumes "same w v" "save_marker env (on_marker f w) = (w', r)"
  shows "\<exists>v'. save_marker env (on_marker f v) = (v', r) \<and> same w' v'"
proof -
  let ?w = "on_marker (stamp (pe_now env)) (on_marker f w)" and ?v = "on_marker (stamp (pe_now env)) (on_marker f v)"
  have s: "same ?w ?v" using assms(1) by (intro same_steps)
  then have "w_marker ?v = w_marker ?w" by (simp add: same_def)
  then have "save_marker env (on_marker f v) = write_marker env (w_marker ?w) ?v"
    "write_marker env (w_marker ?w) ?w = (w', r)"
    using assms(2) by (simp_all add: save_marker_def Let_def)
  with same_write [OF s, of env "w_marker ?w"] show ?thesis by (metis fst_conv prod.collapse snd_conv)
qed

lemma same_saves: "same w v \<Longrightarrow> same (batcher_saves env ms w) (batcher_saves env ms v)"
proof (induction ms arbitrary: w v)
  case (Cons m ms)
  from Cons.IH same_write [OF Cons.prems, of env m] show ?case by (simp add: batcher_saves_def)
qed (simp add: batcher_saves_def)

lemma same_poll: "same w v \<Longrightarrow> poll_shutdown env w = (w', b) \<Longrightarrow> \<exists>v'. poll_shutdown env v = (v', b) \<and> same w' v'"
  by (auto simp: poll_shutdown_def same_def split: option.splits)

lemma same_queue: "same w v \<Longrightarrow> create_queue env w = (w', x) \<Longrightarrow> \<exists>v'. create_queue env v = (v', x) \<and> same w' v'"
  by (auto simp: create_queue_def same_def)

section \<open>The batcher, turn by turn\<close>

text \<open>What the batcher saved before does not matter to a turn.\<close>

lemma shift_flush:
  "flush_batch acc st = (let (a, r) = flush_batch acc (st\<lparr>bs_saved := []\<rparr>) in (a\<lparr>bs_saved := bs_saved st @ bs_saved a\<rparr>, r))"
  by (simp add: flush_batch_def Let_def)

lemma shift_save:
  "save_progress cfg t st = (let a = save_progress cfg t (st\<lparr>bs_saved := []\<rparr>) in a\<lparr>bs_saved := bs_saved st @ bs_saved a\<rparr>)"
  by (simp add: save_progress_def Let_def)

lemma shift_received:
  "on_received cfg acc t msg st =
     (let (a, r) = on_received cfg acc t msg (st\<lparr>bs_saved := []\<rparr>) in (a\<lparr>bs_saved := bs_saved st @ bs_saved a\<rparr>, r))"
proof -
  define c where "c = count_record cfg t msg st"
  have c: "count_record cfg t msg (st\<lparr>bs_saved := []\<rparr>) = c\<lparr>bs_saved := []\<rparr>" "bs_saved c = bs_saved st"
    by (simp_all add: c_def count_record_def Let_def)
  define due where "due = (is_multiple_of (bs_total_records c) (bc_state_save_interval cfg) \<and> bs_total_records c \<noteq> bs_last_state_save c)"
  define d where "d = (if due then save_progress cfg t (c\<lparr>bs_last_state_save := bs_total_records c\<rparr>) else c)"
  define d0 where "d0 = (if due then save_progress cfg t (c\<lparr>bs_saved := [], bs_last_state_save := bs_total_records c\<rparr>) else c\<lparr>bs_saved := []\<rparr>)"
  have d: "d = d0\<lparr>bs_saved := bs_saved st @ bs_saved d0\<rparr>"
    by (simp add: d_def d0_def save_progress_def Let_def c(2))
  have r: "on_received cfg acc t msg st = (if length (bs_batch d) \<ge> bc_batch_size cfg then flush_batch acc d else (d, Ok ()))"
    unfolding on_received_def Let_def c_def [symmetric] due_def [symmetric] d_def [symmetric] by (rule refl)
  have r0: "on_received cfg acc t msg (st\<lparr>bs_saved := []\<rparr>)
      = (if length (bs_batch d0) \<ge> bc_batch_size cfg then flush_batch acc d0 else (d0, Ok ()))"
    unfolding on_received_def Let_def c(1) by (simp add: d0_def due_def)
  show ?thesis unfolding r r0 d by (simp add: flush_batch_def Let_def)
qed

lemma shift_timeout:
  "on_timeout acc old st = (let (a, r) = on_timeout acc old (st\<lparr>bs_saved := []\<rparr>) in (a\<lparr>bs_saved := bs_saved st @ bs_saved a\<rparr>, r))"
  by (simp add: on_timeout_def flush_batch_def Let_def)

lemma shift_end:
  "message_batcher cfg acc t [] st =
     (let (a, r) = message_batcher cfg acc t [] (st\<lparr>bs_saved := []\<rparr>) in (a\<lparr>bs_saved := bs_saved st @ bs_saved a\<rparr>, r))"
  by (simp add: save_progress_def flush_batch_def Let_def)

abbreviation with_batcher :: "batcher_state \<Rightarrow> world \<Rightarrow> world" where
  "with_batcher st w \<equiv> w\<lparr>w_marker := bs_marker st, w_state := bs_state st\<rparr>"

lemma saves_append: "batcher_saves env (a @ b) w = batcher_saves env b (batcher_saves env a w)"
  by (simp add: batcher_saves_def)

lemma saves_commute: "batcher_saves env ms (with_batcher st w) = with_batcher st (batcher_saves env ms w)"
proof (induction ms arbitrary: w)
  case (Cons m ms)
  have "fst (write_marker env m (with_batcher st w)) = with_batcher st (fst (write_marker env m w))"
    by (simp add: write_marker_def note_event_def Let_def)
  with Cons show ?case by (simp add: batcher_saves_def)
qed (simp add: batcher_saves_def)

text \<open>Steps of one task, with the stages it leaves behind none.\<close>

definition solo_step :: "'r pipeline_env \<Rightarrow> string \<Rightarrow> world \<times> task \<Rightarrow> world \<times> task \<Rightarrow> bool" where
  "solo_step env file a b \<longleftrightarrow> task_step env file a (fst b, snd b, [])"

abbreviation solo :: "'r pipeline_env \<Rightarrow> string \<Rightarrow> world \<times> task \<Rightarrow> world \<times> task \<Rightarrow> bool" where
  "solo env file \<equiv> (solo_step env file)\<^sup>*\<^sup>*"

abbreviation runs ::
  "'r pipeline_env \<Rightarrow> broker \<Rightarrow> string \<Rightarrow> data_type \<Rightarrow> world \<times> message_queue \<times> streams \<Rightarrow> world \<times> message_queue \<times> streams \<Rightarrow> bool"
  where "runs env br file dt \<equiv> (stream_step env br file dt)\<^sup>*\<^sup>*"

lemma runs_step: "stream_step env br file dt a b \<Longrightarrow> runs env br file dt b c \<Longrightarrow> runs env br file dt a c"
  by (rule converse_rtranclp_into_rtranclp)

lemma solo_runs:
  assumes "runs env br file dt (w, q, s) (w', q', s')"
  shows "solo env file (w, Streaming dt q br s) (w', Streaming dt q' br s')"
proof -
  have "solo env file (w, Streaming dt q br s) (fst b, Streaming dt (fst (snd b)) br (snd (snd b)))"
    if "runs env br file dt (w, q, s) b" for b
    using that
  proof (induction rule: rtranclp_induct)
    case (step a b)
    have "solo_step env file (fst a, Streaming dt (fst (snd a)) br (snd (snd a))) (fst b, Streaming dt (fst (snd b)) br (snd (snd b)))"
      using step(2) by (cases a; cases b) (auto simp: solo_step_def intro: Stage)
    with step(3) show ?case by (rule rtranclp.rtrancl_into_rtrancl)
  qed simp
  from this [OF assms] show ?thesis by simp
qed

text \<open>The world when the batcher has come to \<open>st\<close>, from \<open>x\<close>, with its stages at \<open>s\<close>.\<close>

definition batching :: "'r pipeline_env \<Rightarrow> world \<Rightarrow> batcher_state \<Rightarrow> world \<Rightarrow> batcher_state \<Rightarrow> bool" where
  "batching env x st v b \<longleftrightarrow> same (batcher_saves env (bs_saved st) (with_batcher st x)) v \<and> borrow v b = st\<lparr>bs_saved := []\<rparr>"

lemma batching_borrow: "batching env x st v b \<Longrightarrow> borrow v b = st\<lparr>bs_saved := []\<rparr>"
  by (simp add: batching_def)

lemma batching_sent: "batching env x st v b \<Longrightarrow> bs_sent b = bs_sent st"
  by (auto simp: batching_def borrow_def dest: arg_cong [where f = bs_sent])

lemma batching_state: "batching env x st v b \<Longrightarrow> w_state v = bs_state st"
  by (simp add: batching_def same_def saves_commute)

text \<open>Stages that have not begun, in whatever world they begin.\<close>

lemma batching_init: "batching env w (batcher_init (w_state w) (w_marker w)) w (sr_batcher (streams_init env file dt x))"
  by (simp add: batching_def streams_init_def batcher_init_def batcher_saves_def same_def borrow_def)

lemma saves_keep: "w_state (batcher_saves env ms w) = w_state w" "w_marker (batcher_saves env ms w) = w_marker w"
  by (induction ms arbitrary: w) (simp_all add: batcher_saves_def write_marker_def note_event_def Let_def)

lemma batching_turn:
  assumes b: "batching env x st v b"
  shows "batching env x (a\<lparr>bs_saved := bs_saved st @ bs_saved a\<rparr>) (give_back env a v) a"
proof -
  have "same (with_batcher a (batcher_saves env (bs_saved st) (with_batcher st x))) (with_batcher a v)"
    using b by (simp add: batching_def same_def)
  then have "same (batcher_saves env (bs_saved st) (with_batcher a x)) (with_batcher a v)"
    by (simp add: saves_commute)
  from same_saves [OF this, of env "bs_saved a"] show ?thesis
    by (simp add: batching_def give_back_def saves_append borrow_def saves_keep)
qed

lemma batch_schedule:
  assumes "message_batcher (file_batcher env file dt) (\<lambda>_. True) (pe_now env) inputs st = (st', r)"
    and "batching env x st v (sr_batcher s)" "sr_inputs s = inputs" "sr_batched s = None"
  shows "\<exists>v' s'. runs env br file dt (v, q, s) (v', q, s')
    \<and> batching env x st' v' (sr_batcher s') \<and> sr_batched s' = Some r
    \<and> sr_taken s' = sr_taken s \<and> sr_published s' = sr_published s"
  using assms
proof (induction inputs arbitrary: st v s)
  case Nil
  obtain a r' where a: "message_batcher (file_batcher env file dt) (\<lambda>_. True) (pe_now env) [] (st\<lparr>bs_saved := []\<rparr>) = (a, r')" by force
  with Nil.prems(1) shift_end [of "file_batcher env file dt" "\<lambda>_. True" "pe_now env" st]
  have st': "st' = a\<lparr>bs_saved := bs_saved st @ bs_saved a\<rparr>" "r = r'" by (simp_all del: message_batcher.simps)
  let ?s = "s\<lparr>sr_batcher := a, sr_batched := Some r\<rparr>"
  have "batcher_turn env file dt True v s = (give_back env a v, ?s)"
    using a st'(2) Nil.prems(3) by (simp add: batcher_turn_def batching_borrow [OF Nil.prems(2)] Let_def del: message_batcher.simps)
  with Nil.prems(4) have "stream_step env br file dt (v, q, s) (give_back env a v, q, ?s)"
    by (intro Batch [where ok = True]) simp_all
  then have "runs env br file dt (v, q, s) (give_back env a v, q, ?s)"
    by (rule runs_step) (rule rtranclp.rtrancl_refl)
  moreover have "batching env x st' (give_back env a v) (sr_batcher ?s)" using batching_turn [OF Nil.prems(2)] by (simp add: st')
  ultimately show ?case by (intro exI [of _ "give_back env a v"] exI [of _ ?s]) simp
next
  case (Cons i inputs)
  define turn where "turn = (\<lambda>st. case i of Received t msg \<Rightarrow> on_received (file_batcher env file dt) (\<lambda>_. True) t msg st
    | TimedOut old \<Rightarrow> on_timeout (\<lambda>_. True) old st)"
  obtain a r' where a: "turn (st\<lparr>bs_saved := []\<rparr>) = (a, r')" by force
  have t: "turn st = (a\<lparr>bs_saved := bs_saved st @ bs_saved a\<rparr>, r')"
    using a shift_received [of "file_batcher env file dt" "\<lambda>_. True" _ _ st] shift_timeout [of "\<lambda>_. True" _ st]
    by (simp add: turn_def split: batch_input.splits)
  have "is_ok r'"
    using a by (auto simp: turn_def on_received_def on_timeout_def flush_batch_def Let_def split: batch_input.splits if_splits)
  then obtain u where r': "r' = Ok u" by (cases r') auto
  let ?s = "s\<lparr>sr_inputs := inputs, sr_batcher := a, sr_batched := None\<rparr>"
  have "batcher_turn env file dt True v s = (give_back env a v, ?s)"
    using a r' Cons.prems(3) by (simp add: batcher_turn_def batching_borrow [OF Cons.prems(2)] Let_def turn_def)
  then have step: "stream_step env br file dt (v, q, s) (give_back env a v, q, ?s)"
    using Cons.prems(4) by (intro Batch [where ok = True]) simp_all
  have "message_batcher (file_batcher env file dt) (\<lambda>_. True) (pe_now env) inputs (a\<lparr>bs_saved := bs_saved st @ bs_saved a\<rparr>) = (st', r)"
    using Cons.prems(1) t r' by (simp add: turn_def)
  from Cons.IH [OF this, of "give_back env a v" ?s] batching_turn [OF Cons.prems(2), of a] obtain v' s' where
    "runs env br file dt (give_back env a v, q, ?s) (v', q, s')"
    "batching env x st' v' (sr_batcher s')" "sr_batched s' = Some r" "sr_taken s' = sr_taken s" "sr_published s' = sr_published s"
    by auto
  with runs_step [OF step] show ?case by blast
qed

section \<open>The publisher, batch by batch\<close>

lemma deliver_self: "same (deliver q q w) w"
  by (simp add: same_def deliver_def note_event_def flat_def)

lemma same_with_state: "same w v \<Longrightarrow> same (w\<lparr>w_state := x\<rparr>) (v\<lparr>w_state := x\<rparr>)"
  by (simp add: same_def)

lemma deliver_join:
  assumes "mq_confirmed q1 = mq_confirmed q @ a" "mq_confirmed q2 = mq_confirmed q1 @ b"
  shows "same (deliver q q2 w) (deliver q1 q2 (deliver q q1 w))"
  using assms by (simp add: same_def deliver_def note_event_def flat_def)

lemma deliver_state: "(deliver q q' w)\<lparr>w_state := x\<rparr> = deliver q q' (w\<lparr>w_state := x\<rparr>)"
  by (simp add: deliver_def note_event_def)

lemma publish_batch_confirms: "publish_batch br b d q = (q1, r) \<Longrightarrow> \<exists>fs. mq_confirmed q1 = mq_confirmed q @ fs"
  by (cases "get_channel br q") (blast dest: publish_batch_cases)

lemma publish_schedule:
  assumes "message_publisher (\<lambda>ms. publish_batch br ms dt) batches q (w_state v) = (q', x, r)"
    and "batches = drop (sr_taken s) (bs_sent (sr_batcher s))" "sr_taken s \<le> length (bs_sent (sr_batcher s))"
    and "sr_batched s = Some b" "sr_published s = None"
  shows "\<exists>v' s'. runs env br file dt (v, q, s) (v', q', s')
    \<and> same (deliver q q' (v\<lparr>w_state := x\<rparr>)) v' \<and> sr_batched s' = Some b \<and> sr_published s' = Some r"
  using assms
proof (induction batches arbitrary: q v s)
  case Nil
  let ?s = "s\<lparr>sr_published := Some (Ok ())\<rparr>"
  have "stream_step env br file dt (v, q, s) (v, q, ?s)" using Nil.prems by (intro Drained) simp_all
  then have "runs env br file dt (v, q, s) (v, q, ?s)"
    by (rule runs_step) (rule rtranclp.rtrancl_refl)
  with Nil.prems deliver_self show ?case by (intro exI [of _ v] exI [of _ ?s]) auto
next
  case (Cons batch batches)
  have k: "sr_taken s < length (bs_sent (sr_batcher s))" "bs_sent (sr_batcher s) ! sr_taken s = batch"
    "batches = drop (Suc (sr_taken s)) (bs_sent (sr_batcher s))"
    using Cons.prems(2,3) by (metis Cons_nth_drop_Suc drop_all linorder_not_le list.distinct(1) list.inject)+
  obtain q1 p where p: "publish_batch br batch dt q = (q1, p)" by force
  show ?case
  proof (cases p)
    case (Inl e)
    let ?s = "s\<lparr>sr_published := Some (Err e)\<rparr>"
    have "publisher_turn br dt q v s = (count_error (deliver q q1 v), q1, ?s)" using p k Inl by (simp add: publisher_turn_def)
    with Cons.prems k have "stream_step env br file dt (v, q, s) (count_error (deliver q q1 v), q1, ?s)" by (intro Publish) simp_all
    then have "runs env br file dt (v, q, s) (count_error (deliver q q1 v), q1, ?s)"
      by (rule runs_step) (rule rtranclp.rtrancl_refl)
    moreover have "q' = q1" "r = Err e" "count_error (deliver q q1 v) = deliver q q1 (v\<lparr>w_state := x\<rparr>)"
      using Cons.prems(1) p Inl by (auto simp: count_error_def on_state_def deliver_def note_event_def)
    ultimately show ?thesis
      using Cons.prems(4) by (intro exI [of _ "count_error (deliver q q1 v)"] exI [of _ ?s]) simp
  next
    case (Inr u)
    let ?s = "s\<lparr>sr_taken := sr_taken s + 1\<rparr>"
    let ?v = "deliver q q1 v"
    have "publisher_turn br dt q v s = (?v, q1, ?s)" using p k Inr by (simp add: publisher_turn_def)
    with Cons.prems k have step: "stream_step env br file dt (v, q, s) (?v, q1, ?s)" by (intro Publish) simp_all
    have run: "message_publisher (\<lambda>ms. publish_batch br ms dt) batches q1 (w_state ?v) = (q', x, r)"
      using Cons.prems(1) p Inr by (simp add: deliver_def note_event_def)
    from Cons.IH [OF this, of ?s] Cons.prems k obtain v' s' where
      IH: "runs env br file dt (?v, q1, ?s) (v', q', s')"
      "same (deliver q1 q' (?v\<lparr>w_state := x\<rparr>)) v'" "sr_batched s' = Some b" "sr_published s' = Some r"
      by auto
    obtain a c where "mq_confirmed q1 = mq_confirmed q @ a" "mq_confirmed q' = mq_confirmed q1 @ c"
      using publish_batch_confirms [OF p] publisher_confirms [OF run] by blast
    from same_trans [OF deliver_join [OF this, of "v\<lparr>w_state := x\<rparr>"]] IH(2)
    have "same (deliver q q' (v\<lparr>w_state := x\<rparr>)) v'" by (simp add: deliver_state)
    with IH runs_step [OF step IH(1)] show ?thesis by blast
  qed
qed

section \<open>One file\<close>

text \<open>No stage of the file loses its receiver; a publisher that fails is the exception the code makes.\<close>

definition open_stages :: "'r pipeline_env \<Rightarrow> string \<Rightarrow> bool" where
  "open_stages env file \<longleftrightarrow> ss_validator (pe_sends env file) = (\<lambda>_. True) \<and> ss_batcher (pe_sends env file) = (\<lambda>_. True)"

lemma stages_schedule:
  assumes "open_stages env file" "run_stages env br file dt q w = (q1, w1, r)" "same w v"
  shows "\<exists>v1. solo env file (v, Streaming dt q br (streams_init env file dt v)) (v1, Piped dt q1 br r) \<and> same w1 v1"
  using assms(2)
proof (rule run_stages_parts)
  fix st batched s1 published
  assume 1: "message_batcher (file_batcher env file dt) (ss_batcher (pe_sends env file)) (pe_now env)
      (pe_arrivals env file (normalized_records env file dt)) (batcher_init (w_state w) (w_marker w)) = (st, batched)"
    and 2: "message_publisher (\<lambda>ms. publish_batch br ms dt) (bs_sent st) q (bs_state st) = (q1, s1, published)"
    and w1: "w1 = deliver q q1 (batcher_saves env (bs_saved st) (w\<lparr>w_marker := bs_marker st\<rparr>)\<lparr>w_state := s1\<rparr>)"
    and r: "r = stages_result (snd (parse_stage env file dt)) (validate_stage env file dt (fst (parse_stage env file dt))) batched published"
  let ?s = "streams_init env file dt v" and ?b = "batcher_init (w_state w) (w_marker w)"
  have wv: "w_state v = w_state w" "w_marker v = w_marker w" using assms(3) by (simp_all add: same_def)
  have b0: "batching env v ?b v (sr_batcher ?s)"
    using batching_init [of env v "file" dt v] by (simp add: wv)
  from batch_schedule [OF 1 [unfolded assms(1) [unfolded open_stages_def, THEN conjunct2]] b0, where br = br and q = q] obtain v2 s2 where
    s2: "runs env br file dt (v, q, ?s) (v2, q, s2)"
    "batching env v st v2 (sr_batcher s2)" "sr_batched s2 = Some batched" "sr_taken s2 = 0" "sr_published s2 = None"
    by (auto simp: streams_init_def)
  let ?x = "batcher_saves env (bs_saved st) (with_batcher st v)"
  have x: "same ?x v2" "bs_sent (sr_batcher s2) = bs_sent st" "w_state v2 = bs_state st"
    using s2(2) batching_sent [OF s2(2)] batching_state [OF s2(2)] by (simp_all add: batching_def)
  have run: "message_publisher (\<lambda>ms. publish_batch br ms dt) (bs_sent st) q (w_state v2) = (q1, s1, published)"
    using 2 x(3) by simp
  have "bs_sent st = drop (sr_taken s2) (bs_sent (sr_batcher s2))" "sr_taken s2 \<le> length (bs_sent (sr_batcher s2))"
    using s2(4) x(2) by simp_all
  from publish_schedule [OF run this s2(3,5)] obtain v1 s' where
    s': "runs env br file dt (v2, q, s2) (v1, q1, s')"
    "same (deliver q q1 (v2\<lparr>w_state := s1\<rparr>)) v1" "sr_batched s' = Some batched" "sr_published s' = Some published"
    by blast
  have ok: "batched = Ok ()"
    using message_batcher_ok 1 assms(1) by (metis open_stages_def snd_conv)
  have checked: "validate_stage env file dt ms = Some (checked_records env dt ms)" for ms
    using assms(1) by (simp add: open_stages_def validate_stage_open)
  have "awaited env file dt s' = Some r"
    by (auto simp: checked awaited_def s'(3,4) r ok stages_result_def Let_def split: prod.splits sum.splits option.splits)
  from Join [OF this, of v1 q1 br] have "solo_step env file (v1, Streaming dt q1 br s') (v1, Piped dt q1 br r)"
    by (simp add: solo_step_def s'(3,4))
  with solo_runs [OF s2(1)] solo_runs [OF s'(1)] have "solo env file (v, Streaming dt q br ?s) (v1, Piped dt q1 br r)"
    by (meson rtranclp.rtrancl_into_rtrancl rtranclp_trans)
  moreover have "same w1 v1"
  proof -
    have "same (batcher_saves env (bs_saved st) (w\<lparr>w_marker := bs_marker st, w_state := bs_state st\<rparr>)) ?x"
      by (rule same_saves) (use assms(3) in \<open>simp add: same_def\<close>)
    from same_with_state [OF same_trans [OF this x(1)], of s1]
    have "same (batcher_saves env (bs_saved st) (w\<lparr>w_marker := bs_marker st, w_state := bs_state st\<rparr>)\<lparr>w_state := s1\<rparr>) (v2\<lparr>w_state := s1\<rparr>)" .
    moreover have "same (batcher_saves env (bs_saved st) (w\<lparr>w_marker := bs_marker st\<rparr>)\<lparr>w_state := s1\<rparr>)
      (batcher_saves env (bs_saved st) (w\<lparr>w_marker := bs_marker st, w_state := bs_state st\<rparr>)\<lparr>w_state := s1\<rparr>)"
      using saves_commute [of env "bs_saved st" st w] saves_commute [of env "bs_saved st" "st\<lparr>bs_state := w_state w\<rparr>" w]
      by (simp add: same_def)
    ultimately show ?thesis using s'(2) w1 by (metis same_steps(4) same_trans)
  qed
  ultimately show ?thesis by blast
qed

lemma solo_one: "task_step env file a (w', t', []) \<Longrightarrow> solo env file (w', t') b \<Longrightarrow> solo env file a b"
  by (rule converse_rtranclp_into_rtranclp) (auto simp: solo_step_def)

lemma pipeline_schedule:
  assumes "open_stages env file" "file_pipeline env br file dt q w = (q2, w2, r)" "same w v"
  shows "\<exists>v2. solo env file (v, Streaming dt q br (streams_init env file dt v)) (v2, Releasing dt r) \<and> same w2 v2"
proof -
  obtain q1 w1 p where stages: "run_stages env br file dt q w = (q1, w1, p)" by (metis surj_pair)
  obtain v1 where v1: "solo env file (v, Streaming dt q br (streams_init env file dt v)) (v1, Piped dt q1 br p)" "same w1 v1"
    using stages_schedule [OF assms(1) stages assms(3)] by blast
  show ?thesis
  proof (cases p)
    case (Inl e)
    have "solo env file (v1, Piped dt q1 br p) (v1, Releasing dt (Err e))"
      unfolding Inl by (rule solo_one [OF task_step.Fail]) (rule rtranclp.rtrancl_refl)
    moreover have "r = Err e" "w2 = w1" using assms(2) stages Inl by (simp_all add: file_pipeline_def)
    ultimately show ?thesis using v1 by (metis rtranclp_trans)
  next
    case (Inr n)
    obtain q3 sent where c: "send_file_complete br (pe_now env) dt file n q1 = (q3, sent)" by force
    have d: "same (deliver q1 q3 w1) (deliver q1 q3 v1)" by (rule same_steps(4) [OF v1(2)])
    show ?thesis
    proof (cases sent)
      case (Inl e)
      have "signal_file env file dt q1 br n v1 = (deliver q1 q3 v1, Releasing dt (Err (QueueFailed e)))"
        using c Inl by (simp add: signal_file_def)
      from solo_one [OF task_step.Signal [OF this] rtranclp.rtrancl_refl]
      have "solo env file (v1, Piped dt q1 br p) (deliver q1 q3 v1, Releasing dt (Err (QueueFailed e)))" unfolding Inr .
      moreover have "r = Err (QueueFailed e)" "w2 = deliver q1 q3 w1"
        using assms(2) stages Inr c Inl by (auto simp: file_pipeline_def complete_file_def)
      ultimately show ?thesis using v1 d by (metis rtranclp_trans)
    next
      case u: (Inr u)
      obtain w4 saved where s: "save_marker env (on_marker (complete_file_processing (pe_now env) file n) (deliver q1 q3 w1)) = (w4, saved)"
        by force
      obtain v4 where v4: "save_marker env (on_marker (complete_file_processing (pe_now env) file n) (deliver q1 q3 v1)) = (v4, saved)"
        "same w4 v4" using same_save [OF d s] by blast
      have "signal_file env file dt q1 br n v1 = (deliver q1 q3 v1, Signalled dt n)"
        using c u by (simp add: signal_file_def)
      moreover have "commit_file env file dt n (deliver q1 q3 v1) = (v4, Releasing dt (and_then saved (\<lambda>_. Ok n)))"
        using v4 by (simp add: commit_file_def)
      ultimately have "solo env file (v1, Piped dt q1 br p) (v4, Releasing dt (and_then saved (\<lambda>_. Ok n)))"
        unfolding Inr by (blast intro: solo_one task_step.Signal task_step.Commit)
      moreover have "r = and_then saved (\<lambda>_. Ok n)" "w2 = w4"
        using assms(2) stages Inr c u s by (simp_all add: file_pipeline_def complete_file_def)
      ultimately show ?thesis using v1 v4 by (metis rtranclp_trans)
    qed
  qed
qed

lemma process_schedule:
  assumes "open_stages env file" "process_single_file env br file q w = (w', r)" "same w v"
  shows "\<exists>v'. solo env file (v, Admitted q br) (v', Ended r) \<and> same w' v'"
proof (cases "extract_data_type file")
  case None
  then have "begin_file env file q br v = (v, Ended r)" "w' = w"
    using assms(2) by (simp_all add: begin_file_def process_single_file_def)
  with assms(3) show ?thesis by (blast intro: solo_one task_step.Begin)
next
  case dt: (Some dt)
  obtain w1 s where s: "save_marker env (on_marker (start_file_processing (pe_now env) file) w) = (w1, s)" by force
  obtain v1 where v1: "save_marker env (on_marker (start_file_processing (pe_now env) file) v) = (v1, s)" "same w1 v1"
    using same_save [OF assms(3) s] by blast
  obtain q1 x where x: "setup_exchange br dt q = (q1, x)" by force
  show ?thesis
  proof (cases s)
    case (Inl e)
    then have "begin_file env file q br v = (v1, Ended r)" "w' = w1"
      using assms(2) dt s v1 by (auto simp: begin_file_def process_single_file_def)
    with v1 show ?thesis by (blast intro: solo_one task_step.Begin)
  next
    case (Inr u)
    then have begin_file: "begin_file env file q br v = (v1, Begun dt q br)" using dt v1 by (simp add: begin_file_def)
    show ?thesis
    proof (cases x)
      case (Inl e)
      then have "declare_exchange env file dt q br v1 = (v1, Ended r)" "w' = w1"
        using assms(2) dt s Inr x by (simp_all add: declare_exchange_def process_single_file_def)
      with v1 begin_file show ?thesis by (blast intro: solo_one task_step.Begin task_step.Declare)
    next
      case y: (Inr y)
      obtain q2 w3 p where f: "file_pipeline env br file dt q1 (connected file dt w1) = (q2, w3, p)" by (metis surj_pair)
      let ?v = "connected file dt v1"
      have "same (connected file dt w1) ?v" using v1 by (simp add: connected_def same_steps)
      from pipeline_schedule [OF assms(1) f this] obtain v3 where
        v3: "solo env file (?v, Streaming dt q1 br (streams_init env file dt ?v)) (v3, Releasing dt p)" "same w3 v3" by blast
      have "declare_exchange env file dt q br v1 = (?v, Streaming dt q1 br (streams_init env file dt ?v))"
        using x y by (simp add: declare_exchange_def Let_def)
      with begin_file have a: "solo env file (v, Admitted q br) (?v, Streaming dt q1 br (streams_init env file dt ?v))"
        by (blast intro: solo_one task_step.Begin task_step.Declare)
      let ?v' = "note_event Closed (release_file file dt (is_ok p) v3)"
      have res: "w' = note_event Closed (release_file file dt (is_ok p) w3)" "r = and_then p (\<lambda>_. Ok ())"
        using assms(2) dt s Inr x y f by (simp_all add: process_single_file_def connected_def)
      then have "finish_task file dt p v3 = (?v', Ended r)" by (simp add: finish_task_def)
      then have "solo env file (v3, Releasing dt p) (?v', Ended r)" by (blast intro: solo_one task_step.Release)
      with a v3(1) have "solo env file (v, Admitted q br) (?v', Ended r)" by (meson rtranclp_trans)
      moreover have "same w' ?v'" using v3(2) by (simp add: res release_file_def same_steps)
      ultimately show ?thesis by blast
    qed
  qed
qed

section \<open>All files\<close>

lemma solo_reach:
  assumes "solo env file (w, t) b" "i < length (cn_tasks c)" "files ! i = file" "cn_stray c = []"
    and "conc_reach env workers files c0 (c\<lparr>cn_world := w, cn_tasks := (cn_tasks c)[i := t]\<rparr>)"
  shows "conc_reach env workers files c0 (c\<lparr>cn_world := fst b, cn_tasks := (cn_tasks c)[i := snd b]\<rparr>)"
  using assms(1)
proof (induction rule: rtranclp_induct)
  case base
  with assms(5) show ?case by simp
next
  case (step a b)
  let ?c = "c\<lparr>cn_world := fst a, cn_tasks := (cn_tasks c)[i := snd a]\<rparr>"
  have "task_step env (files ! i) (cn_world ?c, cn_tasks ?c ! i) (fst b, snd b, [])"
    using step(2) assms(2,3) by (simp add: solo_step_def)
  from conc_step.Work [of i ?c, OF _ this, of workers] assms(2,4)
  have "conc_step env workers files ?c (c\<lparr>cn_world := fst b, cn_tasks := (cn_tasks c)[i := snd b]\<rparr>)"
    by (cases c) simp
  with step(3) show ?case by (rule conc_reach.Next)
qed

lemma task_schedule:
  assumes "open_stages env file" "file_task env file w = (w', r)" "same w (cn_world c)" "0 < workers"
    and "i < length (cn_tasks c)" "files ! i = file" "cn_tasks c ! i = Spawned" "cn_stray c = []" "\<not> list_ex holding (cn_tasks c)"
    and "conc_reach env workers files c0 c"
  shows "\<exists>v'. conc_reach env workers files c0 (c\<lparr>cn_world := v', cn_tasks := (cn_tasks c)[i := Ended r]\<rparr>) \<and> same w' v'"
proof -
  have free: "length (filter holding (cn_tasks c)) < workers"
    using assms(4,9) by (simp add: list_ex_iff filter_False)
  have step: "conc_reach env workers files c0 (c\<lparr>cn_world := v, cn_tasks := (cn_tasks c)[i := t]\<rparr>)"
    if "admit env (cn_world c) = (v, t)" for v t
    using assms(10) Admit [OF assms(5,7) free that] by (rule conc_reach.Next)
  obtain w1 b where b: "poll_shutdown env w = (w1, b)" by force
  obtain v1 where v1: "poll_shutdown env (cn_world c) = (v1, b)" "same w1 v1" using same_poll [OF assms(3) b] by blast
  show ?thesis
  proof (cases b)
    case True
    with assms(2) b v1 step [of v1 "Ended r"] show ?thesis by (auto simp: file_task_def admit_def)
  next
    case False
    obtain w2 x where x: "create_queue env w1 = (w2, x)" by force
    obtain v2 where v2: "create_queue env v1 = (v2, x)" "same w2 v2" using same_queue [OF v1(2) x] by blast
    show ?thesis
    proof (cases x)
      case None
      with assms(2) b False v1 x v2 step [of v2 "Ended r"] show ?thesis by (auto simp: file_task_def admit_def)
    next
      case (Some qb)
      obtain q br where qb: "qb = (q, br)" by force
      have "process_single_file env br file q w2 = (w', r)" using assms(2) b False x Some qb by (simp add: file_task_def)
      from process_schedule [OF assms(1) this v2(2)] obtain v' where
        v': "solo env file (v2, Admitted q br) (v', Ended r)" "same w' v'" by blast
      have "admit env (cn_world c) = (v2, Admitted q br)" using v1 v2 False Some qb by (simp add: admit_def)
      from solo_reach [OF v'(1) assms(5,6,8) step [OF this]] v'(2) show ?thesis by auto
    qed
  qed
qed

lemma run_schedule:
  assumes "run_tasks env rest w = (w', ok)" "list_all (open_stages env) rest" "0 < workers" "same w v" "files = past @ rest"
    and "length rs = length past"
    and "conc_reach env workers files c0 \<lparr>cn_world = v, cn_tasks = map Ended rs @ map (\<lambda>_. Spawned) rest, cn_stray = []\<rparr>"
  shows "\<exists>v' rs'. conc_reach env workers files c0 \<lparr>cn_world = v', cn_tasks = map Ended (rs @ rs'), cn_stray = []\<rparr>
    \<and> same w' v' \<and> length rs' = length rest \<and> ok = list_all is_ok rs'"
  using assms
proof (induction rest arbitrary: w v past rs ok)
  case Nil
  then show ?case by (intro exI [of _ v] exI [of _ "[]"]) simp
next
  case (Cons "file" rest)
  obtain w1 r where t: "file_task env file w = (w1, r)" by force
  obtain ok1 where run: "run_tasks env rest w1 = (w', ok1)" "ok = (is_ok r \<and> ok1)"
    using Cons.prems(1) t by (auto split: prod.splits)
  let ?c = "\<lparr>cn_world = v, cn_tasks = map Ended rs @ map (\<lambda>_. Spawned) (file # rest), cn_stray = []\<rparr>"
  have "\<not> list_ex holding (cn_tasks ?c)" by (auto simp: list_ex_iff)
  then obtain v1 where v1: "conc_reach env workers files c0
      (?c\<lparr>cn_world := v1, cn_tasks := (cn_tasks ?c)[length past := Ended r]\<rparr>)" "same w1 v1"
    using task_schedule [OF _ t, of ?c workers "length past" files c0] Cons.prems(2-7)
    by (auto simp: nth_append)
  then have "conc_reach env workers files c0
      \<lparr>cn_world = v1, cn_tasks = map Ended (rs @ [r]) @ map (\<lambda>_. Spawned) rest, cn_stray = []\<rparr>"
    using Cons.prems(6) by (simp add: list_update_append)
  from Cons.IH [OF run(1) _ Cons.prems(3) v1(2) _ _ this, of "past @ [file]"] Cons.prems obtain v' rs' where
    "conc_reach env workers files c0 \<lparr>cn_world = v', cn_tasks = map Ended ((rs @ [r]) @ rs'), cn_stray = []\<rparr>"
    "same w' v'" "length rs' = length rest" "ok1 = list_all is_ok rs'" by auto
  with run(2) show ?case by (intro exI [of _ v'] exI [of _ "r # rs'"]) simp
qed

lemma sequential_schedule:
  assumes "run_tasks env files w = (w', ok)" "list_all (open_stages env) files" "0 < workers"
  shows "\<exists>v rs. conc_reach env workers files (spawn_tasks files w) \<lparr>cn_world = v, cn_tasks = map Ended rs, cn_stray = []\<rparr>
    \<and> same w' v \<and> length rs = length files \<and> ok = list_all is_ok rs"
  using run_schedule [OF assms(1,2,3) same_refl, of files "[]" "[]" "spawn_tasks files w"] conc_reach.Start [of env workers files "spawn_tasks files w"]
  by (simp add: spawn_tasks_def)

text \<open>
  C5: the sequential run refines the concurrent one: when the stages of a file stay connected, running the
  files one after another is a schedule of the concurrent tasks for any number of workers, with the same
  results and, but for the cutting of deliveries into batches, the same events, state, marker and disk.
\<close>

theorem sequential_is_a_schedule:
  assumes "run_tasks env files w = (w', ok)" "list_all (open_stages env) files" "0 < workers"
  shows "\<exists>v rs. conc_reach env workers files (spawn_tasks files w) \<lparr>cn_world = v, cn_tasks = map Ended rs, cn_stray = []\<rparr>
    \<and> same w' v \<and> length rs = length files \<and> ok = list_all is_ok rs"
  by (rule sequential_schedule [OF assms])

end
