(* ===== verification/Stragglers.thy ===== *)
theory Stragglers
  imports Concurrent_Schedule Run_Liveness
begin

text \<open>
  What a file leaves behind.  Without rules \<open>process_single_file\<close> returns at the first stage that fails and
  drops the handles of the others, which tokio detaches: they go on with a connection the file has closed.
\<close>

section \<open>A broker that answers\<close>

definition answering :: "broker \<Rightarrow> bool" where
  "answering br \<longleftrightarrow> br_connects br = (\<lambda>_. True) \<and> br_connected br = (\<lambda>_. True) \<and> br_declares br = (\<lambda>_. True)
     \<and> br_send br = (\<lambda>_. Sent) \<and> br_confirm br = (\<lambda>_. Confirmed True None)"

text \<open>It is reached again after a close.\<close>

lemma answering_channel:
  assumes "answering br"
  shows "\<exists>q1. get_channel br q = (q1, Ok ()) \<and> healthy br q1"
proof (cases "mq_channel q")
  case True
  with assms healthy_get_channel [of br q] show ?thesis by (auto simp: answering_def healthy_def)
next
  case False
  with assms show ?thesis
    by (auto simp: answering_def get_channel_def channel_connected_def connect_def connect_loop.simps [of br 0]
        try_connect_def healthy_def Let_def)
qed

lemma answering_batch:
  assumes "answering br" "publish_batch br ms d q = (q', r)"
  shows "is_ok r"
proof -
  obtain q1 where g: "get_channel br q = (q1, Ok ())" "healthy br q1" using answering_channel [OF assms(1)] by blast
  obtain q2 s where s: "send_all br (exchange_name q1 d) ms q1 = (q2, s)" by force
  with healthy_send_all [OF g(2) s] healthy_settle_all [of br q2 "exchange_name q1 d" _ q' r] assms(2) show ?thesis
    by (cases s) (auto simp: publish_batch_def g)
qed

lemma answering_publisher:
  "answering br \<Longrightarrow> message_publisher (\<lambda>ms. publish_batch br ms d) bs q s = (q', s', r) \<Longrightarrow> r = Ok () \<and> s' = s"
proof (induction bs arbitrary: q)
  case (Cons b bs)
  obtain q1 x where p: "publish_batch br b d q = (q1, x)" by force
  with answering_batch [OF Cons.prems(1) p] Cons show ?case by (cases x) auto
qed simp

section \<open>Stages on their own\<close>

lemma stray_reach:
  assumes "runs env br f dt (w, q, s) b" "conc_reach env workers files c0 (c\<lparr>cn_world := w, cn_stray := [Straggler f dt q br s]\<rparr>)"
  shows "conc_reach env workers files c0
    (c\<lparr>cn_world := fst b, cn_stray := [Straggler f dt (fst (snd b)) br (snd (snd b))]\<rparr>)"
  using assms(1)
proof (induction rule: rtranclp_induct)
  case base
  with assms(2) show ?case by simp
next
  case (step a b)
  let ?c = "c\<lparr>cn_world := fst a, cn_stray := [Straggler f dt (fst (snd a)) br (snd (snd a))]\<rparr>"
  have "stream_step env br f dt (cn_world ?c, fst (snd a), snd (snd a)) (fst b, fst (snd b), snd (snd b))"
    using step(2) by simp
  from conc_step.Stray [of 0 ?c, OF _ _ this, of workers files]
  have "conc_step env workers files ?c (c\<lparr>cn_world := fst b, cn_stray := [Straggler f dt (fst (snd b)) br (snd (snd b))]\<rparr>)"
    by simp
  with step(3) show ?case by (rule conc_reach.Next)
qed

text \<open>A step of the only task.\<close>

lemma only_task:
  assumes "conc_reach env workers [file] c0 \<lparr>cn_world = w, cn_tasks = [t], cn_stray = gs\<rparr>"
    and "task_step env file (w, t) (w', t', left)"
  shows "conc_reach env workers [file] c0 \<lparr>cn_world = w', cn_tasks = [t'], cn_stray = map (hang_up file t) gs @ left\<rparr>"
proof (rule conc_reach.Next [OF assms(1)])
  from conc_step.Work [of 0 "\<lparr>cn_world = w, cn_tasks = [t], cn_stray = gs\<rparr>" env "[file]" w' t' left workers] assms(2)
  show "conc_step env workers [file] \<lparr>cn_world = w, cn_tasks = [t], cn_stray = gs\<rparr>
    \<lparr>cn_world = w', cn_tasks = [t'], cn_stray = map (hang_up file t) gs @ left\<rparr>" by simp
qed

text \<open>A file whose dump fails: its task ends at once, with all of its stages still at work.\<close>

lemma failed_file_ends:
  assumes env: "pe_rules env = None" "extract_data_type file = Some dt" "parse_stage env file dt = (msgs, Inl e)"
    and w: "poll_shutdown env w = (w1, False)" "create_queue env w1 = (w2, Some (q, br))" "0 < workers"
    and begin_file: "save_marker env (on_marker (start_file_processing (pe_now env) file) w2) = (w3, Inr u)"
    and declared: "setup_exchange br dt q = (q1, Inr v)"
  shows "conc_reach env workers [file] (spawn_tasks [file] w)
    \<lparr>cn_world = note_event Closed (release_file file dt False (connected file dt w3)), cn_tasks = [Ended (Err e)],
     cn_stray = [Straggler file dt (mq_close q1) br (streams_init env file dt (connected file dt w3))]\<rparr>"
proof -
  let ?w = "connected file dt w3" and ?reach = "conc_reach env workers [file] (spawn_tasks [file] w)"
  let ?s = "streams_init env file dt ?w"
  have "admit env w = (w2, Admitted q br)" using w by (simp add: admit_def)
  from conc_step.Admit [of 0 "spawn_tasks [file] w" workers env w2 "Admitted q br" "[file]"] this w(3)
  have "conc_step env workers [file] (spawn_tasks [file] w) \<lparr>cn_world = w2, cn_tasks = [Admitted q br], cn_stray = []\<rparr>"
    by (simp add: spawn_tasks_def)
  from conc_reach.Next [OF conc_reach.Start this]
  have 1: "?reach \<lparr>cn_world = w2, cn_tasks = [Admitted q br], cn_stray = []\<rparr>" .
  have "begin_file env file q br w2 = (w3, Begun dt q br)" using env(2) begin_file by (simp add: begin_file_def)
  from only_task [OF 1 task_step.Begin [OF this]]
  have 2: "?reach \<lparr>cn_world = w3, cn_tasks = [Begun dt q br], cn_stray = []\<rparr>" by simp
  have "declare_exchange env file dt q br w3 = (?w, Streaming dt q1 br ?s)"
    using declared by (simp add: declare_exchange_def Let_def)
  from only_task [OF 2 task_step.Declare [OF this]]
  have 3: "?reach \<lparr>cn_world = ?w, cn_tasks = [Streaming dt q1 br ?s], cn_stray = []\<rparr>" by simp
  have "awaited env file dt ?s = Some (Err e)" using env by (simp add: awaited_def)
  from only_task [OF 3 task_step.Join [OF this]]
  have 4: "?reach \<lparr>cn_world = ?w, cn_tasks = [Piped dt q1 br (Err e)], cn_stray = [Straggler file dt q1 br ?s]\<rparr>"
    by (simp add: streams_init_def)
  from only_task [OF 4 task_step.Fail]
  have 5: "?reach \<lparr>cn_world = ?w, cn_tasks = [Releasing dt (Err e)], cn_stray = [Straggler file dt q1 br ?s]\<rparr>" by simp
  have "finish_task file dt (Err e) ?w = (note_event Closed (release_file file dt False ?w), Ended (Err e))"
    by (simp add: finish_task_def)
  from only_task [OF 5 task_step.Release [OF this]] show ?thesis by simp
qed

lemma saves_log: "pe_save_ok env = (\<lambda>_. True) \<Longrightarrow> w_log (batcher_saves env ms w) = w_log w @ map Saved ms"
proof (induction ms arbitrary: w)
  case (Cons m ms)
  then show ?case by (simp add: batcher_saves_def write_marker_def note_event_def Let_def)
qed (simp add: batcher_saves_def)

lemma batcher_saves_last:
  assumes "message_batcher cfg accepts now is (batcher_init s m) = (st, Ok u)"
  shows "bs_saved st \<noteq> []"
proof -
  have "batcher_inv cfg (pg_get (es_extraction_progress s) (bc_data_type cfg)) [] (batcher_init s m)"
    by (simp add: batcher_inv_def batcher_init_def)
  from message_batcher_inv [OF this, of accepts now "is" st] assms show ?thesis by (auto simp: save_progress_def Let_def)
qed

lemma flat_plain: "flat (map Saved ms) = map Saved ms"
  by (induction ms) (simp_all add: flat_def)

text \<open>The stages of a file to their end, on a broker that answers.\<close>

lemma stages_finish:
  assumes "answering br" "pe_save_ok env = (\<lambda>_. True)" "\<And>ms. received (pe_arrivals env file ms) = ms"
  shows "\<exists>w' q' s' ms. runs env br file dt (w, q, streams_init env file dt x) (w', q', s') \<and> ms \<noteq> []
    \<and> sr_batched s' = Some (Ok ()) \<and> sr_published s' = Some (Ok ())
    \<and> flat (w_log w') = flat (w_log w) @ map Saved ms @ atoms (Delivered (frames (exchange_name q dt) (normalized_records env file dt)))"
proof -
  let ?s = "streams_init env file dt x" and ?b = "batcher_init (w_state w) (w_marker w)"
  obtain st r where 1: "message_batcher (file_batcher env file dt) (\<lambda>_. True) (pe_now env)
      (pe_arrivals env file (normalized_records env file dt)) ?b = (st, r)" by force
  then have r: "r = Ok ()" using message_batcher_ok by (metis snd_conv)
  from batch_schedule [OF 1 batching_init [of env w "file" dt x], where br = br and q = q] obtain v s2 where
    s2: "runs env br file dt (w, q, ?s) (v, q, s2)" "batching env w st v (sr_batcher s2)"
    "sr_batched s2 = Some r" "sr_taken s2 = 0" "sr_published s2 = None"
    by (auto simp: streams_init_def)
  have v: "flat (w_log v) = flat (w_log w) @ map Saved (bs_saved st)" "bs_sent (sr_batcher s2) = bs_sent st"
    using s2(2) batching_sent [OF s2(2)] by (simp_all add: batching_def same_def saves_log [OF assms(2)] flat_plain)
  obtain q' y p where run: "message_publisher (\<lambda>ms. publish_batch br ms dt) (bs_sent st) q (w_state v) = (q', y, p)"
    by (metis surj_pair)
  have p: "p = Ok ()" using answering_publisher [OF assms(1) run] by simp
  have "bs_sent st = drop (sr_taken s2) (bs_sent (sr_batcher s2))" "sr_taken s2 \<le> length (bs_sent (sr_batcher s2))"
    using s2(4) v(2) by simp_all
  from publish_schedule [OF run this s2(3,5)] obtain w' s' where
    s': "runs env br file dt (v, q, s2) (w', q', s')" "same (deliver q q' (v\<lparr>w_state := y\<rparr>)) w'"
    "sr_batched s' = Some r" "sr_published s' = Some p"
    by blast
  have "mq_confirmed q' = mq_confirmed q @ frames (exchange_name q dt) (normalized_records env file dt)"
    using publisher_frames [of br dt "bs_sent st" q "w_state v" q' y "()"] run p batcher_concat [OF 1 [unfolded r]] assms(3) by simp
  then have "flat (w_log w') = flat (w_log v) @ atoms (Delivered (frames (exchange_name q dt) (normalized_records env file dt)))"
    using s'(2) by (simp add: same_def deliver_def note_event_def flat_def)
  with v(1) have "flat (w_log w') = flat (w_log w) @ map Saved (bs_saved st)
      @ atoms (Delivered (frames (exchange_name q dt) (normalized_records env file dt)))" by simp
  moreover have "runs env br file dt (w, q, ?s) (w', q', s')" using s2(1) s'(1) by (rule rtranclp_trans)
  ultimately show ?thesis using batcher_saves_last [OF 1 [unfolded r]] s'(3,4) r p by blast
qed

text \<open>
  C16: without rules, the stages of a file that fails to parse outlive it: there is a run in which the file's
  task has failed and closed its connection, and its stages then save the marker and publish, to a
  connection they open again, every record that was parsed before the failure.
\<close>

theorem failed_file_keeps_publishing:
  assumes "pe_rules env = None" "extract_data_type file = Some dt" "parse_stage env file dt = (msgs, Inl e)"
    and "poll_shutdown env w = (w1, False)" "create_queue env w1 = (w2, Some (q, br))" "0 < workers"
    and "save_marker env (on_marker (start_file_processing (pe_now env) file) w2) = (w3, Inr u)"
    and "setup_exchange br dt q = (q1, Inr v)"
    and "answering br" "pe_save_ok env = (\<lambda>_. True)" "\<And>ms. received (pe_arrivals env file ms) = ms"
  shows "\<exists>c c' ms. conc_reach env workers [file] (spawn_tasks [file] w) c \<and> cn_tasks c = [Ended (Err e)]
    \<and> last (w_log (cn_world c)) = Closed \<and> conc_reach env workers [file] c c' \<and> cn_tasks c' = cn_tasks c \<and> ms \<noteq> []
    \<and> flat (w_log (cn_world c')) = flat (w_log (cn_world c)) @ map Saved ms
        @ atoms (Delivered (frames (exchange_name q dt) (normalized_records env file dt)))"
proof -
  let ?u = "connected file dt w3"
  let ?w = "note_event Closed (release_file file dt False ?u)" and ?s = "streams_init env file dt ?u"
  let ?c = "\<lparr>cn_world = ?w, cn_tasks = [Ended (Err e)], cn_stray = [Straggler file dt (mq_close q1) br ?s]\<rparr>"
  note c = failed_file_ends [OF assms(1-8)]
  have "exchange_name (mq_close q1) dt = exchange_name q dt"
    using setup_exchange_prefix [OF assms(8)] by (simp add: exchange_name_def mq_close_def)
  with stages_finish [OF assms(9-11), where dt = dt and w = ?w and q = "mq_close q1" and x = ?u] obtain w' q' s' ms where
    run: "runs env br file dt (?w, mq_close q1, ?s) (w', q', s')" "ms \<noteq> []"
    "flat (w_log w') = flat (w_log ?w) @ map Saved ms
      @ atoms (Delivered (frames (exchange_name q dt) (normalized_records env file dt)))" by auto
  from stray_reach [OF run(1), of workers "[file]" ?c ?c] conc_reach.Start [of env workers "[file]" ?c]
  have "conc_reach env workers [file] ?c \<lparr>cn_world = w', cn_tasks = [Ended (Err e)], cn_stray = [Straggler file dt q' br s']\<rparr>"
    by simp
  with c run(2,3) show ?thesis
    by (intro exI [of _ ?c] exI [of _ "\<lparr>cn_world = w', cn_tasks = [Ended (Err e)], cn_stray = [Straggler file dt q' br s']\<rparr>"]
        exI [of _ ms]) (simp add: note_event_def)
qed

section \<open>Sample runs\<close>

text \<open>The dump of \<open>sample_run\<close>, and the same without its end: the reader fails twice at one place.\<close>

definition cut_run :: "unit pipeline_env" where
  "cut_run = (sample_run (\<lambda>_. fine_broker))\<lparr>pe_reads := (\<lambda>_. Some (take 6 one_artist @ [ReadError 7, ReadError 7]))\<rparr>"

lemma cut_parsed: "parse_stage cut_run artists_file Artists =
    (fst (parse_stage (sample_run (\<lambda>_. fine_broker)) artists_file Artists), snd (parse_stage cut_run artists_file Artists))
  \<and> \<not> is_ok (snd (parse_stage cut_run artists_file Artists))
  \<and> length (fst (parse_stage cut_run artists_file Artists)) = 1"
  by code_simp

theorem failed_file_keeps_publishing_witness:
  "\<exists>c c' ms. conc_reach cut_run 1 [artists_file] (spawn_tasks [artists_file] fresh_world) c
    \<and> list_all failed (cn_tasks c) \<and> last (w_log (cn_world c)) = Closed \<and> conc_reach cut_run 1 [artists_file] c c'
    \<and> ms \<noteq> [] \<and> flat (w_log (cn_world c')) = flat (w_log (cn_world c)) @ map Saved ms
        @ atoms (Delivered (frames ''groovemap-discogs-artists'' (normalized_records cut_run artists_file Artists)))"
proof -
  let ?env = cut_run and ?f = artists_file and ?w = fresh_world
  obtain msgs e where p: "parse_stage ?env ?f Artists = (msgs, Inl e)"
    using cut_parsed by (cases "parse_stage ?env ?f Artists"; cases "snd (parse_stage ?env ?f Artists)") auto
  have env: "pe_rules ?env = None" "pe_save_ok ?env = (\<lambda>_. True)" "pe_arrivals ?env = (\<lambda>_ ms. map (Received 9) ms)"
    "pe_shutdown_from ?env = None" "pe_queue ?env = (\<lambda>_. Some open_queue)" "pe_broker ?env = (\<lambda>_. fine_broker)"
    by (simp_all add: cut_run_def sample_run_def)
  have arrivals: "received (pe_arrivals ?env ?f ms) = ms" for ms
    by (simp add: env, induction ms) simp_all
  obtain w1 where w1: "poll_shutdown ?env ?w = (w1, False)" by (simp add: poll_shutdown_def env)
  obtain w2 where w2: "create_queue ?env w1 = (w2, Some (open_queue, fine_broker))" by (simp add: create_queue_def env)
  obtain w3 x where w3: "save_marker ?env (on_marker (start_file_processing (pe_now ?env) ?f) w2) = (w3, x)" by force
  from save_ok [OF env(2) w3] have x: "x = Inr ()" .
  have sample_declares: "br_declares fine_broker n" for n by (simp add: fine_broker_def)
  obtain q1 y where q1: "setup_exchange fine_broker Artists open_queue = (q1, y)" by force
  then have y: "y = Inr ()"
    by (simp add: setup_exchange_def healthy_get_channel [OF sample_broker] sample_declares)
  have "answering fine_broker" by (simp add: answering_def fine_broker_def)
  from failed_file_keeps_publishing [OF env(1) sample_parsed(1) p w1 w2 _ w3 [unfolded x] q1 [unfolded y] this env(2) arrivals, of 1]
  show ?thesis by (fastforce simp: failed_def exchange_name_def open_queue_def)
qed

text \<open>A run of one file, as the tasks make it.\<close>

lemma sample_schedule:
  "\<exists>w' v. run_tasks (sample_run (\<lambda>_. fine_broker)) [artists_file] fresh_world = (w', True) \<and> same w' v
    \<and> conc_reach (sample_run (\<lambda>_. fine_broker)) 2 [artists_file] (spawn_tasks [artists_file] fresh_world)
      \<lparr>cn_world = v, cn_tasks = [Ended (Ok ())], cn_stray = []\<rparr>"
proof -
  let ?env = "sample_run (\<lambda>_. fine_broker)"
  have env: "pe_save_ok ?env = (\<lambda>_. True)" "pe_shutdown_from ?env = None" "pe_queue ?env = (\<lambda>_. Some open_queue)"
    "pe_broker ?env = (\<lambda>_. fine_broker)"
    by (simp_all add: sample_run_def)
  obtain w' r where t: "file_task ?env artists_file fresh_world = (w', r)" by force
  then have "process_single_file ?env fine_broker artists_file open_queue
      (fresh_world\<lparr>w_polls := 1, w_queues := 1\<rparr>) = (w', r)"
    by (simp add: file_task_def poll_shutdown_def create_queue_def env fresh_world_def)
  from healthy_single_file [OF sample_broker sample_file env(1) this] have r: "r = Ok ()" .
  then have run: "run_tasks ?env [artists_file] fresh_world = (w', True)" using t by simp
  have "list_all (open_stages ?env) [artists_file]" by (simp add: open_stages_def sample_run_def)
  from sequential_schedule [OF run this, of 2] obtain v rs where
    v: "conc_reach ?env 2 [artists_file] (spawn_tasks [artists_file] fresh_world) \<lparr>cn_world = v, cn_tasks = map Ended rs, cn_stray = []\<rparr>"
    "same w' v" "length rs = 1" "list_all is_ok rs" by auto
  then have "rs = [Ok ()]" by (cases rs; cases "hd rs") auto
  with v run show ?thesis by auto
qed

theorem sequential_is_a_schedule_witness:
  "\<exists>v rs. conc_reach (sample_run (\<lambda>_. fine_broker)) 2 [artists_file] (spawn_tasks [artists_file] fresh_world)
      \<lparr>cn_world = v, cn_tasks = map Ended rs, cn_stray = []\<rparr>
    \<and> same (fst (run_tasks (sample_run (\<lambda>_. fine_broker)) [artists_file] fresh_world)) v \<and> list_all is_ok rs"
proof -
  let ?env = "sample_run (\<lambda>_. fine_broker)"
  obtain w' where w: "run_tasks ?env [artists_file] fresh_world = (w', True)" using sample_schedule by blast
  have "list_all (open_stages ?env) [artists_file]" by (simp add: open_stages_def sample_run_def)
  from sequential_is_a_schedule [OF w this, of 2] w show ?thesis by auto
qed

theorem concurrent_commits_witness:
  "\<exists>c. conc_reach (sample_run (\<lambda>_. fine_broker)) 2 [artists_file] (spawn_tasks [artists_file] fresh_world) c
    \<and> cn_tasks c = [Ended (Ok ())]
    \<and> ordered (file_complete artists_file) (file_signal artists_file) False (w_log (cn_world c))"
proof -
  obtain v where v: "conc_reach (sample_run (\<lambda>_. fine_broker)) 2 [artists_file] (spawn_tasks [artists_file] fresh_world)
      \<lparr>cn_world = v, cn_tasks = [Ended (Ok ())], cn_stray = []\<rparr>" using sample_schedule by blast
  have "w_log fresh_world = []" "\<not> file_complete artists_file (w_marker fresh_world)"
    by (simp_all add: fresh_world_def file_complete_def sm_new_def pp_default_def)
  with concurrent_commits [OF v, of artists_file] v show ?thesis
    by (intro exI [of _ "\<lparr>cn_world = v, cn_tasks = [Ended (Ok ())], cn_stray = []\<rparr>"]) simp
qed

theorem concurrent_success_complete_witness:
  "\<exists>c. conc_reach (sample_run (\<lambda>_. fine_broker)) 2 [artists_file] (spawn_tasks [artists_file] fresh_world) c
    \<and> pending_files (w_marker fresh_world) [artists_file] = [artists_file]
    \<and> pending_files (w_marker (cn_world c)) [artists_file] = []"
proof -
  let ?env = "sample_run (\<lambda>_. fine_broker)"
  obtain v where v: "conc_reach ?env 2 [artists_file] (spawn_tasks [artists_file] fresh_world)
      \<lparr>cn_world = v, cn_tasks = [Ended (Ok ())], cn_stray = []\<rparr>" using sample_schedule by blast
  have "\<not> snd (poll_shutdown ?env v)" by (simp add: poll_shutdown_def sample_run_def)
  with concurrent_success_complete [OF v] have "pending_files (w_marker v) [artists_file] = []" by simp
  moreover have "pending_files (w_marker fresh_world) [artists_file] = [artists_file]"
    by (simp add: fresh_world_def pending_files_def sm_new_def pp_default_def)
  ultimately show ?thesis using v by force
qed

end
