(* ===== verification/Concurrent_Run.thy ===== *)
theory Concurrent_Run
  imports Stragglers
begin

text \<open>
  The end of \<open>process_discogs_data\<close> on the tasks of \<open>Concurrent_Files\<close>: when all of them have ended, in any
  interleaving, the run is decided and committed; stages left behind may go on after it.
\<close>

section \<open>The decision\<close>

text \<open>What \<open>process_pending\<close> does once all tasks have been awaited; \<open>ok\<close> says that none failed.\<close>

definition conclude :: "'r pipeline_env \<Rightarrow> string \<Rightarrow> time \<Rightarrow> bool \<Rightarrow> world \<Rightarrow> world \<times> (pipeline_error + bool)" where
  "conclude env version started_at ok w =
     (let (w1, shutdown) = poll_shutdown env w; success = (ok \<and> \<not> shutdown)
      in case save_marker env (if success then on_marker (complete_processing (pe_now env)) w1 else w1) of
           (w2, Inl e) \<Rightarrow> (w2, Err e)
         | (w2, Inr _) \<Rightarrow>
             (let (w3, sent) = (if success then broadcast env version started_at w2 else (w2, False)) in
              if sent then
                (case save_marker env (on_marker complete_extraction w3) of
                   (w4, Inl e) \<Rightarrow> (w4, Err e)
                 | (w4, Inr _) \<Rightarrow> (set_status StatusCompleted w4, Ok True))
              else (set_status StatusFailed w3, Ok False)))"

lemma process_pending_conclude:
  "process_pending env version started_at pending w = (let (w1, ok) = run_tasks env pending w in conclude env version started_at ok w1)"
  by (simp add: process_pending_def conclude_def Let_def split_def cong: if_cong)

lemma conclude_pending: "conclude env version started_at True w = process_pending env version started_at [] w"
  by (simp add: process_pending_conclude)

lemma conclude_refused:
  assumes "conclude env version started_at False w = (w', r)"
  obtains w1 w2 b s where "poll_shutdown env w = (w1, b)" "save_marker env w1 = (w2, s)"
    "case s of Inl e \<Rightarrow> w' = w2 \<and> r = Err e | Inr u \<Rightarrow> w' = set_status StatusFailed w2 \<and> r = Ok False"
  using assms by (auto simp: conclude_def Let_def split: prod.splits sum.splits)

lemma plain_marker: "on_marker (\<lambda>m. m) w = w"
  by (simp add: on_marker_def)

lemma poll_fields: "poll_shutdown env w = (w', b) \<Longrightarrow> w_marker w' = w_marker w \<and> w_log w' = w_log w"
  by (auto simp: poll_shutdown_def)

lemma conclude_settled:
  assumes "conclude env version started_at ok w = (w', Inr done)" "\<not> version_complete (w_marker w)"
  shows "settled (w_marker w) w' done"
proof (cases ok)
  case True
  with assms process_pending_settled show ?thesis by (metis conclude_pending)
next
  case False
  with assms(1) obtain w1 w2 b u where "poll_shutdown env w = (w1, b)" "save_marker env w1 = (w2, Inr u)"
    "w' = set_status StatusFailed w2" "done = False"
    by (auto elim!: conclude_refused split: sum.splits)
  with save_marker_value [of env "\<lambda>m. m" w1 w2 "Inr u"] poll_fields [of env w w1 b] assms(2) show ?thesis
    by (simp add: settled_def plain_marker)
qed

context commit_protocol
begin

lemma conclude_inv:
  assumes inv: "cinv g w" and run: "conclude env version started_at ok w = (w', r)"
  shows "cinv g w'"
proof (cases ok)
  case True
  with run process_pending_inv [OF inv] show ?thesis by (simp add: conclude_pending)
next
  case False
  with run obtain w1 w2 b s where *: "poll_shutdown env w = (w1, b)" "save_marker env w1 = (w2, s)"
    "case s of Inl e \<Rightarrow> w' = w2 \<and> r = Err e | Inr u \<Rightarrow> w' = set_status StatusFailed w2 \<and> r = Ok False"
    by (auto elim: conclude_refused)
  have "cinv g w1" using *(1) by (auto simp: poll_shutdown_def intro: cinv_fields [OF inv])
  from save_plain [OF this *(2)] *(3) show ?thesis by (cases s) auto
qed

end

text \<open>The run is a success only when every task was and no shutdown is seen.\<close>

lemma conclude_success:
  "conclude env version started_at ok w = (w', Inr True) \<Longrightarrow> ok \<and> \<not> snd (poll_shutdown env w)"
  by (auto simp: conclude_def Let_def split: prod.splits sum.splits if_splits)

lemma conclude_files:
  assumes "conclude env version started_at ok w = (w', Inr done)"
  shows "file_complete f (w_marker w') = file_complete f (w_marker w)"
proof -
  obtain w1 sd where p: "poll_shutdown env w = (w1, sd)" by force
  define success where "success = (ok \<and> \<not> sd)"
  define h where "h = (if success then complete_processing (pe_now env) else (\<lambda>m. m))"
  obtain w2 s where s: "save_marker env (on_marker h w1) = (w2, s)" by force
  obtain w3 sent where b: "(if success then broadcast env version started_at w2 else (w2, False)) = (w3, sent)" by force
  obtain w4 s4 where c: "save_marker env (on_marker complete_extraction w3) = (w4, s4)" by force
  have h: "save_marker env (if success then on_marker (complete_processing (pe_now env)) w1 else w1) = (w2, s)"
    using s by (simp add: h_def plain_marker split: if_splits)
  have w3: "w_marker w3 = w_marker w2" using b broadcast_keeps by (metis prod.inject)
  have "file_complete f (w_marker w2) = file_complete f (w_marker w)"
    using save_marker_value [OF s] poll_fields [OF p] by (simp add: h_def)
  moreover have "file_complete f (w_marker w4) = file_complete f (w_marker w2)"
    using save_marker_value [OF c] w3 by simp
  ultimately show ?thesis
    using assms w3 by (cases s; cases sent; cases s4) (auto simp: conclude_def p success_def [symmetric] h b c)
qed

section \<open>A version that is not complete stays so until the run is decided\<close>

definition ended :: "task \<Rightarrow> bool" where
  "ended t = (case t of Ended r \<Rightarrow> True | _ \<Rightarrow> False)"

lemma stream_incomplete:
  assumes "stream_step env br file dt (w, q, s) (w', q', s')" "\<not> version_complete (w_marker w)"
  shows "\<not> version_complete (w_marker w')"
  using assms(1)
proof (rule stream_stepE)
  fix ok
  assume "batcher_turn env file dt ok w s = (w', s')"
  from version_commit.turn_quiet [OF this] assms(2) show ?thesis
    by (auto simp: version_commit.quiet_def give_back_def saves_keep)
next
  assume "publisher_turn br dt q w s = (w', q', s')"
  with assms(2) show ?thesis
    by (auto simp: publisher_turn_def deliver_def note_event_def count_error_def on_state_def Let_def split: prod.splits sum.splits)
qed (use assms(2) in simp)

lemma save_incomplete:
  assumes "save_marker env (on_marker h w) = (w', r)" "marker_frame (w_marker w) (h (w_marker w))" "\<not> version_complete (w_marker w)"
  shows "\<not> version_complete (w_marker w')"
  using save_frame [OF assms(1,2)] assms(3) by (simp add: marker_frame_def)

lemma task_incomplete:
  assumes "task_step env file (w, t) (w', t', left)" "\<not> version_complete (w_marker w)"
  shows "\<not> version_complete (w_marker w')"
  using assms(1)
proof cases
  case (Begin q br)
  have "save_marker env (on_marker (start_file_processing (pe_now env) file) w) = (w1, r) \<Longrightarrow> \<not> version_complete (w_marker w1)" for w1 r
    by (erule save_incomplete) (simp_all add: assms(2))
  with Begin assms(2) show ?thesis by (auto simp: begin_file_def split: option.splits prod.splits sum.splits)
next
  case (Stage br dt q s q' s')
  with stream_incomplete assms(2) show ?thesis by blast
next
  case (Commit dt n)
  have "save_marker env (on_marker (complete_file_processing (pe_now env) file n) w) = (w1, r) \<Longrightarrow> \<not> version_complete (w_marker w1)" for w1 r
    by (erule save_incomplete) (simp_all add: assms(2))
  with Commit show ?thesis by (auto simp: commit_file_def split: prod.splits)
qed (use assms(2) in \<open>auto simp: declare_exchange_def connected_def signal_file_def finish_task_def release_file_def deliver_def
    note_event_def on_state_def Let_def split: prod.splits sum.splits\<close>)

lemma conc_incomplete:
  "conc_reach env workers files c0 c \<Longrightarrow> \<not> version_complete (w_marker (cn_world c0)) \<Longrightarrow> \<not> version_complete (w_marker (cn_world c))"
proof (induction rule: conc_reach.induct)
  case (Next c c')
  then have new: "\<not> version_complete (w_marker (cn_world c))" by simp
  from Next(2) show ?case
  proof cases
    case (Admit i w' t)
    with new admit_ok [OF Admit(5)] show ?thesis by simp
  next
    case (Work i w' t left)
    with new task_incomplete [OF Work(3)] show ?thesis by simp
  next
    case (Stray k f dt q br s w' q' s')
    with new stream_incomplete [OF Stray(4)] show ?thesis by simp
  qed
qed

text \<open>The marker on disk, too.\<close>

definition undone :: "world \<Rightarrow> bool" where
  "undone w \<longleftrightarrow> \<not> version_complete (w_marker w) \<and> (\<exists>m. w_disk w (w_path w) = Some m \<and> \<not> version_complete m)"

lemma saves_undone: "undone w \<Longrightarrow> list_all (\<lambda>m. \<not> version_complete m) ms \<Longrightarrow> undone (batcher_saves env ms w)"
proof (induction ms arbitrary: w)
  case (Cons m ms)
  from Cons.prems have "undone (fst (write_marker env m w))"
    by (auto simp: write_marker_def note_event_def undone_def Let_def)
  with Cons show ?case by (simp add: batcher_saves_def)
qed (simp add: batcher_saves_def)

lemma stream_undone:
  assumes "stream_step env br file dt (w, q, s) (w', q', s')" "undone w"
  shows "undone w'"
  using assms(1)
proof (rule stream_stepE)
  fix ok
  assume "batcher_turn env file dt ok w s = (w', s')"
  from version_commit.turn_quiet [OF this] obtain st where
    st: "version_commit.quiet (w_marker w) st" "w' = give_back env st w" by blast
  with assms(2) have "undone (w\<lparr>w_marker := bs_marker st, w_state := bs_state st\<rparr>)" "list_all (\<lambda>m. \<not> version_complete m) (bs_saved st)"
    by (auto simp: version_commit.quiet_def undone_def list_all_iff)
  from saves_undone [OF this] st(2) show ?thesis by (simp add: give_back_def)
next
  assume "publisher_turn br dt q w s = (w', q', s')"
  with assms(2) show ?thesis
    by (auto simp: undone_def publisher_turn_def deliver_def note_event_def count_error_def on_state_def Let_def
        split: prod.splits sum.splits)
qed (use assms(2) in simp)

text \<open>When all tasks have ended only the stages left behind move.\<close>

lemma ended_task: "task_step env file (w, t) (w', t', left) \<Longrightarrow> \<not> ended t"
  by (erule task_step.cases) (auto simp: ended_def)

lemma stray_only:
  assumes "conc_step env workers files c c'" "list_all ended (cn_tasks c)"
  obtains k f dt q br s w' q' s' where "k < length (cn_stray c)" "cn_stray c ! k = Straggler f dt q br s"
    "stream_step env br f dt (cn_world c, q, s) (w', q', s')"
    "c' = c\<lparr>cn_world := w', cn_stray := (cn_stray c)[k := Straggler f dt q' br s']\<rparr>"
  using assms(1)
proof cases
  case (Admit i w' t)
  with assms(2) show ?thesis by (auto simp: list_all_length ended_def)
next
  case (Work i w' t left)
  with assms(2) ended_task [OF Work(3)] show ?thesis by (simp add: list_all_length)
next
  case (Stray k f dt q br s w' q' s')
  then show ?thesis by (intro that) simp_all
qed

lemma left_behind:
  "conc_reach env workers files c0 c \<Longrightarrow> list_all ended (cn_tasks c0) \<Longrightarrow>
    cn_tasks c = cn_tasks c0 \<and> (cn_stray c0 = [] \<longrightarrow> c = c0) \<and> (undone (cn_world c0) \<longrightarrow> undone (cn_world c))"
proof (induction rule: conc_reach.induct)
  case (Next c c')
  then have IH: "cn_tasks c = cn_tasks c0" "cn_stray c0 = [] \<longrightarrow> c = c0" "undone (cn_world c0) \<longrightarrow> undone (cn_world c)" by simp_all
  from IH(1) Next(4) have e: "list_all ended (cn_tasks c)" by simp
  obtain k f dt q br s w' q' s' where step: "k < length (cn_stray c)" "cn_stray c ! k = Straggler f dt q br s"
    "stream_step env br f dt (cn_world c, q, s) (w', q', s')"
    "c' = c\<lparr>cn_world := w', cn_stray := (cn_stray c)[k := Straggler f dt q' br s']\<rparr>"
    by (rule stray_only [OF Next(2) e])
  have "cn_stray c0 \<noteq> []" using step(1) IH(2) by auto
  with IH step(4) stream_undone [OF step(3)] show ?case by simp
qed simp

section \<open>The whole run\<close>

text \<open>
  C4: a run is decided rightly whatever the interleaving of its files, and for as long as stages that a failed
  file has left behind go on afterwards: at every moment, a file or the version is saved as complete only
  after its signal was confirmed; the marker on disk says that the version is complete exactly when the run
  returned true, and then every file is processed and no stage is at work.
\<close>

theorem concurrent_run_decides:
  assumes c: "conc_reach env workers files (spawn_tasks files w) c" "distinct files" "list_all ended (cn_tasks c)"
    and new: "w_log w = []" "\<not> version_complete (w_marker w)"
    and run: "conclude env version started_at (list_all (\<lambda>t. t = Ended (Ok ())) (cn_tasks c)) (cn_world c) = (w', Inr result)"
    and later: "conc_reach env workers files (c\<lparr>cn_world := w'\<rparr>) c'"
  shows "ordered version_complete completion_signal False (w_log (cn_world c'))
    \<and> ordered (file_complete f) (file_signal f) (file_complete f (w_marker w)) (w_log (cn_world c'))
    \<and> (\<exists>m. w_disk (cn_world c') (w_path (cn_world c')) = Some m \<and> version_complete m = result
        \<and> (if result then pending_files m files = [] \<and> cn_stray c' = [] else True))"
proof -
  let ?c = "c\<lparr>cn_world := w'\<rparr>"
  have waits: "waits_for_commit g t v" if "ended t" for g t v
    using that by (cases t) (auto simp: ended_def waits_for_commit_def)
  have vs: "version_commit.conc_inv files False ?c" and fs: "file_commit.conc_inv f files (file_complete f (w_marker w)) ?c"
  proof -
    have "version_commit.cinv False w" "file_commit.cinv f (file_complete f (w_marker w)) w"
      using new by (simp_all add: commit_inv_def licensed_def)
    from version_commit.conc_reach_inv [OF c(1) this(1)] file_commit.conc_reach_inv [OF c(1) this(2)]
    have "version_commit.cinv False (cn_world c)" "file_commit.cinv f (file_complete f (w_marker w)) (cn_world c)"
      by (simp_all add: version_commit.conc_inv_def file_commit.conc_inv_def)
    then have "version_commit.cinv False w'" "file_commit.cinv f (file_complete f (w_marker w)) w'"
      using version_commit.conclude_inv file_commit.conclude_inv run by blast+
    with c(3) waits show "version_commit.conc_inv files False ?c" "file_commit.conc_inv f files (file_complete f (w_marker w)) ?c"
      by (simp_all add: version_commit.conc_inv_def file_commit.conc_inv_def list_all_length)
  qed
  have s: "settled (w_marker (cn_world c)) w' result"
    using conclude_settled [OF run] conc_incomplete [OF c(1)] new(2) by (simp add: spawn_tasks_def)
  note after = left_behind [OF later]
  have "\<exists>m. w_disk (cn_world c') (w_path (cn_world c')) = Some m \<and> version_complete m = result
      \<and> (if result then pending_files m files = [] \<and> cn_stray c' = [] else True)"
  proof (cases result)
    case True
    then have True: "result = True" by simp
    have ok: "list_all (\<lambda>t. t = Ended (Ok ())) (cn_tasks c)" "\<not> snd (poll_shutdown env (cn_world c))"
      using conclude_success [OF run [unfolded True]] by blast+
    from success_complete [OF c(1,2) ok] have p: "pending_files (w_marker (cn_world c)) files = []" "cn_stray c = []" by simp_all
    then have "c' = ?c" using after c(3) by simp
    moreover have "pending_files (w_marker w') files = []"
      using p(1) by (simp add: pending_incomplete conclude_files [OF run])
    ultimately show ?thesis using s p(2) True by (simp add: settled_def)
  next
    case False
    with s have "undone w'" by (simp add: settled_def undone_def)
    with after c(3) have "undone (cn_world c')" by simp
    with False show ?thesis by (auto simp: undone_def)
  qed
  moreover from version_commit.conc_reach_keeps [OF later vs] file_commit.conc_reach_keeps [OF later fs]
  have "ordered version_complete completion_signal False (w_log (cn_world c'))"
    "ordered (file_complete f) (file_signal f) (file_complete f (w_marker w)) (w_log (cn_world c'))"
    by (simp_all add: version_commit.conc_inv_def file_commit.conc_inv_def commit_inv_def)
  ultimately show ?thesis by simp
qed

theorem concurrent_run_decides_witness:
  "\<exists>c w' m. conc_reach (sample_run (\<lambda>_. fine_broker)) 2 [artists_file] (spawn_tasks [artists_file] fresh_world) c
    \<and> conclude (sample_run (\<lambda>_. fine_broker)) ''1'' 9 True (cn_world c) = (w', Inr True)
    \<and> w_disk w' (w_path w') = Some m \<and> version_complete m \<and> pending_files m [artists_file] = []"
proof -
  let ?env = "sample_run (\<lambda>_. fine_broker)"
  obtain v where v: "conc_reach ?env 2 [artists_file] (spawn_tasks [artists_file] fresh_world)
      \<lparr>cn_world = v, cn_tasks = [Ended (Ok ())], cn_stray = []\<rparr>" using sample_schedule by blast
  let ?c = "\<lparr>cn_world = v, cn_tasks = [Ended (Ok ())], cn_stray = []\<rparr>"
  have h: "healthy_env ?env" by (simp add: healthy_env_def sample_run_def sample_broker)
  have "snd (conclude ?env ''1'' 9 True v) = Ok True"
    unfolding conclude_pending by (rule healthy_pending [OF h]) simp
  then obtain w' where w': "conclude ?env ''1'' 9 True v = (w', Inr True)" by (metis prod.collapse)
  have new: "w_log fresh_world = []" "\<not> version_complete (w_marker fresh_world)"
    by (simp_all add: fresh_world_def version_complete_def sm_new_def su_default_def)
  have "list_all ended (cn_tasks ?c)" "distinct [artists_file]" by (simp_all add: ended_def)
  from concurrent_run_decides [OF v this(2,1) new, where w' = w' and result = True, OF _ conc_reach.Start] w' v
  show ?thesis by fastforce
qed

end
