(* ===== verification/Concurrent_Progress.thy ===== *)
theory Concurrent_Progress
  imports Concurrent_Files
begin

text \<open>
  The file tasks never block one another: every schedule is finite, and where it stops all tasks have ended
  and no stage is at work.
\<close>

section \<open>A measure\<close>

text \<open>Sections a task has still before it, and turns its stages have.\<close>

fun phases :: "task \<Rightarrow> nat" where
  "phases Spawned = 8"
| "phases (Admitted q br) = 7"
| "phases (Begun dt q br) = 6"
| "phases (Streaming dt q br s) = 5"
| "phases (Piped dt q br r) = 4"
| "phases (Signalled dt n) = 3"
| "phases (Releasing dt r) = 2"
| "phases (Ended r) = 1"

definition turns :: "streams \<Rightarrow> nat" where
  "turns s = 2 * length (sr_inputs s) + (if sr_batched s = None then 3 else 0)
     + (length (bs_sent (sr_batcher s)) - sr_taken s) + (if sr_published s = None then 1 else 0)"

fun task_turns :: "task \<Rightarrow> nat" where
  "task_turns (Streaming dt q br s) = turns s"
| "task_turns t = 0"

fun stray_turns :: "straggler \<Rightarrow> nat" where
  "stray_turns (Straggler f dt q br s) = turns s"

definition work :: "conc \<Rightarrow> nat \<times> nat" where
  "work c = (sum_list (map phases (cn_tasks c)),
     sum_list (map task_turns (cn_tasks c)) + sum_list (map stray_turns (cn_stray c)))"

lemma sum_update: "i < length xs \<Longrightarrow> sum_list (map h (xs[i := x])) + h (xs ! i) = sum_list (map h xs) + (h x :: nat)"
proof (induction xs arbitrary: i)
  case (Cons y ys)
  then show ?case by (cases i) auto
qed simp

text \<open>A batch at most per turn.\<close>

lemma flush_sent: "length (bs_sent (fst (flush_batch acc st))) \<le> Suc (length (bs_sent st))"
  by (simp add: flush_batch_def Let_def)

lemma turn_less:
  assumes "batcher_turn env file dt ok w s = (w', s')" "sr_batched s = None"
  shows "turns s' < turns s"
proof -
  let ?n = "length (bs_sent (sr_batcher s))"
  have b: "length (bs_sent (borrow w (sr_batcher s))) = ?n" by (simp add: borrow_def)
  have fl: "length (bs_sent (fst (flush_batch acc st))) \<le> Suc ?n" if "length (bs_sent st) = ?n" for acc st
    using flush_sent [of acc st] that by simp
  have "length (bs_sent (fst (on_received cfg acc t msg (borrow w (sr_batcher s))))) \<le> Suc ?n" for cfg acc t msg
    by (auto simp: on_received_def Let_def count_record_def save_progress_def b intro!: fl)
  moreover have "length (bs_sent (fst (on_timeout acc old (borrow w (sr_batcher s))))) \<le> Suc ?n" for acc old
    by (auto simp: on_timeout_def b intro!: fl)
  moreover have "length (bs_sent (fst (message_batcher cfg acc t [] (borrow w (sr_batcher s))))) \<le> Suc ?n" for cfg acc t
    using fl [OF b, of acc] b by (auto simp: save_progress_def Let_def split: prod.split sum.split)
  ultimately have le: "case sr_inputs s of
      [] \<Rightarrow> length (bs_sent (sr_batcher s')) \<le> Suc ?n \<and> sr_inputs s' = [] \<and> sr_batched s' \<noteq> None
    | i # is \<Rightarrow> length (bs_sent (sr_batcher s')) \<le> Suc ?n \<and> sr_inputs s' = is"
    and same: "sr_taken s' = sr_taken s" "sr_published s' = sr_published s"
    using assms(1)
    by (auto simp: batcher_turn_def Let_def simp del: message_batcher.simps
        split: list.splits prod.splits batch_input.splits; metis fst_conv)+
  from le same assms(2) show ?thesis by (cases "sr_inputs s") (auto simp: turns_def)
qed

lemma stream_less: "stream_step env br file dt (w, q, s) (w', q', s') \<Longrightarrow> turns s' < turns s"
proof (erule stream_stepE)
  fix ok
  assume "batcher_turn env file dt ok w s = (w', s')" "sr_batched s = None"
  then show ?thesis by (rule turn_less)
next
  assume "publisher_turn br dt q w s = (w', q', s')" "sr_published s = None" "sr_taken s < length (bs_sent (sr_batcher s))"
  then show ?thesis by (auto simp: publisher_turn_def turns_def Let_def split: prod.splits sum.splits)
qed (simp add: turns_def)

lemma task_less:
  assumes "task_step env file (w, t) (w', t', left)"
  shows "phases t' < phases t \<or> phases t' = phases t \<and> left = [] \<and> task_turns t' < task_turns t"
  using assms
proof cases
  case (Stage br dt q s q' s')
  with stream_less show ?thesis by auto
qed (auto simp: begin_file_def declare_exchange_def signal_file_def commit_file_def finish_task_def Let_def
    split: option.splits prod.splits sum.splits)

lemma hang_up_turns [simp]: "stray_turns (hang_up file t g) = stray_turns g"
  by (cases "(file, t, g)" rule: hang_up.cases) simp_all

lemma conc_less:
  assumes "conc_step env workers files c c'"
  shows "(work c', work c) \<in> less_than <*lex*> less_than"
  using assms
proof cases
  case (Admit i w' t)
  have "phases t < phases Spawned" using Admit(5) by (auto simp: admit_def Let_def split: if_splits option.splits prod.splits)
  with sum_update [OF Admit(2), of phases t] Admit(1,3) show ?thesis by (simp add: work_def)
next
  case (Work i w' t left)
  from task_less [OF Work(3)] sum_update [OF Work(2), of phases t] sum_update [OF Work(2), of task_turns t] show ?thesis
    by (auto simp: work_def Work(1) comp_def)
next
  case (Stray k f dt q br s w' q' s')
  from stream_less [OF Stray(4)] sum_update [OF Stray(2), of stray_turns "Straggler f dt q' br s'"] Stray(1,3) show ?thesis
    by (simp add: work_def)
qed

section \<open>Something can always be done\<close>

text \<open>The publisher has not taken more than was sent.\<close>

definition in_step :: "streams \<Rightarrow> bool" where
  "in_step s \<longleftrightarrow> sr_taken s \<le> length (bs_sent (sr_batcher s))"

lemma turn_sent:
  assumes "batcher_turn env file dt ok w s = (w', s')"
  shows "length (bs_sent (sr_batcher s)) \<le> length (bs_sent (sr_batcher s')) \<and> sr_taken s' = sr_taken s"
proof -
  let ?n = "length (bs_sent (sr_batcher s))"
  have b: "length (bs_sent (borrow w (sr_batcher s))) = ?n" by (simp add: borrow_def)
  have fl: "?n \<le> length (bs_sent (fst (flush_batch acc st)))" if "length (bs_sent st) = ?n" for acc st
    using that by (simp add: flush_batch_def Let_def)
  have "?n \<le> length (bs_sent (fst (on_received cfg acc t msg (borrow w (sr_batcher s)))))" for cfg acc t msg
    by (auto simp: on_received_def Let_def count_record_def save_progress_def b intro!: fl)
  moreover have "?n \<le> length (bs_sent (fst (on_timeout acc old (borrow w (sr_batcher s)))))" for acc old
    by (auto simp: on_timeout_def b intro!: fl)
  moreover have "?n \<le> length (bs_sent (fst (message_batcher cfg acc t [] (borrow w (sr_batcher s)))))" for cfg acc t
    using fl [OF b, of acc] b by (auto simp: save_progress_def Let_def split: prod.split sum.split)
  ultimately show ?thesis
    using assms
    by (auto simp: batcher_turn_def Let_def simp del: message_batcher.simps
        split: list.splits prod.splits batch_input.splits; metis fst_conv)
qed

lemma stream_in_step: "stream_step env br file dt (w, q, s) (w', q', s') \<Longrightarrow> in_step s \<Longrightarrow> in_step s'"
proof (erule stream_stepE)
  fix ok
  assume "batcher_turn env file dt ok w s = (w', s')" "in_step s"
  with turn_sent [OF this(1)] show ?thesis by (simp add: in_step_def)
next
  assume "publisher_turn br dt q w s = (w', q', s')" "in_step s" "sr_taken s < length (bs_sent (sr_batcher s))"
  then show ?thesis by (auto simp: publisher_turn_def in_step_def Let_def split: prod.splits sum.splits)
qed (simp add: in_step_def)

text \<open>Stages that have not both ended can take a turn.\<close>

lemma stream_moves:
  assumes "in_step s" "sr_batched s = None \<or> sr_published s = None"
  shows "\<exists>w' q' s'. stream_step env br file dt (w, q, s) (w', q', s')"
proof (cases "sr_batched s")
  case None
  obtain w' s' where "batcher_turn env file dt True w s = (w', s')" by force
  with None show ?thesis using Batch [where ok = True] by blast
next
  case (Some b)
  with assms(2) have p: "sr_published s = None" by simp
  show ?thesis
  proof (cases "sr_taken s = length (bs_sent (sr_batcher s))")
    case True
    with p Some Drained show ?thesis by blast
  next
    case False
    with assms(1) have "sr_taken s < length (bs_sent (sr_batcher s))" by (simp add: in_step_def)
    moreover obtain w' q' s' where "publisher_turn br dt q w s = (w', q', s')" by (metis surj_pair)
    ultimately show ?thesis using p Publish by blast
  qed
qed

text \<open>When both have, the file knows its result.\<close>

lemma awaited_ended: "sr_batched s = Some b \<Longrightarrow> sr_published s = Some p \<Longrightarrow> awaited env file dt s \<noteq> None"
  by (auto simp: awaited_def Let_def split: prod.split sum.split option.split)

fun task_in_step :: "task \<Rightarrow> bool" where
  "task_in_step (Streaming dt q br s) = in_step s"
| "task_in_step t = True"

fun stray_in_step :: "straggler \<Rightarrow> bool" where
  "stray_in_step (Straggler f dt q br s) = in_step s"

lemma task_step_in_step:
  "task_step env file (w, t) (w', t', left) \<Longrightarrow> task_in_step t \<Longrightarrow> task_in_step t' \<and> list_all stray_in_step left"
proof (erule task_step.cases, goal_cases)
  case (3 br dt w q s w' q' s')
  with stream_in_step show ?case by auto
qed (auto simp: begin_file_def declare_exchange_def signal_file_def commit_file_def finish_task_def streams_init_def
    in_step_def batcher_init_def Let_def split: option.splits prod.splits sum.splits)

lemma hang_up_in_step [simp]: "stray_in_step (hang_up file t g) = stray_in_step g"
  by (cases "(file, t, g)" rule: hang_up.cases) simp_all

definition conc_in_step :: "conc \<Rightarrow> bool" where
  "conc_in_step c \<longleftrightarrow> list_all task_in_step (cn_tasks c) \<and> list_all stray_in_step (cn_stray c)"

lemma list_all_update: "list_all P xs \<Longrightarrow> P x \<Longrightarrow> list_all P (xs[i := x])"
  by (auto simp: list_all_iff dest!: set_update_subset_insert [THEN subsetD])

lemma reach_in_step: "conc_reach env workers files (spawn_tasks files w) c \<Longrightarrow> conc_in_step c"
proof (induction rule: conc_reach.induct)
  case Start
  show ?case by (simp add: conc_in_step_def spawn_tasks_def list_all_iff)
next
  case (Next c c')
  from Next(2,3) show ?case
  proof cases
    case (Admit i w' t)
    have "task_in_step t" using Admit(5) by (auto simp: admit_def Let_def split: if_splits option.splits prod.splits)
    with Admit(1) Next(3) show ?thesis by (simp add: conc_in_step_def list_all_update)
  next
    case (Work i w' t left)
    have "task_in_step (cn_tasks c ! i)" using Next(3) Work(2) by (simp add: conc_in_step_def list_all_length)
    from task_step_in_step [OF Work(3) this] Work(1) Next(3) show ?thesis
      by (simp add: conc_in_step_def list_all_update) (simp add: list_all_iff)
  next
    case (Stray k f dt q br s w' q' s')
    have "in_step s" using Next(3) Stray(2,3) by (metis conc_in_step_def list_all_length stray_in_step.simps)
    with stream_in_step [OF Stray(4)] Stray(1) Next(3) show ?thesis by (simp add: conc_in_step_def list_all_update)
  qed
qed

text \<open>A task that holds a permit can go on.\<close>

lemma holder_moves:
  assumes "holding t" "task_in_step t"
  shows "\<exists>w' t' left. task_step env file (w, t) (w', t', left)"
proof (cases t)
  case (Admitted q br)
  obtain w' t' where "begin_file env file q br w = (w', t')" by force
  with Admitted show ?thesis using task_step.Begin by blast
next
  case (Begun dt q br)
  obtain w' t' where "declare_exchange env file dt q br w = (w', t')" by force
  with Begun show ?thesis using task_step.Declare by blast
next
  case (Streaming dt q br s)
  show ?thesis
  proof (cases "awaited env file dt s")
    case None
    with awaited_ended [of s] have "sr_batched s = None \<or> sr_published s = None" by (metis option.exhaust)
    with stream_moves [of s env br "file" dt w q] assms(2) Streaming show ?thesis using task_step.Stage by (metis task_in_step.simps(1))
  next
    case (Some r)
    with Streaming show ?thesis using task_step.Join by blast
  qed
next
  case (Piped dt q br r)
  show ?thesis
  proof (cases r)
    case (Inl e)
    with Piped show ?thesis using task_step.Fail by blast
  next
    case (Inr n)
    obtain w' t' where "signal_file env file dt q br n w = (w', t')" by force
    with Piped Inr show ?thesis using task_step.Signal by blast
  qed
next
  case (Signalled dt n)
  obtain w' t' where "commit_file env file dt n w = (w', t')" by force
  with Signalled show ?thesis using task_step.Commit by blast
next
  case (Releasing dt r)
  obtain w' t' where "finish_task file dt r w = (w', t')" by force
  with Releasing show ?thesis using task_step.Release by blast
qed (use assms(1) in simp_all)

lemma stuck_ended:
  assumes reach: "conc_reach env workers files (spawn_tasks files w) c" and "0 < workers"
    and stuck: "\<not> (\<exists>c'. conc_step env workers files c c')"
  shows "list_all (\<lambda>t. case t of Ended r \<Rightarrow> True | _ \<Rightarrow> False) (cn_tasks c)
    \<and> list_all (\<lambda>g. case g of Straggler f dt q br s \<Rightarrow> sr_batched s \<noteq> None \<and> sr_published s \<noteq> None) (cn_stray c)"
proof
  have inv: "conc_in_step c" by (rule reach_in_step [OF reach])
  have idle: "\<not> holding (cn_tasks c ! i)" if i: "i < length (cn_tasks c)" for i
  proof
    assume h: "holding (cn_tasks c ! i)"
    have "task_in_step (cn_tasks c ! i)" using inv i by (simp add: conc_in_step_def list_all_length)
    from holder_moves [OF h this, of env "files ! i" "cn_world c"] conc_step.Work [OF i] stuck show False by blast
  qed
  then have none: "filter holding (cn_tasks c) = []" by (auto simp: filter_empty_conv in_set_conv_nth)
  have "cn_tasks c ! i \<noteq> Spawned" if i: "i < length (cn_tasks c)" for i
  proof
    assume s: "cn_tasks c ! i = Spawned"
    obtain w' t where "admit env (cn_world c) = (w', t)" by force
    from conc_step.Admit [OF i s _ this, of workers files] none assms(2) stuck show False by auto
  qed
  with idle show "list_all (\<lambda>t. case t of Ended r \<Rightarrow> True | _ \<Rightarrow> False) (cn_tasks c)"
    by (auto simp: list_all_length split: task.split) (metis holding.simps)+
  show "list_all (\<lambda>g. case g of Straggler f dt q br s \<Rightarrow> sr_batched s \<noteq> None \<and> sr_published s \<noteq> None) (cn_stray c)"
    unfolding list_all_length
  proof (intro allI impI)
    fix k
    assume k: "k < length (cn_stray c)"
    obtain f dt q br s where g: "cn_stray c ! k = Straggler f dt q br s" by (cases "cn_stray c ! k")
    have "in_step s" using inv k g by (metis conc_in_step_def list_all_length stray_in_step.simps)
    have "sr_batched s \<noteq> None \<and> sr_published s \<noteq> None"
    proof (rule ccontr)
      assume "\<not> (sr_batched s \<noteq> None \<and> sr_published s \<noteq> None)"
      then have "sr_batched s = None \<or> sr_published s = None" by blast
      from stream_moves [OF \<open>in_step s\<close> this, of env br f dt "cn_world c" q] obtain w' q' s' where
        "stream_step env br f dt (cn_world c, q, s) (w', q', s')" by (elim exE)
      from conc_step.Stray [OF k g this, of workers files] stuck show False by blast
    qed
    with g show "case cn_stray c ! k of Straggler f dt q br s \<Rightarrow> sr_batched s \<noteq> None \<and> sr_published s \<noteq> None" by simp
  qed
qed

text \<open>
  C15: the file tasks end whatever the schedule: no sequence of steps is infinite, and with at least one
  worker a run can only stop where every task has ended and no stage, of a failed file either, is still at work.
\<close>

theorem concurrent_tasks_end:
  assumes "0 < workers"
  shows "wfP (\<lambda>c' c. conc_step env workers files c c')
    \<and> (\<forall>c. conc_reach env workers files (spawn_tasks files w) c \<longrightarrow> (\<exists>c'. conc_step env workers files c c')
        \<or> list_all (\<lambda>t. case t of Ended r \<Rightarrow> True | _ \<Rightarrow> False) (cn_tasks c)
          \<and> list_all (\<lambda>g. case g of Straggler f dt q br s \<Rightarrow> sr_batched s \<noteq> None \<and> sr_published s \<noteq> None) (cn_stray c))"
proof
  have "wf {(c', c). conc_step env workers files c c'}"
    by (rule wf_subset [OF wf_inv_image [of "less_than <*lex*> less_than" work]]) (auto simp: inv_image_def dest: conc_less)
  then show "wfP (\<lambda>c' c. conc_step env workers files c c')" by (simp add: wfp_def)
qed (use stuck_ended assms in blast)

theorem concurrent_tasks_end_witness:
  "wfP (\<lambda>c' c. conc_step (sample_run (\<lambda>_. fine_broker)) 1 [artists_file] c c')
    \<and> (\<exists>c'. conc_step (sample_run (\<lambda>_. fine_broker)) 1 [artists_file] (spawn_tasks [artists_file] fresh_world) c')"
proof -
  let ?env = "sample_run (\<lambda>_. fine_broker)" and ?c = "spawn_tasks [artists_file] fresh_world"
  have "wfP (\<lambda>c' c. conc_step ?env 1 [artists_file] c c')"
    "conc_reach ?env 1 [artists_file] ?c ?c \<Longrightarrow> (\<exists>c'. conc_step ?env 1 [artists_file] ?c c')
      \<or> list_all (\<lambda>t. case t of Ended r \<Rightarrow> True | _ \<Rightarrow> False) (cn_tasks ?c)"
    using concurrent_tasks_end [of 1 ?env "[artists_file]" fresh_world] by auto
  with conc_reach.Start [of ?env 1 "[artists_file]" ?c] show ?thesis by (simp add: spawn_tasks_def)
qed

end
