(* ===== verification/Logging.thy ===== *)
theory Logging
  imports Json Float64
begin

text \<open>
  \<open>src/logging.rs\<close>: the JSON object of a log line.  The clock, the JSON text of a value and of a float,
  and the parser of formatted span fields are parameters; a JSON value has always a text.
\<close>

section \<open>Events\<close>

datatype level = ERROR | WARN | INFO | DEBUG | TRACE

text \<open>What a field is recorded with; \<open>DebugText\<close> and \<open>ErrorText\<close> are already rendered.\<close>

datatype field_value =
    DebugText string
  | Str string
  | I64 int
  | U64 nat
  | Boolean bool
  | F64 f64
  | ErrorText string

record span =
  sp_name :: string
  sp_fields :: "string option"

text \<open>The scope, from the root, when there is one.\<close>

record log_event =
  le_level :: level
  le_target :: string
  le_line :: "nat option"
  le_fields :: "(string \<times> field_value) list"
  le_scope :: "span list option"

record log_env =
  lg_text :: "json \<Rightarrow> string"
  lg_float :: "rat \<Rightarrow> string"
  lg_parse :: "string \<Rightarrow> json option"
  lg_now :: string

definition service_name :: string where
  "service_name = ''discogs-ingestion''"

definition reserved :: "string list" where
  "reserved = [''timestamp'', ''level'', ''logger'', ''lineno'', ''event'', ''service'', ''environment'', ''span'',
     ''spans'', ''fields'']"

definition environment_new :: "string option \<Rightarrow> string" where
  "environment_new e = (case e of Some s \<Rightarrow> s | None \<Rightarrow> ''development'')"

fun level_name :: "level \<Rightarrow> string" where
  "level_name ERROR = ''error''"
| "level_name WARN = ''warning''"
| "level_name INFO = ''info''"
| "level_name DEBUG = ''debug''"
| "level_name TRACE = ''debug''"

section \<open>Collecting the fields\<close>

record collect =
  co_message :: "string option"
  co_root :: jobject
  co_displaced :: jobject

definition collect_default :: collect where
  "collect_default = \<lparr>co_message = None, co_root = [], co_displaced = []\<rparr>"

text \<open>A string is its own text, any other value its JSON text.\<close>

definition message_text :: "log_env \<Rightarrow> json \<Rightarrow> string" where
  "message_text env v = (case v of JStr s \<Rightarrow> s | _ \<Rightarrow> lg_text env v)"

definition put :: "log_env \<Rightarrow> string \<Rightarrow> json \<Rightarrow> collect \<Rightarrow> collect" where
  "put env name v c =
     (if name = ''message'' then c\<lparr>co_message := Some (message_text env v)\<rparr>
      else if name \<in> set reserved then c\<lparr>co_displaced := oinsert name v (co_displaced c)\<rparr>
      else c\<lparr>co_root := oinsert name v (co_root c)\<rparr>)"

text \<open>\<open>record_debug\<close> to \<open>record_error\<close>; a float that is not finite is kept as its text.\<close>

fun recorded :: "log_env \<Rightarrow> field_value \<Rightarrow> json" where
  "recorded env (DebugText s) = JStr s"
| "recorded env (Str s) = JStr s"
| "recorded env (I64 i) = JNum (if 0 \<le> i then PosInt (nat i) else NegInt (nat (- i)))"
| "recorded env (U64 n) = JNum (PosInt n)"
| "recorded env (Boolean b) = JBool b"
| "recorded env (F64 (Fin q)) = JNum (Float (lg_float env q))"
| "recorded env (F64 NaN) = JStr ''NaN''"
| "recorded env (F64 (Inf neg)) = JStr (if neg then ''-inf'' else ''inf'')"
| "recorded env (ErrorText s) = JStr s"

definition collect_fields :: "log_env \<Rightarrow> (string \<times> field_value) list \<Rightarrow> collect" where
  "collect_fields env fs = fold (\<lambda>(name, v). put env name (recorded env v)) fs collect_default"

section \<open>The line\<close>

definition span_entry :: "log_env \<Rightarrow> span \<Rightarrow> json" where
  "span_entry env s =
     JObj (oinsert ''name'' (JStr (sp_name s))
       (case Option.bind (sp_fields s) (lg_parse env) of Some (JObj m) \<Rightarrow> ocollect m | _ \<Rightarrow> []))"

definition add_scope :: "log_env \<Rightarrow> span list option \<Rightarrow> jobject \<Rightarrow> jobject" where
  "add_scope env scope m =
     (case scope of
        None \<Rightarrow> m
      | Some ss \<Rightarrow>
          (let spans = map (span_entry env) ss in
           if spans = [] then m else oinsert ''spans'' (JArr spans) (oinsert ''span'' (last spans) m)))"

definition event_object :: "log_env \<Rightarrow> string \<Rightarrow> log_event \<Rightarrow> jobject" where
  "event_object env deployment e =
     (let c = collect_fields env (le_fields e);
          m1 = oinsert ''timestamp'' (JStr (lg_now env)) (co_root c);
          m2 = oinsert ''level'' (JStr (level_name (le_level e))) m1;
          m3 = oinsert ''logger'' (JStr (le_target e)) m2;
          m4 = oinsert ''lineno'' (case le_line e of Some n \<Rightarrow> JNum (PosInt n) | None \<Rightarrow> JNull) m3;
          m5 = oinsert ''event'' (JStr (case co_message c of Some s \<Rightarrow> s | None \<Rightarrow> [])) m4;
          m6 = oinsert ''service'' (JStr service_name) m5;
          m7 = oinsert ''environment'' (JStr deployment) m6;
          m8 = (if co_displaced c \<noteq> [] then oinsert ''fields'' (JObj (co_displaced c)) m7 else m7)
      in add_scope env (le_scope e) m8)"

definition format_event :: "log_env \<Rightarrow> string \<Rightarrow> log_event \<Rightarrow> string" where
  "format_event env deployment e = lg_text env (JObj (event_object env deployment e)) @ [CHR 0x0A]"

section \<open>The schema\<close>

text \<open>The value a field was recorded with last.\<close>

definition field_of :: "log_env \<Rightarrow> (string \<times> field_value) list \<Rightarrow> string \<Rightarrow> json option" where
  "field_of env fs name = map_of (rev (map (\<lambda>(n, v). (n, recorded env v)) fs)) name"

lemma message_not_reserved: "''message'' \<notin> set reserved"
  by (simp add: reserved_def)

lemma collect_snoc: "collect_fields env (fs @ [(n, v)]) = put env n (recorded env v) (collect_fields env fs)"
  by (simp add: collect_fields_def)

lemma field_of_snoc: "field_of env (fs @ [(n, v)]) name = (if name = n then Some (recorded env v) else field_of env fs name)"
  by (simp add: field_of_def)

lemma collected:
  shows "map_of (co_root (collect_fields env fs)) name =
      (if name = ''message'' \<or> name \<in> set reserved then None else field_of env fs name)"
    and "map_of (co_displaced (collect_fields env fs)) name = (if name \<in> set reserved then field_of env fs name else None)"
    and "co_message (collect_fields env fs) = map_option (message_text env) (field_of env fs ''message'')"
    and "owf (co_root (collect_fields env fs))" and "owf (co_displaced (collect_fields env fs))"
  using message_not_reserved
  by (induction fs rule: rev_induct)
    (auto simp: collect_snoc field_of_snoc put_def owf_oinsert collect_fields_def [of env "[]"] collect_default_def
      field_of_def [of env "[]"])

lemma add_scope_other: "name \<noteq> ''span'' \<Longrightarrow> name \<noteq> ''spans'' \<Longrightarrow> map_of (add_scope env sc m) name = map_of m name"
  by (simp add: add_scope_def Let_def split: option.split)

lemma add_scope_owf: "owf m \<Longrightarrow> owf (add_scope env sc m)"
  by (simp add: add_scope_def Let_def owf_oinsert split: option.split)

text \<open>
  C40: every log line carries the shared schema and loses no field.  The seven schema keys have the
  schema's values whatever fields the event has, the level is one of Python's names, a field with an
  ordinary name stands at the root with the value recorded last, a field with a reserved name stands
  under \<open>fields\<close>, and nothing else stands in either place.
\<close>

theorem log_line_schema:
  "let m = event_object env deployment e in
    owf m
    \<and> map_of m ''timestamp'' = Some (JStr (lg_now env))
    \<and> map_of m ''level'' = Some (JStr (level_name (le_level e)))
    \<and> level_name (le_level e) \<in> {''error'', ''warning'', ''info'', ''debug''}
    \<and> map_of m ''logger'' = Some (JStr (le_target e))
    \<and> map_of m ''lineno'' = Some (case le_line e of Some n \<Rightarrow> JNum (PosInt n) | None \<Rightarrow> JNull)
    \<and> map_of m ''event'' = Some (JStr (case field_of env (le_fields e) ''message'' of Some v \<Rightarrow> message_text env v | None \<Rightarrow> []))
    \<and> map_of m ''service'' = Some (JStr ''discogs-ingestion'')
    \<and> map_of m ''environment'' = Some (JStr deployment)
    \<and> (if name \<in> set reserved
       then Option.bind (Option.bind (map_of m ''fields'') as_object) (\<lambda>d. map_of d name) = field_of env (le_fields e) name
       else map_of m name = (if name = ''message'' then None else field_of env (le_fields e) name))"
proof -
  let ?c = "collect_fields env (le_fields e)"
  define m where "m = event_object env deployment e"
  have fields: "map_of m ''fields'' = (if co_displaced ?c = [] then None else Some (JObj (co_displaced ?c)))"
    by (simp add: m_def event_object_def Let_def add_scope_other collected reserved_def)
  then have "Option.bind (Option.bind (map_of m ''fields'') as_object) (\<lambda>d. map_of d name) = map_of (co_displaced ?c) name"
    by simp
  then have displaced: "name \<in> set reserved \<Longrightarrow>
      Option.bind (Option.bind (map_of m ''fields'') as_object) (\<lambda>d. map_of d name) = field_of env (le_fields e) name"
    by (simp add: collected)
  have ordinary: "name \<notin> set reserved \<Longrightarrow> map_of m name = (if name = ''message'' then None else field_of env (le_fields e) name)"
    by (simp add: m_def event_object_def Let_def add_scope_other collected reserved_def)
  have "owf m"
    by (simp add: m_def event_object_def Let_def add_scope_owf owf_oinsert collected)
  moreover have "level_name (le_level e) \<in> {''error'', ''warning'', ''info'', ''debug''}"
    by (cases "le_level e") simp_all
  moreover have "map_of m ''timestamp'' = Some (JStr (lg_now env))"
    "map_of m ''level'' = Some (JStr (level_name (le_level e)))" "map_of m ''logger'' = Some (JStr (le_target e))"
    "map_of m ''event'' = Some (JStr (case field_of env (le_fields e) ''message'' of Some v \<Rightarrow> message_text env v | None \<Rightarrow> []))"
    "map_of m ''service'' = Some (JStr ''discogs-ingestion'')" "map_of m ''environment'' = Some (JStr deployment)"
    "map_of m ''lineno'' = Some (case le_line e of Some n \<Rightarrow> JNum (PosInt n) | None \<Rightarrow> JNull)"
    by (simp_all add: m_def event_object_def Let_def add_scope_other service_name_def collected split: option.split)
  ultimately show ?thesis
    using displaced ordinary by (simp add: m_def [symmetric] Let_def)
qed

text \<open>The innermost span is the last of the spans, and its name always wins over a field called name.\<close>

lemma span_is_innermost:
  assumes "le_scope e = Some ss" "ss \<noteq> []"
  shows "map_of (event_object env deployment e) ''span'' = Some (span_entry env (last ss))
    \<and> map_of (event_object env deployment e) ''spans'' = Some (JArr (map (span_entry env) ss))
    \<and> Option.bind (as_object (span_entry env s)) (\<lambda>m. map_of m ''name'') = Some (JStr (sp_name s))"
  using assms by (simp add: event_object_def add_scope_def Let_def last_map span_entry_def)

end
