(* ===== verification/Telemetry.thy ===== *)
theory Telemetry
  imports Float64 Ordered_Map "HOL-Library.Code_Target_Nat"
begin

text \<open>
  \<open>src/telemetry.rs\<close>: which pipelines a start brings up, the instruments and what is recorded through
  them, the progress of a file, the process figures read from \<open>/proc\<close> and the trace headers of messages.
  Building an exporter, the OpenTelemetry SDK behind the global providers, and the propagator are the
  library; whether an exporter can be built and what the propagator writes are parameters.
\<close>

section \<open>Names\<close>

datatype file_outcome = FileCompleted | FileSkipped | FileFailed

fun file_outcome_str :: "file_outcome \<Rightarrow> string" where
  "file_outcome_str FileCompleted = ''completed''"
| "file_outcome_str FileSkipped = ''skipped''"
| "file_outcome_str FileFailed = ''failed''"

datatype stage = Download | Parse | Publish

fun stage_str :: "stage \<Rightarrow> string" where
  "stage_str Download = ''download''"
| "stage_str Parse = ''parse''"
| "stage_str Publish = ''publish''"

datatype instrument_kind = CounterU64 | GaugeF64 | HistogramF64

text \<open>\<open>Instruments::new\<close>: name, kind and unit of every instrument.\<close>

definition instruments_new :: "(string \<times> instrument_kind \<times> string option) list" where
  "instruments_new =
     [(''groovemap.extraction.records'', CounterU64, None),
      (''groovemap.extraction.files'', CounterU64, None),
      (''groovemap.extraction.file.progress'', GaugeF64, Some ''1''),
      (''groovemap.extraction.download.bytes'', CounterU64, Some ''By''),
      (''groovemap.extraction.publish.confirm.duration'', HistogramF64, Some ''s''),
      (''groovemap.extraction.errors'', CounterU64, None),
      (''messaging.client.sent.messages'', CounterU64, None),
      (''groovemap.pipeline.reconnects'', CounterU64, None)]"

text \<open>\<open>CONFIRM_DURATION_BOUNDARIES\<close>, in seconds.\<close>

definition confirm_duration_boundaries :: "rat list" where
  "confirm_duration_boundaries =
     [1 / 1000, 5 / 1000, 1 / 100, 25 / 1000, 5 / 100, 1 / 10, 25 / 100, 5 / 10, 1, 25 / 10, 5, 10, 30]"

definition confirm_duration_view :: "string \<Rightarrow> rat list option" where
  "confirm_duration_view name =
     (if name \<noteq> ''groovemap.extraction.publish.confirm.duration'' then None else Some confirm_duration_boundaries)"

section \<open>Starting\<close>

record otel_env =
  oe_var :: "string \<Rightarrow> string option"
  oe_metric_exporter :: bool
  oe_span_exporter :: bool
  oe_linux :: bool
  oe_in_runtime :: bool

definition exporter_none :: "otel_env \<Rightarrow> string \<Rightarrow> bool" where
  "exporter_none env key = (case oe_var env key of Some v \<Rightarrow> ascii_lower (trim v) = ''none'' | None \<Rightarrow> False)"

definition env_is_set :: "otel_env \<Rightarrow> string \<Rightarrow> bool" where
  "env_is_set env key = (case oe_var env key of Some v \<Rightarrow> trim v \<noteq> [] | None \<Rightarrow> False)"

definition metrics_disabled :: "otel_env \<Rightarrow> bool" where
  "metrics_disabled env = exporter_none env ''OTEL_METRICS_EXPORTER''"

definition endpoint_configured :: "otel_env \<Rightarrow> bool" where
  "endpoint_configured env \<longleftrightarrow> list_ex (env_is_set env) [''OTEL_EXPORTER_OTLP_METRICS_ENDPOINT'', ''OTEL_EXPORTER_OTLP_ENDPOINT'']"

definition traces_disabled :: "otel_env \<Rightarrow> bool" where
  "traces_disabled env = exporter_none env ''OTEL_TRACES_EXPORTER''"

definition trace_endpoint_configured :: "otel_env \<Rightarrow> bool" where
  "trace_endpoint_configured env \<longleftrightarrow> list_ex (env_is_set env) [''OTEL_EXPORTER_OTLP_TRACES_ENDPOINT'', ''OTEL_EXPORTER_OTLP_ENDPOINT'']"

text \<open>In milliseconds.\<close>

definition export_interval :: "otel_env \<Rightarrow> nat" where
  "export_interval env =
     (case Option.bind (oe_var env ''OTEL_METRIC_EXPORT_INTERVAL'') parse_u64 of Some ms \<Rightarrow> ms | None \<Rightarrow> 60 * 1000)"

text \<open>The service name the code sets; \<open>None\<close> leaves it to \<open>OTEL_SERVICE_NAME\<close>.\<close>

definition build_resource :: "otel_env \<Rightarrow> string \<Rightarrow> string option" where
  "build_resource env service = (if env_is_set env ''OTEL_SERVICE_NAME'' then None else Some service)"

text \<open>The ratio of the parent-based sampler.\<close>

definition default_sampler :: "otel_env \<Rightarrow> f64" where
  "default_sampler env =
     (case Option.bind (oe_var env ''OTEL_TRACES_SAMPLER_ARG'') (\<lambda>v. parse_f64 (trim v)) of
        Some (Fin q) \<Rightarrow> if 0 \<le> q \<and> q \<le> 1 then Fin q else Fin 1
      | _ \<Rightarrow> Fin 1)"

type_synonym attributes = "(string \<times> string) list"

datatype measurement =
    Count string nat attributes
  | Gauge string f64 attributes
  | Sample string rat attributes

text \<open>
  The globals: whether a real meter provider is installed, whether the instruments are bound and to a
  real provider, what has been recorded, the registered observable instruments, the tracer provider with
  its sampler (\<open>None\<close>: the SDK's), the propagator, and the source label.
\<close>

record telemetry =
  tm_meter :: bool
  tm_bound :: "bool option"
  tm_points :: "measurement list"
  tm_registered :: bool
  tm_observables :: "string list"
  tm_tracer :: "f64 option option"
  tm_propagator :: bool
  tm_source :: "string option"

definition telemetry_default :: telemetry where
  "telemetry_default = \<lparr>tm_meter = False, tm_bound = None, tm_points = [], tm_registered = False, tm_observables = [],
     tm_tracer = None, tm_propagator = False, tm_source = None\<rparr>"

definition register_process_metrics :: "otel_env \<Rightarrow> string list" where
  "register_process_metrics env =
     (if oe_linux env then [''process.cpu.time'', ''process.memory.usage'', ''process.thread.count'', ''process.open_file_descriptor.count'']
      else [])"

definition register_tokio_metrics :: "otel_env \<Rightarrow> string list" where
  "register_tokio_metrics env =
     (if oe_in_runtime env
      then [''groovemap.runtime.tokio.workers'', ''groovemap.runtime.tokio.alive_tasks'', ''groovemap.runtime.tokio.global_queue_depth'']
      else [])"

definition register_runtime_metrics :: "otel_env \<Rightarrow> telemetry \<Rightarrow> telemetry" where
  "register_runtime_metrics env t =
     (if tm_registered t then t
      else t\<lparr>tm_registered := True,
             tm_observables := tm_observables t @ register_process_metrics env @ register_tokio_metrics env\<rparr>)"

text \<open>Both return whether there is a provider to shut down.\<close>

definition init_metrics :: "otel_env \<Rightarrow> telemetry \<Rightarrow> telemetry \<times> bool" where
  "init_metrics env t =
     (if metrics_disabled env then (t, False)
      else if \<not> endpoint_configured env then (t, False)
      else if \<not> oe_metric_exporter env then (t, False)
      else (register_runtime_metrics env (t\<lparr>tm_meter := True\<rparr>), True))"

definition init_traces :: "otel_env \<Rightarrow> telemetry \<Rightarrow> telemetry \<times> bool" where
  "init_traces env t =
     (if traces_disabled env then (t, False)
      else if \<not> trace_endpoint_configured env then (t, False)
      else if \<not> oe_span_exporter env then (t, False)
      else (t\<lparr>tm_tracer := Some (if env_is_set env ''OTEL_TRACES_SAMPLER'' then None else Some (default_sampler env)),
              tm_propagator := True\<rparr>, True))"

text \<open>The label is set once; the first call wins.\<close>

definition set_source :: "string \<Rightarrow> telemetry \<Rightarrow> telemetry" where
  "set_source s t = (if tm_source t = None then t\<lparr>tm_source := Some s\<rparr> else t)"

definition source :: "telemetry \<Rightarrow> string" where
  "source t = (case tm_source t of Some s \<Rightarrow> s | None \<Rightarrow> ''unknown'')"

section \<open>Recording\<close>

text \<open>\<open>instruments()\<close> binds the instruments on first use to the provider of that moment, for good.\<close>

definition emit :: "measurement \<Rightarrow> telemetry \<Rightarrow> telemetry" where
  "emit p t =
     (let live = (case tm_bound t of Some b \<Rightarrow> b | None \<Rightarrow> tm_meter t) in
      t\<lparr>tm_bound := Some live, tm_points := (if live then tm_points t @ [p] else tm_points t)\<rparr>)"

definition record_records :: "string \<Rightarrow> nat \<Rightarrow> telemetry \<Rightarrow> telemetry" where
  "record_records entity n t =
     (if n = 0 then t else emit (Count ''groovemap.extraction.records'' n [(''source'', source t), (''entity'', entity)]) t)"

definition record_file_outcome :: "file_outcome \<Rightarrow> telemetry \<Rightarrow> telemetry" where
  "record_file_outcome out t =
     emit (Count ''groovemap.extraction.files'' 1 [(''source'', source t), (''outcome'', file_outcome_str out)]) t"

fun clamp_ratio :: "f64 \<Rightarrow> f64" where
  "clamp_ratio (Fin q) = Fin (if q < 0 then 0 else if q > 1 then 1 else q)"
| "clamp_ratio _ = Fin 0"

definition record_file_progress :: "string \<Rightarrow> f64 \<Rightarrow> telemetry \<Rightarrow> telemetry" where
  "record_file_progress entity ratio t =
     emit (Gauge ''groovemap.extraction.file.progress'' (clamp_ratio ratio) [(''source'', source t), (''entity'', entity)]) t"

definition record_download_bytes :: "nat \<Rightarrow> telemetry \<Rightarrow> telemetry" where
  "record_download_bytes n t =
     (if n = 0 then t else emit (Count ''groovemap.extraction.download.bytes'' n [(''source'', source t)]) t)"

definition record_publish_confirm :: "rat \<Rightarrow> telemetry \<Rightarrow> telemetry" where
  "record_publish_confirm secs t = emit (Sample ''groovemap.extraction.publish.confirm.duration'' secs [(''source'', source t)]) t"

definition record_error :: "stage \<Rightarrow> telemetry \<Rightarrow> telemetry" where
  "record_error st t = emit (Count ''groovemap.extraction.errors'' 1 [(''source'', source t), (''stage'', stage_str st)]) t"

definition record_messages_sent :: "string \<Rightarrow> nat \<Rightarrow> telemetry \<Rightarrow> telemetry" where
  "record_messages_sent destination n t =
     (if n = 0 then t
      else emit (Count ''messaging.client.sent.messages'' n
          [(''messaging.system'', ''rabbitmq''), (''messaging.destination.name'', destination)]) t)"

definition record_reconnect :: "string \<Rightarrow> telemetry \<Rightarrow> telemetry" where
  "record_reconnect system t = emit (Count ''groovemap.pipeline.reconnects'' 1 [(''system'', system)]) t"

section \<open>The progress of a file\<close>

text \<open>\<open>u64 as f64\<close>, and division; the sign of zero is invisible.\<close>

definition f64_of_nat :: "nat \<Rightarrow> f64" where
  "f64_of_nat n = round_f64 False (of_nat n)"

fun f64_div :: "f64 \<Rightarrow> f64 \<Rightarrow> f64" where
  "f64_div (Fin a) (Fin b) =
     (if b = 0 then (if a = 0 then NaN else Inf (a < 0)) else round_f64 ((a < 0) \<noteq> (b < 0)) \<bar>a / b\<bar>)"
| "f64_div (Fin a) (Inf _) = Fin 0"
| "f64_div (Inf neg) (Fin b) = Inf (neg \<noteq> (b < 0))"
| "f64_div _ _ = NaN"

definition progress_report_step :: nat where
  "progress_report_step = 8 * 1024 * 1024"

text \<open>The bytes read stay below \<open>2 ^ 64\<close>, as the size of a file does.\<close>

record progress_reader =
  pr_entity :: string
  pr_total :: nat
  pr_read :: nat
  pr_reported_at :: nat

definition progress_reader_new :: "nat \<Rightarrow> string \<Rightarrow> progress_reader" where
  "progress_reader_new bytes entity = \<lparr>pr_entity = entity, pr_total = bytes, pr_read = 0, pr_reported_at = 0\<rparr>"

definition progress_ratio :: "progress_reader \<Rightarrow> f64" where
  "progress_ratio r = (if pr_total r = 0 then Fin 0 else f64_div (f64_of_nat (pr_read r)) (f64_of_nat (pr_total r)))"

text \<open>One \<open>read\<close> of the inner reader: the bytes it gave, or \<open>None\<close> when it failed.\<close>

definition progress_read :: "nat option \<Rightarrow> progress_reader \<times> telemetry \<Rightarrow> progress_reader \<times> telemetry" where
  "progress_read got rt =
     (case got of
        None \<Rightarrow> rt
      | Some n \<Rightarrow>
          (let r = (fst rt)\<lparr>pr_read := pr_read (fst rt) + n\<rparr> in
           if pr_read r - pr_reported_at r \<ge> progress_report_step
           then (let r1 = r\<lparr>pr_reported_at := pr_read r\<rparr> in (r1, record_file_progress (pr_entity r1) (progress_ratio r1) (snd rt)))
           else (r, snd rt)))"

definition progress_drop :: "progress_reader \<times> telemetry \<Rightarrow> telemetry" where
  "progress_drop rt = record_file_progress (pr_entity (fst rt)) (progress_ratio (fst rt)) (snd rt)"

text \<open>A file opened, read in pieces and dropped.\<close>

definition read_file :: "nat \<Rightarrow> string \<Rightarrow> nat option list \<Rightarrow> telemetry \<Rightarrow> telemetry" where
  "read_file bytes entity reads t = progress_drop (fold progress_read reads (progress_reader_new bytes entity, t))"

section \<open>Figures of the process\<close>

text \<open>\<open>rsplit_once\<close> on a character, and \<open>lines\<close>.\<close>

definition rsplit_once :: "char \<Rightarrow> string \<Rightarrow> (string \<times> string) option" where
  "rsplit_once c s =
     (if c \<in> set s
      then Some (rev (tl (dropWhile (\<lambda>d. d \<noteq> c) (rev s))), rev (takeWhile (\<lambda>d. d \<noteq> c) (rev s)))
      else None)"

definition str_lines :: "string \<Rightarrow> string list" where
  "str_lines s =
     (let ls = split_on (CHR 0x0A) s in
      map (\<lambda>l. case strip_suffix [CHR 0x0D] l of Some r \<Rightarrow> r | None \<Rightarrow> l) (butlast ls)
        @ (if last ls = [] then [] else [last ls]))"

definition parse_process_cpu_seconds :: "string \<Rightarrow> (f64 \<times> f64) option" where
  "parse_process_cpu_seconds stat =
     Option.bind (rsplit_once (CHR '')'') stat) (\<lambda>(_, rest).
       let fields = split_whitespace rest in
       Option.bind (Option.bind (nth_opt fields 11) parse_u64) (\<lambda>utime.
       Option.bind (Option.bind (nth_opt fields 12) parse_u64) (\<lambda>stime.
         Some (f64_div (f64_of_nat utime) (Fin 100), f64_div (f64_of_nat stime) (Fin 100)))))"

definition read_status_field :: "string \<Rightarrow> string \<Rightarrow> nat option" where
  "read_status_field content key =
     (case filter_map (\<lambda>line. Option.bind (strip_prefix key line) (\<lambda>rest.
         case split_whitespace rest of [] \<Rightarrow> None | w # _ \<Rightarrow> parse_u64 w)) (str_lines content) of
        [] \<Rightarrow> None | n # _ \<Rightarrow> Some n)"

definition read_process_rss_bytes :: "string option \<Rightarrow> nat option" where
  "read_process_rss_bytes content =
     map_option (\<lambda>kb. min (kb * 1024) (2 ^ 64 - 1)) (Option.bind content (\<lambda>s. read_status_field s ''VmRSS:''))"

definition read_process_thread_count :: "string option \<Rightarrow> nat option" where
  "read_process_thread_count content = Option.bind content (\<lambda>s. read_status_field s ''Threads:'')"

text \<open>The entries of the directory, without the one of the listing itself.\<close>

definition read_open_file_descriptor_count :: "nat option \<Rightarrow> nat option" where
  "read_open_file_descriptor_count entries = map_option (\<lambda>n. n - 1) entries"

section \<open>Trace headers\<close>

datatype amqp_value = LongString string | ShortString string | OtherValue

type_synonym field_table = "(string, amqp_value) omap"

definition header_set :: "string \<Rightarrow> string \<Rightarrow> field_table \<Rightarrow> field_table" where
  "header_set key v h = oinsert key (LongString v) h"

text \<open>A long string is bytes; \<open>valid\<close> says which bytes are UTF-8.\<close>

definition header_get :: "(string \<Rightarrow> bool) \<Rightarrow> field_table \<Rightarrow> string \<Rightarrow> string option" where
  "header_get valid h key =
     (case map_of h key of
        Some (LongString v) \<Rightarrow> if valid v then Some v else None
      | Some (ShortString v) \<Rightarrow> Some v
      | _ \<Rightarrow> None)"

definition header_keys :: "field_table \<Rightarrow> string list" where
  "header_keys h = okeys h"

text \<open>What the W3C propagator writes for the current span; without one nothing is written.\<close>

definition inject_trace_context :: "(string \<times> string) list \<Rightarrow> telemetry \<Rightarrow> field_table \<Rightarrow> field_table" where
  "inject_trace_context written t h = (if tm_propagator t then fold (\<lambda>(k, v). header_set k v) written h else h)"

record basic_properties =
  bp_content_type :: string
  bp_content_encoding :: string
  bp_delivery_mode :: nat
  bp_headers :: "field_table option"

text \<open>\<open>MessageQueue::message_properties\<close>.\<close>

definition message_properties :: "(string \<times> string) list \<Rightarrow> telemetry \<Rightarrow> basic_properties" where
  "message_properties written t =
     (let headers = inject_trace_context written t [];
          props = \<lparr>bp_content_type = ''application/json'', bp_content_encoding = ''UTF-8'', bp_delivery_mode = 2, bp_headers = None\<rparr>
      in if headers = [] then props else props\<lparr>bp_headers := Some headers\<rparr>)"

section \<open>The instruments\<close>

definition live :: "telemetry \<Rightarrow> bool" where
  "live t = (case tm_bound t of Some b \<Rightarrow> b | None \<Rightarrow> tm_meter t)"

lemma emit_simps [simp]:
  "tm_points (emit p t) = tm_points t @ (if live t then [p] else [])"
  "live (emit p t) = live t"
  "source (emit p t) = source t"
  "tm_bound (emit p t) = Some (live t)"
  by (simp_all add: emit_def live_def source_def Let_def)

lemma fold_emit: "tm_points (fold emit ps t) = tm_points t @ (if live t then ps else [])"
  by (induction ps arbitrary: t) auto

definition started :: "otel_env \<Rightarrow> telemetry" where
  "started env = set_source ''discogs'' (fst (init_metrics env (fst (init_traces env telemetry_default))))"

text \<open>
  After the start in the order of \<open>main\<close> every measurement is kept, with the label of the provider, or
  none is, when metrics are off; the observables are registered at most once.  A single measurement
  before the start would have lost them all.
\<close>

theorem start_binds_instruments:
  "tm_points (fold emit ps (started env)) = (if snd (init_metrics env telemetry_default) then ps else [])
    \<and> source (fold emit ps (started env)) = ''discogs''
    \<and> distinct (tm_observables (register_runtime_metrics env (started env)))
    \<and> tm_points (fold emit ps (fst (init_metrics env (emit p telemetry_default)))) = []"
proof -
  have src: "source (fold emit ps t) = source t" for t by (induction ps arbitrary: t) auto
  have up: "live (started env) = snd (init_metrics env telemetry_default)" "tm_points (started env) = []"
    "source (started env) = ''discogs''"
    by (auto simp: started_def init_metrics_def init_traces_def set_source_def telemetry_default_def live_def source_def
        register_runtime_metrics_def)
  have "distinct (tm_observables (register_runtime_metrics env (started env)))"
    by (auto simp: started_def init_metrics_def init_traces_def set_source_def telemetry_default_def
        register_runtime_metrics_def register_process_metrics_def register_tokio_metrics_def)
  moreover have "\<not> live (fst (init_metrics env (emit p telemetry_default)))"
    "tm_points (fst (init_metrics env (emit p telemetry_default))) = []"
    by (auto simp: init_metrics_def register_runtime_metrics_def telemetry_default_def emit_def live_def)
  ultimately show ?thesis by (simp add: fold_emit src up)
qed

text \<open>The histogram's buckets are increasing, and the sampling ratio is one.\<close>

lemma boundaries_increasing: "sorted_wrt (<) confirm_duration_boundaries"
  by (simp add: confirm_duration_boundaries_def)

lemma sampler_ratio: "\<exists>q. default_sampler env = Fin q \<and> 0 \<le> q \<and> q \<le> 1"
  by (auto simp: default_sampler_def split: option.split f64.split)

end
