(* ===== verification/Telemetry_Results.thy ===== *)
theory Telemetry_Results
  imports Telemetry
begin

text \<open>
  What the telemetry of \<open>src/telemetry.rs\<close> promises: the progress of a file, the figures of the process
  and the trace headers of a message.
\<close>

section \<open>Small numbers as floats\<close>

lemma log2_le: "0 < n \<Longrightarrow> 2 ^ log2_nat n \<le> n"
proof (induction n rule: log2_nat.induct)
  case (1 n)
  show ?case
  proof (cases "n < 2")
    case True
    with 1 show ?thesis by (simp add: log2_nat.simps [of n])
  next
    case False
    with 1 have "2 * 2 ^ log2_nat (n div 2) \<le> 2 * (n div 2)" by simp
    also have "\<dots> \<le> n" by simp
    finally show ?thesis using False by (simp add: log2_nat.simps [of n])
  qed
qed

lemma ilog2_of_nat: "0 < n \<Longrightarrow> ilog2 (of_nat n) = int (log2_nat n)"
proof -
  assume n: "0 < n"
  have "quotient_of (of_nat n) = (int n, 1)" using quotient_of_int [of "int n"] by simp
  moreover have "(2::rat) ^ log2_nat n \<le> of_nat n"
    using log2_le [OF n] by (metis of_nat_le_iff of_nat_numeral of_nat_power)
  moreover have "log2_nat 1 = 0" by (subst log2_nat.simps) simp
  ultimately show ?thesis by (simp add: ilog2_def pow2_def Let_def)
qed

lemma pow2_shift: "pow2 (int k - int m) * 2 ^ m = 2 ^ k"
proof (cases "m \<le> k")
  case True
  then show ?thesis by (simp add: pow2_def nat_diff_distrib flip: power_add)
next
  case False
  then have "(2::rat) ^ m = 2 ^ (m - k) * 2 ^ k" by (simp flip: power_add)
  with False show ?thesis by (simp add: pow2_def nat_diff_distrib)
qed

lemma round_half_even_bounds: "q - 1 < of_int (round_half_even q) \<and> of_int (round_half_even q) \<le> q + 1"
  using floor_correct [of q] by (simp add: round_half_even_def Let_def) linarith

lemma pow2_top: "pow2 1024 = 2 ^ 1024"
  unfolding pow2_def by (simp only: nat_numeral zero_le_numeral if_True)

text \<open>A positive \<open>u64\<close> is a finite, positive double.\<close>

lemma f64_of_nat_finite:
  assumes "0 < n" "n < 2 ^ 64"
  obtains v where "f64_of_nat n = Fin v" "0 < v"
proof -
  define e where "e = max (- 1074) (ilog2 (of_nat n) - 52)"
  define x where "x = of_nat n / pow2 e"
  have e: "e = int (log2_nat n) - 52" using ilog2_of_nat [OF assms(1)] by (simp add: e_def)
  have pos: "0 < pow2 e" by (simp add: pow2_def)
  have "pow2 e * 2 ^ 52 = (2::rat) ^ log2_nat n"
    using pow2_shift [of "log2_nat n" 52] by (simp add: e)
  then have "pow2 e * 2 ^ 52 \<le> of_nat n"
    using log2_le [OF assms(1)] by (metis of_nat_le_iff of_nat_numeral of_nat_power)
  then have x: "2 ^ 52 \<le> x" and small: "pow2 e \<le> of_nat n" using pos by (auto simp: x_def field_simps)
  define v where "v = of_int (round_half_even x) * pow2 e"
  have b: "x - 1 < of_int (round_half_even x)" "of_int (round_half_even x) \<le> x + 1"
    using round_half_even_bounds by auto
  then have "0 < v" using x pos by (simp add: v_def)
  have "v \<le> (x + 1) * pow2 e" using b(2) pos by (simp add: v_def)
  also have "\<dots> = of_nat n + pow2 e" using pos by (simp add: x_def field_simps)
  also have "\<dots> \<le> of_nat (2 * n)" using small by simp
  also have "\<dots> < 2 ^ 65" using assms(2) by simp
  also have "\<dots> < (2::rat) ^ 1024" by (rule power_strict_increasing) simp_all
  finally have "\<not> pow2 1024 \<le> v" unfolding pow2_top not_le .
  moreover have "of_nat n \<noteq> (0::rat)" using assms(1) by simp
  ultimately have "round_f64 False (of_nat n) = Fin v"
    unfolding round_f64_def Let_def e_def [symmetric] x_def [symmetric] v_def [symmetric] by (simp only: if_False)
  with \<open>0 < v\<close> that show ?thesis by (simp add: f64_of_nat_def)
qed

lemma round_one: "round_f64 False 1 = Fin 1"
proof -
  have "log2_nat 1 = 0" by (subst log2_nat.simps) simp
  then have e: "max (- 1074) (ilog2 1 - 52) = - 52" using ilog2_of_nat [of 1] by simp
  have p: "pow2 (- 52) = 1 / 2 ^ 52" by (simp add: pow2_def)
  have "1 / pow2 (- 52) = of_int (2 ^ 52)" by (simp add: p)
  then have "round_half_even (1 / pow2 (- 52)) = 2 ^ 52"
    by (simp only: round_half_even_def Let_def floor_of_int) simp
  then have v: "of_int (round_half_even (1 / pow2 (- 52))) * pow2 (- 52) = 1" by (simp add: p)
  have "(1::rat) < 2 ^ 1024" by (rule one_less_power) simp_all
  then have "\<not> pow2 1024 \<le> 1" unfolding pow2_top not_le .
  moreover have "(1::rat) \<noteq> 0" by simp
  ultimately show ?thesis
    unfolding round_f64_def Let_def e v by (simp only: if_False)
qed

lemma complete_ratio:
  assumes "0 < n" "n < 2 ^ 64"
  shows "f64_div (f64_of_nat n) (f64_of_nat n) = Fin 1"
proof -
  obtain v where "f64_of_nat n = Fin v" "0 < v" using assms by (rule f64_of_nat_finite)
  then show ?thesis by (simp add: round_one)
qed

section \<open>The progress of a file\<close>

definition progress_point :: "string \<Rightarrow> telemetry \<Rightarrow> f64 \<Rightarrow> measurement" where
  "progress_point entity t ratio = Gauge ''groovemap.extraction.file.progress'' ratio [(''source'', source t), (''entity'', entity)]"

definition in_unit :: "f64 \<Rightarrow> bool" where
  "in_unit x = (case x of Fin q \<Rightarrow> 0 \<le> q \<and> q \<le> 1 | _ \<Rightarrow> False)"

lemma clamp_in_unit: "in_unit (clamp_ratio x)"
  by (cases x) (auto simp: in_unit_def)

text \<open>What the reports so far have done, and how many they can be.\<close>

definition reported_well :: "nat \<Rightarrow> string \<Rightarrow> telemetry \<Rightarrow> progress_reader \<times> telemetry \<Rightarrow> bool" where
  "reported_well bytes entity t rt \<longleftrightarrow>
     (\<exists>qs. tm_points (snd rt) = tm_points t @ map (progress_point entity t) qs \<and> list_all in_unit qs
        \<and> length qs * progress_report_step \<le> pr_reported_at (fst rt) \<and> (live t \<or> qs = []))
     \<and> pr_reported_at (fst rt) \<le> pr_read (fst rt) \<and> pr_total (fst rt) = bytes \<and> pr_entity (fst rt) = entity
     \<and> source (snd rt) = source t \<and> live (snd rt) = live t"

lemma record_progress_simps [simp]:
  "tm_points (record_file_progress entity x t) = tm_points t @ (if live t then [progress_point entity t (clamp_ratio x)] else [])"
  "live (record_file_progress entity x t) = live t"
  "source (record_file_progress entity x t) = source t"
  by (simp_all add: record_file_progress_def progress_point_def)

lemma progress_point_source: "source t' = source t \<Longrightarrow> progress_point entity t' = progress_point entity t"
  by (simp add: progress_point_def fun_eq_iff)

lemma report_step:
  assumes "reported_well bytes entity t rt"
  shows "reported_well bytes entity t (progress_read got rt)"
proof (cases got)
  case None
  with assms show ?thesis by (simp add: progress_read_def)
next
  case (Some n)
  obtain r t' where rt: "rt = (r, t')" by force
  from assms obtain qs where qs: "tm_points t' = tm_points t @ map (progress_point entity t) qs" "list_all in_unit qs"
      "length qs * progress_report_step \<le> pr_reported_at r" "live t \<or> qs = []"
    and r: "pr_reported_at r \<le> pr_read r" "pr_total r = bytes" "pr_entity r = entity" "source t' = source t" "live t' = live t"
    by (auto simp: reported_well_def rt)
  show ?thesis
  proof (cases "pr_read r + n - pr_reported_at r \<ge> progress_report_step")
    case False
    with qs r show ?thesis by (auto simp: progress_read_def Some rt reported_well_def Let_def)
  next
    case True
    define x where "x = clamp_ratio (progress_ratio (r\<lparr>pr_read := pr_read r + n, pr_reported_at := pr_read r + n\<rparr>))"
    define qs' where "qs' = qs @ (if live t then [x] else [])"
    have "length qs' * progress_report_step \<le> pr_read r + n"
      using qs(3) True r(1) by (auto simp: qs'_def)
    moreover have "live t \<or> qs' = []" using qs(4) by (auto simp: qs'_def)
    moreover have "list_all in_unit qs'" using qs(2) by (simp add: qs'_def x_def clamp_in_unit)
    moreover have "progress_read got rt =
        (r\<lparr>pr_read := pr_read r + n, pr_reported_at := pr_read r + n\<rparr>,
         record_file_progress entity (progress_ratio (r\<lparr>pr_read := pr_read r + n, pr_reported_at := pr_read r + n\<rparr>)) t')"
      using True r(3) by (simp add: progress_read_def Some rt Let_def)
    moreover have "tm_points t' @ (if live t then [progress_point entity t x] else []) = tm_points t @ map (progress_point entity t) qs'"
      using qs(1) by (simp add: qs'_def)
    ultimately show ?thesis
      unfolding reported_well_def using r by (auto simp: progress_point_source [OF r(4)] x_def [symmetric] simp del: map_append)
  qed
qed

lemma read_bytes: "pr_read (fst (progress_read got rt)) = pr_read (fst rt) + (case got of Some n \<Rightarrow> n | None \<Rightarrow> 0)"
  by (simp add: progress_read_def Let_def split: option.split)

definition bytes_read :: "nat option list \<Rightarrow> nat" where
  "bytes_read reads = sum_list (filter_map (\<lambda>got. got) reads)"

lemma fold_reads:
  assumes "reported_well bytes entity t rt"
  shows "reported_well bytes entity t (fold progress_read reads rt)
    \<and> pr_read (fst (fold progress_read reads rt)) = pr_read (fst rt) + bytes_read reads"
  using assms
proof (induction reads arbitrary: rt)
  case (Cons got reads)
  then show ?case using report_step [OF Cons.prems] by (simp add: read_bytes bytes_read_def split: option.split)
qed (simp add: bytes_read_def)

text \<open>
  The progress of a file is reported sparingly and truthfully.  However the file is cut into reads,
  and whichever of them fail, every value reported lies between 0 and 1, the reports before the last
  are at least eight mebibytes apart, and the last one, when the reader is dropped, is where reading
  stopped: the fraction of the bytes, which is exactly 1 for a file read to its end.
\<close>

theorem progress_reports:
  "\<exists>qs. tm_points (read_file bytes entity reads t) = tm_points t @ map (progress_point entity t) qs
     \<and> list_all in_unit qs
     \<and> (length qs - 1) * (8 * 1024 * 1024) \<le> bytes_read reads
     \<and> (if live t
        then qs \<noteq> [] \<and> last qs = (if bytes = 0 then Fin 0
               else if bytes_read reads = bytes \<and> bytes < 2 ^ 64 then Fin 1
               else clamp_ratio (f64_div (f64_of_nat (bytes_read reads)) (f64_of_nat bytes)))
        else qs = [])"
proof -
  define rt where "rt = fold progress_read reads (progress_reader_new bytes entity, t)"
  have "reported_well bytes entity t (progress_reader_new bytes entity, t)"
    by (simp add: reported_well_def progress_reader_new_def)
  from fold_reads [OF this, of reads] have w: "reported_well bytes entity t rt" and n: "pr_read (fst rt) = bytes_read reads"
    by (simp_all add: rt_def progress_reader_new_def)
  from w obtain qs where qs: "tm_points (snd rt) = tm_points t @ map (progress_point entity t) qs" "list_all in_unit qs"
      "length qs * progress_report_step \<le> bytes_read reads" "live t \<or> qs = []"
    and r: "pr_total (fst rt) = bytes" "pr_entity (fst rt) = entity" "source (snd rt) = source t" "live (snd rt) = live t"
    using n by (auto simp: reported_well_def)
  define x where "x = clamp_ratio (progress_ratio (fst rt))"
  define d where "d = f64_div (f64_of_nat (bytes_read reads)) (f64_of_nat bytes)"
  have "x = clamp_ratio (if bytes = 0 then Fin 0 else d)"
    by (simp only: x_def progress_ratio_def r n d_def)
  moreover have "bytes_read reads = bytes \<Longrightarrow> bytes < 2 ^ 64 \<Longrightarrow> bytes \<noteq> 0 \<Longrightarrow> d = Fin 1"
    using complete_ratio [of bytes] by (simp add: d_def)
  ultimately have x: "x = (if bytes = 0 then Fin 0 else if bytes_read reads = bytes \<and> bytes < 2 ^ 64 then Fin 1 else clamp_ratio d)"
    by auto
  show ?thesis
  proof (cases "live t")
    case True
    have "tm_points (read_file bytes entity reads t) = tm_points t @ map (progress_point entity t) (qs @ [x])"
      using True by (simp add: read_file_def rt_def [symmetric] progress_drop_def qs r progress_point_source [OF r(3)] x_def)
    moreover have "list_all in_unit (qs @ [x])" using qs(2) by (simp add: x_def clamp_in_unit)
    ultimately show ?thesis
      using True qs(3) x by (intro exI [of _ "qs @ [x]"]) (simp add: progress_report_step_def d_def)
  next
    case False
    then show ?thesis
      using qs by (simp add: read_file_def rt_def [symmetric] progress_drop_def r)
  qed
qed

section \<open>The figures of the process\<close>

text \<open>A field of \<open>/proc/self/stat\<close> after the command, and the rest of the line.\<close>

definition stat_word :: "string \<Rightarrow> bool" where
  "stat_word w \<longleftrightarrow> w \<noteq> [] \<and> list_all (\<lambda>c. is_ascii c \<and> \<not> is_ws [c] \<and> c \<noteq> CHR '')'') w"

definition stat_fields :: "string list \<Rightarrow> string" where
  "stat_fields ws = concat (map (\<lambda>w. CHR '' '' # w) ws) @ [CHR 0x0A]"

lemma words_by_separated:
  assumes "p sep" "p final" "list_all (\<lambda>w. w \<noteq> [] \<and> list_all (\<lambda>x. \<not> p x) w) ws"
  shows "words_by p (concat (map (\<lambda>w. sep # w) ws) @ [final]) acc = (if acc = [] then [] else [rev acc]) @ ws"
  using assms(3)
proof (induction ws arbitrary: acc)
  case (Cons w ws)
  then have "words_by p (w @ concat (map ((#) sep) ws) @ [final]) [] = w # ws"
    by (simp add: words_by_word)
  with assms(1) show ?case by simp
qed (use assms in simp)

lemma split_stat_fields:
  assumes "list_all stat_word ws"
  shows "split_whitespace (stat_fields ws) = ws"
proof -
  have "list_all is_ascii (stat_fields ws)"
    using assms by (auto simp: stat_fields_def stat_word_def list_all_iff is_ascii_def byte_def)
  then have "chars (stat_fields ws) = concat (map (\<lambda>w. '' '' # w) (map (map (\<lambda>c. [c])) ws)) @ [[CHR 0x0A]]"
    by (simp add: chars_ascii stat_fields_def map_concat comp_def)
  moreover have "words_by is_ws (concat (map (\<lambda>w. '' '' # w) (map (map (\<lambda>c. [c])) ws)) @ [[CHR 0x0A]]) []
      = map (map (\<lambda>c. [c])) ws"
    using assms by (subst words_by_separated)
      (auto simp: space_is_ws is_ws_def [of "[CHR 0x0A]"] byte_def stat_word_def list_all_iff)
  ultimately show ?thesis by (simp add: split_whitespace_def comp_def)
qed

lemma rsplit_once_last: "c \<notin> set t \<Longrightarrow> rsplit_once c (s @ c # t) = Some (s, t)"
  by (auto simp: rsplit_once_def takeWhile_append dropWhile_append)

text \<open>
  The processor times are found whatever the command is called, with blanks and parentheses in its name:
  the fields counted are those after the last closing parenthesis.
\<close>

theorem cpu_seconds_any_command:
  assumes "list_all stat_word ws" "nth_opt ws 11 = Some (show_nat user)" "nth_opt ws 12 = Some (show_nat system)"
    and "user < 2 ^ 64" "system < 2 ^ 64"
  shows "parse_process_cpu_seconds (pid @ '' ('' @ command @ '')'' @ stat_fields ws)
    = Some (f64_div (f64_of_nat user) (Fin 100), f64_div (f64_of_nat system) (Fin 100))"
proof -
  have "CHR '')'' \<notin> set (stat_fields ws)"
    using assms(1) by (auto simp: stat_fields_def stat_word_def list_all_iff)
  from rsplit_once_last [OF this, of "pid @ '' ('' @ command"] show ?thesis
    using assms(2-5) by (simp add: parse_process_cpu_seconds_def split_stat_fields [OF assms(1)] parse_u64_show_nat)
qed

section \<open>The headers of a message\<close>

lemma header_get_set: "valid v \<Longrightarrow> header_get valid (header_set key v h) k = (if k = key then Some v else header_get valid h k)"
  by (simp add: header_get_def header_set_def)

text \<open>
  A message is persistent, and it has headers exactly when tracing is on and the propagator wrote
  something; a consumer reads back what was written.
\<close>

theorem message_headers:
  assumes "list_all (\<lambda>(k, v). valid v) written"
  shows "bp_delivery_mode (message_properties written t) = 2
    \<and> (bp_headers (message_properties written t) = None \<longleftrightarrow> \<not> tm_propagator t \<or> written = [])
    \<and> header_get valid (case bp_headers (message_properties written t) of Some h \<Rightarrow> h | None \<Rightarrow> []) k
      = (if tm_propagator t then map_of (rev written) k else None)"
proof -
  have get: "header_get valid (fold (\<lambda>(k, v). header_set k v) written []) k = map_of (rev written) k"
    using assms by (induction written rule: rev_induct) (auto simp: header_get_set header_get_def [of _ "[]"])
  have empty: "fold (\<lambda>(k, v). header_set k v) written [] = [] \<longleftrightarrow> written = []"
    by (induction written rule: rev_induct) (auto simp: header_set_def)
  show ?thesis
    using get by (auto simp: message_properties_def inject_trace_context_def Let_def empty header_get_def [of _ "[]"])
qed

end
