(* ===== verification/Reporting.thy ===== *)
theory Reporting
  imports Telemetry_Results Message_Queue Runtime
begin

text \<open>
  What the service tells of itself while it works and when it stops: \<open>progress_reporter\<close> of \<open>src/runtime.rs\<close>,
  the span constructors and the bounded shutdown of the pipelines of \<open>src/telemetry.rs\<close>.  Spans and providers
  are the SDK's; here is what the code asks of them.
\<close>

section \<open>The progress reporter\<close>

text \<open>One report: the total and its parts, the stalled types, the files completed and the connections.\<close>

record progress_report =
  rp_total :: nat
  rp_parts :: "(data_type \<times> nat) list"
  rp_stalled :: "string list"
  rp_completed :: "string set"
  rp_connections :: "data_type list"

definition progress_report :: "time \<Rightarrow> extractor_state \<Rightarrow> progress_report" where
  "progress_report now s =
     (let p = es_extraction_progress s in
      \<lparr>rp_total = pg_total p,
       rp_parts = [(Artists, pg_artists p), (Labels, pg_labels p), (Masters, pg_masters p), (Releases, pg_releases p)],
       rp_stalled = stalled_types now s, rp_completed = es_completed_files s, rp_connections = okeys (es_active_connections s)\<rparr>)"

definition report_interval :: "nat \<Rightarrow> nat" where
  "report_interval report_count = (if report_count < 3 then 10 else 30) * 1000000000"

text \<open>What a wait ends with: the interval, at a time and in a state, or the shutdown.\<close>

datatype reporter_turn = Elapsed time extractor_state | Notified

text \<open>The waits and the reports after them.\<close>

fun progress_reporter :: "nat \<Rightarrow> reporter_turn list \<Rightarrow> (nat \<times> progress_report) list" where
  "progress_reporter report_count [] = []"
| "progress_reporter report_count (Notified # turns) = []"
| "progress_reporter report_count (Elapsed now s # turns) =
     (report_interval report_count, progress_report now s) # progress_reporter (report_count + 1) turns"

lemma parts_add_up: "sum_list (map snd (rp_parts (progress_report now s))) = rp_total (progress_report now s)"
  by (simp add: progress_report_def pg_total_def Let_def)

lemma parts_of_types: "rp_parts (progress_report now s) = map (\<lambda>d. (d, pg_get (es_extraction_progress s) d)) [Artists, Labels, Masters, Releases]"
  by (simp add: progress_report_def Let_def)

text \<open>A completed type is never reported as stalled, and neither is one that was active within two minutes.\<close>

lemma stalled_sound:
  assumes "x \<in> set (rp_stalled (progress_report now s))"
  shows "\<exists>d t. x = dt_str d \<and> (d, t) \<in> set (es_last_extraction_time s) \<and> now - t > 120 * 1000000000
    \<and> (\<forall>f \<in> es_completed_files s. \<not> contains f (dt_str d))"
  using assms by (auto simp: progress_report_def stalled_types_def Let_def set_filter_map split: if_splits; blast)

lemma reporter_intervals:
  "map fst (progress_reporter k turns) = map report_interval [k ..< k + length (progress_reporter k turns)]"
proof (induction k turns rule: progress_reporter.induct)
  case (3 k now s turns)
  then show ?case by (cases "progress_reporter (k + 1) turns"; simp add: upt_conv_Cons del: upt_Suc)
qed simp_all

text \<open>
  The reporter waits ten seconds before each of the first three reports and thirty before every later one,
  ends at the first notification, and the parts of every report add up to its total.
\<close>

theorem reporter_run:
  "map fst (progress_reporter 0 turns) = map report_interval [0 ..< length (takeWhile (\<lambda>t. t \<noteq> Notified) turns)]
    \<and> list_all (\<lambda>(d, r). sum_list (map snd (rp_parts r)) = rp_total r) (progress_reporter 0 turns)"
proof -
  have "length (progress_reporter k turns) = length (takeWhile (\<lambda>t. t \<noteq> Notified) turns)" for k
    by (induction k turns rule: progress_reporter.induct) simp_all
  moreover have "list_all (\<lambda>(d, r). sum_list (map snd (rp_parts r)) = rp_total r) (progress_reporter k turns)" for k
    by (induction k turns rule: progress_reporter.induct) (simp_all add: parts_add_up)
  ultimately show ?thesis using reporter_intervals [of 0 turns] by simp
qed

section \<open>Spans\<close>

record otel_span =
  sp_name :: string
  sp_otel_name :: "string option"
  sp_kind :: string
  sp_attributes :: "(string \<times> string) list"

definition extract_span :: "string \<Rightarrow> telemetry \<Rightarrow> otel_span" where
  "extract_span entity t =
     \<lparr>sp_name = ''extract'', sp_otel_name = Some (''extract '' @ source t @ '' '' @ entity), sp_kind = ''internal'',
      sp_attributes = [(''source'', source t), (''entity'', entity)]\<rparr>"

definition download_span :: otel_span where
  "download_span = \<lparr>sp_name = ''download'', sp_otel_name = None, sp_kind = ''internal'', sp_attributes = []\<rparr>"

definition parse_span :: otel_span where
  "parse_span = \<lparr>sp_name = ''parse'', sp_otel_name = None, sp_kind = ''internal'', sp_attributes = []\<rparr>"

definition publish_span :: "string \<Rightarrow> otel_span" where
  "publish_span destination =
     \<lparr>sp_name = ''publish'', sp_otel_name = Some (''publish '' @ destination), sp_kind = ''producer'',
      sp_attributes = [(''messaging.system'', ''rabbitmq''), (''messaging.destination.name'', destination),
        (''messaging.operation.name'', ''publish'')]\<rparr>"

definition shown_name :: "otel_span \<Rightarrow> string" where
  "shown_name s = (case sp_otel_name s of Some n \<Rightarrow> n | None \<Rightarrow> sp_name s)"

text \<open>The spans the program opens, for any set of files: ten names, all different.\<close>

definition program_spans :: "telemetry \<Rightarrow> message_queue \<Rightarrow> otel_span list" where
  "program_spans t q =
     [download_span, parse_span] @ map (\<lambda>d. extract_span (dt_str d) t) discogs_types
       @ map (\<lambda>d. publish_span (exchange_name q d)) discogs_types"

theorem span_names_closed: "distinct (map shown_name (program_spans t q)) \<and> length (program_spans t q) = 10"
  by (simp add: program_spans_def shown_name_def download_span_def parse_span_def extract_span_def publish_span_def
      discogs_types_def exchange_name_def)

section \<open>The trace context of a message\<close>

text \<open>The propagator is a parameter: it reads headers by name.\<close>

definition extract_trace_context :: "((string \<Rightarrow> string option) \<Rightarrow> 'ctx) \<Rightarrow> (string \<Rightarrow> bool) \<Rightarrow> field_table \<Rightarrow> 'ctx" where
  "extract_trace_context extract valid h = extract (header_get valid h)"

section \<open>Stopping the pipelines\<close>

text \<open>
  How the flush on its own thread ends: the time it takes, if it ever ends, whether the flush and the
  shutdown went well, or that the thread panicked.
\<close>

datatype flush_end = Flushed bool bool | FlushPanicked

datatype shutdown_warning = FlushFailed | StopFailed | TaskFailed | NotFinished nat

definition shutdown_timeout :: nat where
  "shutdown_timeout = 5 * 1000000000"

text \<open>Nothing without a provider; else the time waited and what is logged by then.\<close>

definition shutdown_metrics :: "(nat option \<times> flush_end) option \<Rightarrow> nat \<times> shutdown_warning list" where
  "shutdown_metrics provider =
     (case provider of
        None \<Rightarrow> (0, [])
      | Some (Some t, e) \<Rightarrow>
          (if t > shutdown_timeout then (shutdown_timeout, [NotFinished shutdown_timeout])
           else (t, case e of
               Flushed flush_ok stop_ok \<Rightarrow> (if flush_ok then [] else [FlushFailed]) @ (if stop_ok then [] else [StopFailed])
             | FlushPanicked \<Rightarrow> [TaskFailed]))
      | Some (None, e) \<Rightarrow> (shutdown_timeout, [NotFinished shutdown_timeout]))"

text \<open>The same code for the traces.\<close>

definition shutdown_traces :: "(nat option \<times> flush_end) option \<Rightarrow> nat \<times> shutdown_warning list" where
  "shutdown_traces provider = shutdown_metrics provider"

lemma shutdown_bounded: "fst (shutdown_metrics m) + fst (shutdown_traces t) \<le> 10 * 1000000000"
proof -
  have "fst (shutdown_metrics p) \<le> shutdown_timeout" for p
    by (auto simp: shutdown_metrics_def split: option.split)
  from add_mono [OF this [of m] this [of t]] show ?thesis by (simp add: shutdown_traces_def shutdown_timeout_def)
qed

text \<open>
  The code gives each pipeline five seconds so that a collector that does not answer cannot use up the ten
  seconds between SIGTERM and SIGKILL; the two shutdowns run one after the other, and together they do.
\<close>

theorem two_shutdowns_use_the_grace_period:
  "fst (shutdown_metrics (Some (None, e))) + fst (shutdown_traces (Some (None, e'))) = 10 * 1000000000"
  by (simp add: shutdown_metrics_def shutdown_traces_def shutdown_timeout_def)

end
