(* ===== verification/Service_Loop.thy ===== *)
theory Service_Loop
  imports Run_Guarantees "HOL-Library.Code_Target_Nat"
begin

text \<open>
  The running service: the handlers of \<open>src/health.rs\<close> and the loop of \<open>run_extraction_loop\<close> in
  \<open>src/discogs/mod.rs\<close> around the runs of \<open>Pipeline\<close>.  Routing and sockets are not modelled.
\<close>

section \<open>The handlers\<close>

type_synonym response = "nat \<times> json"

text \<open>The age of a time stamp and the current time as JSON are parameters.\<close>

definition progress_json :: "progress \<Rightarrow> json" where
  "progress_json p =
     jobj (map (\<lambda>d. (dt_str d, JNum (PosInt (pg_get p d)))) all_types @ [(''total'', JNum (PosInt (pg_total p)))])"

definition health_handler :: "(time \<Rightarrow> json) \<Rightarrow> json \<Rightarrow> extractor_state \<Rightarrow> response" where
  "health_handler elapsed timestamp s =
     (200, jobj [(''status'', JStr ''healthy''), (''service'', JStr ''discogs-ingestion''),
        (''extraction_status'', JStr (status_str (es_extraction_status s))),
        (''extraction_progress'', progress_json (es_extraction_progress s)),
        (''last_extraction_time'', jobj (map (\<lambda>d. (dt_str d,
            case map_of (es_last_extraction_time s) d of Some t \<Rightarrow> elapsed t | None \<Rightarrow> JNull)) all_types)),
        (''timestamp'', timestamp)])"

definition metrics_handler :: "extractor_state \<Rightarrow> response" where
  "metrics_handler s =
     (200, jobj (map (\<lambda>d. (''extraction_progress_'' @ dt_str d, JNum (PosInt (pg_get (es_extraction_progress s) d)))) all_types
        @ [(''extraction_progress_total'', JNum (PosInt (pg_total (es_extraction_progress s)))),
           (''completed_files'', JNum (PosInt (card (es_completed_files s)))),
           (''active_connections'', JNum (PosInt (length (es_active_connections s)))),
           (''error_count'', JNum (PosInt (es_error_count s)))]))"

definition ready_handler :: "extractor_state \<Rightarrow> nat" where
  "ready_handler s =
     (if es_extraction_status s \<noteq> StatusIdle \<or> es_active_connections s \<noteq> [] \<or> es_completed_files s \<noteq> {} then 200 else 503)"

text \<open>The request's flag, absent when there is no body; the trigger cell.\<close>

definition trigger_handler :: "extractor_state \<Rightarrow> bool option \<Rightarrow> bool option \<Rightarrow> bool option \<times> response" where
  "trigger_handler s body cell =
     (let force = (case body of Some f \<Rightarrow> f | None \<Rightarrow> False) in
      if es_extraction_status s = StatusRunning then (cell, (409, jobj [(''status'', JStr ''already_running'')]))
      else (Some force, (202, jobj [(''status'', JStr ''started''), (''force_reprocess'', JBool force)])))"

section \<open>The loop\<close>

text \<open>What ends a wait: the timer, a trigger with its flag, or shutdown.\<close>

datatype wake = TimerFired | Triggered bool | ShutdownNotified

text \<open>
  The environment of the k-th later run (\<open>None\<close> when its downloader cannot be created), the shutdown
  flag as the k-th iteration finds it, and what ends its wait; the first run, and the local manifest's.
\<close>

record 'r service_env =
  sv_local :: "(string + 'r pipeline_env) option"
  sv_first :: "'r pipeline_env option"
  sv_run :: "nat \<Rightarrow> 'r pipeline_env option"
  sv_stopping_first :: bool
  sv_stopping :: "nat \<Rightarrow> bool"
  sv_wake :: "nat \<Rightarrow> wake"

datatype service_error = BadLocalManifest string | NoDownloader | RunFailed pipeline_error | InitialFailed run_error

text \<open>The wait between checks in seconds: a product of \<open>u64\<close>, which wraps in a release build.\<close>

definition check_interval :: "nat \<Rightarrow> nat" where
  "check_interval days = days * 24 mod 2 ^ 64 * 60 mod 2 ^ 64 * 60 mod 2 ^ 64"

text \<open>Completed becomes waiting; failed stays visible.\<close>

definition park :: "world \<Rightarrow> world" where
  "park w = (if es_extraction_status (w_state w) = StatusCompleted then set_status StatusWaiting w else w)"

text \<open>A periodic or triggered check: an error resets the status.\<close>

definition run_check :: "'r pipeline_env option \<Rightarrow> bool \<Rightarrow> world \<Rightarrow> world" where
  "run_check env force w =
     (case env of
        None \<Rightarrow> on_state reset_status_after_failed_check w
      | Some e \<Rightarrow>
          (case process_discogs_data e force w of
             (w1, Inr done) \<Rightarrow> w1
           | (w1, Inl x) \<Rightarrow> on_state reset_status_after_failed_check w1))"

text \<open>One turn of the loop; whether it goes on.\<close>

definition loop_turn :: "'r service_env \<Rightarrow> nat \<Rightarrow> world \<Rightarrow> world \<times> bool" where
  "loop_turn sv k w =
     (if sv_stopping sv k then (w, False)
      else
        (let w1 = park w in
         case sv_wake sv k of
           TimerFired \<Rightarrow> (run_check (sv_run sv k) False w1, True)
         | Triggered force \<Rightarrow> (run_check (sv_run sv k) force w1, True)
         | ShutdownNotified \<Rightarrow> (w1, False)))"

text \<open>The first turns of the loop, as many as it takes up to \<open>n\<close>.\<close>

fun loop_turns :: "'r service_env \<Rightarrow> nat \<Rightarrow> nat \<Rightarrow> world \<Rightarrow> world \<times> bool" where
  "loop_turns sv 0 k w = (w, True)"
| "loop_turns sv (Suc n) k w =
     (case loop_turn sv k w of (w1, True) \<Rightarrow> loop_turns sv n (Suc k) w1 | (w1, False) \<Rightarrow> (w1, False))"

text \<open>The run before the loop; \<open>Ok True\<close> when the loop is entered.\<close>

definition initial_run :: "'r service_env \<Rightarrow> bool \<Rightarrow> world \<Rightarrow> world \<times> (service_error + bool)" where
  "initial_run sv force w =
     (case sv_local sv of
        Some (Inl e) \<Rightarrow> (w, Err (BadLocalManifest e))
      | Some (Inr env) \<Rightarrow>
          (case process_discogs_data env force w of
             (w1, Inl e) \<Rightarrow> (w1, Err (RunFailed e))
           | (w1, Inr success) \<Rightarrow>
               (w1, case initial_run_outcome success (sv_stopping_first sv) ''Discogs local manifest'' of
                  Inl e \<Rightarrow> Err (InitialFailed e) | Inr _ \<Rightarrow> Ok False))
      | None \<Rightarrow>
          (case sv_first sv of
             None \<Rightarrow> (w, Err NoDownloader)
           | Some env \<Rightarrow>
               (case process_discogs_data env force w of
                  (w1, Inl e) \<Rightarrow> (w1, Err (RunFailed e))
                | (w1, Inr success) \<Rightarrow>
                    (w1, case initial_run_outcome success (sv_stopping_first sv) ''Discogs'' of
                       Inl e \<Rightarrow> Err (InitialFailed e) | Inr _ \<Rightarrow> Ok True))))"

text \<open>The service after at most \<open>n\<close> turns: whether it still runs, or how it ended.\<close>

definition run_extraction_loop :: "'r service_env \<Rightarrow> bool \<Rightarrow> nat \<Rightarrow> world \<Rightarrow> world \<times> (service_error + bool)" where
  "run_extraction_loop sv force n w =
     (case initial_run sv force w of
        (w1, Inr True) \<Rightarrow> (case loop_turns sv n 0 w1 of (w2, running) \<Rightarrow> (w2, Ok running))
      | (w1, r) \<Rightarrow> (w1, r))"

section \<open>What operators see\<close>

abbreviation status_of :: "world \<Rightarrow> extraction_status" where
  "status_of w \<equiv> es_extraction_status (w_state w)"

lemma run_not_running:
  assumes "process_discogs_data env force w = (w', Inr done)" "status_of w \<noteq> StatusRunning"
  shows "status_of w' \<noteq> StatusRunning"
  using run_status [where env = env and force = force and w = w] assms by (auto split: if_splits)

lemma status_reset [simp]: "status_of (on_state reset_status_after_failed_check w) = StatusFailed"
  by (simp add: on_state_def reset_status_after_failed_check_def)

lemma check_not_running: "status_of w \<noteq> StatusRunning \<Longrightarrow> status_of (run_check env force w) \<noteq> StatusRunning"
  by (auto simp: run_check_def dest: run_not_running split: option.split prod.split sum.split)

lemma park_status: "status_of (park w) = (if status_of w = StatusCompleted then StatusWaiting else status_of w)"
  by (simp add: park_def set_status_def on_state_def)

lemma turn_not_running: "status_of w \<noteq> StatusRunning \<Longrightarrow> loop_turn sv k w = (w', go) \<Longrightarrow> status_of w' \<noteq> StatusRunning"
  using check_not_running [of "park w"] park_status [of w]
  by (auto simp: loop_turn_def Let_def split: if_splits wake.splits)

lemma turns_not_running: "status_of w \<noteq> StatusRunning \<Longrightarrow> loop_turns sv n k w = (w', go) \<Longrightarrow> status_of w' \<noteq> StatusRunning"
proof (induction n arbitrary: k w)
  case (Suc n)
  obtain w1 g where t: "loop_turn sv k w = (w1, g)" by force
  with Suc turn_not_running [OF Suc.prems(1) t] show ?case by (cases g) auto
qed simp

text \<open>
  C14: a service that waits accepts triggers.  After the first run and any number of later checks,
  failed and unstartable ones included, the status while the loop waits is never running, so that the
  trigger endpoint answers 202 and puts the request's flag into the cell; the next poll of the loop
  takes exactly that flag and empties the cell.
\<close>

theorem parked_service_accepts:
  assumes "run_extraction_loop sv force n w = (w', Ok True)" "es_extraction_status (w_state w) \<noteq> StatusRunning"
  shows "case trigger_handler (w_state (park w')) body cell of (cell', code, reply) \<Rightarrow>
      code = 202 \<and> wait_for_trigger [cell'] = Some (case body of Some f \<Rightarrow> f | None \<Rightarrow> False)
      \<and> fst (take_trigger cell') = None
      \<and> es_extraction_status (w_state (park w')) \<in> {StatusIdle, StatusWaiting, StatusFailed}"
proof -
  obtain w1 where i: "initial_run sv force w = (w1, Ok True)" and l: "loop_turns sv n 0 w1 = (w', True)"
    using assms(1) by (auto simp: run_extraction_loop_def split: prod.splits sum.splits bool.splits)
  have "status_of w1 \<noteq> StatusRunning"
    using i assms(2)
    by (auto simp: initial_run_def dest: run_not_running split: option.splits sum.splits prod.splits)
  from turns_not_running [OF this l] have "status_of w' \<noteq> StatusRunning" .
  then have "status_of (park w') \<noteq> StatusRunning" "status_of (park w') \<noteq> StatusCompleted"
    using park_status [of w'] by auto
  then show ?thesis
    by (cases "status_of (park w')") (auto simp: trigger_handler_def Let_def)
qed

text \<open>A service whose periodic check and whose triggered check cannot create a downloader.\<close>

definition troubled_service :: "unit service_env" where
  "troubled_service = \<lparr>sv_local = None, sv_first = Some (sample_run (\<lambda>_. fine_broker)), sv_run = (\<lambda>_. None),
     sv_stopping_first = False, sv_stopping = (\<lambda>_. False), sv_wake = (\<lambda>k. if k = 0 then TimerFired else Triggered True)\<rparr>"

theorem parked_service_accepts_witness:
  "\<exists>w reply. run_extraction_loop troubled_service False 2 resumed_world = (w, Ok True)
     \<and> trigger_handler (w_state (park w)) (Some True) None = (Some True, (202, reply))
     \<and> wait_for_trigger [Some True] = Some True
     \<and> es_extraction_status (w_state (park w)) = StatusFailed"
proof -
  let ?sv = troubled_service
  let ?w = "fst (run_extraction_loop ?sv False 2 resumed_world)"
  have ran: "snd (run_extraction_loop ?sv False 2 resumed_world) = Ok True"
    "es_extraction_status (w_state (park ?w)) = StatusFailed"
    "fst (trigger_handler (w_state (park ?w)) (Some True) None) = Some True" by code_simp+
  have run: "run_extraction_loop ?sv False 2 resumed_world = (?w, Ok True)" using ran(1) by (metis prod.collapse)
  have idle: "es_extraction_status (w_state resumed_world) \<noteq> StatusRunning" by code_simp
  from parked_service_accepts [OF run idle, where body = "Some True" and cell = None] run ran(2,3) show ?thesis
    by (cases "trigger_handler (w_state (park ?w)) (Some True) None") auto
qed

text \<open>The loop goes on exactly as long as no shutdown is seen.\<close>

definition shutdown_seen :: "'r service_env \<Rightarrow> nat \<Rightarrow> bool" where
  "shutdown_seen sv k \<longleftrightarrow> sv_stopping sv k \<or> sv_wake sv k = ShutdownNotified"

lemma loop_turn_goes_on: "snd (loop_turn sv k w) \<longleftrightarrow> \<not> shutdown_seen sv k"
  by (auto simp: loop_turn_def shutdown_seen_def Let_def split: wake.split)

lemma loop_turns_go_on: "snd (loop_turns sv n k w) \<longleftrightarrow> \<not> list_ex (shutdown_seen sv) [k..<k + n]"
proof (induction n arbitrary: k w)
  case (Suc n)
  obtain w1 g where t: "loop_turn sv k w = (w1, g)" by force
  have "[k..<k + Suc n] = k # [Suc k..<Suc k + n]" by (simp add: upt_conv_Cons del: upt_Suc)
  then show ?case using Suc.IH [of "Suc k" w1] loop_turn_goes_on [of sv k w] t
    by (cases g) (simp_all del: upt_Suc)
qed simp

text \<open>
  How the service ends.  The first run's failure is the service's, unless a shutdown was
  requested; once in the loop the service ends only by a shutdown, never by a failing check.
\<close>

theorem service_ends_by_shutdown:
  "case run_extraction_loop sv force n w of
     (w', Inr False) \<Rightarrow> sv_local sv \<noteq> None \<or> list_ex (\<lambda>k. sv_stopping sv k \<or> sv_wake sv k = ShutdownNotified) [0..<n]
   | (w', Inl (InitialFailed e)) \<Rightarrow> \<not> sv_stopping_first sv
   | _ \<Rightarrow> True"
proof -
  obtain w1 r where i: "initial_run sv force w = (w1, r)" by force
  obtain w2 go where l: "loop_turns sv n 0 w1 = (w2, go)" by force
  have "sv_local sv = None \<Longrightarrow> r \<noteq> Ok False"
    using i by (auto simp: initial_run_def split: option.splits sum.splits prod.splits)
  moreover have "r = Err (InitialFailed e) \<Longrightarrow> \<not> sv_stopping_first sv" for e
    using i by (auto simp: initial_run_def initial_run_outcome_def split: option.splits sum.splits prod.splits if_splits)
  ultimately show ?thesis
    using loop_turns_go_on [of sv n 0 w1]
    by (auto simp: run_extraction_loop_def i l shutdown_seen_def [abs_def] split: sum.split bool.split service_error.split)
qed

text \<open>A run that ends in an error ends the service with it, even when a shutdown was requested.\<close>

theorem initial_error_ignores_shutdown:
  assumes "sv_local sv = None" "sv_first sv = Some env" "process_discogs_data env force w = (w', Inl e)"
  shows "run_extraction_loop sv force n w = (w', Err (RunFailed e))"
  using assms by (simp add: run_extraction_loop_def initial_run_def)

text \<open>
  The wait is the configured number of days as long as the product fits; a larger number of days, which
  the configuration accepts, can mean no wait at all.
\<close>

theorem check_interval_wraps:
  "(if days \<le> 213503982334601 then check_interval days = days * 86400 else True)
    \<and> check_interval (2 ^ 57) = 0 \<and> (2::nat) ^ 57 < 2 ^ 64"
  by (simp add: check_interval_def)

end
