(* ===== verification/Config.thy ===== *)
theory Config
  imports Data_Types "HOL-Library.Code_Target_Nat"
begin

text \<open>
  \<open>src/config.rs\<close>, the environment of the service, and the two settings \<open>src/main.rs\<close> reads itself: the
  failure cooldown and the log filter.  Environment variables, the files of secrets, percent-encoding
  and the number of processors are parameters.
\<close>

section \<open>Settings\<close>

record extractor_config =
  cfg_amqp_connection :: string
  cfg_discogs_root :: string
  cfg_periodic_check_days :: nat
  cfg_health_port :: nat
  cfg_max_workers :: nat
  cfg_batch_size :: nat
  cfg_queue_size :: nat
  cfg_progress_log_interval :: nat
  cfg_state_save_interval :: nat
  cfg_data_quality_rules :: "string option"
  cfg_discogs_exchange_prefix :: string

text \<open>A variable that is set and text; a file that can be read; the processors are at least one.\<close>

record config_env =
  ce_var :: "string \<Rightarrow> string option"
  ce_file :: "string \<Rightarrow> string option"
  ce_encode :: "string \<Rightarrow> string"
  ce_cpus :: nat

text \<open>\<open>src/generated/catalog_contract.rs\<close>.\<close>

definition default_exchange_prefix :: string where
  "default_exchange_prefix = ''groovemap-discogs''"

datatype config_error = SecretUnreadable string

definition var_or :: "config_env \<Rightarrow> string \<Rightarrow> string \<Rightarrow> string" where
  "var_or env name dflt = (case ce_var env name of Some v \<Rightarrow> v | None \<Rightarrow> dflt)"

text \<open>The file named by \<open><VAR>_FILE\<close>, else the variable, else the default.\<close>

definition read_secret :: "config_env \<Rightarrow> string \<Rightarrow> string \<Rightarrow> config_error + string" where
  "read_secret env name dflt =
     (case ce_var env (name @ ''_FILE'') of
        Some f \<Rightarrow> (case ce_file env f of Some s \<Rightarrow> Ok (trim s) | None \<Rightarrow> Err (SecretUnreadable name))
      | None \<Rightarrow> Ok (var_or env name dflt))"

definition build_amqp_url :: "config_env \<Rightarrow> string \<Rightarrow> string \<Rightarrow> string \<Rightarrow> string \<Rightarrow> string" where
  "build_amqp_url env user password host port =
     ''amqp://'' @ ce_encode env user @ '':'' @ ce_encode env password @ ''@'' @ host @ '':'' @ port @ ''/%2F''"

definition parse_u16 :: "string \<Rightarrow> nat option" where
  "parse_u16 s = (case parse_u64 s of Some n \<Rightarrow> if n < 2 ^ 16 then Some n else None | None \<Rightarrow> None)"

text \<open>A count: unset or not a number means the default, and zero means one.\<close>

definition count_var :: "config_env \<Rightarrow> string \<Rightarrow> nat \<Rightarrow> nat" where
  "count_var env name dflt =
     (case parse_u64 (var_or env name (show_nat dflt)) of Some n \<Rightarrow> max n 1 | None \<Rightarrow> max dflt 1)"

definition config_default :: "config_env \<Rightarrow> extractor_config" where
  "config_default env =
     \<lparr>cfg_amqp_connection = build_amqp_url env ''groovemap'' ''groovemap'' ''localhost'' ''5672'',
      cfg_discogs_root = ''/discogs-data'', cfg_periodic_check_days = 15, cfg_health_port = 8000,
      cfg_max_workers = ce_cpus env, cfg_batch_size = 100, cfg_queue_size = 5000, cfg_progress_log_interval = 1000,
      cfg_state_save_interval = 5000, cfg_data_quality_rules = None, cfg_discogs_exchange_prefix = default_exchange_prefix\<rparr>"

definition from_env :: "config_env \<Rightarrow> config_error + extractor_config" where
  "from_env env =
     and_then (read_secret env ''RABBITMQ_USERNAME'' ''groovemap'') (\<lambda>user.
     and_then (read_secret env ''RABBITMQ_PASSWORD'' ''groovemap'') (\<lambda>password.
       Ok \<lparr>cfg_amqp_connection =
             build_amqp_url env user password (var_or env ''RABBITMQ_HOST'' ''rabbitmq'') (var_or env ''RABBITMQ_PORT'' ''5672''),
           cfg_discogs_root = var_or env ''DISCOGS_ROOT'' ''/discogs-data'',
           cfg_periodic_check_days = count_var env ''PERIODIC_CHECK_DAYS'' 15,
           cfg_health_port = (case parse_u16 (var_or env ''HEALTH_PORT'' ''8000'') of Some p \<Rightarrow> p | None \<Rightarrow> 8000),
           cfg_max_workers = count_var env ''MAX_WORKERS'' (ce_cpus env),
           cfg_batch_size = count_var env ''BATCH_SIZE'' 100,
           cfg_queue_size = count_var env ''QUEUE_SIZE'' 5000,
           cfg_progress_log_interval = count_var env ''PROGRESS_LOG_INTERVAL'' 1000,
           cfg_state_save_interval = count_var env ''STATE_SAVE_INTERVAL'' 5000,
           cfg_data_quality_rules = ce_var env ''DATA_QUALITY_RULES'',
           cfg_discogs_exchange_prefix = var_or env ''DISCOGS_EXCHANGE_PREFIX'' (default_exchange_prefix)\<rparr>))"

section \<open>Bounds\<close>

definition config_ok :: "extractor_config \<Rightarrow> bool" where
  "config_ok c \<longleftrightarrow> list_all (\<lambda>n. 1 \<le> n \<and> n < 2 ^ 64)
       [cfg_periodic_check_days c, cfg_max_workers c, cfg_batch_size c, cfg_queue_size c, cfg_progress_log_interval c,
        cfg_state_save_interval c]
     \<and> cfg_health_port c < 2 ^ 16"

lemma count_var_bounds: "dflt < 2 ^ 64 \<Longrightarrow> 1 \<le> count_var env name dflt \<and> count_var env name dflt < 2 ^ 64"
  using parse_u64_bound by (auto simp: count_var_def max_def split: option.split)

text \<open>
  Whatever the environment says, a configuration that loads is usable: every count is at least one
  and fits its type, so that no channel has capacity zero, no batch is empty and no interval divides by
  zero, and the port is a port.  Loading fails only when a file that is named for a secret is unreadable.
\<close>

theorem configuration_usable:
  assumes "ce_cpus env < 2 ^ 64"
  shows "case from_env env of
      Inr c \<Rightarrow> config_ok c
    | Inl (SecretUnreadable name) \<Rightarrow>
        (case ce_var env (name @ ''_FILE'') of Some f \<Rightarrow> ce_file env f = None | None \<Rightarrow> False)"
proof (cases "from_env env")
  case (Inl e)
  then show ?thesis
    by (cases e) (auto simp: from_env_def read_secret_def split: option.splits)
next
  case (Inr c)
  have port: "parse_u16 s = Some n \<Longrightarrow> n < 2 ^ 16" for s n
    by (auto simp: parse_u16_def split: option.splits if_splits)
  from Inr assms show ?thesis
    using count_var_bounds [of 15 env "''PERIODIC_CHECK_DAYS''"] count_var_bounds [of 100 env "''BATCH_SIZE''"]
      count_var_bounds [of 5000 env "''QUEUE_SIZE''"] count_var_bounds [of 1000 env "''PROGRESS_LOG_INTERVAL''"]
      count_var_bounds [of 5000 env "''STATE_SAVE_INTERVAL''"] count_var_bounds [of "ce_cpus env" env "''MAX_WORKERS''"]
    by (auto simp: from_env_def and_then_Ok config_ok_def split: option.split dest: port)
qed

text \<open>Zero workers and a batch size that is no number.\<close>

definition odd_env :: config_env where
  "odd_env = \<lparr>ce_var = [''MAX_WORKERS'' \<mapsto> ''0'', ''BATCH_SIZE'' \<mapsto> ''many'', ''HEALTH_PORT'' \<mapsto> ''65536''],
     ce_file = Map.empty, ce_encode = (\<lambda>s. s), ce_cpus = 4\<rparr>"

theorem configuration_usable_witness:
  "case from_env odd_env of
     Inr c \<Rightarrow> config_ok c \<and> cfg_max_workers c = 1 \<and> cfg_batch_size c = 100 \<and> cfg_health_port c = 8000
   | Inl e \<Rightarrow> False"
proof -
  have "ce_cpus odd_env < 2 ^ 64" by (simp add: odd_env_def)
  note usable = configuration_usable [OF this]
  have "case from_env odd_env of
     Inr c \<Rightarrow> cfg_max_workers c = 1 \<and> cfg_batch_size c = 100 \<and> cfg_health_port c = 8000 | Inl e \<Rightarrow> False"
    by code_simp
  with usable show ?thesis by (auto split: sum.splits)
qed

section \<open>Settings of \<open>main\<close>\<close>

definition parse_failure_cooldown :: "string option \<Rightarrow> nat" where
  "parse_failure_cooldown v = (case Option.bind v parse_u64 of Some n \<Rightarrow> n | None \<Rightarrow> 600)"

text \<open>\<open>to_uppercase\<close> of the level is a parameter; the targets of the filter with their levels.\<close>

definition rust_level :: "(string \<Rightarrow> string) \<Rightarrow> string \<Rightarrow> string" where
  "rust_level upper log_level =
     (let l = upper log_level in
      if l = ''DEBUG'' then ''debug''
      else if l = ''INFO'' then ''info''
      else if l = ''WARNING'' \<or> l = ''WARN'' then ''warn''
      else if l = ''ERROR'' then ''error''
      else if l = ''CRITICAL'' then ''error''
      else ''info'')"

definition filter_directives :: "(string \<Rightarrow> string) \<Rightarrow> string \<Rightarrow> (string \<times> string) list" where
  "filter_directives upper log_level =
     [(''extractor'', rust_level upper log_level),
      (''lapin'', if rust_level upper log_level = ''debug'' then ''info'' else ''warn'')]"

definition build_tracing_filter :: "(string \<Rightarrow> string) \<Rightarrow> string \<Rightarrow> string" where
  "build_tracing_filter upper log_level =
     join '','' (map (\<lambda>(target, level). target @ ''='' @ level) (filter_directives upper log_level))"

text \<open>
  A directive concerns the targets that start with its own.  The events of \<open>main.rs\<close> have the name of
  the binary's crate, \<open>discogs_ingestion\<close>, as their target (\<open>Cargo.toml\<close>), not the library's.
\<close>

definition main_target :: string where
  "main_target = ''discogs_ingestion''"

theorem main_events_unfiltered:
  "list_all (\<lambda>(target, level). \<not> prefix target main_target) (filter_directives upper log_level)"
  by (simp add: filter_directives_def main_target_def)

theorem debug_is_not_trace: "rust_level upper log_level \<noteq> ''trace''"
  by (simp add: rust_level_def Let_def)

end
