(* ===== verification/Service_Main.thy ===== *)
theory Service_Main
  imports Service_Loop Config Telemetry
begin

text \<open>
  \<open>src/main.rs\<close>: the start of the process, the service around \<open>run_extraction_loop\<close> and the way it exits; the
  reading of the rules file (\<open>RulesConfig::load\<close>) and the factory of queues (\<open>src/runtime.rs\<close>).  The command
  line, the YAML parser and the file system are parameters; the health server and the signals act
  through \<open>Service_Loop\<close>.
\<close>

section \<open>The process\<close>

text \<open>
  The arguments; the environment; what path resolution, the extension, the file and the YAML parser give;
  the service's surroundings before they are configured; the URL parser; the pacing bucket as the k-th
  queue finds it, from the one of the start.
\<close>

record 'r main_env =
  mn_force_reprocess :: bool
  mn_data_quality_rules :: "string option"
  mn_local_manifest :: "string option"
  mn_config :: config_env
  mn_otel :: otel_env
  mn_canonical :: "string \<Rightarrow> string option"
  mn_extension :: "string \<Rightarrow> string"
  mn_read :: "string \<Rightarrow> string option"
  mn_yaml :: "string \<Rightarrow> rules_config option"
  mn_validator :: "'r validator_env"
  mn_path :: "string \<Rightarrow> path"
  mn_manifest :: "string \<Rightarrow> string + 'r pipeline_env"
  mn_service :: "'r service_env"
  mn_url :: "string \<Rightarrow> (string \<times> string \<times> string) option"
  mn_started :: rat
  mn_bucket :: "token_bucket \<Rightarrow> nat \<Rightarrow> token_bucket"

datatype main_error =
    ConfigurationError config_error
  | RulesPath string | RulesExtension string | RulesUnreadable string | RulesYaml string
  | RulesInvalid compile_error

definition rules_load :: "'r main_env \<Rightarrow> string \<Rightarrow> main_error + rules_config" where
  "rules_load e p =
     (case mn_canonical e p of
        None \<Rightarrow> Err (RulesPath p)
      | Some canonical \<Rightarrow>
          (let ext = mn_extension e canonical in
           if \<not> (ext = ''yaml'' \<or> ext = ''yml'') then Err (RulesExtension canonical)
           else
             (case mn_read e canonical of
                None \<Rightarrow> Err (RulesUnreadable canonical)
              | Some contents \<Rightarrow>
                  (case mn_yaml e contents of None \<Rightarrow> Err (RulesYaml canonical) | Some cfg \<Rightarrow> Ok cfg))))"

text \<open>\<open>pacer_from_env\<close>, and the factory's \<open>create\<close>: three attempts to connect.\<close>

definition pacer_from_env :: "'r main_env \<Rightarrow> token_bucket option" where
  "pacer_from_env e =
     map_option (\<lambda>rate. bucket_new rate (mn_started e)) (publish_rate_from (ce_var (mn_config e) ''PUBLISH_MAX_RECORDS_PER_SEC''))"

definition factory_create :: "'r main_env \<Rightarrow> broker \<Rightarrow> nat \<Rightarrow> string \<Rightarrow> string \<Rightarrow> message_queue option" where
  "factory_create e br k url exchange_prefix =
     (case mq_new br (mn_url e) url 3 exchange_prefix (map_option (\<lambda>b. mn_bucket e b k) (pacer_from_env e)) of
        Some (q, Inr _) \<Rightarrow> Some q
      | _ \<Rightarrow> None)"

text \<open>What the service hands to every run.\<close>

definition configure :: "'r main_env \<Rightarrow> extractor_config \<Rightarrow> 'r compiled_config option \<Rightarrow> 'r pipeline_env \<Rightarrow> 'r pipeline_env" where
  "configure e c rules p =
     p\<lparr>pe_rules := map_option (\<lambda>r. (mn_validator e)\<lparr>ve_rules := r\<rparr>) rules,
       pe_discogs_root := mn_path e (cfg_discogs_root c),
       pe_batch_size := cfg_batch_size c,
       pe_state_save_interval := cfg_state_save_interval c,
       pe_queue := (\<lambda>k. factory_create e (pe_broker p k) k (cfg_amqp_connection c) (cfg_discogs_exchange_prefix c))\<rparr>"

definition configured_service :: "'r main_env \<Rightarrow> extractor_config \<Rightarrow> 'r compiled_config option \<Rightarrow> 'r service_env" where
  "configured_service e c rules =
     (mn_service e)\<lparr>
       sv_local := map_option (\<lambda>m. map_sum id (configure e c rules) (mn_manifest e m)) (mn_local_manifest e),
       sv_first := map_option (configure e c rules) (sv_first (mn_service e)),
       sv_run := (\<lambda>k. map_option (configure e c rules) (sv_run (mn_service e) k))\<rparr>"

text \<open>The configuration, with the argument before the environment, and the compiled rules.\<close>

definition startup :: "'r main_env \<Rightarrow> main_error + (extractor_config \<times> 'r compiled_config option)" where
  "startup e =
     (case from_env (mn_config e) of
        Inl x \<Rightarrow> Err (ConfigurationError x)
      | Inr c0 \<Rightarrow>
          (let c = (if mn_data_quality_rules e \<noteq> None then c0\<lparr>cfg_data_quality_rules := mn_data_quality_rules e\<rparr> else c0) in
           case cfg_data_quality_rules c of
             None \<Rightarrow> Ok (c, None)
           | Some p \<Rightarrow>
               (case rules_load e p of
                  Inl x \<Rightarrow> Err x
                | Inr cfg \<Rightarrow>
                    (case compile (ve_host (mn_validator e)) cfg of
                       Inl x \<Rightarrow> Err (RulesInvalid x)
                     | Inr compiled \<Rightarrow> Ok (c, Some compiled)))))"

text \<open>The exit code and the seconds slept before it, or a service still running after \<open>n\<close> turns.\<close>

datatype process_end = StillRunning | Exited nat nat

definition main :: "'r main_env \<Rightarrow> nat \<Rightarrow> world \<Rightarrow> world \<times> telemetry \<times> process_end" where
  "main e n w =
     (let (t1, traces) = init_traces (mn_otel e) telemetry_default;
          (t2, metrics) = init_metrics (mn_otel e) t1 in
      case startup e of
        Inl (ConfigurationError x) \<Rightarrow> (w, t2, Exited 1 0)
      | Inl x \<Rightarrow> (w, set_source ''discogs'' t2, Exited 1 0)
      | Inr (c, rules) \<Rightarrow>
          (case run_extraction_loop (configured_service e c rules) (mn_force_reprocess e) n w of
             (w1, Inr True) \<Rightarrow> (w1, set_source ''discogs'' t2, StillRunning)
           | (w1, Inr False) \<Rightarrow> (w1, set_source ''discogs'' t2, Exited 0 0)
           | (w1, Inl x) \<Rightarrow>
               (w1, set_source ''discogs'' t2, Exited 1 (parse_failure_cooldown (ce_var (mn_config e) ''FAILURE_COOLDOWN_SECS'')))))"

section \<open>How it starts and ends\<close>

text \<open>A run of the service has usable settings, and the rules that were asked for.\<close>

definition run_configured :: "'r main_env \<Rightarrow> extractor_config \<Rightarrow> 'r pipeline_env \<Rightarrow> bool" where
  "run_configured e c p \<longleftrightarrow> 1 \<le> pe_batch_size p \<and> 1 \<le> pe_state_save_interval p
     \<and> (pe_rules p = None \<longleftrightarrow> cfg_data_quality_rules c = None)
     \<and> (mn_data_quality_rules e \<noteq> None \<longrightarrow> pe_rules p \<noteq> None)"

lemma count_var_positive: "1 \<le> count_var env name dflt"
  by (simp add: count_var_def split: option.split)

lemma startup_configured:
  assumes "startup e = Ok (c, rules)"
  shows "run_configured e c (configure e c rules p)"
proof -
  obtain c0 where f: "from_env (mn_config e) = Ok c0"
    using assms by (auto simp: startup_def split: sum.splits)
  then have "1 \<le> cfg_batch_size c0" "1 \<le> cfg_state_save_interval c0"
    by (auto simp: from_env_def and_then_Ok count_var_positive [simplified])
  then have "1 \<le> cfg_batch_size c" "1 \<le> cfg_state_save_interval c"
    using assms f by (auto simp: startup_def Let_def split: sum.splits option.splits if_splits)
  moreover have "(rules = None) = (cfg_data_quality_rules c = None)" "mn_data_quality_rules e \<noteq> None \<Longrightarrow> rules \<noteq> None"
    using assms f by (auto simp: startup_def Let_def split: sum.splits option.splits if_splits)
  ultimately show ?thesis by (auto simp: run_configured_def configure_def)
qed

text \<open>
  The environment of the run the process begins with: the local manifest's when one is given, the
  downloader's otherwise; none when the manifest is refused or the downloader cannot be created.
\<close>

definition opening_run :: "'r main_env \<Rightarrow> 'r pipeline_env option" where
  "opening_run e =
     (case mn_local_manifest e of
        None \<Rightarrow> sv_first (mn_service e)
      | Some m \<Rightarrow> (case mn_manifest e m of Inl x \<Rightarrow> None | Inr p \<Rightarrow> Some p))"

text \<open>The first run returned, and it succeeded unless a shutdown had been requested.\<close>

definition opened_well :: "'r main_env \<Rightarrow> extractor_config \<Rightarrow> 'r compiled_config option \<Rightarrow> world \<Rightarrow> bool" where
  "opened_well e c rules w =
     (case opening_run e of
        None \<Rightarrow> False
      | Some p \<Rightarrow>
          (case snd (process_discogs_data (configure e c rules p) (mn_force_reprocess e) w) of
             Inl x \<Rightarrow> False
           | Inr success \<Rightarrow> success \<or> sv_stopping_first (mn_service e)))"

lemma initial_run_opens:
  "case initial_run (configured_service e c rules) (mn_force_reprocess e) w of
     (w1, Inl x) \<Rightarrow> \<not> opened_well e c rules w
   | (w1, Inr entered) \<Rightarrow> opened_well e c rules w \<and> (entered \<longleftrightarrow> mn_local_manifest e = None)"
  by (auto simp: initial_run_def initial_run_outcome_def configured_service_def opened_well_def opening_run_def
      split: option.split sum.split prod.split)

text \<open>
  C17: how the process starts and ends.  With an invalid configuration, or a rules file that was asked
  for and is not valid, it exits with 1 and no run has begun.  Otherwise every run has the rules that were
  asked for and settings that are not zero, and the end is exactly this: code 1 after the cooldown when
  the first run (the local manifest's, or the service's) could not begin, returned an error, or failed
  without a shutdown having been requested; otherwise code 0 at once after a local manifest's run, and for the
  service code 0 as soon as a shutdown is seen and never before, whatever the later checks return.
\<close>

theorem main_exit:
  "case main e n w of (w', t, out) \<Rightarrow>
     (case startup e of
        Inl x \<Rightarrow> w' = w \<and> out = Exited 1 0
      | Inr (c, rules) \<Rightarrow>
          (\<forall>p. run_configured e c (configure e c rules p)) \<and> source t = ''discogs''
          \<and> out =
              (if \<not> opened_well e c rules w
               then Exited 1 (parse_failure_cooldown (ce_var (mn_config e) ''FAILURE_COOLDOWN_SECS''))
               else if mn_local_manifest e = None \<and> \<not> list_ex (shutdown_seen (mn_service e)) [0..<n]
               then StillRunning
               else Exited 0 0))"
proof (cases "startup e")
  case (Inl x)
  then show ?thesis by (cases x) (simp_all add: main_def case_prod_beta Let_def)
next
  case (Inr cr)
  obtain c rules where cr: "cr = (c, rules)" by force
  let ?sv = "configured_service e c rules"
  have labelled: "source (set_source ''discogs'' (fst (init_metrics (mn_otel e) (fst (init_traces (mn_otel e) telemetry_default))))) = ''discogs''"
    using start_binds_instruments [where ps = "[]" and env = "mn_otel e"] by (simp add: started_def)
  have "shutdown_seen ?sv = shutdown_seen (mn_service e)"
    by (simp add: shutdown_seen_def fun_eq_iff configured_service_def)
  then have seen: "snd (loop_turns ?sv n 0 w1) \<longleftrightarrow> \<not> list_ex (shutdown_seen (mn_service e)) [0..<n]" for w1
    using loop_turns_go_on [of ?sv n 0 w1] by simp
  obtain w1 r where "initial_run ?sv (mn_force_reprocess e) w = (w1, r)" by force
  then show ?thesis
    using startup_configured [of e c rules] Inr labelled seen [of w1] initial_run_opens [of e c rules w]
    by (cases "loop_turns ?sv n 0 w1")
      (auto simp: main_def cr run_extraction_loop_def Let_def case_prod_beta split: sum.splits bool.splits)
qed

end
